(* ===== verification/Axon_Base.thy ===== *)
theory Axon_Base
  imports Main "HOL-Library.Word"
begin

text \<open>
  Prelude of the AxonCache development: machine types, outcomes of a C++ call, the
  little-endian view of memory, and the generic lemmas the component theories share.

  A call of the code returns a value, throws a \<open>std::runtime_error\<close> or runs into
  undefined behaviour.  Its model returns \<open>fault + 'a\<close>: \<open>Inr\<close> the value,
  \<open>Inl (Throw msg)\<close> the exception with the text that \<open>what()\<close> gives, and
  \<open>Inl (Undefined u)\<close> where the C++ standard defines nothing.  Log calls
  (\<open>AL_LOG_*\<close>) write to a logger only and are not modelled.
\<close>

unbundle bit_operations_syntax

named_theorems outcome_simps \<open>unfolding of outcomes\<close>
named_theorems mem_simps \<open>reads and writes of byte blocks\<close>

section \<open>Machine types and strings\<close>

type_synonym byte = "8 word"
type_synonym bytes = "byte list"
type_synonym u8 = "8 word"
type_synonym u16 = "16 word"
type_synonym u32 = "32 word"
type_synonym u64 = "64 word"

text \<open>The bytes of a literal of the source.\<close>

definition lit :: "string \<Rightarrow> bytes" where
  "lit s = map of_char s"

lemma length_lit [simp]: "length (lit s) = length s"
  by (simp add: lit_def)

text \<open>\<open>std::to_string\<close> of an unsigned number.\<close>

definition digit_char :: "nat \<Rightarrow> char" where
  "digit_char d = char_of (48 + d)"

fun show_nat :: "nat \<Rightarrow> string" where
  "show_nat n = (if n < 10 then [digit_char n] else show_nat (n div 10) @ [digit_char (n mod 10)])"

declare show_nat.simps [simp del]

definition show_int :: "int \<Rightarrow> string" where
  "show_int i = (if i < 0 then CHR ''-'' # show_nat (nat (- i)) else show_nat (nat i))"

section \<open>Outcomes\<close>

datatype ub =
    Out_Of_Bounds \<comment> \<open>a read or write outside the block\<close>
  | Null_Pointer \<comment> \<open>a call through a null pointer\<close>
  | Bad_Cast \<comment> \<open>an object used as one of a class it does not belong to\<close>
  | Use_After_Free \<comment> \<open>a read through a pointer to a block that was freed\<close>
  | Bad_String_View \<comment> \<open>a \<open>string_view\<close> over a range that is not valid\<close>
  | Division_By_Zero
  | Shift_Out_Of_Range \<comment> \<open>a shift by the width of the type or more\<close>
  | Float_To_Integer \<comment> \<open>a floating value outside the range of the integer type\<close>
  | Trap_Value \<comment> \<open>bytes that represent no value of their type\<close>
  | Indeterminate_Value \<comment> \<open>a read of a member that was never initialised\<close>

datatype fault = Throw string | Undefined ub

type_synonym 'a outcome = "fault + 'a"

definition and_then :: "'a outcome \<Rightarrow> ('a \<Rightarrow> 'b outcome) \<Rightarrow> 'b outcome" where
  "and_then r f = (case r of Inl e \<Rightarrow> Inl e | Inr x \<Rightarrow> f x)"

lemma and_then_simps [simp, outcome_simps]:
  "and_then (Inl e) f = Inl e"
  "and_then (Inr x) f = f x"
  by (simp_all add: and_then_def)

lemma and_then_Inr_iff:
  "and_then r f = Inr y \<longleftrightarrow> (\<exists>x. r = Inr x \<and> f x = Inr y)"
  by (cases r) auto

lemma and_then_Inl_iff:
  "and_then r f = Inl e \<longleftrightarrow> r = Inl e \<or> (\<exists>x. r = Inr x \<and> f x = Inl e)"
  by (cases r) auto

lemma and_then_assoc: "and_then (and_then r f) g = and_then r (\<lambda>x. and_then (f x) g)"
  by (cases r) auto

lemma and_then_if:
  "and_then (if b then r else s) f = (if b then and_then r f else and_then s f)"
  by simp

lemma and_then_cong [fundef_cong]:
  "r = r' \<Longrightarrow> (\<And>x. r' = Inr x \<Longrightarrow> f x = g x) \<Longrightarrow> and_then r f = and_then r' g"
  by (cases r') auto

section \<open>Little-endian numbers\<close>

text \<open>The low \<open>n\<close> bytes of a number, least significant first, and back.\<close>

fun le_bytes :: "nat \<Rightarrow> nat \<Rightarrow> bytes" where
  "le_bytes 0 x = []"
| "le_bytes (Suc n) x = of_nat x # le_bytes n (x div 256)"

fun le_val :: "bytes \<Rightarrow> nat" where
  "le_val [] = 0"
| "le_val (b # bs) = unat b + 256 * le_val bs"

lemma length_le_bytes [simp]: "length (le_bytes n x) = n"
  by (induction n arbitrary: x) auto

lemma unat_byte_bound: "unat (b :: byte) < 256"
proof -
  have "unat b < 2 ^ LENGTH(8)" by (rule unsigned_less)
  then show ?thesis by simp
qed

lemma unat_byte_of_nat: "unat (of_nat x :: byte) = x mod 256"
  by (simp add: unat_of_nat)

lemma le_val_le_bytes [simp]: "le_val (le_bytes n x) = x mod 256 ^ n"
proof (induction n arbitrary: x)
  case 0
  then show ?case by simp
next
  case (Suc n)
  then show ?case
    by (simp add: unat_byte_of_nat mod_mult2_eq)
qed

lemma le_val_bound: "le_val bs < 256 ^ length bs"
proof (induction bs)
  case Nil
  then show ?case by simp
next
  case (Cons b bs)
  have "unat b < 256"
    by (rule unat_byte_bound)
  moreover have "le_val bs + 1 \<le> 256 ^ length bs"
    using Cons.IH by simp
  then have "256 * le_val bs + 256 \<le> 256 * 256 ^ length bs"
    by simp
  ultimately show ?case by simp
qed

lemma le_bytes_le_val: "length bs = n \<Longrightarrow> le_bytes n (le_val bs) = bs"
proof (induction bs arbitrary: n)
  case Nil
  then show ?case by simp
next
  case (Cons b bs)
  have b: "unat b < 256"
    by (rule unat_byte_bound)
  have "(of_nat (unat b + 256 * le_val bs) :: byte) = b"
  proof (rule word_unat_eq_iff [THEN iffD2])
    show "unat (of_nat (unat b + 256 * le_val bs) :: byte) = unat b"
      unfolding unat_byte_of_nat using b by simp
  qed
  moreover have "(unat b + 256 * le_val bs) div 256 = le_val bs"
    using b by simp
  ultimately show ?case
    using Cons by (cases n) auto
qed

lemma le_bytes_mod: "le_bytes n (x mod 256 ^ n) = le_bytes n x"
  by (metis le_bytes_le_val le_val_le_bytes length_le_bytes)

lemma le_bytes_zero [simp]: "le_bytes n 0 = replicate n 0"
  by (induction n) auto

lemma le_bytes_inject: "x < 256 ^ n \<Longrightarrow> y < 256 ^ n \<Longrightarrow> le_bytes n x = le_bytes n y \<Longrightarrow> x = y"
  by (metis le_val_le_bytes mod_less)

section \<open>Blocks of memory\<close>

text \<open>
  A block is the list of its bytes; an address is an offset into it.  A read or write that
  leaves the block is undefined.
\<close>

definition slice :: "bytes \<Rightarrow> nat \<Rightarrow> nat \<Rightarrow> bytes outcome" where
  "slice m off len =
     (if off + len \<le> length m then Inr (take len (drop off m)) else Inl (Undefined Out_Of_Bounds))"

definition splice :: "bytes \<Rightarrow> nat \<Rightarrow> bytes \<Rightarrow> bytes outcome" where
  "splice m off b =
     (if off + length b \<le> length m then Inr (take off m @ b @ drop (off + length b) m)
      else Inl (Undefined Out_Of_Bounds))"

text \<open>Loads of a 2, 4 or 8 byte little-endian integer.\<close>

definition load_le :: "bytes \<Rightarrow> nat \<Rightarrow> nat \<Rightarrow> nat outcome" where
  "load_le m off n = and_then (slice m off n) (\<lambda>b. Inr (le_val b))"

definition load_u16 :: "bytes \<Rightarrow> nat \<Rightarrow> u16 outcome" where
  "load_u16 m off = and_then (load_le m off 2) (\<lambda>x. Inr (of_nat x))"

definition load_u32 :: "bytes \<Rightarrow> nat \<Rightarrow> u32 outcome" where
  "load_u32 m off = and_then (load_le m off 4) (\<lambda>x. Inr (of_nat x))"

definition load_u64 :: "bytes \<Rightarrow> nat \<Rightarrow> u64 outcome" where
  "load_u64 m off = and_then (load_le m off 8) (\<lambda>x. Inr (of_nat x))"

definition le16 :: "u16 \<Rightarrow> bytes" where "le16 w = le_bytes 2 (unat w)"
definition le32 :: "u32 \<Rightarrow> bytes" where "le32 w = le_bytes 4 (unat w)"
definition le64 :: "u64 \<Rightarrow> bytes" where "le64 w = le_bytes 8 (unat w)"

lemma length_le [simp]:
  "length (le16 a) = 2" "length (le32 b) = 4" "length (le64 c) = 8"
  by (simp_all add: le16_def le32_def le64_def)

lemma slice_Inr_iff:
  "slice m off len = Inr b \<longleftrightarrow> off + len \<le> length m \<and> b = take len (drop off m)"
  by (auto simp: slice_def)

lemma slice_length: "slice m off len = Inr b \<Longrightarrow> length b = len"
  by (auto simp: slice_Inr_iff)

lemma splice_Inr_iff:
  "splice m off b = Inr m' \<longleftrightarrow>
     off + length b \<le> length m \<and> m' = take off m @ b @ drop (off + length b) m"
  by (auto simp: splice_def)

lemma splice_length [mem_simps]: "splice m off b = Inr m' \<Longrightarrow> length m' = length m"
  by (auto simp: splice_Inr_iff)

text \<open>A slice that lies inside a prefix does not depend on what follows it.\<close>

lemma slice_prefix:
  assumes "take n m = take n m'" and "off + len \<le> n" and "n \<le> length m" and "n \<le> length m'"
  shows "slice m off len = slice m' off len"
proof -
  have *: "take len (drop off x) = take len (drop off (take n x))" for x :: bytes
    using assms(2) by (simp add: drop_take min_def)
  have "take len (drop off m) = take len (drop off m')"
    by (subst (1 2) *) (simp add: assms(1))
  with assms(2-4) show ?thesis by (simp add: slice_def)
qed

text \<open>A slice that a write does not touch is unchanged, and the written bytes are read back.\<close>

lemma slice_splice_other:
  assumes "splice m off b = Inr m'" and "o2 + len \<le> off \<or> off + length b \<le> o2"
  shows "slice m' o2 len = slice m o2 len"
proof -
  from assms(1) have bnd: "off + length b \<le> length m"
    and m': "m' = take off m @ b @ drop (off + length b) m"
    by (auto simp: splice_Inr_iff)
  have len: "length m' = length m"
    using bnd m' by simp
  have "take len (drop o2 m') = take len (drop o2 m)" if "o2 + len \<le> length m"
  proof (rule nth_equalityI)
    show "length (take len (drop o2 m')) = length (take len (drop o2 m))"
      by (simp add: len)
    fix i assume "i < length (take len (drop o2 m'))"
    then have i: "i < len" using that len by simp
    show "take len (drop o2 m') ! i = take len (drop o2 m) ! i"
      using assms(2) i that bnd by (auto simp: m' nth_append)
  qed
  then show ?thesis by (simp add: slice_def len)
qed

lemma slice_splice_same:
  assumes "splice m off b = Inr m'"
  shows "slice m' off (length b) = Inr b"
  using assms by (auto simp: splice_Inr_iff slice_Inr_iff)

lemma splice_take: "splice m off b = Inr m' \<Longrightarrow> take off m' = take off m"
  by (auto simp: splice_Inr_iff)

lemma slice_sub:
  assumes "slice m off len = Inr b" and "i + l \<le> len"
  shows "slice m (off + i) l = slice b i l"
proof -
  from assms(1) have bnd: "off + len \<le> length m" and b: "b = take len (drop off m)"
    by (auto simp: slice_Inr_iff)
  have "take l (drop (off + i) m) = take l (drop i b)"
    using assms(2) by (simp add: b drop_take min_def add.commute)
  with assms(2) bnd b show ?thesis by (auto simp: slice_def)
qed

lemma slice_append1: "i + l \<le> length xs \<Longrightarrow> slice (xs @ ys) i l = slice xs i l"
  by (auto simp: slice_def)

lemma slice_append2: "length xs \<le> i \<Longrightarrow> slice (xs @ ys) i l = slice ys (i - length xs) l"
  by (auto simp: slice_def)

lemma slice_whole [simp]: "slice xs 0 (length xs) = Inr xs"
  by (simp add: slice_def)

lemma splice_append:
  assumes "off + length (a @ b) \<le> length m"
  shows "and_then (splice m off a) (\<lambda>m1. splice m1 (off + length a) b) = splice m off (a @ b)"
  using assms by (auto simp: splice_def ac_simps)

lemma load_le_cong: "slice m off n = slice m' off' n \<Longrightarrow> load_le m off n = load_le m' off' n"
  by (simp add: load_le_def)

lemma load_le_bytes: "slice m off n = Inr (le_bytes n x) \<Longrightarrow> load_le m off n = Inr (x mod 256 ^ n)"
  by (simp add: load_le_def)

lemma unat_u16_bound [simp]: "unat (a :: u16) < 65536"
proof -
  have "unat a < 2 ^ LENGTH(16)" by (rule unsigned_less)
  then show ?thesis by simp
qed

lemma unat_u32_bound [simp]: "unat (a :: u32) < 4294967296"
proof -
  have "unat a < 2 ^ LENGTH(32)" by (rule unsigned_less)
  then show ?thesis by simp
qed

lemma unat_u64_bound [simp]: "unat (a :: u64) < 18446744073709551616"
proof -
  have "unat a < 2 ^ LENGTH(64)" by (rule unsigned_less)
  then show ?thesis by simp
qed

lemma unat_drop: "unat (drop_bit n (w :: 'a::len word)) = unat w div 2 ^ n"
  by (simp only: unsigned_drop_bit_eq) (simp add: drop_bit_eq_div take_bit_nat_eq_self)

lemma load_u16_le: "slice m off 2 = Inr (le16 w) \<Longrightarrow> load_u16 m off = Inr w"
  by (simp add: load_u16_def load_le_def le16_def)

lemma load_u32_le: "slice m off 4 = Inr (le32 w) \<Longrightarrow> load_u32 m off = Inr w"
  by (simp add: load_u32_def load_le_def le32_def)

lemma load_u64_le: "slice m off 8 = Inr (le64 w) \<Longrightarrow> load_u64 m off = Inr w"
  by (simp add: load_u64_def load_le_def le64_def)

end
