(* ===== verification/Axon_Constants.thy ===== *)
theory Axon_Constants
  imports Axon_Base
begin

text \<open>
  The constants of \<open>include/axoncache/Constants.h\<close> and the two enumerations of the
  code: \<open>CacheType\<close> (\<open>cache/CacheType.h\<close>) and \<open>CacheValueType\<close>
  (\<open>domain/CacheValue.h\<close>), with their numbering and their \<open>to_string\<close>.
\<close>

section \<open>Constants\<close>

definition kCacheHeaderMagicNumber :: u16 where "kCacheHeaderMagicNumber = 37460"
definition kMinLinearProbeOffsetBits :: u16 where "kMinLinearProbeOffsetBits = 16"
definition kMaxLinearProbeOffsetBits :: u16 where "kMaxLinearProbeOffsetBits = 38"
definition kMaxCacheNameSize :: nat where "kMaxCacheNameSize = 32"
definition kMemoryCapcityBytes :: u64 where "kMemoryCapcityBytes = 1024"

definition kCacheFileNameSuffix :: bytes where
  "kCacheFileNameSuffix = lit ''.cache''"
definition kLatestTimestampFileNameSuffix :: bytes where
  "kLatestTimestampFileNameSuffix = lit ''.timestamp.latest''"

text \<open>\<open>ProbeStatus\<close>: negative \<open>int64_t\<close> values next to the slot offsets.\<close>

definition AXONCACHE_KEY_NOT_FOUND :: u64 where "AXONCACHE_KEY_NOT_FOUND = -1"
definition AXONCACHE_KEY_EXISTS :: u64 where "AXONCACHE_KEY_EXISTS = -2"

text \<open>\<open>HashFuncId\<close>.\<close>

definition HashFuncId_UNKNOWN :: u16 where "HashFuncId_UNKNOWN = 0"
definition HashFuncId_XXHASH64 :: u16 where "HashFuncId_XXHASH64 = 1"
definition HashFuncId_XXH3 :: u16 where "HashFuncId_XXH3 = 2"

text \<open>\<open>Limit\<close>.\<close>

definition kKeyLength :: nat where "kKeyLength = 2 ^ 16 - 1"
definition kVectorLength :: nat where "kVectorLength = 2 ^ 16 - 1"
definition kVectorElementLength :: nat where "kVectorElementLength = 2 ^ 16 - 1"
definition kValueLength :: nat where "kValueLength = 2 ^ 24 - 1"

lemmas constant_defs =
  kCacheHeaderMagicNumber_def kMinLinearProbeOffsetBits_def kMaxLinearProbeOffsetBits_def
  kMaxCacheNameSize_def kMemoryCapcityBytes_def AXONCACHE_KEY_NOT_FOUND_def
  AXONCACHE_KEY_EXISTS_def kKeyLength_def kVectorLength_def kVectorElementLength_def
  kValueLength_def

section \<open>Kinds of cache\<close>

datatype CacheType =
  NONE | MAP | BUCKET_CHAIN | LINEAR_PROBE | LINEAR_PROBE_DEDUP | LINEAR_PROBE_DEDUP_TYPED

fun CacheType_code :: "CacheType \<Rightarrow> nat" where
  "CacheType_code NONE = 0"
| "CacheType_code MAP = 1"
| "CacheType_code BUCKET_CHAIN = 2"
| "CacheType_code LINEAR_PROBE = 3"
| "CacheType_code LINEAR_PROBE_DEDUP = 4"
| "CacheType_code LINEAR_PROBE_DEDUP_TYPED = 5"

text \<open>
  \<open>static_cast<CacheType>(n)\<close>.  A number that names no enumerator is kept as \<open>None\<close>:
  every \<open>switch\<close> of the code falls through it to its default.
\<close>

definition CacheType_of :: "int \<Rightarrow> CacheType option" where
  "CacheType_of n =
     (if n = 0 then Some NONE else if n = 1 then Some MAP else if n = 2 then Some BUCKET_CHAIN
      else if n = 3 then Some LINEAR_PROBE else if n = 4 then Some LINEAR_PROBE_DEDUP
      else if n = 5 then Some LINEAR_PROBE_DEDUP_TYPED else None)"

lemma CacheType_of_code [simp]: "CacheType_of (int (CacheType_code t)) = Some t"
  by (cases t) (simp_all add: CacheType_of_def)

fun CacheType_to_string :: "CacheType \<Rightarrow> string" where
  "CacheType_to_string NONE = ''NONE''"
| "CacheType_to_string MAP = ''MAP''"
| "CacheType_to_string BUCKET_CHAIN = ''BUCKET_CHAIN''"
| "CacheType_to_string LINEAR_PROBE = ''LINEAR_PROBE''"
| "CacheType_to_string LINEAR_PROBE_DEDUP = ''LINEAR_PROBE_DEDUP''"
| "CacheType_to_string LINEAR_PROBE_DEDUP_TYPED = ''LINEAR_PROBE_DEDUP_TYPED''"

section \<open>Kinds of value\<close>

datatype CacheValueType =
  TString | TStringList | TBool | TInt64 | TDouble | TInt | TFloat | TFloatList

fun CacheValueType_code :: "CacheValueType \<Rightarrow> nat" where
  "CacheValueType_code TString = 0"
| "CacheValueType_code TStringList = 1"
| "CacheValueType_code TBool = 2"
| "CacheValueType_code TInt64 = 3"
| "CacheValueType_code TDouble = 4"
| "CacheValueType_code TInt = 5"
| "CacheValueType_code TFloat = 6"
| "CacheValueType_code TFloatList = 7"

text \<open>
  \<open>static_cast<CacheValueType>\<close> of the 3-bit type field: its eight values are exactly
  the enumerators.
\<close>

definition CacheValueType_of :: "nat \<Rightarrow> CacheValueType" where
  "CacheValueType_of n =
     [TString, TStringList, TBool, TInt64, TDouble, TInt, TFloat, TFloatList] ! (n mod 8)"

lemma CacheValueType_of_code [simp]: "CacheValueType_of (CacheValueType_code t) = t"
  by (cases t) (simp_all add: CacheValueType_of_def)

lemma CacheValueType_code_less [simp]: "CacheValueType_code t < 8"
  by (cases t) simp_all

lemma CacheValueType_code_inject [simp]:
  "CacheValueType_code t = CacheValueType_code u \<longleftrightarrow> t = u"
  by (metis CacheValueType_of_code)

fun CacheValueType_to_string :: "CacheValueType \<Rightarrow> string" where
  "CacheValueType_to_string TString = ''String''"
| "CacheValueType_to_string TStringList = ''StringList''"
| "CacheValueType_to_string TBool = ''Bool''"
| "CacheValueType_to_string TInt = ''Int''"
| "CacheValueType_to_string TFloat = ''Float''"
| "CacheValueType_to_string TDouble = ''Double''"
| "CacheValueType_to_string TInt64 = ''Int64''"
| "CacheValueType_to_string TFloatList = ''FloatList''"

lemma CacheValueType_to_string_inject:
  "CacheValueType_to_string t = CacheValueType_to_string u \<longleftrightarrow> t = u"
  by (cases t; cases u) simp_all


text \<open>What a cache stores, seen from outside: a map from keys to typed bytes.\<close>

type_synonym entry_map = "bytes \<Rightarrow> (CacheValueType \<times> bytes) option"

end
