(* ===== verification/Memory_Handler.thy ===== *)
theory Memory_Handler
  imports Axon_Constants
begin

text \<open>
  The memory handlers of \<open>src/axoncache/memory\<close>: the base class \<open>MemoryHandler\<close>
  (\<open>data\<close>, \<open>dataSize\<close>, \<open>grow\<close>) and its two subclasses, the growing
  \<open>MallocMemoryHandler\<close> a cache is built in and the read-only
  \<open>MmapMemoryHandler\<close> a cache file is read through.

  \<open>mData\<close> is the block the data pointer points to, up to its allocated size; bytes past
  \<open>mDataSize\<close> are allocated but unused.  \<open>mBlock\<close> names the block, so that a pointer
  kept across a reallocation can be told from the current one; \<open>mFresh\<close> gives the
  indeterminate bytes that \<open>realloc\<close> leaves past the old ones.  Allocation is taken to
  succeed (the code does not test for failure either).
\<close>

section \<open>State and operations\<close>

datatype handler_kind = Malloc_Handler | Mmap_Handler

record memory_handler =
  mKind :: handler_kind
  mData :: bytes
  mDataSize :: u64
  mRealDataSize :: u64
  mBlock :: nat
  mFresh :: "nat \<Rightarrow> nat \<Rightarrow> byte"

definition zero_block :: "u64 \<Rightarrow> bytes" where
  "zero_block n = replicate (unat n) 0"

definition MallocMemoryHandler :: "(nat \<Rightarrow> nat \<Rightarrow> byte) \<Rightarrow> u64 \<Rightarrow> memory_handler" where
  "MallocMemoryHandler fresh initialCapacity =
     \<lparr>mKind = Malloc_Handler, mData = zero_block initialCapacity, mDataSize = 0,
      mRealDataSize = initialCapacity, mBlock = 0, mFresh = fresh\<rparr>"

definition malloc_allocate :: "memory_handler \<Rightarrow> u64 \<Rightarrow> memory_handler" where
  "malloc_allocate h newSize =
     (if newSize \<ge> mDataSize h
      then h\<lparr>mData := zero_block newSize, mDataSize := newSize, mRealDataSize := newSize,
             mBlock := Suc (mBlock h)\<rparr>
      else h)"

definition mmap_allocate :: "memory_handler \<Rightarrow> u64 \<Rightarrow> memory_handler outcome" where
  "mmap_allocate h newSize =
     (if newSize > mDataSize h
      then Inl (Throw ''MmapMemoryHandler does not support resizing'')
      else Inr h)"

text \<open>The virtual \<open>allocate\<close>.\<close>

definition mem_allocate :: "memory_handler \<Rightarrow> u64 \<Rightarrow> memory_handler outcome" where
  "mem_allocate h newSize =
     (case mKind h of
        Malloc_Handler \<Rightarrow> Inr (malloc_allocate h newSize)
      | Mmap_Handler \<Rightarrow> mmap_allocate h newSize)"

text \<open>\<open>std::realloc\<close>: the old bytes up to the smaller size, then indeterminate ones.\<close>

definition realloc_block :: "memory_handler \<Rightarrow> u64 \<Rightarrow> bytes" where
  "realloc_block h n =
     take (unat n) (mData h) @ map (mFresh h (Suc (mBlock h))) [length (mData h)..<unat n]"

definition malloc_resizeToFit :: "memory_handler \<Rightarrow> u64 \<Rightarrow> memory_handler" where
  "malloc_resizeToFit h newSize =
     (if newSize \<ge> mRealDataSize h
      then let newSizeBytes = newSize + mRealDataSize h div 2
           in h\<lparr>mData := realloc_block h newSizeBytes, mRealDataSize := newSizeBytes,
                mBlock := Suc (mBlock h)\<rparr>
      else h)"

definition mmap_resizeToFit :: "memory_handler \<Rightarrow> u64 \<Rightarrow> memory_handler outcome" where
  "mmap_resizeToFit h newSize = Inl (Throw ''MmapMemoryHandler::resizeToFit() not implemented'')"

definition resizeToFit :: "memory_handler \<Rightarrow> u64 \<Rightarrow> memory_handler outcome" where
  "resizeToFit h newSize =
     (case mKind h of
        Malloc_Handler \<Rightarrow> Inr (malloc_resizeToFit h newSize)
      | Mmap_Handler \<Rightarrow> mmap_resizeToFit h newSize)"

text \<open>\<open>grow\<close> returns the address of the new bytes, here their offset in the block.\<close>

definition grow :: "memory_handler \<Rightarrow> u64 \<Rightarrow> (u64 \<times> memory_handler) outcome" where
  "grow h growByBytes =
     and_then (resizeToFit h (mDataSize h + growByBytes)) (\<lambda>h'.
       let oldOffset = mDataSize h'
       in Inr (oldOffset, h'\<lparr>mDataSize := mDataSize h' + growByBytes\<rparr>))"

text \<open>A store (\<open>memcpy\<close> or a scalar assignment) through the data pointer.\<close>

definition mem_store :: "memory_handler \<Rightarrow> nat \<Rightarrow> bytes \<Rightarrow> memory_handler outcome" where
  "mem_store h off b = and_then (splice (mData h) off b) (\<lambda>d. Inr (h\<lparr>mData := d\<rparr>))"

text \<open>The bytes in use.\<close>

definition used :: "memory_handler \<Rightarrow> bytes" where
  "used h = take (unat (mDataSize h)) (mData h)"

section \<open>The invariant of a handler\<close>

text \<open>
  The data in use lies inside the block; a malloc block is exactly as long as
  \<open>mRealDataSize\<close> says, and never much more than twice the data.
\<close>

definition mem_ok :: "memory_handler \<Rightarrow> bool" where
  "mem_ok h \<longleftrightarrow>
     unat (mDataSize h) \<le> length (mData h) \<and>
     (mKind h = Malloc_Handler \<longrightarrow>
        length (mData h) = unat (mRealDataSize h) \<and>
        unat (mRealDataSize h) \<le> 1024 + 2 * unat (mDataSize h))"

text \<open>The sizes below which no size computation of the code wraps around.\<close>

definition mem_limit :: nat where "mem_limit = 2 ^ 60"

lemma zero_block_length [simp]: "length (zero_block n) = unat n"
  by (simp add: zero_block_def)

lemma MallocMemoryHandler_ok: "unat n \<le> 1024 \<Longrightarrow> mem_ok (MallocMemoryHandler fresh n)"
  by (simp add: mem_ok_def MallocMemoryHandler_def)

lemma malloc_allocate_fresh:
  assumes "mDataSize h = 0" and "mKind h = Malloc_Handler"
  shows "mem_allocate h n = Inr (h\<lparr>mData := zero_block n, mDataSize := n,
            mRealDataSize := n, mBlock := Suc (mBlock h)\<rparr>)"
  using assms by (simp add: mem_allocate_def malloc_allocate_def)

lemma malloc_allocate_ok: "mem_ok h \<Longrightarrow> mem_ok (malloc_allocate h n)"
  by (auto simp: mem_ok_def malloc_allocate_def)

lemma unat_add_lt:
  fixes a b :: u64
  shows "unat a + unat b < 2 ^ 64 \<Longrightarrow> unat (a + b) = unat a + unat b"
  by (simp add: unat_word_ariths)

lemma unat_div2: "unat ((a :: u64) div 2) = unat a div 2"
  by (simp add: unat_div)

lemma realloc_block_length: "length (mData h) \<le> unat n \<Longrightarrow> length (realloc_block h n) = unat n"
  by (simp add: realloc_block_def)

lemma realloc_block_take:
  "k \<le> length (mData h) \<Longrightarrow> k \<le> unat n \<Longrightarrow> take k (realloc_block h n) = take k (mData h)"
  by (simp add: realloc_block_def min_def)

lemma malloc_resize:
  assumes ok: "mem_ok h" and k: "mKind h = Malloc_Handler"
    and n: "unat n \<le> mem_limit" and le: "mDataSize h \<le> n"
  defines "h' \<equiv> malloc_resizeToFit h n"
  shows "length (mData h') = unat (mRealDataSize h')"
    and "unat n \<le> unat (mRealDataSize h')"
    and "unat (mRealDataSize h') \<le> 1024 + 2 * unat n"
    and "take (unat (mDataSize h)) (mData h') = used h"
    and "mDataSize h' = mDataSize h" and "mKind h' = Malloc_Handler" and "mFresh h' = mFresh h"
proof -
  have ds: "unat (mDataSize h) \<le> length (mData h)"
    and len: "length (mData h) = unat (mRealDataSize h)"
    and real: "unat (mRealDataSize h) \<le> 1024 + 2 * unat (mDataSize h)"
    using ok k by (auto simp: mem_ok_def)
  have le': "unat (mDataSize h) \<le> unat n"
    using le by (simp add: word_le_nat_alt)
  have r: "unat (n + mRealDataSize h div 2) = unat n + unat (mRealDataSize h) div 2"
    using n real le' by (subst unat_add_lt) (auto simp: unat_div2 mem_limit_def)
  consider "n \<ge> mRealDataSize h" | "n < mRealDataSize h" by fastforce
  then have "length (mData h') = unat (mRealDataSize h') \<and> unat n \<le> unat (mRealDataSize h') \<and>
    unat (mRealDataSize h') \<le> 1024 + 2 * unat n \<and> take (unat (mDataSize h)) (mData h') = used h \<and>
    mDataSize h' = mDataSize h \<and> mKind h' = Malloc_Handler \<and> mFresh h' = mFresh h"
  proof cases
    case 1
    then have real_le: "unat (mRealDataSize h) \<le> unat n"
      by (simp add: word_le_nat_alt)
    have cap: "length (mData h) \<le> unat (n + mRealDataSize h div 2)"
      using real_le by (simp add: r len)
    have "length (realloc_block h (n + mRealDataSize h div 2)) = unat n + unat (mRealDataSize h) div 2"
      using realloc_block_length [OF cap] by (simp add: r)
    moreover have "take (unat (mDataSize h)) (realloc_block h (n + mRealDataSize h div 2)) = used h"
      unfolding used_def using ds cap by (intro realloc_block_take) auto
    ultimately show ?thesis
      using 1 real_le k by (simp add: h'_def malloc_resizeToFit_def Let_def r)
  next
    case 2
    then have "unat n < unat (mRealDataSize h)"
      by (simp add: word_less_nat_alt)
    moreover have "h' = h"
      using 2 by (simp add: h'_def malloc_resizeToFit_def leD)
    ultimately show ?thesis
      using k len real le' by (simp add: used_def)
  qed
  then show "length (mData h') = unat (mRealDataSize h')"
    and "unat n \<le> unat (mRealDataSize h')"
    and "unat (mRealDataSize h') \<le> 1024 + 2 * unat n"
    and "take (unat (mDataSize h)) (mData h') = used h"
    and "mDataSize h' = mDataSize h" and "mKind h' = Malloc_Handler" and "mFresh h' = mFresh h"
    by blast+
qed

text \<open>
  \<open>grow\<close> on a malloc handler: the new bytes start where the data ended, the old bytes
  are kept, and the block holds them all.
\<close>

lemma grow_malloc:
  assumes ok: "mem_ok h" and k: "mKind h = Malloc_Handler"
    and n: "unat (mDataSize h) + unat n \<le> mem_limit"
  obtains h' where "grow h n = Inr (mDataSize h, h')" and "mem_ok h'"
    and "mDataSize h' = mDataSize h + n"
    and "unat (mDataSize h') = unat (mDataSize h) + unat n"
    and "take (unat (mDataSize h)) (mData h') = used h"
    and "mKind h' = Malloc_Handler" and "mFresh h' = mFresh h"
proof -
  have add: "unat (mDataSize h + n) = unat (mDataSize h) + unat n"
    using n by (intro unat_add_lt) (simp add: mem_limit_def)
  let ?r = "malloc_resizeToFit h (mDataSize h + n)"
  have le: "mDataSize h \<le> mDataSize h + n"
    by (simp add: word_le_nat_alt add)
  note rs = malloc_resize [OF ok k _ le, unfolded add, OF n]
  let ?h' = "?r\<lparr>mDataSize := mDataSize ?r + n\<rparr>"
  have "grow h n = Inr (mDataSize h, ?h')"
    using rs k by (simp add: grow_def resizeToFit_def Let_def)
  moreover have "mem_ok ?h'"
    using rs add by (simp add: mem_ok_def)
  moreover have "mDataSize ?h' = mDataSize h + n" "unat (mDataSize ?h') = unat (mDataSize h) + unat n"
    using rs add by simp_all
  moreover have "take (unat (mDataSize h)) (mData ?h') = used h"
    using rs by simp
  moreover have "mKind ?h' = Malloc_Handler" "mFresh ?h' = mFresh h"
    using rs by simp_all
  ultimately show ?thesis using that by blast
qed

lemma grow_mmap: "mKind h = Mmap_Handler \<Longrightarrow>
    grow h n = Inl (Throw ''MmapMemoryHandler::resizeToFit() not implemented'')"
  by (simp add: grow_def resizeToFit_def mmap_resizeToFit_def)

section \<open>Stores\<close>

lemma mem_store_Inr_iff:
  "mem_store h off b = Inr h' \<longleftrightarrow> (\<exists>d. splice (mData h) off b = Inr d \<and> h' = h\<lparr>mData := d\<rparr>)"
  by (auto simp: mem_store_def and_then_Inr_iff)

lemma mem_store_frame:
  assumes "mem_store h off b = Inr h'"
  shows "mKind h' = mKind h" "mDataSize h' = mDataSize h" "mRealDataSize h' = mRealDataSize h"
    "mBlock h' = mBlock h" "mFresh h' = mFresh h" "length (mData h') = length (mData h)"
    "splice (mData h) off b = Inr (mData h')"
  using assms by (auto simp: mem_store_Inr_iff mem_simps)

lemma mem_store_ok: "mem_store h off b = Inr h' \<Longrightarrow> mem_ok h \<Longrightarrow> mem_ok h'"
  using mem_store_frame [of h off b h'] by (simp add: mem_ok_def)

lemma mem_store_exists:
  "off + length b \<le> length (mData h) \<Longrightarrow> \<exists>h'. mem_store h off b = Inr h'"
  by (auto simp: mem_store_def splice_def)

lemma mem_store_append:
  assumes "off + length (a @ b) \<le> length (mData h)"
  shows "and_then (mem_store h off a) (\<lambda>h1. mem_store h1 (off + length a) b) = mem_store h off (a @ b)"
  using assms by (auto simp: mem_store_def splice_def ac_simps)

lemma mem_store_then:
  assumes "off + length (a @ b) \<le> length (mData h)"
  shows "and_then (mem_store h off a) (\<lambda>h1. and_then (mem_store h1 (off + length a) b) g) =
    and_then (mem_store h off (a @ b)) g"
  unfolding mem_store_append [OF assms, symmetric] by (simp add: and_then_assoc)

text \<open>Growing by some bytes and storing them there appends them to the bytes in use.\<close>

lemma append_bytes:
  assumes ok: "mem_ok h" and k: "mKind h = Malloc_Handler" and n: "unat n = length b"
    and lim: "unat (mDataSize h) + length b \<le> mem_limit"
  obtains h1 h2 where "grow h n = Inr (mDataSize h, h1)"
    and "unat (mDataSize h) + length b \<le> length (mData h1)"
    and "mem_store h1 (unat (mDataSize h)) b = Inr h2" and "mem_ok h2" and "mKind h2 = Malloc_Handler"
    and "unat (mDataSize h2) = unat (mDataSize h) + length b" and "used h2 = used h @ b"
proof -
  have lim': "unat (mDataSize h) + unat n \<le> mem_limit" using lim n by simp
  obtain h1 where g: "grow h n = Inr (mDataSize h, h1)" and ok1: "mem_ok h1"
    and ds1: "unat (mDataSize h1) = unat (mDataSize h) + length b"
    and pre: "take (unat (mDataSize h)) (mData h1) = used h" and k1: "mKind h1 = Malloc_Handler"
    using grow_malloc [OF ok k lim'] unfolding n by metis
  have room: "unat (mDataSize h) + length b \<le> length (mData h1)"
    using ok1 ds1 by (simp add: mem_ok_def)
  then obtain h2 where st: "mem_store h1 (unat (mDataSize h)) b = Inr h2"
    using mem_store_exists by blast
  note fr = mem_store_frame [OF st]
  have "length (used h) = unat (mDataSize h)"
    using ok by (simp add: used_def mem_ok_def)
  then have "take (unat (mDataSize h) + length b) (mData h2) = used h @ b"
    using fr(7) pre room by (auto simp: splice_Inr_iff)
  then have "used h2 = used h @ b" by (simp add: used_def fr ds1)
  with g room st mem_store_ok [OF st ok1] fr k1 ds1 show ?thesis by (intro that [of h1 h2]) simp_all
qed

section \<open>Mapping a cache file\<close>

text \<open>
  \<open>loadMmap\<close> over the content of the file, \<open>None\<close> where it cannot be opened; \<open>os_ok\<close> is
  the success of \<open>fstat\<close> and \<open>mmap\<close>.  Every failure is logged and gives
  \<open>{ nullptr, 0 }\<close>, here \<open>None\<close>.
\<close>

definition loadMmap :: "bool \<Rightarrow> u16 \<Rightarrow> bytes option \<Rightarrow> bytes option" where
  "loadMmap os_ok headerSize file =
     (case file of
        None \<Rightarrow> None
      | Some content \<Rightarrow>
          (if length content \<le> unat headerSize then None
           else if os_ok then Some content else None))"

text \<open>
  The constructor does not look at that: without a mapping, the data starts at
  \<open>nullptr + headerSize\<close>, where nothing can be read, and its size wraps around.
\<close>

definition MmapMemoryHandler :: "bool \<Rightarrow> u16 \<Rightarrow> bytes option \<Rightarrow> memory_handler" where
  "MmapMemoryHandler os_ok headerSize file =
     (let (block, baseSize) = (case loadMmap os_ok headerSize file of
                                 Some content \<Rightarrow> (drop (unat headerSize) content, of_nat (length content))
                               | None \<Rightarrow> ([], 0))
      in \<lparr>mKind = Mmap_Handler, mData = block, mDataSize = baseSize - ucast headerSize,
          mRealDataSize = 0, mBlock = 0, mFresh = (\<lambda>b i. 0)\<rparr>)"

lemma MmapMemoryHandler_mapped:
  assumes "unat n < length content" and "length content < 2 ^ 64" and "unat n = length hdr"
    and "content = hdr @ d"
  shows "MmapMemoryHandler True n (Some content) =
    \<lparr>mKind = Mmap_Handler, mData = d, mDataSize = of_nat (length d), mRealDataSize = 0, mBlock = 0,
     mFresh = (\<lambda>b i. 0)\<rparr>"
proof -
  have "(ucast n :: u64) = of_nat (length hdr)"
    by (simp flip: assms(3) add: of_nat_unat)
  then have "(of_nat (length content) :: u64) - ucast n = of_nat (length d)"
    using assms(4) by simp
  then show ?thesis
    using assms by (simp add: MmapMemoryHandler_def loadMmap_def)
qed

section \<open>Properties\<close>

text \<open>Growing a heap handler returns the old size as the address of the new bytes, keeps the
  invariant of the handler and all bytes in use, and adds exactly the requested size; a mapped
  handler refuses to grow.\<close>

theorem grow_keeps_data:
  assumes "mem_ok h" and "unat (mDataSize h) + unat n \<le> mem_limit"
  shows "case mKind h of
      Malloc_Handler \<Rightarrow> \<exists>h'. grow h n = Inr (mDataSize h, h') \<and> mem_ok h' \<and>
        unat (mDataSize h') = unat (mDataSize h) + unat n \<and>
        take (unat (mDataSize h)) (mData h') = used h
    | Mmap_Handler \<Rightarrow> grow h n = Inl (Throw ''MmapMemoryHandler::resizeToFit() not implemented'')"
proof (cases "mKind h")
  case Malloc_Handler
  from grow_malloc [OF assms(1) Malloc_Handler assms(2)] show ?thesis
    unfolding Malloc_Handler by simp metis
next
  case Mmap_Handler
  then show ?thesis by (simp add: grow_mmap)
qed

theorem grow_keeps_data_witness:
  "\<exists>h. grow (MallocMemoryHandler (\<lambda>b i. 7) 4) 3 = Inr (0, h) \<and> unat (mDataSize h) = 3"
proof -
  have "mem_ok (MallocMemoryHandler (\<lambda>b i. 7) 4)" by (rule MallocMemoryHandler_ok) simp
  from grow_keeps_data [OF this, of 3] show ?thesis
    by (auto simp: MallocMemoryHandler_def mem_limit_def)
qed

end
