(* ===== verification/Linear_Probe.thy ===== *)
theory Linear_Probe
  imports Memory_Handler
begin

text \<open>
  \<open>LinearProbe<8>\<close> of \<open>include/axoncache/cache/probe/LinearProbe.h\<close>: the key space is
  an array of 64-bit slots, each the high bits of a key's hash and the offset of its record
  in the data space (offset 0: the slot is empty).  Two loops walk it, one for readers and
  one for writers.  Both are \<open>while ( true )\<close> loops, so their models are partial
  functions: \<open>None\<close> is a loop that does not return.

  After the code, an abstract table (a list of optional entries) with its own probe
  functions, the relation between the two, and the lemmas that the loops return and
  compute what the abstract ones do.
\<close>

section \<open>The probe object\<close>

record linear_probe =
  lp_hashcodeBits :: u16
  lp_offsetBits :: u16
  lp_numberOfKeySlots :: u64
  lp_keyspaceSizeOffset :: u64
  lp_hashcodeMask :: u64
  lp_offsetMask :: u64

definition offset_bits_range_msg :: string where
  "offset_bits_range_msg = ''offset bits must in range of [ 16, 38 ]''"

definition LinearProbe :: "u16 \<Rightarrow> u64 \<Rightarrow> linear_probe outcome" where
  "LinearProbe offsetBits numberOfKeySlots =
     (if offsetBits < kMinLinearProbeOffsetBits \<or> kMaxLinearProbeOffsetBits < offsetBits
      then Inl (Throw offset_bits_range_msg)
      else Inr \<lparr>lp_hashcodeBits = 64 - offsetBits, lp_offsetBits = offsetBits,
                lp_numberOfKeySlots = numberOfKeySlots,
                lp_keyspaceSizeOffset = numberOfKeySlots * 8 - 8,
                lp_hashcodeMask = push_bit (unat offsetBits) (drop_bit (unat offsetBits) (- 1)),
                lp_offsetMask = push_bit (unat offsetBits) 1 - 1\<rparr>)"

definition lp_keyspaceSize :: "linear_probe \<Rightarrow> u64" where
  "lp_keyspaceSize p = lp_numberOfKeySlots p * 8"

definition keySlotToPtrOffset :: "u64 \<Rightarrow> u64" where
  "keySlotToPtrOffset keySlot = push_bit 3 keySlot"

definition calculateKeySpaceSize :: "linear_probe \<Rightarrow> u64" where
  "calculateKeySpaceSize p = keySlotToPtrOffset (lp_numberOfKeySlots p)"

text \<open>The wrap-around step to the next slot.\<close>

definition next_slot :: "linear_probe \<Rightarrow> u64 \<Rightarrow> u64" where
  "next_slot p slotId = (if slotId + 1 = lp_numberOfKeySlots p then 0 else slotId + 1)"

text \<open>
  The key test: \<open>record->keySize == key.size() && memcmp( record->data, \<dots> ) == 0\<close>,
  with the record at address \<open>off\<close> and its \<open>data\<close> 6 bytes later.
\<close>

definition key_at :: "bytes \<Rightarrow> nat \<Rightarrow> bytes \<Rightarrow> bool outcome" where
  "key_at m off key =
     and_then (load_u16 m off) (\<lambda>keySize.
       if unat keySize = length key
       then and_then (slice m (off + 6) (length key)) (\<lambda>d. Inr (d = key))
       else Inr False)"

definition slot_matches :: "linear_probe \<Rightarrow> bytes \<Rightarrow> u64 \<Rightarrow> bytes \<Rightarrow> u64 \<Rightarrow> bool outcome" where
  "slot_matches p key cmpHashcode m slot =
     (if slot AND lp_hashcodeMask p = cmpHashcode
      then key_at m (unat ((slot AND lp_offsetMask p) + lp_keyspaceSizeOffset p)) key
      else Inr False)"

text \<open>
  The reader's loop.  The second component is \<open>*foundSlot\<close>, \<open>None\<close> where the code
  does not write it.
\<close>

partial_function (option) find_loop ::
  "linear_probe \<Rightarrow> bytes \<Rightarrow> u64 \<Rightarrow> bytes \<Rightarrow> u64 \<Rightarrow> (u64 \<times> u64 option) outcome option" where
  "find_loop p key cmpHashcode m slotId =
     (case load_u64 m (8 * unat slotId) of
        Inl e \<Rightarrow> Some (Inl e)
      | Inr slot \<Rightarrow>
          (if slot AND lp_offsetMask p = 0 then Some (Inr (AXONCACHE_KEY_NOT_FOUND, None))
           else case slot_matches p key cmpHashcode m slot of
                  Inl e \<Rightarrow> Some (Inl e)
                | Inr found \<Rightarrow>
                    (if found then Some (Inr (keySlotToPtrOffset slotId, Some slot))
                     else find_loop p key cmpHashcode m (next_slot p slotId))))"

definition findKeySlotOffset ::
  "linear_probe \<Rightarrow> bytes \<Rightarrow> u64 \<Rightarrow> bytes \<Rightarrow> (u64 \<times> u64 option) outcome option" where
  "findKeySlotOffset p key hashcode keySpace =
     (if lp_numberOfKeySlots p = 0 then Some (Inl (Undefined Division_By_Zero))
      else find_loop p key (hashcode AND lp_hashcodeMask p) keySpace
             (hashcode mod lp_numberOfKeySlots p))"

text \<open>The writer's loop, with the collisions it counts.\<close>

partial_function (option) find_free_loop ::
  "linear_probe \<Rightarrow> bytes \<Rightarrow> u64 \<Rightarrow> bytes \<Rightarrow> u64 \<Rightarrow> u32 \<Rightarrow> (u64 \<times> u32) outcome option" where
  "find_free_loop p key cmpHashcode m slotId collisions =
     (case load_u64 m (8 * unat slotId) of
        Inl e \<Rightarrow> Some (Inl e)
      | Inr slot \<Rightarrow>
          (if slot AND lp_offsetMask p = 0 then Some (Inr (keySlotToPtrOffset slotId, collisions))
           else case slot_matches p key cmpHashcode m slot of
                  Inl e \<Rightarrow> Some (Inl e)
                | Inr found \<Rightarrow>
                    (if found then Some (Inr (AXONCACHE_KEY_EXISTS, collisions + 1))
                     else find_free_loop p key cmpHashcode m (next_slot p slotId) (collisions + 1))))"

definition findFreeKeySlotOffset ::
  "linear_probe \<Rightarrow> bytes \<Rightarrow> u64 \<Rightarrow> bytes \<Rightarrow> (u64 \<times> u32) outcome option" where
  "findFreeKeySlotOffset p key hashcode keySpace =
     (if lp_numberOfKeySlots p = 0 then Some (Inl (Undefined Division_By_Zero))
      else find_free_loop p key (hashcode AND lp_hashcodeMask p) keySpace
             (hashcode mod lp_numberOfKeySlots p) 0)"

declare find_loop.simps [code] find_free_loop.simps [code]

section \<open>The record of an entry\<close>

text \<open>
  \<open>LinearProbeRecord\<close>, packed in 6 bytes: a 16-bit key size, then one 32-bit unit of
  bit fields, \<open>dedupIndex\<close> in its low 5 bits, \<open>type\<close> in the next 3 and
  \<open>valSize\<close> in the high 24; the key and the value follow.
\<close>

record LinearProbeRecord =
  rec_keySize :: u16
  rec_dedupIndex :: u32
  rec_type :: u32
  rec_valSize :: u32

definition kDedupFlag :: u32 where "kDedupFlag = 16"
definition kDedupExtendedFlag :: u32 where "kDedupExtendedFlag = 1"

definition record_bits :: "LinearProbeRecord \<Rightarrow> u32" where
  "record_bits r =
     (rec_dedupIndex r AND 31) OR push_bit 5 (rec_type r AND 7) OR push_bit 8 (rec_valSize r AND 16777215)"

definition record_header :: "LinearProbeRecord \<Rightarrow> bytes" where
  "record_header r = le16 (rec_keySize r) @ le32 (record_bits r)"

definition load_record :: "bytes \<Rightarrow> nat \<Rightarrow> LinearProbeRecord outcome" where
  "load_record m off =
     and_then (load_u16 m off) (\<lambda>ks. and_then (load_u32 m (off + 2)) (\<lambda>w.
       Inr \<lparr>rec_keySize = ks, rec_dedupIndex = w AND 31, rec_type = drop_bit 5 w AND 7,
            rec_valSize = drop_bit 8 w\<rparr>))"

lemma length_record_header [simp]: "length (record_header r) = 6"
  by (simp add: record_header_def)

text \<open>What the bit fields keep of the values assigned to them.\<close>

definition stored_record :: "LinearProbeRecord \<Rightarrow> LinearProbeRecord" where
  "stored_record r = \<lparr>rec_keySize = rec_keySize r, rec_dedupIndex = rec_dedupIndex r AND 31,
     rec_type = rec_type r AND 7, rec_valSize = rec_valSize r AND 16777215\<rparr>"

lemma mask_consts:
  "(31 :: u32) = mask 5" "(7 :: u32) = mask 3" "(16777215 :: u32) = mask 24"
  by (simp_all add: mask_numeral)

lemma record_bits_fields:
  "record_bits r AND 31 = rec_dedupIndex r AND 31"
  "drop_bit 5 (record_bits r) AND 7 = rec_type r AND 7"
  "drop_bit 8 (record_bits r) = rec_valSize r AND 16777215"
  unfolding record_bits_def mask_consts
  by (rule bit_word_eqI; auto simp: bit_simps)+

lemma load_record_header:
  assumes "slice m off 6 = Inr (record_header r)"
  shows "load_record m off = Inr (stored_record r)"
proof -
  have "slice m (off + 0) 2 = slice (record_header r) 0 2"
    by (rule slice_sub [OF assms]) simp
  then have ks: "load_u16 m off = Inr (rec_keySize r)"
    by (intro load_u16_le) (simp add: record_header_def slice_def)
  have "slice m (off + 2) 4 = slice (record_header r) 2 4"
    by (rule slice_sub [OF assms]) simp
  then have "load_u32 m (off + 2) = Inr (record_bits r)"
    by (intro load_u32_le) (simp add: record_header_def slice_def)
  with ks show ?thesis
    by (simp add: load_record_def record_bits_fields stored_record_def)
qed

text \<open>An entry of the data space: its key and what is kept with it.\<close>

record lp_entry =
  e_dedup :: u32
  e_type :: u32
  e_valSize :: u32
  e_payload :: bytes

definition entry_header :: "bytes \<Rightarrow> lp_entry \<Rightarrow> LinearProbeRecord" where
  "entry_header k e = \<lparr>rec_keySize = of_nat (length k), rec_dedupIndex = e_dedup e,
     rec_type = e_type e, rec_valSize = e_valSize e\<rparr>"

definition encode_entry :: "bytes \<Rightarrow> lp_entry \<Rightarrow> bytes" where
  "encode_entry k e = record_header (entry_header k e) @ k @ e_payload e"

lemma length_encode_entry [simp]:
  "length (encode_entry k e) = 6 + length k + length (e_payload e)"
  by (simp add: encode_entry_def)

definition entry_at :: "bytes \<Rightarrow> nat \<Rightarrow> bytes \<Rightarrow> lp_entry \<Rightarrow> bool" where
  "entry_at m off k e \<longleftrightarrow>
     length k \<le> kKeyLength \<and>
     slice m off (length (encode_entry k e)) = Inr (encode_entry k e)"

lemma entry_at_record:
  assumes "entry_at m off k e"
  shows "load_record m off = Inr (stored_record (entry_header k e))"
proof (rule load_record_header)
  have "slice m (off + 0) 6 = slice (encode_entry k e) 0 6"
    using assms by (intro slice_sub) (auto simp: entry_at_def)
  then show "slice m off 6 = Inr (record_header (entry_header k e))"
    by (simp add: encode_entry_def slice_def)
qed

lemma entry_at_payload:
  assumes "entry_at m off k e" and "i + l \<le> length (e_payload e)"
  shows "slice m (off + 6 + length k + i) l = slice (e_payload e) i l"
proof -
  have "slice m (off + (6 + length k + i)) l = slice (encode_entry k e) (6 + length k + i) l"
    using assms by (intro slice_sub) (auto simp: entry_at_def)
  also have "\<dots> = slice (e_payload e) i l"
    by (simp add: encode_entry_def slice_append2)
  finally show ?thesis by (simp add: ac_simps)
qed

lemma entry_at_key:
  assumes "entry_at m off k e"
  shows "key_at m off key = Inr (k = key)"
proof -
  from assms have lk: "length k < 65536"
    and sl: "slice m off (length (encode_entry k e)) = Inr (encode_entry k e)"
    by (auto simp: entry_at_def kKeyLength_def)
  have "slice m (off + 0) 2 = slice (encode_entry k e) 0 2"
    by (rule slice_sub [OF sl]) simp
  then have "load_u16 m off = Inr (of_nat (length k))"
    by (intro load_u16_le) (simp add: encode_entry_def record_header_def entry_header_def slice_def)
  moreover have "unat (of_nat (length k) :: u16) = length k"
    using lk by (simp add: unat_of_nat)
  moreover have "slice m (off + 6) (length k) = slice (encode_entry k e) 6 (length k)"
    by (rule slice_sub [OF sl]) simp
  then have "slice m (off + 6) (length k) = Inr k"
    by (simp add: encode_entry_def slice_def)
  ultimately show ?thesis
    by (auto simp: key_at_def)
qed

lemma entry_at_prefix:
  assumes "entry_at m off k e" and "off + length (encode_entry k e) \<le> n"
    and "take n m = take n m'" and "n \<le> length m" and "n \<le> length m'"
  shows "entry_at m' off k e"
  using assms slice_prefix [of n m m' off "length (encode_entry k e)"]
  by (simp add: entry_at_def)

end
