(* ===== verification/Probe_Table.thy ===== *)
theory Probe_Table
  imports Main
begin

text \<open>
  The abstract specification of open addressing with linear probing and no deletion: a
  table is a list of optional entries, an entry a key and its data.  \<open>probe\<close> is the
  reader's walk and \<open>probe_free\<close> the writer's, each with the number of slots it may
  still visit.  The invariant says that a probe for the key of any entry finds that entry;
  under it the table is a finite map and inserting at the free slot updates that map.
\<close>

section \<open>Walking a table\<close>

type_synonym ('k, 'v) table = "('k \<times> 'v) option list"

definition succ_slot :: "nat \<Rightarrow> nat \<Rightarrow> nat" where
  "succ_slot n s = (if Suc s = n then 0 else Suc s)"

fun probe :: "('k, 'v) table \<Rightarrow> 'k \<Rightarrow> nat \<Rightarrow> nat \<Rightarrow> nat option" where
  "probe T k s 0 = None"
| "probe T k s (Suc d) =
     (case T ! s of
        None \<Rightarrow> None
      | Some (k', v) \<Rightarrow> (if k' = k then Some s else probe T k (succ_slot (length T) s) d))"

datatype spot = Free nat nat | Exists nat

fun probe_free :: "('k, 'v) table \<Rightarrow> 'k \<Rightarrow> nat \<Rightarrow> nat \<Rightarrow> nat \<Rightarrow> spot option" where
  "probe_free T k s c 0 = None"
| "probe_free T k s c (Suc d) =
     (case T ! s of
        None \<Rightarrow> Some (Free s c)
      | Some (k', v) \<Rightarrow>
          (if k' = k then Some (Exists (Suc c))
           else probe_free T k (succ_slot (length T) s) (Suc c) d))"

text \<open>The walk from \<open>s\<close> meets an empty slot within \<open>d\<close> steps.\<close>

fun gap_within :: "('k, 'v) table \<Rightarrow> nat \<Rightarrow> nat \<Rightarrow> bool" where
  "gap_within T s 0 = False"
| "gap_within T s (Suc d) = (T ! s = None \<or> gap_within T (succ_slot (length T) s) d)"

definition has_gap :: "('k, 'v) table \<Rightarrow> bool" where
  "has_gap T \<longleftrightarrow> None \<in> set T"

section \<open>A gap anywhere is a gap within one round\<close>

lemma option_eq_by_Some: "(\<And>w. a = Some w \<longleftrightarrow> b = Some w) \<Longrightarrow> a = b"
  by (cases a; cases b) auto

lemma succ_slot_less: "s < n \<Longrightarrow> succ_slot n s < n"
  by (auto simp: succ_slot_def)

lemma gap_within_forward:
  assumes "s + e < length T" and "T ! (s + e) = None"
  shows "gap_within T s (Suc e)"
  using assms
proof (induction e arbitrary: s)
  case 0
  then show ?case by simp
next
  case (Suc e)
  then have "succ_slot (length T) s = Suc s"
    by (simp add: succ_slot_def)
  with Suc.IH [of "Suc s"] Suc.prems show ?case by simp
qed

lemma gap_within_mono: "gap_within T s d \<Longrightarrow> d \<le> d' \<Longrightarrow> gap_within T s d'"
proof (induction d arbitrary: s d')
  case 0
  then show ?case by simp
next
  case (Suc d)
  then show ?case by (cases d') auto
qed

lemma gap_within_wrap:
  assumes "gap_within T 0 d" and "s + e = length T" and "s < length T"
  shows "gap_within T s (e + d)"
  using assms
proof (induction e arbitrary: s)
  case 0
  then show ?case by simp
next
  case (Suc e)
  show ?case
  proof (cases "Suc s = length T")
    case True
    moreover from this have "e = 0" using Suc.prems by simp
    ultimately show ?thesis using Suc.prems by (simp add: succ_slot_def)
  next
    case False
    with Suc.prems have "gap_within T (Suc s) (e + d)"
      by (intro Suc.IH) auto
    with False show ?thesis by (simp add: succ_slot_def)
  qed
qed

lemma has_gap_within:
  assumes "has_gap T" and "s < length T"
  shows "gap_within T s (length T)"
proof -
  from assms(1) obtain i where i: "i < length T" "T ! i = None"
    by (auto simp: has_gap_def in_set_conv_nth)
  show ?thesis
  proof (cases "s \<le> i")
    case True
    with i gap_within_forward [of s "i - s" T] have "gap_within T s (Suc (i - s))"
      by simp
    then show ?thesis
      by (rule gap_within_mono) (use i in simp)
  next
    case False
    have "gap_within T 0 (Suc i)"
      using i gap_within_forward [of 0 i T] by simp
    with assms(2) have "gap_within T s ((length T - s) + Suc i)"
      by (intro gap_within_wrap) auto
    then show ?thesis
      by (rule gap_within_mono) (use False assms(2) in simp)
  qed
qed

lemma count_has_gap:
  assumes "length (filter (\<lambda>x. x \<noteq> None) T) < length T"
  shows "has_gap T"
proof (rule ccontr)
  assume "\<not> has_gap T"
  then have "\<forall>x\<in>set T. x \<noteq> None"
    unfolding has_gap_def by metis
  then have "filter (\<lambda>x. x \<noteq> None) T = T"
    by (rule filter_True)
  with assms show False by simp
qed

section \<open>The two walks agree\<close>

lemma probe_free_gap:
  assumes "gap_within T s d"
  shows "(\<exists>i c'. probe_free T k s c d = Some (Free i c') \<and> probe T k s d = None) \<or>
         (\<exists>i c'. probe_free T k s c d = Some (Exists c') \<and> probe T k s d = Some i)"
  using assms by (induction d arbitrary: s c) (auto split: option.splits prod.splits)

lemma probe_Some:
  assumes "probe T k s d = Some i" and "s < length T"
  shows "i < length T \<and> (\<exists>v. T ! i = Some (k, v))"
  using assms
proof (induction d arbitrary: s)
  case 0
  then show ?case by simp
next
  case (Suc d)
  then show ?case
    using succ_slot_less [OF Suc.prems(2)]
    by (auto split: option.splits prod.splits if_splits)
qed

lemma probe_free_Free:
  assumes "probe_free T k s c d = Some (Free i c')" and "s < length T"
  shows "i < length T \<and> T ! i = None \<and> c \<le> c' \<and> c' < c + d"
  using assms
proof (induction d arbitrary: s c)
  case 0
  then show ?case by simp
next
  case (Suc d)
  then show ?case
    using succ_slot_less [OF Suc.prems(2)]
    by (fastforce split: option.splits prod.splits if_splits)
qed

section \<open>Inserting at the free slot\<close>

lemma probe_update_other:
  assumes "probe T k s d = Some i" and "T ! j = None" and "s < length T"
  shows "probe (T[j := x]) k s d = Some i"
  using assms
proof (induction d arbitrary: s)
  case 0
  then show ?case by simp
next
  case (Suc d)
  have ne: "j \<noteq> s" using Suc.prems by (auto split: option.splits)
  show ?case
    using Suc ne succ_slot_less [OF Suc.prems(3)]
    by (auto split: option.splits prod.splits if_splits)
qed

lemma probe_update_new:
  assumes "probe_free T k s c d = Some (Free j c')" and "s < length T"
  shows "probe (T[j := Some (k, v)]) k s d = Some j"
  using assms
proof (induction d arbitrary: s c)
  case 0
  then show ?case by simp
next
  case (Suc d)
  show ?case
  proof (cases "T ! s")
    case None
    with Suc.prems show ?thesis by simp
  next
    case (Some kv)
    obtain k' v' where kv: "kv = (k', v')" by (cases kv)
    have "k' \<noteq> k" using Suc.prems Some kv by (auto split: if_splits)
    moreover have rec: "probe_free T k (succ_slot (length T) s) (Suc c) d = Some (Free j c')"
      using Suc.prems Some kv \<open>k' \<noteq> k\<close> by simp
    moreover have lt: "succ_slot (length T) s < length T"
      using Suc.prems by (intro succ_slot_less) auto
    moreover have "j \<noteq> s"
      using probe_free_Free [OF rec lt] Some by auto
    ultimately show ?thesis
      using Suc.IH [OF rec lt] Some kv Suc.prems by simp
  qed
qed

section \<open>The invariant and the map\<close>

definition table_inv :: "('k \<Rightarrow> nat) \<Rightarrow> ('k, 'v) table \<Rightarrow> bool" where
  "table_inv home T \<longleftrightarrow>
     (\<forall>i<length T. \<forall>k v. T ! i = Some (k, v) \<longrightarrow>
        home k < length T \<and> probe T k (home k) (length T) = Some i)"

definition table_map :: "('k \<Rightarrow> nat) \<Rightarrow> ('k, 'v) table \<Rightarrow> 'k \<Rightarrow> 'v option" where
  "table_map home T k =
     (case probe T k (home k) (length T) of
        None \<Rightarrow> None
      | Some i \<Rightarrow> map_option snd (T ! i))"

definition table_count :: "('k, 'v) table \<Rightarrow> nat" where
  "table_count T = length (filter (\<lambda>x. x \<noteq> None) T)"

lemma table_map_Some_iff:
  assumes "table_inv home T" and "home k < length T"
  shows "table_map home T k = Some v \<longleftrightarrow> (\<exists>i<length T. T ! i = Some (k, v))"
proof
  assume "table_map home T k = Some v"
  then show "\<exists>i<length T. T ! i = Some (k, v)"
    using probe_Some assms(2)
    by (fastforce simp: table_map_def split: option.splits)
next
  assume "\<exists>i<length T. T ! i = Some (k, v)"
  then obtain i where "i < length T" "T ! i = Some (k, v)" by blast
  moreover from this assms have "probe T k (home k) (length T) = Some i"
    by (auto simp: table_inv_def)
  ultimately show "table_map home T k = Some v"
    by (simp add: table_map_def)
qed

lemma table_map_None_iff:
  assumes "home k < length T"
  shows "table_map home T k = None \<longleftrightarrow> probe T k (home k) (length T) = None"
  using probe_Some [of T k "home k" "length T"] assms
  by (auto simp: table_map_def split: option.splits)

lemma table_inv_empty: "table_inv home (replicate n None)"
  by (simp add: table_inv_def)

lemma probe_empty: "s < n \<Longrightarrow> probe (replicate n None) k s d = None"
  by (cases d) auto

lemma table_map_empty: "home k < n \<Longrightarrow> table_map home (replicate n None) k = None"
  by (simp add: table_map_def probe_empty)

lemma table_inv_insert:
  assumes inv: "table_inv home T" and free: "probe_free T k (home k) c (length T) = Some (Free j c')"
    and home: "home k < length T"
  shows "table_inv home (T[j := Some (k, v)])"
proof -
  have j: "j < length T" "T ! j = None"
    using probe_free_Free [OF free home] by auto
  show ?thesis
    unfolding table_inv_def
  proof (intro allI impI)
    fix i k' v' assume i: "i < length (T[j := Some (k, v)])"
      and e: "T[j := Some (k, v)] ! i = Some (k', v')"
    show "home k' < length (T[j := Some (k, v)]) \<and>
      probe (T[j := Some (k, v)]) k' (home k') (length (T[j := Some (k, v)])) = Some i"
    proof (cases "i = j")
      case True
      with e j have "k' = k" by simp
      with True home probe_update_new [OF free home] show ?thesis by simp
    next
      case False
      with e have Ti: "T ! i = Some (k', v')" by simp
      with inv i have "home k' < length T" "probe T k' (home k') (length T) = Some i"
        by (auto simp: table_inv_def)
      with probe_update_other [OF this(2) j(2) this(1)] show ?thesis by simp
    qed
  qed
qed

lemma table_map_insert:
  assumes inv: "table_inv home T" and free: "probe_free T k (home k) c (length T) = Some (Free j c')"
    and homes: "\<And>k. home k < length T"
  shows "table_map home (T[j := Some (k, v)]) = (table_map home T)(k \<mapsto> v)"
proof
  fix q
  have j: "j < length T" "T ! j = None"
    using probe_free_Free [OF free homes] by auto
  note inv' = table_inv_insert [OF inv free homes, of v]
  have iff: "table_map home (T[j := Some (k, v)]) q = Some w \<longleftrightarrow>
      ((table_map home T)(k \<mapsto> v)) q = Some w" for w
  proof (cases "q = k")
    case True
    have "probe (T[j := Some (k, v)]) k (home k) (length T) = Some j"
      by (rule probe_update_new [OF free homes])
    with True j show ?thesis by (auto simp: table_map_def)
  next
    case False
    have "T[j := Some (k, v)] ! i = Some (q, w) \<longleftrightarrow> T ! i = Some (q, w)" if "i < length T" for i
      using that j False by (cases "i = j") auto
    then have "table_map home (T[j := Some (k, v)]) q = Some w \<longleftrightarrow> (\<exists>i<length T. T ! i = Some (q, w))"
      using table_map_Some_iff [OF inv', of q w] homes [of q] by (simp cong: conj_cong)
    with False table_map_Some_iff [OF inv homes, of q w] show ?thesis by simp
  qed
  show "table_map home (T[j := Some (k, v)]) q = ((table_map home T)(k \<mapsto> v)) q"
    using iff by (rule option_eq_by_Some)
qed

lemma table_count_insert:
  assumes "T ! j = None" and "j < length T"
  shows "table_count (T[j := Some x]) = Suc (table_count T)"
proof -
  have T: "T = take j T @ None # drop (Suc j) T"
    using assms id_take_nth_drop by fastforce
  have T': "T[j := Some x] = take j T @ Some x # drop (Suc j) T"
    using assms(2) by (simp add: upd_conv_take_nth_drop)
  show ?thesis
    unfolding table_count_def by (subst (2) T, subst T') simp
qed

lemma table_count_empty: "table_count (replicate n None) = 0"
  by (simp add: table_count_def)

lemma table_count_gap: "table_count T < length T \<Longrightarrow> has_gap T"
  unfolding table_count_def by (rule count_has_gap)

end
