(* ===== verification/Linear_Probe_Table.thy ===== *)
theory Linear_Probe_Table
  imports Linear_Probe Probe_Table
begin

text \<open>
  The refinement between the bytes of a linear-probe key space and an abstract table:
  \<open>lp_repr p H m D T\<close> says that the block \<open>m\<close>, of which \<open>D\<close> bytes are in
  use, represents the table \<open>T\<close> for the hash function \<open>H\<close>.  Under it the two loops
  of \<open>LinearProbe\<close> return, and with the result of the abstract walks.
\<close>

section \<open>Probes in working order\<close>

definition probe_ok :: "linear_probe \<Rightarrow> bool" where
  "probe_ok p \<longleftrightarrow>
     0 < lp_numberOfKeySlots p \<and> 8 * unat (lp_numberOfKeySlots p) \<le> mem_limit \<and>
     LinearProbe (lp_offsetBits p) (lp_numberOfKeySlots p) = Inr p"

abbreviation slots :: "linear_probe \<Rightarrow> nat" where
  "slots p \<equiv> unat (lp_numberOfKeySlots p)"

abbreviation keyspace_bytes :: "linear_probe \<Rightarrow> nat" where
  "keyspace_bytes p \<equiv> 8 * slots p"

lemma probe_ok_bits:
  assumes "probe_ok p"
  shows "16 \<le> unat (lp_offsetBits p)" "unat (lp_offsetBits p) \<le> 38"
    "lp_offsetMask p = mask (unat (lp_offsetBits p))"
    "lp_hashcodeMask p = NOT (mask (unat (lp_offsetBits p)))"
    "lp_keyspaceSizeOffset p = lp_numberOfKeySlots p * 8 - 8"
proof -
  from assms have eq: "LinearProbe (lp_offsetBits p) (lp_numberOfKeySlots p) = Inr p"
    by (simp add: probe_ok_def)
  then have r: "\<not> (lp_offsetBits p < 16 \<or> 38 < lp_offsetBits p)"
    by (auto simp: LinearProbe_def constant_defs split: if_splits)
  then show "16 \<le> unat (lp_offsetBits p)" "unat (lp_offsetBits p) \<le> 38"
    by (auto simp: word_less_nat_alt)
  from eq r have p: "p = \<lparr>lp_hashcodeBits = 64 - lp_offsetBits p, lp_offsetBits = lp_offsetBits p,
     lp_numberOfKeySlots = lp_numberOfKeySlots p,
     lp_keyspaceSizeOffset = lp_numberOfKeySlots p * 8 - 8,
     lp_hashcodeMask = push_bit (unat (lp_offsetBits p)) (drop_bit (unat (lp_offsetBits p)) (- 1)),
     lp_offsetMask = push_bit (unat (lp_offsetBits p)) 1 - 1\<rparr>"
    by (simp add: LinearProbe_def constant_defs)
  show "lp_offsetMask p = mask (unat (lp_offsetBits p))"
    by (subst p) (simp add: mask_eq_decr_exp push_bit_of_1)
  show "lp_hashcodeMask p = NOT (mask (unat (lp_offsetBits p)))"
    by (subst p) (simp, rule bit_word_eqI, auto simp: bit_simps)
  show "lp_keyspaceSizeOffset p = lp_numberOfKeySlots p * 8 - 8"
    by (subst p) simp
qed

lemma probe_ok_slots:
  assumes "probe_ok p"
  shows "0 < slots p" "keyspace_bytes p \<le> mem_limit" "lp_numberOfKeySlots p \<noteq> 0"
  using assms by (auto simp: probe_ok_def word_gt_0 unat_gt_0)

lemma unat_mult8:
  fixes n :: u64
  shows "8 * unat n \<le> mem_limit \<Longrightarrow> unat (n * 8) = 8 * unat n"
  by (simp add: unat_word_ariths mem_limit_def)

lemma unat_keyspaceSizeOffset:
  assumes "probe_ok p"
  shows "unat (lp_keyspaceSizeOffset p) = keyspace_bytes p - 8"
proof -
  have n: "unat (lp_numberOfKeySlots p * 8) = keyspace_bytes p"
    using probe_ok_slots(2) [OF assms] by (rule unat_mult8)
  moreover have "8 \<le> lp_numberOfKeySlots p * 8"
    using probe_ok_slots(1) [OF assms] by (simp add: word_le_nat_alt n)
  ultimately show ?thesis
    using probe_ok_bits(5) [OF assms] by (simp add: unat_sub)
qed

lemma calculateKeySpaceSize_eq: "calculateKeySpaceSize p = lp_keyspaceSize p"
  by (simp add: calculateKeySpaceSize_def keySlotToPtrOffset_def lp_keyspaceSize_def push_bit_eq_mult)

lemma keySlotToPtrOffset_eq: "keySlotToPtrOffset s = of_nat (8 * unat s)"
  by (simp add: keySlotToPtrOffset_def push_bit_eq_mult mult.commute)

lemma mask_split:
  fixes x h :: u64
  assumes "om = mask b" and "hm = NOT (mask b)" and "x AND om = x"
  shows "((h AND hm) OR x) AND om = x" and "((h AND hm) OR x) AND hm = h AND hm"
proof -
  have x: "x = x AND mask b" using assms by simp
  show "((h AND hm) OR x) AND om = x"
    unfolding assms by (subst (1 2) x) (rule bit_word_eqI; auto simp: bit_simps)
  show "((h AND hm) OR x) AND hm = h AND hm"
    unfolding assms by (subst (1) x) (rule bit_word_eqI; auto simp: bit_simps)
qed

section \<open>Representation\<close>

definition slot_holds ::
  "linear_probe \<Rightarrow> (bytes \<Rightarrow> u64) \<Rightarrow> bytes \<Rightarrow> nat \<Rightarrow> u64 \<Rightarrow> (bytes \<times> lp_entry) option \<Rightarrow> bool" where
  "slot_holds p H m D slot x =
     (case x of
        None \<Rightarrow> slot AND lp_offsetMask p = 0
      | Some (k, e) \<Rightarrow>
          slot AND lp_offsetMask p \<noteq> 0 \<and>
          slot AND lp_hashcodeMask p = H k AND lp_hashcodeMask p \<and>
          keyspace_bytes p \<le> unat ((slot AND lp_offsetMask p) + lp_keyspaceSizeOffset p) \<and>
          unat ((slot AND lp_offsetMask p) + lp_keyspaceSizeOffset p) + length (encode_entry k e) \<le> D \<and>
          entry_at m (unat ((slot AND lp_offsetMask p) + lp_keyspaceSizeOffset p)) k e)"

definition lp_repr ::
  "linear_probe \<Rightarrow> (bytes \<Rightarrow> u64) \<Rightarrow> bytes \<Rightarrow> nat \<Rightarrow> (bytes, lp_entry) table \<Rightarrow> bool" where
  "lp_repr p H m D T \<longleftrightarrow>
     length T = slots p \<and> keyspace_bytes p \<le> D \<and> D \<le> length m \<and>
     (\<forall>i < slots p. \<exists>slot. load_u64 m (8 * i) = Inr slot \<and> slot_holds p H m D slot (T ! i))"

lemma slot_matches_holds:
  assumes "slot_holds p H m D slot (Some (k, e))"
  shows "slot_matches p key (H key AND lp_hashcodeMask p) m slot = Inr (k = key)"
proof (cases "H k AND lp_hashcodeMask p = H key AND lp_hashcodeMask p")
  case True
  have "entry_at m (unat ((slot AND lp_offsetMask p) + lp_keyspaceSizeOffset p)) k e"
    using assms by (simp add: slot_holds_def)
  from entry_at_key [OF this] True assms show ?thesis
    by (simp add: slot_matches_def slot_holds_def)
next
  case False
  then have "k \<noteq> key" by auto
  with False assms show ?thesis
    by (simp add: slot_matches_def slot_holds_def)
qed

definition home :: "linear_probe \<Rightarrow> (bytes \<Rightarrow> u64) \<Rightarrow> bytes \<Rightarrow> nat" where
  "home p H k = unat (H k mod lp_numberOfKeySlots p)"

lemma home_less: "probe_ok p \<Longrightarrow> home p H k < slots p"
  unfolding home_def using probe_ok_slots [of p] by (simp add: unat_mod)

lemma unat_next_slot:
  assumes "unat slotId < slots p"
  shows "unat (next_slot p slotId) = succ_slot (slots p) (unat slotId)"
proof -
  have "unat slotId + unat (1 :: u64) < 2 ^ 64"
    using assms unat_u64_bound [of "lp_numberOfKeySlots p"] by (simp del: unat_u64_bound)
  then have s: "unat (slotId + 1) = Suc (unat slotId)"
    by (subst unat_add_lt) simp_all
  then show ?thesis
    by (auto simp: next_slot_def succ_slot_def word_unat_eq_iff)
qed

section \<open>The loops compute the abstract walks\<close>

lemma find_loop_refines:
  assumes "lp_repr p H m D T" and "gap_within T (unat slotId) d" and "unat slotId < slots p"
  shows "(probe T key (unat slotId) d = None \<longrightarrow>
            find_loop p key (H key AND lp_hashcodeMask p) m slotId =
              Some (Inr (AXONCACHE_KEY_NOT_FOUND, None))) \<and>
         (\<forall>i. probe T key (unat slotId) d = Some i \<longrightarrow>
            (\<exists>slot. load_u64 m (8 * i) = Inr slot \<and>
               find_loop p key (H key AND lp_hashcodeMask p) m slotId =
                 Some (Inr (of_nat (8 * i), Some slot))))"
  using assms(2,3)
proof (induction d arbitrary: slotId)
  case 0
  then show ?case by simp
next
  case (Suc d)
  have len: "length T = slots p"
    using assms(1) by (simp add: lp_repr_def)
  obtain slot where slot: "load_u64 m (8 * unat slotId) = Inr slot"
    and holds: "slot_holds p H m D slot (T ! unat slotId)"
    using assms(1) Suc.prems(2) by (auto simp: lp_repr_def)
  show ?case
  proof (cases "T ! unat slotId")
    case None
    with holds slot show ?thesis
      by (subst (1 2) find_loop.simps) (simp add: slot_holds_def)
  next
    case (Some kv)
    obtain k e where kv: "kv = (k, e)" by (cases kv)
    have nz: "slot AND lp_offsetMask p \<noteq> 0"
      using holds Some kv by (simp add: slot_holds_def)
    have mt: "slot_matches p key (H key AND lp_hashcodeMask p) m slot = Inr (k = key)"
      using holds Some kv by (intro slot_matches_holds) simp
    show ?thesis
    proof (cases "k = key")
      case True
      with Some kv slot nz mt show ?thesis
        by (subst (1 2) find_loop.simps) (simp add: keySlotToPtrOffset_eq)
    next
      case False
      let ?n = "next_slot p slotId"
      have un: "unat ?n = succ_slot (length T) (unat slotId)"
        using unat_next_slot Suc.prems(2) len by simp
      have step: "find_loop p key (H key AND lp_hashcodeMask p) m slotId =
          find_loop p key (H key AND lp_hashcodeMask p) m ?n"
        using slot nz mt False by (subst find_loop.simps) simp
      have "gap_within T (unat ?n) d" "unat ?n < slots p"
        using Suc.prems Some un succ_slot_less [of "unat slotId" "length T"] len by auto
      from Suc.IH [OF this] Some kv False show ?thesis
        by (simp add: step un)
    qed
  qed
qed

lemma find_free_loop_refines:
  assumes "lp_repr p H m D T" and "gap_within T (unat slotId) d" and "unat slotId < slots p"
  shows "(\<forall>i c'. probe_free T key (unat slotId) c d = Some (Free i c') \<longrightarrow>
            find_free_loop p key (H key AND lp_hashcodeMask p) m slotId (of_nat c) =
              Some (Inr (of_nat (8 * i), of_nat c'))) \<and>
         (\<forall>c'. probe_free T key (unat slotId) c d = Some (Exists c') \<longrightarrow>
            find_free_loop p key (H key AND lp_hashcodeMask p) m slotId (of_nat c) =
              Some (Inr (AXONCACHE_KEY_EXISTS, of_nat c')))"
  using assms(2,3)
proof (induction d arbitrary: slotId c)
  case 0
  then show ?case by simp
next
  case (Suc d)
  have len: "length T = slots p"
    using assms(1) by (simp add: lp_repr_def)
  obtain slot where slot: "load_u64 m (8 * unat slotId) = Inr slot"
    and holds: "slot_holds p H m D slot (T ! unat slotId)"
    using assms(1) Suc.prems(2) by (auto simp: lp_repr_def)
  show ?case
  proof (cases "T ! unat slotId")
    case None
    with holds slot show ?thesis
      by (subst (1 2) find_free_loop.simps) (simp add: slot_holds_def keySlotToPtrOffset_eq)
  next
    case (Some kv)
    obtain k e where kv: "kv = (k, e)" by (cases kv)
    have nz: "slot AND lp_offsetMask p \<noteq> 0"
      using holds Some kv by (simp add: slot_holds_def)
    have mt: "slot_matches p key (H key AND lp_hashcodeMask p) m slot = Inr (k = key)"
      using holds Some kv by (intro slot_matches_holds) simp
    show ?thesis
    proof (cases "k = key")
      case True
      with Some kv slot nz mt show ?thesis
        by (subst (1 2) find_free_loop.simps) (simp add: add.commute)
    next
      case False
      let ?n = "next_slot p slotId"
      have un: "unat ?n = succ_slot (length T) (unat slotId)"
        using unat_next_slot Suc.prems(2) len by simp
      have step: "find_free_loop p key (H key AND lp_hashcodeMask p) m slotId (of_nat c) =
          find_free_loop p key (H key AND lp_hashcodeMask p) m ?n (of_nat (Suc c))"
        using slot nz mt False by (subst find_free_loop.simps) (simp add: add.commute)
      have "gap_within T (unat ?n) d" "unat ?n < slots p"
        using Suc.prems Some un succ_slot_less [of "unat slotId" "length T"] len by auto
      from Suc.IH [OF this, of "Suc c"] Some kv False show ?thesis
        by (simp add: step un)
    qed
  qed
qed

text \<open>
  With an empty slot somewhere, both operations return, and with the abstract result.
\<close>

lemma findKeySlotOffset_refines:
  assumes repr: "lp_repr p H m D T" and ok: "probe_ok p" and gap: "has_gap T"
  shows "probe T key (home p H key) (length T) = None \<Longrightarrow>
      findKeySlotOffset p key (H key) m = Some (Inr (AXONCACHE_KEY_NOT_FOUND, None))"
    and "probe T key (home p H key) (length T) = Some i \<Longrightarrow>
      \<exists>slot. load_u64 m (8 * i) = Inr slot \<and> slot_holds p H m D slot (T ! i) \<and>
        findKeySlotOffset p key (H key) m = Some (Inr (of_nat (8 * i), Some slot))"
proof -
  have len: "length T = slots p" using repr by (simp add: lp_repr_def)
  have h: "unat (H key mod lp_numberOfKeySlots p) < slots p"
    using home_less [OF ok, of H key] by (simp add: home_def)
  have g: "gap_within T (unat (H key mod lp_numberOfKeySlots p)) (length T)"
    using has_gap_within [OF gap] h len by simp
  note loop = find_loop_refines [OF repr g h, of key]
  have def: "findKeySlotOffset p key (H key) m =
      find_loop p key (H key AND lp_hashcodeMask p) m (H key mod lp_numberOfKeySlots p)"
    using probe_ok_slots(3) [OF ok] by (simp add: findKeySlotOffset_def)
  show "probe T key (home p H key) (length T) = None \<Longrightarrow>
      findKeySlotOffset p key (H key) m = Some (Inr (AXONCACHE_KEY_NOT_FOUND, None))"
    using loop by (simp add: def home_def)
  assume i: "probe T key (home p H key) (length T) = Some i"
  have "i < slots p"
    using probe_Some [OF i] home_less [OF ok, of H key] len by simp
  with repr obtain slot where "load_u64 m (8 * i) = Inr slot" "slot_holds p H m D slot (T ! i)"
    by (auto simp: lp_repr_def)
  with loop i show "\<exists>slot. load_u64 m (8 * i) = Inr slot \<and> slot_holds p H m D slot (T ! i) \<and>
        findKeySlotOffset p key (H key) m = Some (Inr (of_nat (8 * i), Some slot))"
    by (auto simp: def home_def)
qed

lemma findFreeKeySlotOffset_refines:
  assumes repr: "lp_repr p H m D T" and ok: "probe_ok p" and gap: "has_gap T"
  shows "probe_free T key (home p H key) 0 (length T) = Some (Free i c) \<Longrightarrow>
      findFreeKeySlotOffset p key (H key) m = Some (Inr (of_nat (8 * i), of_nat c))"
    and "probe_free T key (home p H key) 0 (length T) = Some (Exists c) \<Longrightarrow>
      findFreeKeySlotOffset p key (H key) m = Some (Inr (AXONCACHE_KEY_EXISTS, of_nat c))"
proof -
  have len: "length T = slots p" using repr by (simp add: lp_repr_def)
  have h: "unat (H key mod lp_numberOfKeySlots p) < slots p"
    using home_less [OF ok, of H key] by (simp add: home_def)
  have g: "gap_within T (unat (H key mod lp_numberOfKeySlots p)) (length T)"
    using has_gap_within [OF gap] h len by simp
  note loop = find_free_loop_refines [OF repr g h, of key 0]
  have def: "findFreeKeySlotOffset p key (H key) m =
      find_free_loop p key (H key AND lp_hashcodeMask p) m (H key mod lp_numberOfKeySlots p) 0"
    using probe_ok_slots(3) [OF ok] by (simp add: findFreeKeySlotOffset_def)
  show "probe_free T key (home p H key) 0 (length T) = Some (Free i c) \<Longrightarrow>
      findFreeKeySlotOffset p key (H key) m = Some (Inr (of_nat (8 * i), of_nat c))"
    "probe_free T key (home p H key) 0 (length T) = Some (Exists c) \<Longrightarrow>
      findFreeKeySlotOffset p key (H key) m = Some (Inr (AXONCACHE_KEY_EXISTS, of_nat c))"
    using loop by (simp_all add: def home_def)
qed

section \<open>Growing the data space\<close>

lemma load_u64_prefix:
  assumes "take n m = take n m'" and "off + 8 \<le> n" and "n \<le> length m" and "n \<le> length m'"
  shows "load_u64 m' off = load_u64 m off"
  using slice_prefix [OF assms] by (simp add: load_u64_def load_le_def)

lemma slot_holds_prefix:
  assumes "slot_holds p H m D slot x" and "take D m = take D m'" and "D \<le> length m"
    and "D \<le> length m'" and "D \<le> D'"
  shows "slot_holds p H m' D' slot x"
  using assms entry_at_prefix [of m _ _ _ D m']
  by (auto simp: slot_holds_def split: option.splits)

lemma lp_repr_prefix:
  assumes "lp_repr p H m D T" and "take D m = take D m'" and "D \<le> D'" and "D' \<le> length m'"
  shows "lp_repr p H m' D' T"
  unfolding lp_repr_def
proof (intro conjI allI impI)
  show "length T = slots p" "keyspace_bytes p \<le> D'" "D' \<le> length m'"
    using assms by (auto simp: lp_repr_def)
  have Dm: "D \<le> length m" and kD: "keyspace_bytes p \<le> D"
    using assms(1) by (auto simp: lp_repr_def)
  have Dm': "D \<le> length m'" using assms(3,4) by simp
  fix i assume i: "i < slots p"
  with assms(1) obtain slot where ld: "load_u64 m (8 * i) = Inr slot"
    and holds: "slot_holds p H m D slot (T ! i)"
    by (auto simp: lp_repr_def)
  have "8 * i + 8 \<le> D" using i kD by linarith
  then have "load_u64 m' (8 * i) = load_u64 m (8 * i)"
    by (intro load_u64_prefix [OF assms(2) _ Dm Dm'])
  moreover have "slot_holds p H m' D' slot (T ! i)"
    by (rule slot_holds_prefix [OF holds assms(2) Dm Dm' assms(3)])
  ultimately show "\<exists>slot. load_u64 m' (8 * i) = Inr slot \<and> slot_holds p H m' D' slot (T ! i)"
    using ld by simp
qed

text \<open>Writing outside the bytes in use changes nothing that is represented.\<close>

lemma lp_repr_store_above:
  assumes "lp_repr p H m D T" and "splice m off b = Inr m'" and "D \<le> off"
  shows "lp_repr p H m' D T"
proof (rule lp_repr_prefix [OF assms(1)])
  show "take D m = take D m'"
    using assms(2,3) by (auto simp: splice_Inr_iff)
  show "D \<le> length m'"
    using assms(1,2) by (auto simp: lp_repr_def splice_length)
qed simp

section \<open>Writing a slot\<close>

lemma entry_at_splice:
  assumes "splice m o2 b = Inr m'" and "o2 + length b \<le> off"
  shows "entry_at m' off k e \<longleftrightarrow> entry_at m off k e"
  using slice_splice_other [OF assms(1), of off] assms(2) by (simp add: entry_at_def)

lemma lp_repr_write_slot:
  assumes repr: "lp_repr p H m D T" and i: "i < slots p"
    and w: "splice m (8 * i) (le64 slot) = Inr m'"
    and holds: "slot_holds p H m D slot x"
  shows "lp_repr p H m' D (T[i := x])"
  unfolding lp_repr_def
proof (intro conjI allI impI)
  have len: "length m' = length m" using w by (rule splice_length)
  show "length (T[i := x]) = slots p" "keyspace_bytes p \<le> D" "D \<le> length m'"
    using repr by (auto simp: lp_repr_def len)
  have above: "slot_holds p H m' D s y \<longleftrightarrow> slot_holds p H m D s y" for s y
    using i entry_at_splice [OF w] by (auto simp: slot_holds_def split: option.splits)
  fix j assume j: "j < slots p"
  show "\<exists>slot. load_u64 m' (8 * j) = Inr slot \<and> slot_holds p H m' D slot (T[i := x] ! j)"
  proof (cases "j = i")
    case True
    have "load_u64 m' (8 * i) = Inr slot"
      using slice_splice_same [OF w] by (intro load_u64_le) simp
    moreover have "i < length T" using i repr by (simp add: lp_repr_def)
    ultimately show ?thesis
      using True holds above by simp
  next
    case False
    have "8 * j + 8 \<le> 8 * i \<or> 8 * i + length (le64 slot) \<le> 8 * j"
      using False by (simp, presburger)
    from slice_splice_other [OF w this]
    have "load_u64 m' (8 * j) = load_u64 m (8 * j)"
      by (simp add: load_u64_def load_le_def)
    with False repr j above show ?thesis by (auto simp: lp_repr_def)
  qed
qed

text \<open>A fresh key space, all zero, represents the empty table.\<close>

lemma lp_repr_zero:
  assumes ok: "probe_ok p"
  shows "lp_repr p H (zero_block (calculateKeySpaceSize p)) (keyspace_bytes p)
           (replicate (slots p) None)"
proof -
  have len: "length (zero_block (calculateKeySpaceSize p)) = keyspace_bytes p"
    using unat_mult8 [OF probe_ok_slots(2) [OF ok]]
    by (simp add: calculateKeySpaceSize_eq lp_keyspaceSize_def)
  have z: "le64 0 = replicate 8 0"
    by (simp add: le64_def)
  have "load_u64 (zero_block (calculateKeySpaceSize p)) (8 * i) = Inr 0" if "i < slots p" for i
  proof (rule load_u64_le)
    have "drop (8 * i) (zero_block (calculateKeySpaceSize p)) = replicate (keyspace_bytes p - 8 * i) 0"
      using len by (simp add: zero_block_def)
    then show "slice (zero_block (calculateKeySpaceSize p)) (8 * i) 8 = Inr (le64 0)"
      using that len by (simp add: slice_def z min_def)
  qed
  then show ?thesis
    using len by (simp add: lp_repr_def slot_holds_def)
qed

section \<open>Properties\<close>

text \<open>C37: the probe object is well formed whenever its constructor succeeds, which it does exactly for
  16 to 38 offset bits: the offset mask covers the low bits, the hash-code mask the others, the
  two widths add up to 64, and the slots are the ones asked for.  Otherwise it throws.\<close>

theorem linear_probe_wf:
  "case LinearProbe ob n of
     Inr p \<Rightarrow> 16 \<le> unat ob \<and> unat ob \<le> 38 \<and> lp_offsetMask p = mask (unat ob) \<and>
       lp_hashcodeMask p = NOT (mask (unat ob)) \<and>
       unat (lp_hashcodeBits p) + unat (lp_offsetBits p) = 64 \<and> lp_numberOfKeySlots p = n
   | Inl e \<Rightarrow> \<not> (16 \<le> unat ob \<and> unat ob \<le> 38) \<and> e = Throw offset_bits_range_msg"
proof (cases "16 \<le> unat ob \<and> unat ob \<le> 38")
  case True
  then have r: "\<not> (ob < kMinLinearProbeOffsetBits \<or> kMaxLinearProbeOffsetBits < ob)"
    by (simp add: constant_defs word_less_nat_alt)
  have m: "push_bit (unat ob) (1 :: u64) - 1 = mask (unat ob)"
    by (simp add: mask_eq_decr_exp push_bit_of_1)
  have h: "push_bit (unat ob) (drop_bit (unat ob) (- 1 :: u64)) = NOT (mask (unat ob))"
    by (rule bit_word_eqI) (auto simp: bit_simps)
  have "unat (64 - ob) = 64 - unat ob"
    using True by (subst unat_sub) (simp_all add: word_le_nat_alt)
  then show ?thesis using r True m h by (simp add: LinearProbe_def)
next
  case False
  then have "ob < kMinLinearProbeOffsetBits \<or> kMaxLinearProbeOffsetBits < ob"
    by (auto simp: constant_defs word_less_nat_alt)
  with False show ?thesis by (simp add: LinearProbe_def)
qed

end
