(* ===== verification/Linear_Probe_Value.thy ===== *)
theory Linear_Probe_Value
  imports Linear_Probe_Table
begin

text \<open>
  \<open>LinearProbeValue\<close> of \<open>cache/value/LinearProbeValue.h\<close> and \<open>.cpp\<close>: it appends
  records to the data space, writes the slot that points to a record, and reads the value
  behind a slot.  A slot's offset counts from 8 bytes before the data space, so that it is
  never 0.  The operations that change memory return the handler next to their outcome:
  where \<open>add\<close> throws, the memory has already grown.
\<close>

section \<open>The value manager\<close>

record linear_probe_value =
  lv_keyspaceSizeOffset :: u64
  lv_hashcodeMask :: u64
  lv_offsetMask :: u64
  lv_offsetBitsStr :: string

definition LinearProbeValue :: "u16 \<Rightarrow> u64 \<Rightarrow> u64 \<Rightarrow> u64 \<Rightarrow> linear_probe_value" where
  "LinearProbeValue offsetBits numberOfKeySlots hashcodeMask offsetMask =
     \<lparr>lv_keyspaceSizeOffset = numberOfKeySlots * 8 - 8, lv_hashcodeMask = hashcodeMask,
      lv_offsetMask = offsetMask, lv_offsetBitsStr = show_nat (unat offsetBits)\<rparr>"

definition lv_calculateSize :: "bytes \<Rightarrow> bytes \<Rightarrow> u64" where
  "lv_calculateSize key value = 6 + of_nat (length key) + of_nat (length value)"

definition key_too_large_msg :: "bytes \<Rightarrow> string" where
  "key_too_large_msg key =
     ''key size '' @ show_nat (length key) @ '' too large. max='' @ show_nat kKeyLength"

definition value_too_large_msg :: "bytes \<Rightarrow> string" where
  "value_too_large_msg value =
     ''value size '' @ show_nat (length value) @ '' too large. max='' @ show_nat kValueLength"

text \<open>
  Filling a record at the address \<open>a\<close> of new memory: the header's bit fields, then
  \<open>memcpy\<close> of the key and of what follows it.
\<close>

definition store_record :: "memory_handler \<Rightarrow> nat \<Rightarrow> LinearProbeRecord \<Rightarrow> bytes \<Rightarrow> bytes \<Rightarrow> memory_handler outcome" where
  "store_record h a r key tail =
     and_then (mem_store h a (record_header r)) (\<lambda>h1.
     and_then (mem_store h1 (a + 6) key) (\<lambda>h2.
     mem_store h2 (a + 6 + length key) tail))"

definition lv_addToEnd :: "bytes \<Rightarrow> u8 \<Rightarrow> bytes \<Rightarrow> memory_handler \<Rightarrow> (u64 \<times> memory_handler) outcome" where
  "lv_addToEnd key type value memory =
     (if length key > kKeyLength then Inl (Throw (key_too_large_msg key))
      else if length value > kValueLength then Inl (Throw (value_too_large_msg value))
      else and_then (grow memory (lv_calculateSize key value)) (\<lambda>(valueSpace, h).
           and_then (store_record h (unat valueSpace)
               \<lparr>rec_keySize = of_nat (length key), rec_dedupIndex = 0, rec_type = ucast type,
                rec_valSize = of_nat (length value)\<rparr> key value)
             (\<lambda>h'. Inr (valueSpace, h'))))"

text \<open>The overload for a value that is one of the frequent ones: its index is stored instead.\<close>

definition lv_calculateSize_index :: "bytes \<Rightarrow> u16 \<Rightarrow> u64" where
  "lv_calculateSize_index key index =
     6 + of_nat (length key) + (if index < 256 then 1 else 2)"

definition lv_addToEnd_index ::
  "bytes \<Rightarrow> u8 \<Rightarrow> u32 \<Rightarrow> u16 \<Rightarrow> memory_handler \<Rightarrow> (u64 \<times> memory_handler) outcome" where
  "lv_addToEnd_index key type valueSize index memory =
     (if length key > kKeyLength then Inl (Throw (key_too_large_msg key))
      else and_then (grow memory (lv_calculateSize_index key index)) (\<lambda>(valueSpace, h).
           and_then (store_record h (unat valueSpace)
               \<lparr>rec_keySize = of_nat (length key),
                rec_dedupIndex = (if index < 256 then kDedupFlag else kDedupExtendedFlag),
                rec_type = ucast type, rec_valSize = valueSize\<rparr>
               key (if index < 256 then [ucast index] else le16 index))
             (\<lambda>h'. Inr (valueSpace, h'))))"

text \<open>The slot of a new record; it throws where the offset does not fit its bits.\<close>

definition offset_bits_msg :: "linear_probe_value \<Rightarrow> string" where
  "offset_bits_msg v = ''offset bits '' @ lv_offsetBitsStr v @ '' too short''"

definition lv_set_slot ::
  "linear_probe_value \<Rightarrow> u64 \<Rightarrow> u64 \<Rightarrow> u64 \<Rightarrow> memory_handler \<Rightarrow> memory_handler \<times> u32 outcome" where
  "lv_set_slot v keySpaceOffset hashcode recordOffset memory =
     (let newValueOffset = recordOffset - lv_keyspaceSizeOffset v;
          slotOffset = newValueOffset AND lv_offsetMask v
      in if slotOffset \<noteq> newValueOffset then (memory, Inl (Throw (offset_bits_msg v)))
         else case mem_store memory (unat keySpaceOffset)
                     (le64 ((hashcode AND lv_hashcodeMask v) OR slotOffset)) of
                Inl e \<Rightarrow> (memory, Inl e)
              | Inr h \<Rightarrow> (h, Inr 0))"

definition lv_add ::
  "linear_probe_value \<Rightarrow> u64 \<Rightarrow> bytes \<Rightarrow> u64 \<Rightarrow> u8 \<Rightarrow> bytes \<Rightarrow> memory_handler \<Rightarrow>
     memory_handler \<times> u32 outcome" where
  "lv_add v keySpaceOffset key hashcode type value memory =
     (case lv_addToEnd key type value memory of
        Inl e \<Rightarrow> (memory, Inl e)
      | Inr (off, h) \<Rightarrow> lv_set_slot v keySpaceOffset hashcode off h)"

definition lv_add_index ::
  "linear_probe_value \<Rightarrow> u64 \<Rightarrow> bytes \<Rightarrow> u64 \<Rightarrow> u8 \<Rightarrow> u32 \<Rightarrow> u16 \<Rightarrow> memory_handler \<Rightarrow>
     memory_handler \<times> u32 outcome" where
  "lv_add_index v keySpaceOffset key hashcode type valueSize index memory =
     (case lv_addToEnd_index key type valueSize index memory of
        Inl e \<Rightarrow> (memory, Inl e)
      | Inr (off, h) \<Rightarrow> lv_set_slot v keySpaceOffset hashcode off h)"

section \<open>Reading values\<close>

definition lv_record_address :: "linear_probe_value \<Rightarrow> u64 \<Rightarrow> nat" where
  "lv_record_address v slot = unat ((slot AND lv_offsetMask v) + lv_keyspaceSizeOffset v)"

definition lv_stored_value :: "bytes \<Rightarrow> nat \<Rightarrow> LinearProbeRecord \<Rightarrow> bytes outcome" where
  "lv_stored_value m a r =
     slice m (a + 6 + unat (rec_keySize r)) (unat (rec_valSize r))"

text \<open>\<open>get\<close> with \<open>isExist\<close>, which it neither reads nor writes.\<close>

definition lv_get :: "linear_probe_value \<Rightarrow> bytes \<Rightarrow> u64 \<Rightarrow> u8 \<Rightarrow> bytes outcome" where
  "lv_get v dataSpace keySpaceOffset type =
     (if keySpaceOffset = AXONCACHE_KEY_NOT_FOUND then Inr []
      else and_then (load_u64 dataSpace (unat keySpaceOffset)) (\<lambda>slot.
           and_then (load_record dataSpace (lv_record_address v slot)) (\<lambda>r.
             if rec_type r \<noteq> ucast type then Inr []
             else lv_stored_value dataSpace (lv_record_address v slot) r)))"

text \<open>\<open>frequentValues[i]\<close>: undefined past the end of the vector.\<close>

definition vector_at :: "'a list \<Rightarrow> nat \<Rightarrow> 'a outcome" where
  "vector_at xs i = (if i < length xs then Inr (xs ! i) else Inl (Undefined Out_Of_Bounds))"

definition lv_frequent :: "bytes \<Rightarrow> nat \<Rightarrow> LinearProbeRecord \<Rightarrow> bytes list \<Rightarrow> bytes outcome" where
  "lv_frequent m a r frequentValues =
     (if rec_dedupIndex r AND kDedupFlag \<noteq> 0 \<and> frequentValues \<noteq> []
      then and_then (load_le m (a + 6 + unat (rec_keySize r)) 1) (vector_at frequentValues)
      else if rec_dedupIndex r AND kDedupExtendedFlag \<noteq> 0 \<and> frequentValues \<noteq> []
      then and_then (load_le m (a + 6 + unat (rec_keySize r)) 2) (vector_at frequentValues)
      else lv_stored_value m a r)"

definition lv_getFromSlot :: "linear_probe_value \<Rightarrow> bytes \<Rightarrow> u64 \<Rightarrow> u8 \<Rightarrow> bytes list \<Rightarrow> bytes outcome" where
  "lv_getFromSlot v dataSpace slot type frequentValues =
     and_then (load_record dataSpace (lv_record_address v slot)) (\<lambda>r.
       if rec_type r \<noteq> ucast type then Inr []
       else lv_frequent dataSpace (lv_record_address v slot) r frequentValues)"

definition lv_getWithTypeFromSlot ::
  "linear_probe_value \<Rightarrow> bytes \<Rightarrow> u64 \<Rightarrow> bytes list \<Rightarrow> (bytes \<times> CacheValueType) outcome" where
  "lv_getWithTypeFromSlot v dataSpace slot frequentValues =
     and_then (load_record dataSpace (lv_record_address v slot)) (\<lambda>r.
     and_then (lv_frequent dataSpace (lv_record_address v slot) r frequentValues) (\<lambda>b.
       Inr (b, CacheValueType_of (unat (rec_type r)))))"

text \<open>The overloads that take the slot's address; \<open>{}\<close> is the empty view and \<open>String\<close>.\<close>

definition lv_get_frequent ::
  "linear_probe_value \<Rightarrow> bytes \<Rightarrow> u64 \<Rightarrow> u8 \<Rightarrow> bytes list \<Rightarrow> bytes outcome" where
  "lv_get_frequent v dataSpace keySpaceOffset type frequentValues =
     (if keySpaceOffset = AXONCACHE_KEY_NOT_FOUND then Inr []
      else and_then (load_u64 dataSpace (unat keySpaceOffset)) (\<lambda>slot.
             lv_getFromSlot v dataSpace slot type frequentValues))"

definition lv_getWithType ::
  "linear_probe_value \<Rightarrow> bytes \<Rightarrow> u64 \<Rightarrow> bytes list \<Rightarrow> (bytes \<times> CacheValueType) outcome" where
  "lv_getWithType v dataSpace keySpaceOffset frequentValues =
     (if keySpaceOffset = AXONCACHE_KEY_NOT_FOUND then Inr ([], TString)
      else and_then (load_u64 dataSpace (unat keySpaceOffset)) (\<lambda>slot.
             lv_getWithTypeFromSlot v dataSpace slot frequentValues))"

definition lv_contains :: "u64 \<Rightarrow> bool" where
  "lv_contains keySpaceOffset \<longleftrightarrow> keySpaceOffset \<noteq> AXONCACHE_KEY_NOT_FOUND"

section \<open>Appending a record\<close>

text \<open>The manager that goes with a probe.\<close>

definition manager_of :: "linear_probe \<Rightarrow> linear_probe_value" where
  "manager_of p = LinearProbeValue (lp_offsetBits p) (lp_numberOfKeySlots p) (lp_hashcodeMask p) (lp_offsetMask p)"

lemma manager_of_simps [simp]:
  "lv_hashcodeMask (manager_of p) = lp_hashcodeMask p"
  "lv_offsetMask (manager_of p) = lp_offsetMask p"
  "lv_offsetBitsStr (manager_of p) = show_nat (unat (lp_offsetBits p))"
  "probe_ok p \<Longrightarrow> lv_keyspaceSizeOffset (manager_of p) = lp_keyspaceSizeOffset p"
  by (simp_all add: manager_of_def LinearProbeValue_def probe_ok_bits)

lemma store_record_eq:
  assumes "a + 6 + length key + length tail \<le> length (mData h)"
  shows "store_record h a r key tail = mem_store h a (record_header r @ key @ tail)"
proof -
  have "store_record h a r key tail =
      and_then (and_then (mem_store h a (record_header r)) (\<lambda>h1. mem_store h1 (a + length (record_header r)) key))
        (\<lambda>h2. mem_store h2 (a + length (record_header r @ key)) tail)"
    by (simp add: store_record_def and_then_assoc ac_simps)
  also have "\<dots> = mem_store h a (record_header r @ key @ tail)"
    using assms mem_store_append [of a "record_header r" key h]
      mem_store_append [of a "record_header r @ key" tail h]
    by simp
  finally show ?thesis .
qed

text \<open>
  Growing and filling: whatever the record, the bytes in use are kept, the record stands
  where the data ended, and the data now ends behind it.
\<close>

lemma append_record:
  assumes ok: "mem_ok h" and k: "mKind h = Malloc_Handler"
    and n: "unat n = 6 + length key + length tail"
    and lim: "unat (mDataSize h) + unat n \<le> mem_limit"
  obtains h' where
    "and_then (grow h n) (\<lambda>(a, h1). and_then (store_record h1 (unat a) r key tail) (\<lambda>h2. Inr (a, h2)))
       = Inr (mDataSize h, h')"
    and "mem_ok h'" and "mKind h' = Malloc_Handler"
    and "unat (mDataSize h') = unat (mDataSize h) + unat n"
    and "take (unat (mDataSize h)) (mData h') = used h"
    and "slice (mData h') (unat (mDataSize h)) (unat n) = Inr (record_header r @ key @ tail)"
proof -
  obtain h1 where g: "grow h n = Inr (mDataSize h, h1)" and ok1: "mem_ok h1"
    and ds: "unat (mDataSize h1) = unat (mDataSize h) + unat n"
    and pre: "take (unat (mDataSize h)) (mData h1) = used h" and k1: "mKind h1 = Malloc_Handler"
    using grow_malloc [OF ok k lim] by metis
  have room: "unat (mDataSize h) + 6 + length key + length tail \<le> length (mData h1)"
    using ok1 ds n by (simp add: mem_ok_def)
  then obtain h2 where st: "mem_store h1 (unat (mDataSize h)) (record_header r @ key @ tail) = Inr h2"
    using mem_store_exists [of "unat (mDataSize h)" "record_header r @ key @ tail" h1] by auto
  note fr = mem_store_frame [OF st]
  show ?thesis
  proof (rule that)
    show "and_then (grow h n) (\<lambda>(a, h1). and_then (store_record h1 (unat a) r key tail) (\<lambda>h2. Inr (a, h2)))
       = Inr (mDataSize h, h2)"
      using store_record_eq [OF room, of r] st by (simp add: g)
    show "mem_ok h2" using mem_store_ok [OF st ok1] .
    show "mKind h2 = Malloc_Handler" "unat (mDataSize h2) = unat (mDataSize h) + unat n"
      using fr k1 ds by simp_all
    show "take (unat (mDataSize h)) (mData h2) = used h"
      using splice_take [OF fr(7)] pre by simp
    show "slice (mData h2) (unat (mDataSize h)) (unat n) = Inr (record_header r @ key @ tail)"
      using slice_splice_same [OF fr(7)] n by (simp add: ac_simps)
  qed
qed

lemma unat_lv_calculateSize:
  assumes "length key \<le> kKeyLength" and "length value \<le> kValueLength"
  shows "unat (lv_calculateSize key value) = 6 + length key + length value"
proof -
  have "length key < 2 ^ 64" "length value < 2 ^ 64"
    using assms by (simp_all add: kKeyLength_def kValueLength_def)
  then have "unat (of_nat (length key) :: u64) = length key"
    "unat (of_nat (length value) :: u64) = length value"
    by (simp_all add: unat_of_nat)
  with assms show ?thesis
    by (simp add: lv_calculateSize_def unat_word_ariths kKeyLength_def kValueLength_def)
qed

lemma unat_lv_calculateSize_index:
  assumes "length key \<le> kKeyLength"
  shows "unat (lv_calculateSize_index key index) = 6 + length key + (if index < 256 then 1 else 2)"
proof -
  have "unat (of_nat (length key) :: u64) = length key"
    using assms by (simp add: unat_of_nat kKeyLength_def)
  with assms show ?thesis
    by (simp add: lv_calculateSize_index_def unat_word_ariths kKeyLength_def)
qed

section \<open>Writing the slot\<close>

lemma unat_of_nat_u64: "n < 2 ^ 64 \<Longrightarrow> unat (of_nat n :: u64) = n"
  by (simp add: unat_of_nat)

text \<open>
  The slot of a record at the end \<open>D\<close> of the old data: where the offset fits, the table
  gains the entry; where it does not, the call throws and has written no slot.
\<close>

lemma set_slot_fits:
  assumes ok: "probe_ok p" and repr: "lp_repr p H (mData h) D T"
    and a: "unat a = D" and i: "i < slots p"
    and fits: "(a - lp_keyspaceSizeOffset p) AND lp_offsetMask p = a - lp_keyspaceSizeOffset p"
    and at: "entry_at (mData h) D k e" and D': "D + length (encode_entry k e) \<le> D'"
    and len: "D' \<le> length (mData h)"
  obtains h' where "lv_set_slot (manager_of p) (of_nat (8 * i)) (H k) a h = (h', Inr 0)"
    and "lp_repr p H (mData h') D' (T[i := Some (k, e)])"
    and "mem_store h (8 * i) (le64 ((H k AND lp_hashcodeMask p) OR (a - lp_keyspaceSizeOffset p))) = Inr h'"
proof -
  let ?w = "a - lp_keyspaceSizeOffset p"
  let ?slot = "(H k AND lp_hashcodeMask p) OR ?w"
  have kD: "keyspace_bytes p \<le> D" using repr by (simp add: lp_repr_def)
  have ko: "unat (lp_keyspaceSizeOffset p) = keyspace_bytes p - 8"
    using ok by (rule unat_keyspaceSizeOffset)
  have n: "0 < slots p" using probe_ok_slots [OF ok] by simp
  have le: "lp_keyspaceSizeOffset p \<le> a"
    using kD a by (simp add: word_le_nat_alt ko)
  then have uw: "unat ?w = D - (keyspace_bytes p - 8)"
    by (simp add: unat_sub a ko)
  then have nz: "?w \<noteq> 0" using kD n by (auto simp: unat_eq_0 [symmetric])
  note sp = mask_split [OF probe_ok_bits(3) [OF ok] probe_ok_bits(4) [OF ok] fits, of "H k"]
  have holds: "slot_holds p H (mData h) D' ?slot (Some (k, e))"
    using sp nz a kD at D' by (simp add: slot_holds_def)
  have i8: "unat (of_nat (8 * i) :: u64) = 8 * i"
    using i probe_ok_slots(2) [OF ok] by (intro unat_of_nat_u64) (simp add: mem_limit_def)
  have room: "8 * i + length (le64 ?slot) \<le> length (mData h)"
    using i kD len D' by simp
  then obtain h' where st: "mem_store h (8 * i) (le64 ?slot) = Inr h'"
    using mem_store_exists by blast
  have "lp_repr p H (mData h) D' T"
    using D' len by (intro lp_repr_prefix [OF repr]) auto
  from lp_repr_write_slot [OF this i mem_store_frame(7) [OF st] holds]
  have "lp_repr p H (mData h') D' (T[i := Some (k, e)])" .
  moreover have "lv_set_slot (manager_of p) (of_nat (8 * i)) (H k) a h = (h', Inr 0)"
    using fits st ok i8 by (simp add: lv_set_slot_def Let_def)
  ultimately show ?thesis using that st by blast
qed

lemma set_slot_throws:
  assumes "probe_ok p"
    and "(a - lp_keyspaceSizeOffset p) AND lp_offsetMask p \<noteq> a - lp_keyspaceSizeOffset p"
  shows "lv_set_slot (manager_of p) off hc a h = (h, Inl (Throw (offset_bits_msg (manager_of p))))"
  using assms by (simp add: lv_set_slot_def Let_def)

section \<open>Reading an entry back\<close>

text \<open>The type of a value as the byte the callers pass.\<close>

definition type_byte :: "CacheValueType \<Rightarrow> u8" where
  "type_byte t = of_nat (CacheValueType_code t)"

lemma unat_type_byte [simp]: "unat (type_byte t) = CacheValueType_code t"
  by (cases t) (simp_all add: type_byte_def)

lemma ucast_type_byte: "(ucast (type_byte t) :: u32) = of_nat (CacheValueType_code t)"
  by (cases t) (simp_all add: type_byte_def)

lemma ucast_type_byte_mask [simp]: "(ucast (type_byte t) :: u32) AND 7 = ucast (type_byte t)"
  by (cases t) (simp_all add: type_byte_def)

lemma ucast_type_byte_inject [simp]:
  "(ucast (type_byte t) :: u32) = ucast (type_byte t') \<longleftrightarrow> t = t'"
  by (cases t; cases t') (simp_all add: type_byte_def)

lemma unat_ucast_type_byte [simp]: "unat (ucast (type_byte t) :: u32) = CacheValueType_code t"
  by (cases t) (simp_all add: type_byte_def)

text \<open>The two forms of entry that \<open>add\<close> writes, and the value each stands for.\<close>

definition plain_entry :: "CacheValueType \<Rightarrow> bytes \<Rightarrow> lp_entry" where
  "plain_entry t v = \<lparr>e_dedup = 0, e_type = ucast (type_byte t), e_valSize = of_nat (length v),
     e_payload = v\<rparr>"

definition index_entry :: "CacheValueType \<Rightarrow> u32 \<Rightarrow> u16 \<Rightarrow> lp_entry" where
  "index_entry t sz index =
     \<lparr>e_dedup = (if index < 256 then kDedupFlag else kDedupExtendedFlag),
      e_type = ucast (type_byte t), e_valSize = sz,
      e_payload = (if index < 256 then [ucast index] else le16 index)\<rparr>"

definition entry_stands_for :: "bytes list \<Rightarrow> lp_entry \<Rightarrow> CacheValueType \<Rightarrow> bytes \<Rightarrow> bool" where
  "entry_stands_for fv e t v \<longleftrightarrow>
     (e = plain_entry t v \<and> length v \<le> kValueLength) \<or>
     (\<exists>sz index. e = index_entry t sz index \<and> unat index < length fv \<and> fv ! unat index = v)"

lemma valSize_mask:
  assumes "length v \<le> kValueLength"
  shows "unat ((of_nat (length v) :: u32) AND 16777215) = length v"
  using assms
  by (simp add: mask_consts unsigned_take_bit_eq unat_of_nat kValueLength_def take_bit_eq_mod
      unat_mod flip: take_bit_eq_mask)

lemma unat_ucast_index: "unat (ucast (index :: u16) :: u8) = unat index mod 256"
  by (simp add: unsigned_ucast_eq take_bit_eq_mod)

lemma entry_frequent:
  assumes at: "entry_at m a k e" and v: "entry_stands_for fv e t v"
  shows "load_record m a = Inr (stored_record (entry_header k e))"
    and "rec_type (stored_record (entry_header k e)) = ucast (type_byte t)"
    and "lv_frequent m a (stored_record (entry_header k e)) fv = Inr v"
proof -
  show "load_record m a = Inr (stored_record (entry_header k e))"
    using at by (rule entry_at_record)
  show "rec_type (stored_record (entry_header k e)) = ucast (type_byte t)"
    using v by (auto simp: entry_stands_for_def stored_record_def entry_header_def plain_entry_def
        index_entry_def)
  have lk: "unat (of_nat (length k) :: u16) = length k"
    using at by (simp add: entry_at_def kKeyLength_def unat_of_nat)
  have key: "unat (rec_keySize (stored_record (entry_header k e))) = length k"
    by (simp add: stored_record_def entry_header_def lk)
  note pay = entry_at_payload [OF at, of 0, simplified]
  from v consider (plain) "e = plain_entry t v" "length v \<le> kValueLength"
    | (index) sz index where "e = index_entry t sz index" "unat index < length fv" "fv ! unat index = v"
    by (auto simp: entry_stands_for_def)
  then show "lv_frequent m a (stored_record (entry_header k e)) fv = Inr v"
  proof cases
    case plain
    have "slice m (a + 6 + length k) (length v) = Inr v"
      using pay [of "length v"] plain by (simp add: plain_entry_def)
    then show ?thesis
      using plain by (simp add: lv_frequent_def lv_stored_value_def key)
        (simp add: stored_record_def entry_header_def plain_entry_def valSize_mask lk)
  next
    case index
    then have fv: "fv \<noteq> []" by auto
    show ?thesis
    proof (cases "index < 256")
      case True
      then have u: "unat index < 256" by (simp add: word_less_nat_alt)
      have "slice m (a + 6 + length k) 1 = Inr [ucast index]"
        using pay [of 1] index True by (simp add: index_entry_def slice_def)
      then have "load_le m (a + 6 + length k) 1 = Inr (unat index)"
        using u by (simp add: load_le_def unat_ucast_index)
      then show ?thesis
        using index True fv by (simp add: lv_frequent_def key vector_at_def)
          (simp add: stored_record_def entry_header_def index_entry_def kDedupFlag_def
            kDedupExtendedFlag_def vector_at_def lk)
    next
      case False
      have "slice m (a + 6 + length k) 2 = Inr (le16 index)"
        using pay [of 2] index False by (simp add: index_entry_def slice_def)
      then have "load_le m (a + 6 + length k) 2 = Inr (unat index)"
        by (simp add: load_le_def le16_def)
      then show ?thesis
        using index False fv by (simp add: lv_frequent_def key vector_at_def)
          (simp add: stored_record_def entry_header_def index_entry_def kDedupFlag_def
            kDedupExtendedFlag_def vector_at_def lk)
    qed
  qed
qed

lemma slot_reads:
  assumes ok: "probe_ok p" and holds: "slot_holds p H m D slot (Some (k, e))"
    and v: "entry_stands_for fv e t v"
  shows "lv_getFromSlot (manager_of p) m slot (type_byte t') fv = Inr (if t' = t then v else [])"
    and "lv_getWithTypeFromSlot (manager_of p) m slot fv = Inr (v, t)"
proof -
  let ?a = "lv_record_address (manager_of p) slot"
  have at: "entry_at m ?a k e"
    using holds ok by (simp add: slot_holds_def lv_record_address_def)
  note r = entry_frequent [OF at v]
  show "lv_getFromSlot (manager_of p) m slot (type_byte t') fv = Inr (if t' = t then v else [])"
    using r by (auto simp: lv_getFromSlot_def)
  show "lv_getWithTypeFromSlot (manager_of p) m slot fv = Inr (v, t)"
    using r by (simp add: lv_getWithTypeFromSlot_def)
qed

text \<open>Without frequent values, the plain \<open>get\<close> reads the same.\<close>

lemma lv_frequent_Nil: "lv_frequent m a r [] = lv_stored_value m a r"
  by (simp add: lv_frequent_def)

lemma lv_get_eq_frequent: "lv_get v m off t = lv_get_frequent v m off t []"
  unfolding lv_get_def lv_get_frequent_def lv_getFromSlot_def lv_frequent_Nil ..

lemma index_entry_payload [simp]:
  "length (e_payload (index_entry t sz index)) = (if index < 256 then 1 else 2)"
  by (simp add: index_entry_def)

lemma plain_entry_payload [simp]: "e_payload (plain_entry t v) = v"
  by (simp add: plain_entry_def)

end
