(* ===== verification/Cache_Header.thy ===== *)
theory Cache_Header
  imports Axon_Constants
begin

text \<open>
  The file header: \<open>struct CacheHeader\<close> of \<open>domain/CacheHeader.h\<close> with its layout in
  memory (104 bytes, little-endian, no padding), and \<open>GenerateHeader\<close> of
  \<open>writer/detail/GenerateHeader.cpp\<close>, which writes it in front of the data and reads it
  back.  The clock and the bytes of \<open>cacheName\<close> that the code leaves uninitialised are
  arguments.
\<close>

section \<open>The structure and its layout\<close>

record CacheHeader =
  hdr_magicNumber :: u16
  hdr_headerSize :: u16
  hdr_nameStart :: u16
  hdr_version :: u16
  hdr_cacheType :: u16
  hdr_hashcodeBits :: u16
  hdr_offsetBits :: u16
  hdr_hashFuncId :: u16
  hdr_reserved :: u32
  hdr_maxCollisions :: u32
  hdr_maxLoadFactor :: u64
  hdr_creationTimeMs :: u64
  hdr_numberOfKeySlots :: u64
  hdr_numberOfEntries :: u64
  hdr_dataSize :: u64
  hdr_size :: u64
  hdr_cacheName :: bytes

definition sizeof_CacheHeader :: nat where "sizeof_CacheHeader = 104"
definition offsetof_cacheName :: nat where "offsetof_cacheName = 72"

definition zero_header :: CacheHeader where
  "zero_header = \<lparr>hdr_magicNumber = 0, hdr_headerSize = 0, hdr_nameStart = 0, hdr_version = 0,
     hdr_cacheType = 0, hdr_hashcodeBits = 0, hdr_offsetBits = 0, hdr_hashFuncId = 0,
     hdr_reserved = 0, hdr_maxCollisions = 0, hdr_maxLoadFactor = 0, hdr_creationTimeMs = 0,
     hdr_numberOfKeySlots = 0, hdr_numberOfEntries = 0, hdr_dataSize = 0, hdr_size = 0,
     hdr_cacheName = replicate 32 0\<rparr>"

definition encode_header :: "CacheHeader \<Rightarrow> bytes" where
  "encode_header h =
     le16 (hdr_magicNumber h) @ le16 (hdr_headerSize h) @ le16 (hdr_nameStart h) @
     le16 (hdr_version h) @ le16 (hdr_cacheType h) @ le16 (hdr_hashcodeBits h) @
     le16 (hdr_offsetBits h) @ le16 (hdr_hashFuncId h) @ le32 (hdr_reserved h) @
     le32 (hdr_maxCollisions h) @ le64 (hdr_maxLoadFactor h) @ le64 (hdr_creationTimeMs h) @
     le64 (hdr_numberOfKeySlots h) @ le64 (hdr_numberOfEntries h) @ le64 (hdr_dataSize h) @
     le64 (hdr_size h) @ hdr_cacheName h"

text \<open>The member at an offset of the structure.\<close>

definition field_val :: "bytes \<Rightarrow> nat \<Rightarrow> nat \<Rightarrow> nat" where
  "field_val b off n = le_val (take n (drop off b))"

definition decode_header :: "bytes \<Rightarrow> CacheHeader" where
  "decode_header b =
     \<lparr>hdr_magicNumber = of_nat (field_val b 0 2), hdr_headerSize = of_nat (field_val b 2 2),
      hdr_nameStart = of_nat (field_val b 4 2), hdr_version = of_nat (field_val b 6 2),
      hdr_cacheType = of_nat (field_val b 8 2), hdr_hashcodeBits = of_nat (field_val b 10 2),
      hdr_offsetBits = of_nat (field_val b 12 2), hdr_hashFuncId = of_nat (field_val b 14 2),
      hdr_reserved = of_nat (field_val b 16 4), hdr_maxCollisions = of_nat (field_val b 20 4),
      hdr_maxLoadFactor = of_nat (field_val b 24 8), hdr_creationTimeMs = of_nat (field_val b 32 8),
      hdr_numberOfKeySlots = of_nat (field_val b 40 8), hdr_numberOfEntries = of_nat (field_val b 48 8),
      hdr_dataSize = of_nat (field_val b 56 8), hdr_size = of_nat (field_val b 64 8),
      hdr_cacheName = take 32 (drop 72 b)\<rparr>"

lemma length_encode_header:
  "length (hdr_cacheName h) = kMaxCacheNameSize \<Longrightarrow> length (encode_header h) = sizeof_CacheHeader"
  by (simp add: encode_header_def sizeof_CacheHeader_def kMaxCacheNameSize_def)

lemma le_val_le [simp]:
  "le_val (le16 a) = unat a" "le_val (le32 b) = unat b" "le_val (le64 c) = unat c"
  by (simp_all add: le16_def le32_def le64_def)

lemma decode_encode_header:
  assumes "length (hdr_cacheName h) = kMaxCacheNameSize"
  shows "decode_header (encode_header h @ rest) = h"
  using assms
  by (cases h) (simp add: decode_header_def encode_header_def field_val_def kMaxCacheNameSize_def)

section \<open>Writing the header\<close>

text \<open>What \<open>GenerateHeader::write\<close> asks of a cache: its virtual accessors.\<close>

record cache_access =
  acc_version :: u16
  acc_type :: CacheType
  acc_hashcodeBits :: u16
  acc_offsetBits :: u16
  acc_hashFuncId :: u16
  acc_maxCollisions :: u32
  acc_maxLoadFactor :: u64
  acc_numberOfKeySlots :: u64
  acc_numberOfEntries :: u64
  acc_dataSize :: u64
  acc_size :: u64

text \<open>
  \<open>snprintf( buf, n, "%s", s )\<close> into a buffer whose old bytes are \<open>junk\<close>: at most
  \<open>n - 1\<close> bytes of the C string, then a null byte.
\<close>

definition c_string :: "bytes \<Rightarrow> bytes" where
  "c_string s = takeWhile (\<lambda>b. b \<noteq> 0) s"

definition snprintf_s :: "bytes \<Rightarrow> nat \<Rightarrow> bytes \<Rightarrow> bytes" where
  "snprintf_s junk n s =
     (let w = take (n - 1) (c_string s) @ [0] in w @ drop (length w) junk)"

definition make_header :: "cache_access \<Rightarrow> u64 \<Rightarrow> bytes \<Rightarrow> bytes \<Rightarrow> CacheHeader" where
  "make_header c now junk name =
     \<lparr>hdr_magicNumber = kCacheHeaderMagicNumber, hdr_headerSize = of_nat sizeof_CacheHeader,
      hdr_nameStart = of_nat offsetof_cacheName, hdr_version = acc_version c,
      hdr_cacheType = of_nat (CacheType_code (acc_type c)), hdr_hashcodeBits = acc_hashcodeBits c,
      hdr_offsetBits = acc_offsetBits c, hdr_hashFuncId = acc_hashFuncId c,
      hdr_reserved = 0, hdr_maxCollisions = acc_maxCollisions c,
      hdr_maxLoadFactor = acc_maxLoadFactor c, hdr_creationTimeMs = now,
      hdr_numberOfKeySlots = acc_numberOfKeySlots c, hdr_numberOfEntries = acc_numberOfEntries c,
      hdr_dataSize = acc_dataSize c, hdr_size = acc_size c,
      hdr_cacheName = snprintf_s junk (min (length name + 1) kMaxCacheNameSize) name\<rparr>"

definition GenerateHeader_write :: "cache_access \<Rightarrow> u64 \<Rightarrow> bytes \<Rightarrow> bytes \<Rightarrow> bytes" where
  "GenerateHeader_write c now junk name = encode_header (make_header c now junk name)"

section \<open>Reading the header\<close>

text \<open>The loop that copies the name, at most \<open>n\<close> bytes, out of the structure's bytes.\<close>

fun read_name :: "bytes \<Rightarrow> nat \<Rightarrow> nat \<Rightarrow> bytes outcome" where
  "read_name m off 0 = Inr []"
| "read_name m off (Suc n) =
     and_then (slice m off 1) (\<lambda>c.
       if c = [0] then Inr []
       else and_then (read_name m (Suc off) n) (\<lambda>cs. Inr (c @ cs)))"

definition malformed_header_msg :: "CacheHeader \<Rightarrow> string" where
  "malformed_header_msg h =
     ''malformed cache, header size '' @ show_nat (unat (hdr_headerSize h)) @
     '', name start '' @ show_nat (unat (hdr_nameStart h))"

definition GenerateHeader_read :: "bytes \<Rightarrow> (bytes \<times> CacheHeader) outcome" where
  "GenerateHeader_read file =
     (let buf = take sizeof_CacheHeader file; info = decode_header buf
      in if length file < sizeof_CacheHeader then Inl (Throw ''malformed cache'')
         else if int (unat (hdr_headerSize info)) - int (unat (hdr_nameStart info)) \<noteq> int kMaxCacheNameSize
         then Inl (Throw (malformed_header_msg info))
         else and_then (read_name buf (unat (hdr_nameStart info)) kMaxCacheNameSize)
                (\<lambda>name. Inr (name, info)))"

section \<open>Round trip\<close>

lemma length_snprintf_s:
  assumes "length junk = 32" and "0 < n" and "n \<le> 32"
  shows "length (snprintf_s junk n s) = 32"
  using assms by (auto simp: snprintf_s_def Let_def)

lemma read_name_string:
  assumes "drop off m = w @ 0 # rest" and "0 \<notin> set w" and "length w < n" and "off \<le> length m"
  shows "read_name m off n = Inr w"
  using assms
proof (induction n arbitrary: off w)
  case 0
  then show ?case by simp
next
  case (Suc n)
  have lm: "length m = off + length (w @ 0 # rest)"
    using Suc.prems(1,4) by (metis length_drop le_add_diff_inverse)
  show ?case
  proof (cases w)
    case Nil
    with Suc.prems lm show ?thesis by (simp add: slice_def)
  next
    case (Cons c cs)
    have "drop (Suc off) m = cs @ 0 # rest"
      using Suc.prems(1) Cons by (metis drop_Suc tl_drop append_Cons list.sel(3))
    with Suc.IH [of "Suc off" cs] Suc.prems Cons lm have "read_name m (Suc off) n = Inr cs"
      by simp
    with Suc.prems Cons lm show ?thesis by (simp add: slice_def)
  qed
qed

text \<open>The name a header carries: at most 31 bytes, up to the first null byte.\<close>

definition header_name :: "bytes \<Rightarrow> bytes" where
  "header_name name = take 31 (c_string name)"

lemma c_string_no_null: "0 \<notin> set (c_string s)"
  unfolding c_string_def using set_takeWhileD by fastforce

lemma length_c_string: "length (c_string s) \<le> length s"
  unfolding c_string_def by (rule length_takeWhile_le)

lemma take_c_string_name:
  "take (min (length name + 1) kMaxCacheNameSize - 1) (c_string name) = header_name name"
  using length_c_string [of name] by (auto simp: header_name_def kMaxCacheNameSize_def min_def)

lemma snprintf_name:
  "snprintf_s junk (min (length name + 1) kMaxCacheNameSize) name =
     header_name name @ 0 # drop (Suc (length (header_name name))) junk"
  unfolding snprintf_s_def Let_def take_c_string_name by simp

lemma header_read_write:
  assumes junk: "length junk = kMaxCacheNameSize"
  shows "GenerateHeader_read (GenerateHeader_write c now junk name @ rest) =
           Inr (header_name name, make_header c now junk name)"
proof -
  let ?h = "make_header c now junk name"
  let ?b = "encode_header ?h"
  have ln: "length (hdr_cacheName ?h) = kMaxCacheNameSize"
    using junk length_snprintf_s [of junk "min (length name + 1) kMaxCacheNameSize" name]
    by (simp add: make_header_def kMaxCacheNameSize_def)
  have lb: "length ?b = sizeof_CacheHeader"
    using ln by (rule length_encode_header)
  have dec: "decode_header ?b = ?h"
    using decode_encode_header [OF ln, of "[]"] by simp
  have sz: "unat (hdr_headerSize ?h) = 104" "unat (hdr_nameStart ?h) = 72"
    "uint (hdr_headerSize ?h) = 104" "uint (hdr_nameStart ?h) = 72"
    by (simp_all add: make_header_def sizeof_CacheHeader_def offsetof_cacheName_def)
  have "drop 72 ?b = hdr_cacheName ?h"
    by (simp add: encode_header_def)
  also have "\<dots> = header_name name @ 0 # drop (Suc (length (header_name name))) junk"
    by (simp only: make_header_def snprintf_name CacheHeader.simps)
  finally have nm: "drop 72 ?b = \<dots>" .
  have "0 \<notin> set (header_name name)"
    unfolding header_name_def using c_string_no_null [of name] by (meson in_set_takeD)
  moreover have "length (header_name name) < 32" by (simp add: header_name_def)
  ultimately have "read_name ?b 72 32 = Inr (header_name name)"
    using lb by (intro read_name_string [OF nm]) (simp_all add: sizeof_CacheHeader_def)
  then show ?thesis
    using lb by (simp add: GenerateHeader_read_def GenerateHeader_write_def Let_def dec sz
        kMaxCacheNameSize_def)
qed

text \<open>C35: reading a header that was written gives back every field, and the cache name up to its first
  NUL and at most 31 bytes of it, whatever data follows in the file.\<close>

theorem header_round_trip:
  assumes "length junk = kMaxCacheNameSize"
  shows "GenerateHeader_read (GenerateHeader_write c now junk name @ rest) =
    Inr (take 31 (takeWhile (\<lambda>b. b \<noteq> 0) name), make_header c now junk name) \<and>
    length (GenerateHeader_write c now junk name) = sizeof_CacheHeader"
proof -
  have "length (hdr_cacheName (make_header c now junk name)) = kMaxCacheNameSize"
    using assms length_snprintf_s [of junk "min (length name + 1) kMaxCacheNameSize" name]
    by (simp add: make_header_def kMaxCacheNameSize_def)
  then show ?thesis
    using header_read_write [OF assms] length_encode_header
    by (simp add: header_name_def c_string_def GenerateHeader_write_def)
qed

theorem header_round_trip_witness:
  "\<forall>c. \<exists>h. GenerateHeader_read (GenerateHeader_write c 5 (replicate 32 1) [65, 66, 0, 67] @ [9]) = Inr ([65, 66], h) \<and>
     hdr_creationTimeMs h = 5"
  using header_round_trip [of "replicate 32 1" _ 5 "[65, 66, 0, 67]" "[9]"]
  by (simp add: kMaxCacheNameSize_def make_header_def)

end
