(* ===== verification/Double_Bits.thy ===== *)
theory Double_Bits
  imports Axon_Base
begin

text \<open>
  The arithmetic on \<open>double\<close> that decides how many entries a cache accepts:
  \<open>mMaxNumberOfEntries( numberOfKeySlots * maxLoadFactor )\<close> and the comparison of the
  load factor with 0.8 (\<open>HashedCacheBase.h\<close>).  A double is its 64 bits.  Products are
  rounded to nearest, ties to even, at 53 significant bits, as IEEE-754 does; results that
  would overflow or be subnormal need no case of their own, since the conversion to
  \<open>uint64_t\<close> that follows is undefined for the former and zero for the latter.
\<close>

section \<open>Decoding\<close>

type_synonym double = u64

datatype dval = Finite bool nat int | Infinite bool | NaN

definition decode_double :: "double \<Rightarrow> dval" where
  "decode_double d =
     (let s = bit d 63; e = unat (drop_bit 52 d AND 2047); f = unat (d AND 4503599627370495)
      in if e = 2047 then (if f = 0 then Infinite s else NaN)
         else if e = 0 then Finite s f (-1074)
         else Finite s (f + 2 ^ 52) (int e - 1075))"

text \<open>Rounding a natural number to 53 significant bits.\<close>

function excess_bits :: "nat \<Rightarrow> nat" where
  "excess_bits m = (if m < 2 ^ 53 then 0 else Suc (excess_bits (m div 2)))"
  by pat_completeness auto
termination
  by (relation "measure id") auto

declare excess_bits.simps [simp del]

definition round53 :: "nat \<Rightarrow> nat" where
  "round53 m =
     (let s = excess_bits m; q = m div 2 ^ s; r = m mod 2 ^ s
      in if s = 0 then m
         else if 2 * r > 2 ^ s \<or> (2 * r = 2 ^ s \<and> odd q) then Suc q * 2 ^ s else q * 2 ^ s)"

definition double_gt :: "dval \<Rightarrow> dval \<Rightarrow> bool" where
  "double_gt a b =
     (case (a, b) of
        (Finite s m e, Finite t n f) \<Rightarrow>
          (let k = min e f; x = int m * 2 ^ nat (e - k); y = int n * 2 ^ nat (f - k)
           in (if s then - x else x) > (if t then - y else y))
      | (Infinite s, Finite _ _ _) \<Rightarrow> \<not> s
      | (Finite _ _ _, Infinite t) \<Rightarrow> t
      | (Infinite s, Infinite t) \<Rightarrow> \<not> s \<and> t
      | _ \<Rightarrow> False)"

section \<open>The load limit\<close>

definition kLinearProbeMaxLoadFactor :: double where
  "kLinearProbeMaxLoadFactor = 0x3FE999999999999A"

text \<open>\<open>uint64_t * double\<close>, converted back to \<open>uint64_t\<close> (truncating).\<close>

definition max_entries :: "u64 \<Rightarrow> double \<Rightarrow> u64 outcome" where
  "max_entries n d =
     (case decode_double d of
        NaN \<Rightarrow> Inl (Undefined Float_To_Integer)
      | Infinite s \<Rightarrow> Inl (Undefined Float_To_Integer)
      | Finite s m e \<Rightarrow>
          (let p = round53 (round53 (unat n) * m);
               q = (if 0 \<le> e then p * 2 ^ nat e else p div 2 ^ nat (- e))
           in if (s \<and> 0 < q) \<or> 2 ^ 64 \<le> q then Inl (Undefined Float_To_Integer)
              else Inr (of_nat q)))"

definition load_factor_too_big :: "double \<Rightarrow> bool" where
  "load_factor_too_big d \<longleftrightarrow> double_gt (decode_double d) (decode_double kLinearProbeMaxLoadFactor)"

section \<open>The limit leaves a slot free\<close>

lemma excess_bits_le: "0 < excess_bits m \<Longrightarrow> 2 ^ (52 + excess_bits m) \<le> m"
proof (induction m rule: excess_bits.induct)
  case (1 m)
  then have big: "\<not> m < 2 ^ 53" and e: "excess_bits m = Suc (excess_bits (m div 2))"
    by (auto simp: excess_bits.simps [of m] split: if_splits)
  show ?case
  proof (cases "excess_bits (m div 2) = 0")
    case True
    with big e show ?thesis by simp
  next
    case False
    with 1 big have "2 ^ (52 + excess_bits (m div 2)) \<le> m div 2" by simp
    then have "2 * 2 ^ (52 + excess_bits (m div 2)) \<le> m" by simp
    then show ?thesis unfolding e by (simp only: add_Suc_right power_Suc)
  qed
qed

lemma round53_le: "round53 m * 2 ^ 52 \<le> m * (2 ^ 52 + 1)"
proof (cases "excess_bits m = 0")
  case True
  then show ?thesis by (simp add: round53_def)
next
  case False
  let ?s = "excess_bits m"
  have "round53 m \<le> Suc (m div 2 ^ ?s) * 2 ^ ?s"
    by (simp add: round53_def Let_def)
  also have "\<dots> \<le> m + 2 ^ ?s"
    by (simp add: div_times_less_eq_dividend)
  finally have "round53 m * 2 ^ 52 \<le> (m + 2 ^ ?s) * 2 ^ 52"
    by (rule mult_le_mono1)
  also have "\<dots> = m * 2 ^ 52 + 2 ^ (52 + ?s)"
    by (simp add: distrib_right power_add)
  also have "\<dots> \<le> m * 2 ^ 52 + m"
    using excess_bits_le False by simp
  finally show ?thesis by (simp add: distrib_left)
qed

lemma decode_max_load:
  "decode_double kLinearProbeMaxLoadFactor = Finite False 7205759403792794 (-53)"
  by (simp add: decode_double_def kLinearProbeMaxLoadFactor_def Let_def)

text \<open>A positive value that is not above 0.8 is a fraction \<open>m / 2^E\<close> with this bound.\<close>

lemma load_factor_bound:
  assumes d: "decode_double d = Finite False m e" and ok: "\<not> load_factor_too_big d" and m: "m \<noteq> 0"
  shows "e < 0" and "m * 2 ^ 53 \<le> 7205759403792794 * 2 ^ nat (- e)"
proof -
  have cmp: "int m * 2 ^ nat (e - min e (-53)) \<le> 7205759403792794 * 2 ^ nat (-53 - min e (-53))"
    using ok by (simp add: load_factor_too_big_def d decode_max_load double_gt_def Let_def not_less)
  show e: "e < 0"
  proof (rule ccontr)
    assume pos: "\<not> e < 0"
    then have le: "int m * 2 ^ nat (e + 53) \<le> 7205759403792794"
      using cmp by (simp add: min_def)
    have "(2 :: int) ^ 53 \<le> 2 ^ nat (e + 53)"
      using pos by (intro power_increasing) auto
    also have "\<dots> \<le> int m * 2 ^ nat (e + 53)"
      using m by (simp add: mult_le_cancel_right1)
    finally show False using le by simp
  qed
  have "int m * 2 ^ 53 \<le> 7205759403792794 * 2 ^ nat (- e)"
  proof (cases "e \<le> -53")
    case True
    then have "int m \<le> 7205759403792794 * 2 ^ nat (- 53 - e)"
      using cmp by (simp add: min_def)
    then have "int m * 2 ^ 53 \<le> 7205759403792794 * (2 ^ nat (- 53 - e) * 2 ^ 53)"
      by simp
    moreover have "nat (- e) = nat (- 53 - e) + 53"
      using True by simp
    ultimately show ?thesis by (simp only: power_add)
  next
    case False
    then have "int m * 2 ^ nat (e + 53) \<le> 7205759403792794"
      using cmp by (simp add: min_def)
    then have "int m * 2 ^ nat (e + 53) * 2 ^ nat (- e) \<le> 7205759403792794 * 2 ^ nat (- e)"
      by simp
    moreover have "nat (e + 53) + nat (- e) = 53"
      using False e by simp
    then have "(2 :: int) ^ nat (e + 53) * 2 ^ nat (- e) = 2 ^ 53"
      by (simp only: flip: power_add)
    ultimately show ?thesis
      by (simp only: mult.assoc)
  qed
  then have "int (m * 2 ^ 53) \<le> int (7205759403792794 * 2 ^ nat (- e))" by simp
  then show "m * 2 ^ 53 \<le> 7205759403792794 * 2 ^ nat (- e)" by (simp only: of_nat_le_iff)
qed

text \<open>Two roundings of a product with such a fraction stay below the number of slots.\<close>

lemma rounded_product_less:
  assumes bound: "m * 2 ^ 53 \<le> 7205759403792794 * 2 ^ E" and n: "0 < n"
  shows "round53 (round53 n * m) div 2 ^ E < n"
proof -
  let ?p = "round53 (round53 n * m)"
  have "?p * 2 ^ 52 \<le> round53 n * m * (2 ^ 52 + 1)"
    by (rule round53_le)
  then have "?p * 2 ^ 52 * 2 ^ 52 \<le> round53 n * 2 ^ 52 * (m * (2 ^ 52 + 1))"
    by (simp add: ac_simps)
  also have "\<dots> \<le> n * (2 ^ 52 + 1) * (m * (2 ^ 52 + 1))"
    by (rule mult_le_mono1) (rule round53_le)
  finally have "?p * 2 ^ 104 * 2 ^ 53 \<le> n * (2 ^ 52 + 1) ^ 2 * (m * 2 ^ 53)"
    by (simp add: ac_simps power2_eq_square)
  also have "\<dots> \<le> n * (2 ^ 52 + 1) ^ 2 * (7205759403792794 * 2 ^ E)"
    using bound by (rule mult_le_mono2)
  also have "\<dots> = n * 2 ^ E * (7205759403792794 * (2 ^ 52 + 1) ^ 2)"
    by (simp add: ac_simps)
  also have "\<dots> < n * 2 ^ E * (2 ^ 104 * 2 ^ 53)"
    using n by (intro mult_strict_left_mono) simp_all
  finally have "?p * (2 ^ 104 * 2 ^ 53) < n * 2 ^ E * (2 ^ 104 * 2 ^ 53)"
    by (simp only: mult.assoc)
  then have "?p < n * 2 ^ E" by simp
  then show ?thesis by (simp add: div_less_iff_less_mult)
qed

text \<open>
  Where the factor passes the constructor's check, the limit is below the number of slots,
  so that a cache that keeps to it always has an empty slot.
\<close>

lemma max_entries_less:
  assumes ok: "\<not> load_factor_too_big d" and M: "max_entries n d = Inr M" and n: "0 < unat n"
  shows "unat M < unat n"
proof -
  obtain s m e where d: "decode_double d = Finite s m e"
    using M by (cases "decode_double d") (auto simp: max_entries_def)
  let ?p = "round53 (round53 (unat n) * m)"
  let ?q = "if 0 \<le> e then ?p * 2 ^ nat e else ?p div 2 ^ nat (- e)"
  have q: "\<not> (s \<and> 0 < ?q)" "\<not> 2 ^ 64 \<le> ?q" and Mq: "M = of_nat ?q"
    using M by (auto simp: max_entries_def d Let_def split: if_splits)
  have uM: "unat M = ?q"
    using q(2) unfolding Mq by (simp add: unat_of_nat)
  show ?thesis
  proof (cases "?q = 0")
    case True
    with uM n show ?thesis by simp
  next
    case False
    with q(1) d have d': "decode_double d = Finite False m e" by simp
    have m: "m \<noteq> 0"
    proof
      assume "m = 0"
      then have "?q = 0" by (simp add: round53_def excess_bits.simps [of 0])
      with False show False ..
    qed
    note b = load_factor_bound [OF d' ok m]
    from rounded_product_less [OF b(2) n] uM b(1) show ?thesis by simp
  qed
qed

end
