(* ===== verification/Hashed_Cache.thy ===== *)
theory Hashed_Cache
  imports Linear_Probe_Value Cache_Header Double_Bits
begin

text \<open>
  \<open>HashedCacheBase<HashAlgo, Probe, ValueMgr, CacheTypeVal>\<close> of
  \<open>cache/base/HashedCacheBase.h\<close> and \<open>.cpp\<close>: the state of a cache, its
  constructors, insertion, lookup and accessors.  The template parameters are a record of
  functions (\<open>policy\<close>); \<open>LinearProbeCache\<close> is the instance \<open>linear_policy\<close>.  The
  hash function stays an argument throughout: the code relies on nothing but its being a
  function.

  \<open>mKeySpacePtr\<close> is a raw pointer kept next to the memory handler.  Its model is the
  name of the block it points to, and a read through it is undefined once the handler has
  moved to another block.
\<close>

section \<open>Template parameters and state\<close>

record ('p, 'v) policy =
  pol_type :: CacheType
  pol_probeType :: CacheType
  pol_hash :: "bytes \<Rightarrow> u64"
  pol_hashFuncId :: u16
  pol_makeProbe :: "u16 \<Rightarrow> u64 \<Rightarrow> 'p outcome"
  pol_makeValueMgr :: "u16 \<Rightarrow> u64 \<Rightarrow> 'p \<Rightarrow> 'v"
  pol_hashcodeBits :: "'p \<Rightarrow> u16"
  pol_offsetBits :: "'p \<Rightarrow> u16"
  pol_numberOfKeySlots :: "'p \<Rightarrow> u64"
  pol_keyspaceSize :: "'p \<Rightarrow> u64"
  pol_calculateKeySpaceSize :: "'p \<Rightarrow> u64"
  pol_find :: "'p \<Rightarrow> bytes \<Rightarrow> u64 \<Rightarrow> bytes \<Rightarrow> u64 outcome option"
  pol_findFree :: "'p \<Rightarrow> bytes \<Rightarrow> u64 \<Rightarrow> bytes \<Rightarrow> (u64 \<times> u32) outcome option"
  pol_add :: "'v \<Rightarrow> u64 \<Rightarrow> bytes \<Rightarrow> u64 \<Rightarrow> u8 \<Rightarrow> bytes \<Rightarrow> memory_handler \<Rightarrow>
                (memory_handler \<times> u32 outcome) option"
  pol_get :: "'v \<Rightarrow> bytes \<Rightarrow> u64 \<Rightarrow> bytes \<Rightarrow> u8 \<Rightarrow> bool \<Rightarrow> (bytes \<times> bool) outcome option"
  pol_getWithType :: "'v \<Rightarrow> bytes \<Rightarrow> u64 \<Rightarrow> (bytes \<times> CacheValueType) outcome option"
  pol_contains :: "'v \<Rightarrow> bytes \<Rightarrow> u64 \<Rightarrow> bytes \<Rightarrow> bool outcome option"

record ('p, 'v) hashed_cache =
  hc_memory :: memory_handler
  hc_maxNumberOfEntries :: u64
  hc_keySpacePtr :: nat
  hc_header :: CacheHeader
  hc_probe :: 'p
  hc_valueMgr :: 'v

text \<open>Sequencing of computations that may not return.\<close>

definition run_then :: "'a outcome option \<Rightarrow> ('a \<Rightarrow> 'b outcome option) \<Rightarrow> 'b outcome option" where
  "run_then r f = (case r of None \<Rightarrow> None | Some (Inl e) \<Rightarrow> Some (Inl e) | Some (Inr x) \<Rightarrow> f x)"

lemma run_then_simps [simp, outcome_simps]:
  "run_then None f = None"
  "run_then (Some (Inl e)) f = Some (Inl e)"
  "run_then (Some (Inr x)) f = f x"
  by (simp_all add: run_then_def)

section \<open>Constructors\<close>

definition load_factor_msg :: string where
  "load_factor_msg = ''LoadFactor for LINEAR_PROBE can't greater than 0.800000''"

definition updateKeySpacePtr :: "('p, 'v, 'm) hashed_cache_scheme \<Rightarrow> ('p, 'v, 'm) hashed_cache_scheme" where
  "updateKeySpacePtr c = c\<lparr>hc_keySpacePtr := mBlock (hc_memory c)\<rparr>"

definition HashedCacheBase ::
  "('p, 'v) policy \<Rightarrow> u16 \<Rightarrow> u64 \<Rightarrow> double \<Rightarrow> memory_handler \<Rightarrow> ('p, 'v) hashed_cache outcome" where
  "HashedCacheBase pol offsetBits numberOfKeySlots maxLoadFactor memory =
     and_then (max_entries numberOfKeySlots maxLoadFactor) (\<lambda>maxEntries.
     and_then (pol_makeProbe pol offsetBits numberOfKeySlots) (\<lambda>probe.
       if pol_probeType pol = LINEAR_PROBE \<and> load_factor_too_big maxLoadFactor
       then Inl (Throw load_factor_msg)
       else and_then (mem_allocate memory (pol_calculateKeySpaceSize pol probe)) (\<lambda>h.
         Inr (updateKeySpacePtr
           \<lparr>hc_memory = h, hc_maxNumberOfEntries = maxEntries, hc_keySpacePtr = mBlock memory,
            hc_header = zero_header\<lparr>hdr_numberOfKeySlots := numberOfKeySlots,
                                    hdr_maxLoadFactor := maxLoadFactor\<rparr>,
            hc_probe = probe,
            hc_valueMgr = pol_makeValueMgr pol offsetBits numberOfKeySlots probe\<rparr>))))"

text \<open>The constructor over loaded data: nothing can be inserted, the entry limit is 0.\<close>

definition HashedCacheBase_loaded ::
  "('p, 'v) policy \<Rightarrow> CacheHeader \<Rightarrow> memory_handler \<Rightarrow> ('p, 'v) hashed_cache outcome" where
  "HashedCacheBase_loaded pol header memory =
     and_then (pol_makeProbe pol (hdr_offsetBits header) (hdr_numberOfKeySlots header)) (\<lambda>probe.
       Inr (updateKeySpacePtr
         \<lparr>hc_memory = memory, hc_maxNumberOfEntries = 0, hc_keySpacePtr = mBlock memory,
          hc_header = header, hc_probe = probe,
          hc_valueMgr = pol_makeValueMgr pol (hdr_offsetBits header) (hdr_numberOfKeySlots header) probe\<rparr>))"

section \<open>Accessors\<close>

definition hc_dataSize :: "('p, 'v) policy \<Rightarrow> ('p, 'v, 'm) hashed_cache_scheme \<Rightarrow> u64" where
  "hc_dataSize pol c = mDataSize (hc_memory c) - pol_keyspaceSize pol (hc_probe c)"

definition hc_size :: "('p, 'v, 'm) hashed_cache_scheme \<Rightarrow> u64" where
  "hc_size c = mDataSize (hc_memory c) + of_nat sizeof_CacheHeader"

text \<open>\<open>CacheBase::version()\<close> with the numbers of \<open>version.h\<close>.\<close>

definition cache_version :: u16 where
  "cache_version = 2 * 1000 + 5 * 10 + 0"

definition hc_access :: "('p, 'v) policy \<Rightarrow> CacheType \<Rightarrow> ('p, 'v, 'm) hashed_cache_scheme \<Rightarrow> cache_access" where
  "hc_access pol type c =
     \<lparr>acc_version = cache_version, acc_type = type,
      acc_hashcodeBits = pol_hashcodeBits pol (hc_probe c),
      acc_offsetBits = pol_offsetBits pol (hc_probe c), acc_hashFuncId = pol_hashFuncId pol,
      acc_maxCollisions = hdr_maxCollisions (hc_header c),
      acc_maxLoadFactor = hdr_maxLoadFactor (hc_header c),
      acc_numberOfKeySlots = pol_numberOfKeySlots pol (hc_probe c),
      acc_numberOfEntries = hdr_numberOfEntries (hc_header c),
      acc_dataSize = hc_dataSize pol c, acc_size = hc_size c\<rparr>"

text \<open>\<open>output\<close>: the bytes of the memory in use.\<close>

definition hc_output :: "('p, 'v, 'm) hashed_cache_scheme \<Rightarrow> bytes" where
  "hc_output c = used (hc_memory c)"

text \<open>A dereference of \<open>mKeySpacePtr\<close>.\<close>

definition key_space :: "('p, 'v, 'm) hashed_cache_scheme \<Rightarrow> bytes outcome" where
  "key_space c =
     (if hc_keySpacePtr c = mBlock (hc_memory c) then Inr (mData (hc_memory c))
      else Inl (Undefined Use_After_Free))"

section \<open>Insertion\<close>

definition count_entry :: "u32 \<Rightarrow> ('p, 'v, 'm) hashed_cache_scheme \<Rightarrow> ('p, 'v, 'm) hashed_cache_scheme" where
  "count_entry collisions c =
     c\<lparr>hc_header := (hc_header c)
         \<lparr>hdr_maxCollisions := max collisions (hdr_maxCollisions (hc_header c)),
          hdr_numberOfEntries := hdr_numberOfEntries (hc_header c) + 1\<rparr>\<rparr>"

definition key_space_full_msg :: string where
  "key_space_full_msg = ''keySpace is full''"

text \<open>
  The common shape of the two \<open>putInternal\<close>: \<open>add\<close> is what the value manager does
  once a free slot is found.
\<close>

definition put_with ::
  "('p, 'v) policy \<Rightarrow>
   (('p, 'v, 'm) hashed_cache_scheme \<Rightarrow> u64 \<Rightarrow> u64 \<Rightarrow> (memory_handler \<times> u32 outcome) option) \<Rightarrow>
   ('p, 'v, 'm) hashed_cache_scheme \<Rightarrow> bytes \<Rightarrow>
   (('p, 'v, 'm) hashed_cache_scheme \<times> (bool \<times> u32) outcome) option" where
  "put_with pol add c key =
     (if hdr_numberOfEntries (hc_header c) \<ge> hc_maxNumberOfEntries c
      then Some (c, Inl (Throw key_space_full_msg))
      else
        let hashcode = pol_hash pol key in
        case run_then (Some (key_space c)) (pol_findFree pol (hc_probe c) key hashcode) of
          None \<Rightarrow> None
        | Some (Inl e) \<Rightarrow> Some (c, Inl e)
        | Some (Inr (keySlotOffset, collisions)) \<Rightarrow>
            (if keySlotOffset \<noteq> AXONCACHE_KEY_EXISTS then
               case add c keySlotOffset hashcode of
                 None \<Rightarrow> None
               | Some (h, Inl e) \<Rightarrow> Some (c\<lparr>hc_memory := h\<rparr>, Inl e)
               | Some (h, Inr added) \<Rightarrow>
                   let total = max collisions added
                   in Some (updateKeySpacePtr (count_entry total (c\<lparr>hc_memory := h\<rparr>)), Inr (True, total))
             else Some (c, Inr (False, collisions))))"

definition hc_putInternal ::
  "('p, 'v) policy \<Rightarrow> ('p, 'v, 'm) hashed_cache_scheme \<Rightarrow> bytes \<Rightarrow> CacheValueType \<Rightarrow> bytes \<Rightarrow>
   (('p, 'v, 'm) hashed_cache_scheme \<times> (bool \<times> u32) outcome) option" where
  "hc_putInternal pol c key type value =
     put_with pol (\<lambda>c off hashcode.
       pol_add pol (hc_valueMgr c) off key hashcode (type_byte type) value (hc_memory c)) c key"

section \<open>Lookup\<close>

text \<open>\<open>setFoundHash\<close>: 0 tells that the key is absent.\<close>

definition setFoundHash :: "u64 \<Rightarrow> u64 \<Rightarrow> u64" where
  "setFoundHash hash keySlotOffset = (if keySlotOffset = AXONCACHE_KEY_NOT_FOUND then 0 else hash)"

text \<open>The result of a lookup: the value, \<open>*isExist\<close> and \<open>*foundHash\<close>.\<close>

definition hc_getInternal ::
  "('p, 'v) policy \<Rightarrow> ('p, 'v, 'm) hashed_cache_scheme \<Rightarrow> bytes \<Rightarrow> CacheValueType \<Rightarrow>
   (bytes \<times> bool \<times> u64) outcome option" where
  "hc_getInternal pol c key type =
     (let hash = pol_hash pol key in
      run_then (Some (key_space c)) (\<lambda>m.
      run_then (pol_find pol (hc_probe c) key hash m) (\<lambda>off.
      run_then (pol_get pol (hc_valueMgr c) m off key (type_byte type) (off \<noteq> AXONCACHE_KEY_NOT_FOUND))
        (\<lambda>(value, isExist). Some (Inr (value, isExist, setFoundHash hash off))))))"

text \<open>The overload without \<open>isExist\<close>: it passes a local \<open>false\<close> and drops it.\<close>

definition hc_getInternal_value ::
  "('p, 'v) policy \<Rightarrow> ('p, 'v, 'm) hashed_cache_scheme \<Rightarrow> bytes \<Rightarrow> CacheValueType \<Rightarrow>
   (bytes \<times> u64) outcome option" where
  "hc_getInternal_value pol c key type =
     (let hash = pol_hash pol key in
      run_then (Some (key_space c)) (\<lambda>m.
      run_then (pol_find pol (hc_probe c) key hash m) (\<lambda>off.
      run_then (pol_get pol (hc_valueMgr c) m off key (type_byte type) False)
        (\<lambda>(value, isExist). Some (Inr (value, setFoundHash hash off))))))"

definition hc_getWithTypeInternal ::
  "('p, 'v) policy \<Rightarrow> ('p, 'v, 'm) hashed_cache_scheme \<Rightarrow> bytes \<Rightarrow>
   (bytes \<times> CacheValueType \<times> u64) outcome option" where
  "hc_getWithTypeInternal pol c key =
     (let hash = pol_hash pol key in
      run_then (Some (key_space c)) (\<lambda>m.
      run_then (pol_find pol (hc_probe c) key hash m) (\<lambda>off.
      run_then (pol_getWithType pol (hc_valueMgr c) m off)
        (\<lambda>(value, type). Some (Inr (value, type, setFoundHash hash off))))))"

definition hc_contains ::
  "('p, 'v) policy \<Rightarrow> ('p, 'v, 'm) hashed_cache_scheme \<Rightarrow> bytes \<Rightarrow> (bool \<times> u64) outcome option" where
  "hc_contains pol c key =
     (let hash = pol_hash pol key in
      run_then (Some (key_space c)) (\<lambda>m.
      run_then (pol_find pol (hc_probe c) key hash m) (\<lambda>off.
      run_then (pol_contains pol (hc_valueMgr c) m off key)
        (\<lambda>b. Some (Inr (b, setFoundHash hash off))))))"

section \<open>The linear-probe instance\<close>

definition linear_policy :: "(bytes \<Rightarrow> u64) \<Rightarrow> (linear_probe, linear_probe_value) policy" where
  "linear_policy H =
     \<lparr>pol_type = LINEAR_PROBE, pol_probeType = LINEAR_PROBE, pol_hash = H,
      pol_hashFuncId = HashFuncId_XXH3, pol_makeProbe = LinearProbe,
      pol_makeValueMgr = (\<lambda>ob n p. LinearProbeValue ob n (lp_hashcodeMask p) (lp_offsetMask p)),
      pol_hashcodeBits = lp_hashcodeBits, pol_offsetBits = lp_offsetBits,
      pol_numberOfKeySlots = lp_numberOfKeySlots, pol_keyspaceSize = lp_keyspaceSize,
      pol_calculateKeySpaceSize = calculateKeySpaceSize,
      pol_find = (\<lambda>p key h m. run_then (findKeySlotOffset p key h m) (\<lambda>(off, slot). Some (Inr off))),
      pol_findFree = findFreeKeySlotOffset,
      pol_add = (\<lambda>v off key h t value mem. Some (lv_add v off key h t value mem)),
      pol_get = (\<lambda>v m off key t isExist. Some (and_then (lv_get v m off t) (\<lambda>b. Inr (b, isExist)))),
      pol_getWithType = (\<lambda>v m off. Some (lv_getWithType v m off [])),
      pol_contains = (\<lambda>v m off key. Some (Inr (lv_contains off)))\<rparr>"

type_synonym linear_cache = "(linear_probe, linear_probe_value) hashed_cache"

end
