(* ===== verification/Linear_Cache.thy ===== *)
theory Linear_Cache
  imports Hashed_Cache
begin

text \<open>
  A cache over a linear-probe key space as a finite map from keys to typed values.
  \<open>lp_reads H fv c M\<close> says that the memory of the cache \<open>c\<close> represents the map
  \<open>M\<close> (with \<open>fv\<close> the frequent values that index records refer to), and
  \<open>lp_builds\<close> adds what insertion needs.  The lemmas show that the operations of
  \<open>HashedCacheBase\<close> compute lookup and update of that map.  They are stated for
  every extension of the state, so that \<open>LinearProbeDedupCache\<close> shares them.
\<close>

section \<open>Representation of a map\<close>

type_synonym 'm lp_cache_scheme = "(linear_probe, linear_probe_value, 'm) hashed_cache_scheme"

definition stands_for :: "bytes list \<Rightarrow> lp_entry \<Rightarrow> CacheValueType \<times> bytes \<Rightarrow> bool" where
  "stands_for fv e tv \<longleftrightarrow> entry_stands_for fv e (fst tv) (snd tv)"

definition lp_models ::
  "(bytes \<Rightarrow> u64) \<Rightarrow> bytes list \<Rightarrow> 'm lp_cache_scheme \<Rightarrow> (bytes, lp_entry) table \<Rightarrow> entry_map \<Rightarrow> bool" where
  "lp_models H fv c T M \<longleftrightarrow>
     probe_ok (hc_probe c) \<and> hc_valueMgr c = manager_of (hc_probe c) \<and>
     hc_keySpacePtr c = mBlock (hc_memory c) \<and>
     lp_repr (hc_probe c) H (mData (hc_memory c)) (unat (mDataSize (hc_memory c))) T \<and>
     table_inv (home (hc_probe c) H) T \<and> has_gap T \<and>
     (\<forall>k. rel_option (stands_for fv) (table_map (home (hc_probe c) H) T k) (M k))"

definition lp_reads ::
  "(bytes \<Rightarrow> u64) \<Rightarrow> bytes list \<Rightarrow> 'm lp_cache_scheme \<Rightarrow> entry_map \<Rightarrow> bool" where
  "lp_reads H fv c M \<longleftrightarrow> (\<exists>T. lp_models H fv c T M)"

definition counts :: "'m lp_cache_scheme \<Rightarrow> (bytes, lp_entry) table \<Rightarrow> bool" where
  "counts c T \<longleftrightarrow>
     table_count T = unat (hdr_numberOfEntries (hc_header c)) \<and>
     hdr_numberOfEntries (hc_header c) \<le> hc_maxNumberOfEntries c \<and>
     unat (hc_maxNumberOfEntries c) < slots (hc_probe c)"

definition lp_builds ::
  "(bytes \<Rightarrow> u64) \<Rightarrow> bytes list \<Rightarrow> 'm lp_cache_scheme \<Rightarrow> entry_map \<Rightarrow> bool" where
  "lp_builds H fv c M \<longleftrightarrow>
     mem_ok (hc_memory c) \<and> mKind (hc_memory c) = Malloc_Handler \<and>
     (\<exists>T. lp_models H fv c T M \<and> counts c T)"

lemma lp_builds_reads: "lp_builds H fv c M \<Longrightarrow> lp_reads H fv c M"
  by (auto simp: lp_builds_def lp_reads_def)

lemma lp_models_length: "lp_models H fv c T M \<Longrightarrow> length T = slots (hc_probe c)"
  by (simp add: lp_models_def lp_repr_def)

lemma lp_models_key_space: "lp_models H fv c T M \<Longrightarrow> key_space c = Inr (mData (hc_memory c))"
  by (simp add: lp_models_def key_space_def)

text \<open>An entry keeps its meaning when frequent values are added.\<close>

lemma entry_stands_for_append: "entry_stands_for fv e t v \<Longrightarrow> entry_stands_for (fv @ ws) e t v"
  by (auto simp: entry_stands_for_def nth_append)

section \<open>Lookup\<close>

text \<open>The slot a reader finds.\<close>

lemma lp_find:
  assumes "lp_models H fv c T M"
  shows "M key = None \<Longrightarrow>
      findKeySlotOffset (hc_probe c) key (H key) (mData (hc_memory c)) =
        Some (Inr (AXONCACHE_KEY_NOT_FOUND, None))"
    and "M key = Some (t, v) \<Longrightarrow>
      \<exists>i slot e. i < slots (hc_probe c) \<and> load_u64 (mData (hc_memory c)) (8 * i) = Inr slot \<and>
        slot_holds (hc_probe c) H (mData (hc_memory c)) (unat (mDataSize (hc_memory c))) slot
          (Some (key, e)) \<and> entry_stands_for fv e t v \<and>
        findKeySlotOffset (hc_probe c) key (H key) (mData (hc_memory c)) =
          Some (Inr (of_nat (8 * i), Some slot))"
proof -
  let ?p = "hc_probe c" and ?m = "mData (hc_memory c)"
  have ok: "probe_ok ?p" and gap: "has_gap T"
    and repr: "lp_repr ?p H ?m (unat (mDataSize (hc_memory c))) T"
    and rel: "rel_option (stands_for fv) (table_map (home ?p H) T key) (M key)"
    using assms by (auto simp: lp_models_def)
  have h: "home ?p H key < length T"
    using home_less [OF ok] repr by (simp add: lp_repr_def)
  note find = findKeySlotOffset_refines [OF repr ok gap, of key]
  show "M key = None \<Longrightarrow>
      findKeySlotOffset ?p key (H key) ?m = Some (Inr (AXONCACHE_KEY_NOT_FOUND, None))"
    using find(1) rel table_map_None_iff [where home = "home ?p H" and T = T and k = key] h by simp
  assume M: "M key = Some (t, v)"
  then obtain e where e: "table_map (home ?p H) T key = Some e" "entry_stands_for fv e t v"
    using rel by (auto simp: option_rel_Some2 stands_for_def)
  then obtain i where i: "probe T key (home ?p H key) (length T) = Some i" "map_option snd (T ! i) = Some e"
    by (auto simp: table_map_def split: option.splits)
  with probe_Some [OF i(1) h] have Ti: "T ! i = Some (key, e)" "i < slots ?p"
    using repr by (auto simp: lp_repr_def)
  from find(2) [OF i(1)] Ti e(2)
  show "\<exists>i slot e. i < slots ?p \<and> load_u64 ?m (8 * i) = Inr slot \<and>
        slot_holds ?p H ?m (unat (mDataSize (hc_memory c))) slot (Some (key, e)) \<and>
        entry_stands_for fv e t v \<and>
        findKeySlotOffset ?p key (H key) ?m = Some (Inr (of_nat (8 * i), Some slot))"
    by metis
qed

lemma slot_offset_found:
  assumes "probe_ok p" and "i < slots p"
  shows "(of_nat (8 * i) :: u64) \<noteq> AXONCACHE_KEY_NOT_FOUND" and "(of_nat (8 * i) :: u64) \<noteq> AXONCACHE_KEY_EXISTS"
    and "unat (of_nat (8 * i) :: u64) = 8 * i"
proof -
  have "8 * i < 2 ^ 60"
    using assms probe_ok_slots(2) [OF assms(1)] by (simp add: mem_limit_def)
  then show u: "unat (of_nat (8 * i) :: u64) = 8 * i"
    by (intro unat_of_nat_u64) simp
  with \<open>8 * i < 2 ^ 60\<close> show "(of_nat (8 * i) :: u64) \<noteq> AXONCACHE_KEY_NOT_FOUND"
    "(of_nat (8 * i) :: u64) \<noteq> AXONCACHE_KEY_EXISTS"
    by (auto simp: AXONCACHE_KEY_NOT_FOUND_def AXONCACHE_KEY_EXISTS_def unsigned_minus_1_eq_mask mask_eq_exp_minus_1
        simp del: of_nat_mult)
qed

text \<open>The value and type that the value manager reads for a key of the map.\<close>

lemma lp_read_value:
  assumes "lp_models H fv c T M" and "M key = Some (t, v)"
  obtains i slot where
    "findKeySlotOffset (hc_probe c) key (H key) (mData (hc_memory c)) =
       Some (Inr (of_nat (8 * i), Some slot))"
    and "(of_nat (8 * i) :: u64) \<noteq> AXONCACHE_KEY_NOT_FOUND"
    and "\<And>t'. lv_get_frequent (hc_valueMgr c) (mData (hc_memory c)) (of_nat (8 * i)) (type_byte t') fv =
           Inr (if t' = t then v else [])"
    and "lv_getWithType (hc_valueMgr c) (mData (hc_memory c)) (of_nat (8 * i)) fv = Inr (v, t)"
    and "\<And>t'. lv_getFromSlot (hc_valueMgr c) (mData (hc_memory c)) slot (type_byte t') fv =
           Inr (if t' = t then v else [])"
    and "lv_getWithTypeFromSlot (hc_valueMgr c) (mData (hc_memory c)) slot fv = Inr (v, t)"
proof -
  have ok: "probe_ok (hc_probe c)" and mgr: "hc_valueMgr c = manager_of (hc_probe c)"
    using assms(1) by (auto simp: lp_models_def)
  obtain i slot e where i: "i < slots (hc_probe c)"
    and ld: "load_u64 (mData (hc_memory c)) (8 * i) = Inr slot"
    and holds: "slot_holds (hc_probe c) H (mData (hc_memory c)) (unat (mDataSize (hc_memory c))) slot
                  (Some (key, e))"
    and v: "entry_stands_for fv e t v"
    and find: "findKeySlotOffset (hc_probe c) key (H key) (mData (hc_memory c)) =
       Some (Inr (of_nat (8 * i), Some slot))"
    using lp_find(2) [OF assms] by blast
  note off = slot_offset_found [OF ok i]
  note rd = slot_reads [OF ok holds v]
  show ?thesis
    using find off ld rd
    by (intro that [of i slot]) (simp_all add: lv_get_frequent_def lv_getWithType_def mgr del: of_nat_mult)
qed


section \<open>Lookup in the linear-probe cache\<close>

text \<open>\<open>findKeySlotOffset\<close> through the policy drops the slot.\<close>

lemma linear_getInternal:
  assumes "lp_reads H [] c M"
  shows "hc_getInternal (linear_policy H) c key t =
     Some (Inr (case M key of
        None \<Rightarrow> ([], False, 0)
      | Some (t', v) \<Rightarrow> (if t = t' then v else [], True, H key)))"
proof -
  obtain T where T: "lp_models H [] c T M" using assms by (auto simp: lp_reads_def)
  show ?thesis
  proof (cases "M key")
    case None
    then show ?thesis
      using lp_find(1) [OF T None]
      by (simp add: hc_getInternal_def linear_policy_def lp_models_key_space [OF T] setFoundHash_def lv_get_def)
  next
    case (Some tv)
    obtain t' v where tv: "tv = (t', v)" by (cases tv)
    obtain i slot where "findKeySlotOffset (hc_probe c) key (H key) (mData (hc_memory c)) =
       Some (Inr (of_nat (8 * i), Some slot))" "(of_nat (8 * i) :: u64) \<noteq> AXONCACHE_KEY_NOT_FOUND"
      "\<And>t''. lv_get_frequent (hc_valueMgr c) (mData (hc_memory c)) (of_nat (8 * i)) (type_byte t'') [] =
           Inr (if t'' = t' then v else [])"
      using lp_read_value [OF T] Some tv by metis
    then show ?thesis
      by (simp add: hc_getInternal_def linear_policy_def lp_models_key_space [OF T] setFoundHash_def
          lv_get_eq_frequent Some tv del: of_nat_mult)
  qed
qed

lemma linear_getWithTypeInternal:
  assumes "lp_reads H [] c M"
  shows "hc_getWithTypeInternal (linear_policy H) c key =
     Some (Inr (case M key of None \<Rightarrow> ([], TString, 0) | Some (t, v) \<Rightarrow> (v, t, H key)))"
proof -
  obtain T where T: "lp_models H [] c T M" using assms by (auto simp: lp_reads_def)
  show ?thesis
  proof (cases "M key")
    case None
    then show ?thesis
      using lp_find(1) [OF T None]
      by (simp add: hc_getWithTypeInternal_def linear_policy_def lp_models_key_space [OF T]
          setFoundHash_def lv_getWithType_def)
  next
    case (Some tv)
    obtain t' v where tv: "tv = (t', v)" by (cases tv)
    obtain i slot where "findKeySlotOffset (hc_probe c) key (H key) (mData (hc_memory c)) =
       Some (Inr (of_nat (8 * i), Some slot))" "(of_nat (8 * i) :: u64) \<noteq> AXONCACHE_KEY_NOT_FOUND"
      "lv_getWithType (hc_valueMgr c) (mData (hc_memory c)) (of_nat (8 * i)) [] = Inr (v, t')"
      using lp_read_value [OF T] Some tv by metis
    then show ?thesis
      by (simp add: hc_getWithTypeInternal_def linear_policy_def lp_models_key_space [OF T]
          setFoundHash_def Some tv del: of_nat_mult)
  qed
qed

lemma linear_contains:
  assumes "lp_reads H fv c M"
  shows "hc_contains (linear_policy H) c key =
     Some (Inr (M key \<noteq> None, if M key = None then 0 else H key))"
proof -
  obtain T where T: "lp_models H fv c T M" using assms by (auto simp: lp_reads_def)
  show ?thesis
  proof (cases "M key")
    case None
    then show ?thesis
      using lp_find(1) [OF T None]
      by (simp add: hc_contains_def linear_policy_def lp_models_key_space [OF T]
          setFoundHash_def lv_contains_def)
  next
    case (Some tv)
    obtain t' v where tv: "tv = (t', v)" by (cases tv)
    obtain i slot where "findKeySlotOffset (hc_probe c) key (H key) (mData (hc_memory c)) =
       Some (Inr (of_nat (8 * i), Some slot))" "(of_nat (8 * i) :: u64) \<noteq> AXONCACHE_KEY_NOT_FOUND"
      using lp_read_value [OF T] Some tv by metis
    then show ?thesis
      by (simp add: hc_contains_def linear_policy_def lp_models_key_space [OF T]
          setFoundHash_def lv_contains_def Some del: of_nat_mult)
  qed
qed

section \<open>Insertion\<close>

text \<open>What insertion needs of the template parameters.\<close>

definition lp_policy :: "(bytes \<Rightarrow> u64) \<Rightarrow> (linear_probe, linear_probe_value) policy \<Rightarrow> bool" where
  "lp_policy H pol \<longleftrightarrow>
     pol_hash pol = H \<and> pol_findFree pol = findFreeKeySlotOffset \<and> pol_makeProbe pol = LinearProbe \<and>
     pol_makeValueMgr pol = (\<lambda>ob n p. LinearProbeValue ob n (lp_hashcodeMask p) (lp_offsetMask p)) \<and>
     pol_calculateKeySpaceSize pol = calculateKeySpaceSize"

lemma lp_policy_linear [simp]: "lp_policy H (linear_policy H)"
  by (simp add: lp_policy_def linear_policy_def)

lemma lp_put_full:
  "hc_maxNumberOfEntries c \<le> hdr_numberOfEntries (hc_header c) \<Longrightarrow>
     put_with pol add c key = Some (c, Inl (Throw key_space_full_msg))"
  by (simp add: put_with_def)

lemma lp_put_existing:
  assumes T: "lp_models H fv c T M" and pol: "lp_policy H pol" and M: "M key \<noteq> None"
    and room: "hdr_numberOfEntries (hc_header c) < hc_maxNumberOfEntries c"
  shows "\<exists>collisions. put_with pol add c key = Some (c, Inr (False, collisions))"
proof -
  let ?p = "hc_probe c"
  have ok: "probe_ok ?p" and gap: "has_gap T"
    and repr: "lp_repr ?p H (mData (hc_memory c)) (unat (mDataSize (hc_memory c))) T"
    and rel: "rel_option (stands_for fv) (table_map (home ?p H) T key) (M key)"
    using T by (auto simp: lp_models_def)
  have h: "home ?p H key < length T"
    using home_less [OF ok] lp_models_length [OF T] by simp
  have "probe T key (home ?p H key) (length T) \<noteq> None"
    using rel M table_map_None_iff [where home = "home ?p H" and T = T and k = key] h by auto
  then obtain c' where "probe_free T key (home ?p H key) 0 (length T) = Some (Exists c')"
    using probe_free_gap [OF has_gap_within [OF gap h], of key 0] by auto
  from findFreeKeySlotOffset_refines(2) [OF repr ok gap this] room pol show ?thesis
    by (simp add: put_with_def lp_models_key_space [OF T] lp_policy_def not_le [symmetric])
qed

lemma lp_put_free:
  assumes T: "lp_models H fv c T M" and pol: "lp_policy H pol" and M: "M key = None"
    and room: "hdr_numberOfEntries (hc_header c) < hc_maxNumberOfEntries c"
  obtains i collisions where
    "probe_free T key (home (hc_probe c) H key) 0 (length T) = Some (Free i collisions)"
    and "i < slots (hc_probe c)"
    and "put_with pol add c key =
      (case add c (of_nat (8 * i)) (H key) of
         None \<Rightarrow> None
       | Some (h, Inl e) \<Rightarrow> Some (c\<lparr>hc_memory := h\<rparr>, Inl e)
       | Some (h, Inr added) \<Rightarrow>
           Some (updateKeySpacePtr (count_entry (max (of_nat collisions) added) (c\<lparr>hc_memory := h\<rparr>)),
                 Inr (True, max (of_nat collisions) added)))"
proof -
  let ?p = "hc_probe c"
  have ok: "probe_ok ?p" and gap: "has_gap T"
    and repr: "lp_repr ?p H (mData (hc_memory c)) (unat (mDataSize (hc_memory c))) T"
    and rel: "rel_option (stands_for fv) (table_map (home ?p H) T key) (M key)"
    using T by (auto simp: lp_models_def)
  have h: "home ?p H key < length T"
    using home_less [OF ok] lp_models_length [OF T] by simp
  have "probe T key (home ?p H key) (length T) = None"
    using rel M table_map_None_iff [where home = "home ?p H" and T = T and k = key] h by auto
  then obtain i c' where free: "probe_free T key (home ?p H key) 0 (length T) = Some (Free i c')"
    using probe_free_gap [OF has_gap_within [OF gap h], of key 0] by auto
  have i: "i < slots ?p"
    using probe_free_Free [OF free h] lp_models_length [OF T] by simp
  note found = findFreeKeySlotOffset_refines(1) [OF repr ok gap free]
  show ?thesis
    using found slot_offset_found [OF ok i] room pol
    by (intro that [OF free i], unfold put_with_def Let_def)
      (simp add: lp_models_key_space [OF T] lp_policy_def not_le [symmetric] del: of_nat_mult)
qed


text \<open>
  A record behind the data and its slot: the table gains the entry.  \<open>D\<close> is where the
  data ends, and the offset the slot must hold is \<open>D\<close> less the 8 bytes before the data
  space.
\<close>

definition offset_fits :: "linear_probe \<Rightarrow> u64 \<Rightarrow> bool" where
  "offset_fits p a \<longleftrightarrow> (a - lp_keyspaceSizeOffset p) AND lp_offsetMask p = a - lp_keyspaceSizeOffset p"

definition append_entry ::
  "linear_probe_value \<Rightarrow> u64 \<Rightarrow> u64 \<Rightarrow> u64 \<Rightarrow> LinearProbeRecord \<Rightarrow> bytes \<Rightarrow> bytes \<Rightarrow> memory_handler \<Rightarrow>
     memory_handler \<times> u32 outcome" where
  "append_entry v off hc n r key tail h =
     (case and_then (grow h n) (\<lambda>(a, h1). and_then (store_record h1 (unat a) r key tail) (\<lambda>h2. Inr (a, h2))) of
        Inl e \<Rightarrow> (h, Inl e)
      | Inr (a, h') \<Rightarrow> lv_set_slot v off hc a h')"

lemma append_entry_fits:
  assumes ok: "mem_ok h" and k: "mKind h = Malloc_Handler"
    and p: "probe_ok p" and repr: "lp_repr p H (mData h) (unat (mDataSize h)) T" and i: "i < slots p"
    and n: "unat n = length (encode_entry key e)" and key: "length key \<le> kKeyLength"
    and lim: "unat (mDataSize h) + unat n \<le> mem_limit"
    and fits: "offset_fits p (mDataSize h)"
  obtains h' where "append_entry (manager_of p) (of_nat (8 * i)) (H key) n (entry_header key e) key
      (e_payload e) h = (h', Inr 0)"
    and "mem_ok h'" and "mKind h' = Malloc_Handler"
    and "unat (mDataSize h') = unat (mDataSize h) + unat n"
    and "lp_repr p H (mData h') (unat (mDataSize h')) (T[i := Some (key, e)])"
proof -
  have n': "unat n = 6 + length key + length (e_payload e)"
    using n by simp
  obtain h1 where g: "and_then (grow h n) (\<lambda>(a, h1). and_then (store_record h1 (unat a)
        (entry_header key e) key (e_payload e)) (\<lambda>h2. Inr (a, h2))) = Inr (mDataSize h, h1)"
    and ok1: "mem_ok h1" and k1: "mKind h1 = Malloc_Handler"
    and ds1: "unat (mDataSize h1) = unat (mDataSize h) + unat n"
    and pre: "take (unat (mDataSize h)) (mData h1) = used h"
    and sl: "slice (mData h1) (unat (mDataSize h)) (unat n) =
        Inr (record_header (entry_header key e) @ key @ e_payload e)"
    using append_record [OF ok k n' lim] by blast
  have len1: "unat (mDataSize h1) \<le> length (mData h1)" using ok1 by (simp add: mem_ok_def)
  have repr1: "lp_repr p H (mData h1) (unat (mDataSize h)) T"
    using pre len1 ds1 by (intro lp_repr_prefix [OF repr]) (simp_all add: used_def)
  have at: "entry_at (mData h1) (unat (mDataSize h)) key e"
    using sl key n by (simp add: entry_at_def encode_entry_def)
  have D': "unat (mDataSize h) + length (encode_entry key e) \<le> unat (mDataSize h1)"
    using ds1 n by simp
  obtain h' where st: "lv_set_slot (manager_of p) (of_nat (8 * i)) (H key) (mDataSize h) h1 = (h', Inr 0)"
    and repr': "lp_repr p H (mData h') (unat (mDataSize h1)) (T[i := Some (key, e)])"
    and w: "mem_store h1 (8 * i) (le64 ((H key AND lp_hashcodeMask p) OR
              (mDataSize h - lp_keyspaceSizeOffset p))) = Inr h'"
    using set_slot_fits [OF p repr1 refl i fits [unfolded offset_fits_def] at D' len1] by blast
  note fr = mem_store_frame [OF w]
  show ?thesis
  proof (rule that)
    show "append_entry (manager_of p) (of_nat (8 * i)) (H key) n (entry_header key e) key
      (e_payload e) h = (h', Inr 0)"
      unfolding append_entry_def g using st by simp
    show "mem_ok h'" using mem_store_ok [OF w ok1] .
    show "lp_repr p H (mData h') (unat (mDataSize h')) (T[i := Some (key, e)])"
      using repr' fr by simp
  qed (use fr k1 ds1 in simp_all)
qed

lemma append_entry_short:
  assumes ok: "mem_ok h" and k: "mKind h = Malloc_Handler" and p: "probe_ok p"
    and n: "unat n = 6 + length key + length tail"
    and lim: "unat (mDataSize h) + unat n \<le> mem_limit" and short: "\<not> offset_fits p (mDataSize h)"
  obtains h' where "append_entry (manager_of p) off hc n r key tail h =
      (h', Inl (Throw (offset_bits_msg (manager_of p))))"
    and "mem_ok h'" and "mKind h' = Malloc_Handler"
    and "unat (mDataSize h') = unat (mDataSize h) + unat n"
    and "take (unat (mDataSize h)) (mData h') = used h"
proof -
  obtain h1 where g: "and_then (grow h n) (\<lambda>(a, h1). and_then (store_record h1 (unat a)
        r key tail) (\<lambda>h2. Inr (a, h2))) = Inr (mDataSize h, h1)"
    and rest: "mem_ok h1" "mKind h1 = Malloc_Handler"
      "unat (mDataSize h1) = unat (mDataSize h) + unat n" "take (unat (mDataSize h)) (mData h1) = used h"
    using append_record [OF ok k n lim] by blast
  show ?thesis
  proof (rule that)
    show "append_entry (manager_of p) off hc n r key tail h =
      (h1, Inl (Throw (offset_bits_msg (manager_of p))))"
      unfolding append_entry_def g by (simp add: set_slot_throws [OF p short [unfolded offset_fits_def]])
  qed (use rest in simp_all)
qed

text \<open>\<open>add\<close> is such an append once the sizes are within their fields.\<close>

lemma lv_add_append:
  assumes "length key \<le> kKeyLength" and "length v \<le> kValueLength"
  shows "lv_add m off key hc (type_byte t) v h =
    append_entry m off hc (lv_calculateSize key v) (entry_header key (plain_entry t v)) key v h"
  using assms
  by (simp add: lv_add_def lv_addToEnd_def append_entry_def entry_header_def plain_entry_def)

lemma lv_add_index_append:
  assumes "length key \<le> kKeyLength"
  shows "lv_add_index m off key hc (type_byte t) sz index h =
    append_entry m off hc (lv_calculateSize_index key index) (entry_header key (index_entry t sz index))
      key (e_payload (index_entry t sz index)) h"
  using assms
  by (simp add: lv_add_index_def lv_addToEnd_index_def append_entry_def entry_header_def index_entry_def)

text \<open>
  A put of a new key whose entry stands for \<open>(t, v)\<close>: the map is updated and the counters
  advance.
\<close>

lemma lp_builds_new_entry:
  assumes T: "lp_models H fv c T M" and counts: "counts c T"
    and free: "probe_free T key (home (hc_probe c) H key) 0 (length T) = Some (Free i collisions)"
    and ok: "mem_ok h" and k: "mKind h = Malloc_Handler"
    and repr: "lp_repr (hc_probe c) H (mData h) (unat (mDataSize h)) (T[i := Some (key, e)])"
    and e: "entry_stands_for fv e t v"
    and room: "hdr_numberOfEntries (hc_header c) < hc_maxNumberOfEntries c"
  shows "lp_builds H fv (updateKeySpacePtr (count_entry coll (c\<lparr>hc_memory := h\<rparr>))) (M(key \<mapsto> (t, v)))"
proof -
  let ?p = "hc_probe c" and ?T = "T[i := Some (key, e)]"
  let ?c = "updateKeySpacePtr (count_entry coll (c\<lparr>hc_memory := h\<rparr>))"
  have p: "probe_ok ?p" and inv: "table_inv (home ?p H) T"
    using T by (auto simp: lp_models_def)
  have homes: "home ?p H q < length T" for q
    using home_less [OF p] lp_models_length [OF T] by simp
  have i: "i < length T" "T ! i = None"
    using probe_free_Free [OF free homes] by auto
  have map: "table_map (home ?p H) ?T = (table_map (home ?p H) T)(key \<mapsto> e)"
    by (rule table_map_insert [OF inv free homes])
  have rel: "rel_option (stands_for fv) (table_map (home ?p H) ?T q) ((M(key \<mapsto> (t, v))) q)" for q
    using T e by (auto simp: map lp_models_def stands_for_def)
  have n: "unat (hdr_numberOfEntries (hc_header c) + 1) = Suc (unat (hdr_numberOfEntries (hc_header c)))"
    using room unat_u64_bound [of "hc_maxNumberOfEntries c"]
    by (subst unat_add_lt) (simp_all add: word_less_nat_alt del: unat_u64_bound)
  have cnt: "table_count ?T = unat (hdr_numberOfEntries (hc_header c) + 1)"
    using counts table_count_insert [OF i(2,1)] by (simp add: counts_def n)
  have le: "hdr_numberOfEntries (hc_header c) + 1 \<le> hc_maxNumberOfEntries c"
    using room by (simp add: word_le_nat_alt word_less_nat_alt n)
  have gap: "has_gap ?T"
    using cnt le [unfolded word_le_nat_alt] counts lp_models_length [OF T]
    by (intro table_count_gap) (simp add: counts_def)
  have "lp_models H fv ?c ?T (M(key \<mapsto> (t, v)))"
    using T p gap repr rel table_inv_insert [OF inv free homes]
    by (simp add: lp_models_def updateKeySpacePtr_def count_entry_def)
  moreover have "counts ?c ?T"
    using cnt le counts by (simp add: counts_def updateKeySpacePtr_def count_entry_def)
  ultimately show ?thesis
    using ok k by (auto simp: lp_builds_def updateKeySpacePtr_def count_entry_def)
qed


text \<open>The offset fits where the end of the data is within reach of the slot's low bits.\<close>

lemma offset_fits_iff:
  assumes p: "probe_ok p" and a: "keyspace_bytes p \<le> unat a"
  shows "offset_fits p a \<longleftrightarrow> unat a - (keyspace_bytes p - 8) < 2 ^ unat (lp_offsetBits p)"
proof -
  let ?b = "unat (lp_offsetBits p)"
  have "lp_keyspaceSizeOffset p \<le> a"
    using a unat_keyspaceSizeOffset [OF p] by (simp add: word_le_nat_alt)
  then have u: "unat (a - lp_keyspaceSizeOffset p) = unat a - (keyspace_bytes p - 8)"
    by (simp add: unat_sub unat_keyspaceSizeOffset [OF p])
  have m: "unat (x AND mask ?b) = unat x mod 2 ^ ?b" for x :: u64
    unfolding take_bit_eq_mask [symmetric] unsigned_take_bit_eq by (rule take_bit_eq_mod)
  have iff: "n mod 2 ^ b = n \<longleftrightarrow> n < 2 ^ b" for n b :: nat
    by (metis mod_less mod_less_divisor zero_less_numeral zero_less_power)
  show ?thesis
    by (simp only: offset_fits_def probe_ok_bits(3) [OF p] word_unat_eq_iff m u iff)
qed

lemma lp_models_keyspace:
  "lp_models H fv c T M \<Longrightarrow> keyspace_bytes (hc_probe c) \<le> unat (mDataSize (hc_memory c))"
  by (simp add: lp_models_def lp_repr_def)

definition data_end :: "'m lp_cache_scheme \<Rightarrow> nat" where
  "data_end c = unat (mDataSize (hc_memory c))"

definition entries :: "'m lp_cache_scheme \<Rightarrow> nat" where
  "entries c = unat (hdr_numberOfEntries (hc_header c))"

text \<open>The room for one more record: within the memory, and within reach of a slot.\<close>

definition reachable_end :: "'m lp_cache_scheme \<Rightarrow> bool" where
  "reachable_end c \<longleftrightarrow>
     data_end c - (keyspace_bytes (hc_probe c) - 8) < 2 ^ unat (lp_offsetBits (hc_probe c))"

lemma reachable_end_iff:
  assumes "lp_builds H fv c M"
  shows "reachable_end c \<longleftrightarrow> offset_fits (hc_probe c) (mDataSize (hc_memory c))"
proof -
  obtain T where T: "lp_models H fv c T M" using assms by (auto simp: lp_builds_def)
  then have "probe_ok (hc_probe c)" by (simp add: lp_models_def)
  from offset_fits_iff [OF this lp_models_keyspace [OF T]] show ?thesis
    by (simp add: reachable_end_def data_end_def)
qed

lemma lp_put_new:
  assumes B: "lp_builds H fv c M" and pol: "lp_policy H pol" and M: "M key = None"
    and room: "hdr_numberOfEntries (hc_header c) < hc_maxNumberOfEntries c"
    and key: "length key \<le> kKeyLength" and n: "unat n = length (encode_entry key e)"
    and e: "entry_stands_for fv e t v"
    and add: "\<And>off. add c off (H key) = Some (append_entry (hc_valueMgr c) off (H key) n
                (entry_header key e) key (e_payload e) (hc_memory c))"
    and lim: "data_end c + length (encode_entry key e) \<le> mem_limit" and reach: "reachable_end c"
  shows "\<exists>c' coll. put_with pol add c key = Some (c', Inr (True, coll)) \<and>
    lp_builds H fv c' (M(key \<mapsto> (t, v))) \<and> entries c' = Suc (entries c) \<and>
    data_end c' = data_end c + length (encode_entry key e) \<and>
    (\<exists>h. c' = updateKeySpacePtr (count_entry coll (c\<lparr>hc_memory := h\<rparr>)))"
proof -
  let ?p = "hc_probe c"
  obtain T where T: "lp_models H fv c T M" and cnt: "counts c T"
    and ok: "mem_ok (hc_memory c)" and k: "mKind (hc_memory c) = Malloc_Handler"
    using B by (auto simp: lp_builds_def)
  have p: "probe_ok ?p" and mgr: "hc_valueMgr c = manager_of ?p"
    and repr: "lp_repr ?p H (mData (hc_memory c)) (unat (mDataSize (hc_memory c))) T"
    using T by (auto simp: lp_models_def)
  obtain i coll where free: "probe_free T key (home ?p H key) 0 (length T) = Some (Free i coll)"
    and i: "i < slots ?p"
    and put: "put_with pol add c key =
      (case add c (of_nat (8 * i)) (H key) of
         None \<Rightarrow> None
       | Some (h, Inl e) \<Rightarrow> Some (c\<lparr>hc_memory := h\<rparr>, Inl e)
       | Some (h, Inr added) \<Rightarrow>
           Some (updateKeySpacePtr (count_entry (max (of_nat coll) added) (c\<lparr>hc_memory := h\<rparr>)),
                 Inr (True, max (of_nat coll) added)))"
    using lp_put_free [OF T pol M room] by blast
  have lim': "unat (mDataSize (hc_memory c)) + unat n \<le> mem_limit"
    using lim n by (simp add: data_end_def)
  have fits: "offset_fits ?p (mDataSize (hc_memory c))"
    using reach reachable_end_iff [OF B] by simp
  obtain h where app: "append_entry (manager_of ?p) (of_nat (8 * i)) (H key) n (entry_header key e) key
      (e_payload e) (hc_memory c) = (h, Inr 0)"
    and h: "mem_ok h" "mKind h = Malloc_Handler"
      "unat (mDataSize h) = unat (mDataSize (hc_memory c)) + unat n"
      "lp_repr ?p H (mData h) (unat (mDataSize h)) (T[i := Some (key, e)])"
    using append_entry_fits [OF ok k p repr i n key lim' fits] by blast
  let ?c = "updateKeySpacePtr (count_entry (of_nat coll) (c\<lparr>hc_memory := h\<rparr>))"
  have "put_with pol add c key = Some (?c, Inr (True, of_nat coll))"
    unfolding put add mgr app by simp
  moreover have "lp_builds H fv ?c (M(key \<mapsto> (t, v)))"
    by (rule lp_builds_new_entry [OF T cnt free h(1,2,4) e room])
  moreover have "entries ?c = Suc (entries c)"
    using room unat_u64_bound [of "hc_maxNumberOfEntries c"]
    unfolding entries_def updateKeySpacePtr_def count_entry_def word_less_nat_alt
    by (simp del: unat_u64_bound add: unat_add_lt)
  moreover have "data_end ?c = data_end c + length (encode_entry key e)"
    using h(3) n by (simp add: data_end_def updateKeySpacePtr_def count_entry_def)
  ultimately show ?thesis by blast
qed


section \<open>Constructors\<close>

text \<open>A new cache is empty and ready for insertion.\<close>

lemma HashedCacheBase_builds:
  assumes pol: "lp_policy H pol" and type: "pol_probeType pol = LINEAR_PROBE"
    and new: "HashedCacheBase pol ob n lf (MallocMemoryHandler fresh cap) = Inr c"
    and n: "0 < unat n" "8 * unat n \<le> mem_limit"
  shows "lp_builds H fv c Map.empty" and "entries c = 0" and "data_end c = 8 * unat n"
    and "lp_offsetBits (hc_probe c) = ob" and "lp_numberOfKeySlots (hc_probe c) = n"
    and "max_entries n lf = Inr (hc_maxNumberOfEntries c)"
    and "unat (hc_maxNumberOfEntries c) < unat n"
proof -
  let ?h = "MallocMemoryHandler fresh cap"
  obtain p where p: "LinearProbe ob n = Inr p" and lf: "\<not> load_factor_too_big lf"
    and mx: "max_entries n lf = Inr (hc_maxNumberOfEntries c)"
    and c: "c = updateKeySpacePtr
           \<lparr>hc_memory = ?h\<lparr>mData := zero_block (calculateKeySpaceSize p), mDataSize := calculateKeySpaceSize p,
                mRealDataSize := calculateKeySpaceSize p, mBlock := 1\<rparr>,
            hc_maxNumberOfEntries = hc_maxNumberOfEntries c, hc_keySpacePtr = mBlock ?h,
            hc_header = zero_header\<lparr>hdr_numberOfKeySlots := n, hdr_maxLoadFactor := lf\<rparr>,
            hc_probe = p, hc_valueMgr = LinearProbeValue ob n (lp_hashcodeMask p) (lp_offsetMask p)\<rparr>"
    using new pol type
    by (auto simp: HashedCacheBase_def and_then_Inr_iff lp_policy_def malloc_allocate_fresh
        MallocMemoryHandler_def updateKeySpacePtr_def split: if_splits)
  have bits: "lp_offsetBits p = ob" "lp_numberOfKeySlots p = n"
    using p by (auto simp: LinearProbe_def split: if_splits)
  have ok: "probe_ok p"
    using p n bits by (simp add: probe_ok_def word_gt_0 unat_gt_0)
  have hp: "hc_probe c = p" by (subst c) (simp add: updateKeySpacePtr_def)
  show "lp_offsetBits (hc_probe c) = ob" "lp_numberOfKeySlots (hc_probe c) = n"
    "max_entries n lf = Inr (hc_maxNumberOfEntries c)"
    using hp bits mx by simp_all
  show mless: "unat (hc_maxNumberOfEntries c) < unat n"
    by (rule max_entries_less [OF lf mx n(1)])
  have ks: "unat (calculateKeySpaceSize p) = 8 * unat n"
    using n(2) bits by (simp add: calculateKeySpaceSize_eq lp_keyspaceSize_def unat_mult8)
  have mem: "mData (hc_memory c) = zero_block (calculateKeySpaceSize p)"
    "mDataSize (hc_memory c) = calculateKeySpaceSize p"
    "mRealDataSize (hc_memory c) = calculateKeySpaceSize p" "mKind (hc_memory c) = Malloc_Handler"
    "hc_keySpacePtr c = mBlock (hc_memory c)" "hc_valueMgr c = manager_of p"
    "hdr_numberOfEntries (hc_header c) = 0"
    by (subst c; simp add: updateKeySpacePtr_def MallocMemoryHandler_def manager_of_def bits zero_header_def)+
  show "entries c = 0" "data_end c = 8 * unat n"
    using mem ks by (simp_all add: entries_def data_end_def)
  let ?T = "replicate (slots p) None :: (bytes, lp_entry) table"
  have homes: "table_map (home p H) ?T k = None" for k
    by (rule table_map_empty) (rule home_less [OF ok])
  have "lp_models H fv c ?T Map.empty"
    using ok mem ks bits lp_repr_zero [OF ok, of H] probe_ok_slots(1) [OF ok] homes
    by (simp add: lp_models_def hp table_inv_empty has_gap_def)
  moreover have "counts c ?T"
    using mless bits mem by (simp add: counts_def hp table_count_empty)
  moreover have "mem_ok (hc_memory c)"
    using ks mem by (simp add: mem_ok_def)
  ultimately show "lp_builds H fv c Map.empty"
    using mem by (auto simp: lp_builds_def)
qed

section \<open>Insertion into the linear-probe cache\<close>

lemma hc_putInternal_linear:
  "hc_putInternal (linear_policy H) c key t v =
     put_with (linear_policy H) (\<lambda>c off hc.
       Some (lv_add (hc_valueMgr c) off key hc (type_byte t) v (hc_memory c))) c key"
  by (simp add: hc_putInternal_def linear_policy_def)

definition entry_size :: "bytes \<Rightarrow> bytes \<Rightarrow> nat" where
  "entry_size key v = 6 + length key + length v"

lemma linear_put_new:
  assumes B: "lp_builds H fv c M" and M: "M key = None"
    and room: "hdr_numberOfEntries (hc_header c) < hc_maxNumberOfEntries c"
    and key: "length key \<le> kKeyLength" and v: "length v \<le> kValueLength"
    and lim: "data_end c + entry_size key v \<le> mem_limit" and reach: "reachable_end c"
  shows "\<exists>c' coll. hc_putInternal (linear_policy H) c key t v = Some (c', Inr (True, coll)) \<and>
    lp_builds H fv c' (M(key \<mapsto> (t, v))) \<and> entries c' = Suc (entries c) \<and>
    data_end c' = data_end c + entry_size key v \<and>
    hc_maxNumberOfEntries c' = hc_maxNumberOfEntries c \<and> hc_probe c' = hc_probe c"
proof -
  have "\<exists>c' coll. hc_putInternal (linear_policy H) c key t v = Some (c', Inr (True, coll)) \<and>
    lp_builds H fv c' (M(key \<mapsto> (t, v))) \<and> entries c' = Suc (entries c) \<and>
    data_end c' = data_end c + length (encode_entry key (plain_entry t v)) \<and>
    (\<exists>h. c' = updateKeySpacePtr (count_entry coll (c\<lparr>hc_memory := h\<rparr>)))"
    unfolding hc_putInternal_linear
  proof (rule lp_put_new [OF B lp_policy_linear M room key])
    show "unat (lv_calculateSize key v) = length (encode_entry key (plain_entry t v))"
      using unat_lv_calculateSize [OF key v] by simp
    show "entry_stands_for fv (plain_entry t v) t v"
      using v by (simp add: entry_stands_for_def)
    show "Some (lv_add (hc_valueMgr c) off key (H key) (type_byte t) v (hc_memory c)) =
      Some (append_entry (hc_valueMgr c) off (H key) (lv_calculateSize key v)
        (entry_header key (plain_entry t v)) key (e_payload (plain_entry t v)) (hc_memory c))" for off
      by (simp add: lv_add_append [OF key v])
    show "data_end c + length (encode_entry key (plain_entry t v)) \<le> mem_limit"
      using lim by (simp add: entry_size_def)
  qed (rule reach)
  then show ?thesis by (auto simp: entry_size_def updateKeySpacePtr_def count_entry_def)
qed

lemma linear_put_existing:
  assumes B: "lp_builds H fv c M" and M: "M key \<noteq> None"
    and room: "hdr_numberOfEntries (hc_header c) < hc_maxNumberOfEntries c"
  shows "\<exists>coll. hc_putInternal (linear_policy H) c key t v = Some (c, Inr (False, coll))"
proof -
  obtain T where T: "lp_models H fv c T M" using B by (auto simp: lp_builds_def)
  show ?thesis
    unfolding hc_putInternal_linear by (rule lp_put_existing [OF T lp_policy_linear M room])
qed

lemma linear_put_full:
  "hc_maxNumberOfEntries c \<le> hdr_numberOfEntries (hc_header c) \<Longrightarrow>
     hc_putInternal (linear_policy H) c key t v = Some (c, Inl (Throw key_space_full_msg))"
  unfolding hc_putInternal_linear by (rule lp_put_full)

text \<open>A key or a value that is too long is refused and nothing changes.\<close>

lemma linear_put_oversize:
  assumes B: "lp_builds H fv c M" and M: "M key = None"
    and room: "hdr_numberOfEntries (hc_header c) < hc_maxNumberOfEntries c"
    and big: "kKeyLength < length key \<or> kValueLength < length v"
  shows "hc_putInternal (linear_policy H) c key t v =
    Some (c, Inl (Throw (if kKeyLength < length key then key_too_large_msg key else value_too_large_msg v)))"
proof -
  obtain T where T: "lp_models H fv c T M" using B by (auto simp: lp_builds_def)
  have add: "lv_add m off key hc ty v h =
    (h, Inl (Throw (if kKeyLength < length key then key_too_large_msg key else value_too_large_msg v)))"
    for m off hc ty h
    using big by (auto simp: lv_add_def lv_addToEnd_def)
  let ?add = "\<lambda>c off hc. Some (lv_add (hc_valueMgr c) off key hc (type_byte t) v (hc_memory c))"
  show ?thesis
    unfolding hc_putInternal_linear
    by (rule lp_put_free [OF T lp_policy_linear M room, where add = ?add]) (simp add: add)
qed

text \<open>
  A record whose offset does not fit is refused after the memory has grown.  The handler
  may then have moved to another block while \<open>mKeySpacePtr\<close> still names the old one.
\<close>

lemma linear_put_short:
  assumes B: "lp_builds H fv c M" and M: "M key = None"
    and room: "hdr_numberOfEntries (hc_header c) < hc_maxNumberOfEntries c"
    and key: "length key \<le> kKeyLength" and v: "length v \<le> kValueLength"
    and lim: "data_end c + entry_size key v \<le> mem_limit" and far: "\<not> reachable_end c"
  shows "\<exists>h. hc_putInternal (linear_policy H) c key t v =
      Some (c\<lparr>hc_memory := h\<rparr>, Inl (Throw (offset_bits_msg (hc_valueMgr c)))) \<and>
    mem_ok h \<and> unat (mDataSize h) = data_end c + entry_size key v \<and>
    take (data_end c) (mData h) = used (hc_memory c) \<and>
    (mBlock h \<noteq> hc_keySpacePtr c \<longrightarrow> key_space (c\<lparr>hc_memory := h\<rparr>) = Inl (Undefined Use_After_Free))"
proof -
  obtain T where T: "lp_models H fv c T M"
    and ok: "mem_ok (hc_memory c)" and k: "mKind (hc_memory c) = Malloc_Handler"
    using B by (auto simp: lp_builds_def)
  have p: "probe_ok (hc_probe c)" and mgr: "hc_valueMgr c = manager_of (hc_probe c)"
    using T by (auto simp: lp_models_def)
  obtain i coll where
    put: "hc_putInternal (linear_policy H) c key t v =
      (case Some (lv_add (hc_valueMgr c) (of_nat (8 * i)) key (H key) (type_byte t) v (hc_memory c)) of
         None \<Rightarrow> None
       | Some (h, Inl e) \<Rightarrow> Some (c\<lparr>hc_memory := h\<rparr>, Inl e)
       | Some (h, Inr added) \<Rightarrow>
           Some (updateKeySpacePtr (count_entry (max (of_nat coll) added) (c\<lparr>hc_memory := h\<rparr>)),
                 Inr (True, max (of_nat coll) added)))"
    unfolding hc_putInternal_linear
    using lp_put_free [OF T lp_policy_linear M room,
        where add = "\<lambda>c off hc. Some (lv_add (hc_valueMgr c) off key hc (type_byte t) v (hc_memory c))"]
    by blast
  have n: "unat (lv_calculateSize key v) = 6 + length key + length v"
    by (rule unat_lv_calculateSize [OF key v])
  have lim': "unat (mDataSize (hc_memory c)) + unat (lv_calculateSize key v) \<le> mem_limit"
    using lim n by (simp add: data_end_def entry_size_def)
  have nofit: "\<not> offset_fits (hc_probe c) (mDataSize (hc_memory c))"
    using far reachable_end_iff [OF B] by simp
  obtain h where app: "append_entry (manager_of (hc_probe c)) (of_nat (8 * i)) (H key)
        (lv_calculateSize key v) (entry_header key (plain_entry t v)) key v (hc_memory c) =
      (h, Inl (Throw (offset_bits_msg (manager_of (hc_probe c)))))"
    and h: "mem_ok h" "unat (mDataSize h) = unat (mDataSize (hc_memory c)) + unat (lv_calculateSize key v)"
      "take (unat (mDataSize (hc_memory c))) (mData h) = used (hc_memory c)"
    using append_entry_short [OF ok k p n lim' nofit] by blast
  show ?thesis
    unfolding put mgr lv_add_append [OF key v] app
    using h n by (intro exI [of _ h]) (simp add: data_end_def entry_size_def key_space_def)
qed

end
