(* ===== verification/Transformers.thy ===== *)
theory Transformers
  imports Axon_Constants
begin

text \<open>
  The encodings of \<open>src/axoncache/transformer\<close>: every value a cache stores is a byte
  string.  \<open>StringViewToNullTerminatedString\<close> appends a NUL,
  \<open>StringListToString\<close> writes counted, NUL-terminated elements, \<open>TypeToString\<close>
  copies the representation of a scalar or of a vector of floats.  A \<open>float\<close>, a
  \<open>double\<close> and an \<open>int64_t\<close> are their bits; loads need no alignment, as on the
  targets the code runs on.

  Each decoder is shown to invert its encoder.
\<close>

section \<open>Strings\<close>

definition nul_terminate :: "bytes \<Rightarrow> bytes" where
  "nul_terminate input = input @ [0]"

text \<open>\<open>size() - 1\<close> wraps around on an empty view: the result views no valid range.\<close>

definition trimExtraNullTerminator :: "bytes \<Rightarrow> bytes outcome" where
  "trimExtraNullTerminator input =
     (if input = [] then Inl (Undefined Bad_String_View) else Inr (butlast input))"

lemma trim_nul_terminate [simp]: "trimExtraNullTerminator (nul_terminate s) = Inr s"
  by (simp add: trimExtraNullTerminator_def nul_terminate_def)

lemma nul_terminate_nonempty [simp]: "nul_terminate s \<noteq> []" "length (nul_terminate s) = Suc (length s)"
  by (simp_all add: nul_terminate_def)

section \<open>String lists\<close>

definition vector_too_large_msg :: "nat \<Rightarrow> string" where
  "vector_too_large_msg n =
     ''input vector size '' @ show_nat n @ '' too large. max='' @ show_nat kVectorLength"

definition element_too_large_msg :: "nat \<Rightarrow> string" where
  "element_too_large_msg n =
     ''input vector element '' @ show_nat n @ '' too large. max='' @ show_nat kVectorElementLength"

fun encode_elements :: "bytes list \<Rightarrow> bytes outcome" where
  "encode_elements [] = Inr []"
| "encode_elements (s # ss) =
     (if length s > kVectorElementLength then Inl (Throw (element_too_large_msg (length s)))
      else and_then (encode_elements ss) (\<lambda>rest. Inr (le16 (of_nat (length s)) @ s @ [0] @ rest)))"

definition encode_list :: "bytes list \<Rightarrow> bytes outcome" where
  "encode_list input =
     (if length input > kVectorLength then Inl (Throw (vector_too_large_msg (length input)))
      else and_then (encode_elements input) (\<lambda>rest. Inr (le16 (of_nat (length input)) @ rest)))"

text \<open>
  The decoder trusts its input; a read past the end of the view is counted as undefined.
\<close>

fun decode_elements :: "bytes \<Rightarrow> nat \<Rightarrow> nat \<Rightarrow> bytes list outcome" where
  "decode_elements input dataPtr 0 = Inr []"
| "decode_elements input dataPtr (Suc n) =
     and_then (load_u16 input dataPtr) (\<lambda>elemLength.
     and_then (slice input (dataPtr + 2) (unat elemLength)) (\<lambda>elem.
     and_then (decode_elements input (dataPtr + 2 + unat elemLength + 1) n) (\<lambda>rest.
       Inr (elem # rest))))"

definition decode_list :: "bytes \<Rightarrow> bytes list outcome" where
  "decode_list input =
     and_then (load_u16 input 0) (\<lambda>numberOfElements. decode_elements input 2 (unat numberOfElements))"

section \<open>Scalars and vectors of floats\<close>

type_synonym i64 = "64 word"
type_synonym f32 = "32 word"
type_synonym f64 = "64 word"

definition bool_to_string :: "bool \<Rightarrow> bytes" where
  "bool_to_string b = [if b then 1 else 0]"

definition int64_to_string :: "i64 \<Rightarrow> bytes" where "int64_to_string x = le64 x"
definition double_to_string :: "f64 \<Rightarrow> bytes" where "double_to_string x = le64 x"
definition float_to_string :: "f32 \<Rightarrow> bytes" where "float_to_string x = le32 x"

definition floats_to_string :: "f32 list \<Rightarrow> bytes" where
  "floats_to_string xs = concat (map le32 xs)"

text \<open>The inverses give a zero where the size is not that of the type.\<close>

definition string_to_bool :: "bytes \<Rightarrow> bool outcome" where
  "string_to_bool input =
     (if length input \<noteq> 1 then Inr False
      else if hd input = 0 then Inr False
      else if hd input = 1 then Inr True else Inl (Undefined Trap_Value))"

definition string_to_int64 :: "bytes \<Rightarrow> i64" where
  "string_to_int64 input = (if length input \<noteq> 8 then 0 else of_nat (le_val input))"

definition string_to_double :: "bytes \<Rightarrow> f64" where
  "string_to_double input = (if length input \<noteq> 8 then 0 else of_nat (le_val input))"

definition string_to_float :: "bytes \<Rightarrow> f32" where
  "string_to_float input = (if length input \<noteq> 4 then 0 else of_nat (le_val input))"

fun chunks4 :: "bytes \<Rightarrow> f32 list" where
  "chunks4 (a # b # c # d # rest) = of_nat (le_val [a, b, c, d]) # chunks4 rest"
| "chunks4 _ = []"

definition string_to_floats :: "bytes \<Rightarrow> f32 list" where
  "string_to_floats input = (if length input mod 4 \<noteq> 0 then [] else chunks4 input)"

text \<open>The span views the same floats in place.\<close>

definition string_to_span :: "bytes \<Rightarrow> f32 list" where
  "string_to_span input = (if length input mod 4 \<noteq> 0 then [] else chunks4 input)"

section \<open>Round trips\<close>

lemma string_to_bool_inverse [simp]: "string_to_bool (bool_to_string b) = Inr b"
  by (simp add: string_to_bool_def bool_to_string_def)

lemma string_to_int64_inverse [simp]: "string_to_int64 (int64_to_string x) = x"
  by (simp add: string_to_int64_def int64_to_string_def le64_def)

lemma string_to_double_inverse [simp]: "string_to_double (double_to_string x) = x"
  by (simp add: string_to_double_def double_to_string_def le64_def)

lemma string_to_float_inverse [simp]: "string_to_float (float_to_string x) = x"
  by (simp add: string_to_float_def float_to_string_def le32_def)

lemma scalar_lengths [simp]:
  "length (bool_to_string b) = 1" "length (int64_to_string x) = 8" "length (double_to_string y) = 8"
  "length (float_to_string z) = 4"
  by (simp_all add: bool_to_string_def int64_to_string_def double_to_string_def float_to_string_def)

lemma length_floats_to_string [simp]: "length (floats_to_string xs) = 4 * length xs"
  by (induction xs) (simp_all add: floats_to_string_def)

lemma chunks4_le32: "chunks4 (le32 x @ s) = x # chunks4 s"
proof -
  have "length (le32 x) = Suc (Suc (Suc (Suc 0)))" by simp
  then obtain a b c d where l: "le32 x = [a, b, c, d]"
    unfolding length_Suc_conv length_0_conv by blast
  have "of_nat (le_val (le32 x)) = x" by (simp add: le32_def)
  with l show ?thesis by simp
qed

lemma chunks4_floats: "chunks4 (floats_to_string xs) = xs"
  by (induction xs) (simp_all add: floats_to_string_def chunks4_le32)

lemma string_to_floats_inverse [simp]: "string_to_floats (floats_to_string xs) = xs"
  by (simp add: string_to_floats_def chunks4_floats)

lemma decode_elements_prefix:
  "decode_elements (pre @ s) (length pre + i) n = decode_elements s i n"
proof (induction n arbitrary: i)
  case (Suc n)
  have sl: "slice (pre @ s) (length pre + j) l = slice s j l" for j l
    by (simp add: slice_append2)
  then have ld: "load_u16 (pre @ s) (length pre + i) = load_u16 s i"
    by (simp add: load_u16_def load_le_def)
  show ?case
    by (simp only: decode_elements.simps ld sl add.assoc Suc.IH)
qed simp

lemma load_u16_head: "load_u16 (le16 w @ s) 0 = Inr w"
  by (rule load_u16_le) (simp add: slice_def)

lemma decode_encode_elements:
  "encode_elements ss = Inr e \<Longrightarrow> decode_elements e 0 (length ss) = Inr ss"
proof (induction ss arbitrary: e)
  case (Cons s ss)
  from Cons.prems obtain r where r: "encode_elements ss = Inr r" and le: "length s \<le> kVectorElementLength"
    and e: "e = le16 (of_nat (length s)) @ s @ [0] @ r"
    by (auto simp: and_then_Inr_iff split: if_splits)
  have us: "unat (of_nat (length s) :: u16) = length s"
    using le by (simp add: unat_of_nat kVectorElementLength_def)
  have elem: "slice e (0 + 2) (length s) = Inr s"
    by (simp add: e slice_def)
  have "length (le16 (of_nat (length s)) @ s @ [0]) + 0 = 0 + 2 + length s + 1"
    by simp
  then have rest: "decode_elements e (0 + 2 + length s + 1) (length ss) = decode_elements r 0 (length ss)"
    using decode_elements_prefix [of "le16 (of_nat (length s)) @ s @ [0]" r 0 "length ss"]
    unfolding e append_assoc by metis
  have head: "load_u16 e 0 = Inr (of_nat (length s))"
    by (simp add: e load_u16_head)
  show ?case
    using Cons.IH [OF r] by (simp only: list.size decode_elements.simps head and_then_simps us elem rest
        add_Suc_right add_0_right)
qed simp

lemma decode_encode_list: "encode_list ss = Inr e \<Longrightarrow> decode_list e = Inr ss"
proof -
  assume "encode_list ss = Inr e"
  then obtain r where r: "encode_elements ss = Inr r" and le: "length ss \<le> kVectorLength"
    and e: "e = le16 (of_nat (length ss)) @ r"
    by (auto simp: encode_list_def and_then_Inr_iff split: if_splits)
  have "unat (of_nat (length ss) :: u16) = length ss"
    using le by (simp add: unat_of_nat kVectorLength_def)
  moreover have "decode_elements e 2 (length ss) = decode_elements r 0 (length ss)"
    using decode_elements_prefix [of "le16 (of_nat (length ss))" r 0 "length ss"] by (simp add: e)
  ultimately show ?thesis
    using decode_encode_elements [OF r] by (simp add: decode_list_def e load_u16_head)
qed

text \<open>The encoder fails exactly where a size exceeds its limit.\<close>

lemma encode_elements_total:
  "(\<forall>s \<in> set ss. length s \<le> kVectorElementLength) \<longleftrightarrow> (\<exists>e. encode_elements ss = Inr e)"
  by (induction ss) (auto simp: and_then_Inr_iff not_less)

lemma encode_list_total:
  "(length ss \<le> kVectorLength \<and> (\<forall>s \<in> set ss. length s \<le> kVectorElementLength)) \<longleftrightarrow>
     (\<exists>e. encode_list ss = Inr e)"
  by (auto simp: encode_list_def and_then_Inr_iff encode_elements_total)

lemma encode_list_nonempty: "encode_list ss = Inr e \<Longrightarrow> e \<noteq> []"
  by (auto simp: encode_list_def and_then_Inr_iff le16_def numeral_2_eq_2 split: if_splits)

text \<open>C36: the encoding of a list of strings succeeds exactly when the list and its elements are within
  the limits of 65535, and then decodes to the same list; otherwise it throws.\<close>

theorem string_list_round_trip:
  "case encode_list ss of
     Inr e \<Rightarrow> length ss \<le> kVectorLength \<and> list_all (\<lambda>s. length s \<le> kVectorElementLength) ss \<and>
              decode_list e = Inr ss
   | Inl f \<Rightarrow> \<not> (length ss \<le> kVectorLength \<and> list_all (\<lambda>s. length s \<le> kVectorElementLength) ss) \<and>
              (\<exists>msg. f = Throw msg)"
proof (cases "encode_list ss")
  case (Inr e)
  then show ?thesis
    using encode_list_total [of ss] decode_encode_list [OF Inr] by (auto simp: list_all_iff)
next
  case (Inl f)
  have "encode_elements ss = Inl g \<Longrightarrow> \<exists>msg. g = Throw msg" for g
    by (induction ss) (auto simp: and_then_Inl_iff split: if_splits)
  then have "\<exists>msg. f = Throw msg"
    using Inl by (auto simp: encode_list_def and_then_Inl_iff split: if_splits)
  then show ?thesis
    using Inl encode_list_total [of ss] by (auto simp: list_all_iff)
qed

end
