(* ===== verification/String_Utils.thy ===== *)
theory String_Utils
  imports Axon_Base
begin

text \<open>
  The string helpers of \<open>common/StringUtils.h\<close> and \<open>common/StringViewUtils.h\<close>.
  A \<open>string\<close> and a \<open>string_view\<close> are the bytes they hold.  \<open>std::from_chars\<close> on
  integers and \<open>tolower\<close> (in the C locale) are modelled; the parsing of floating-point
  numbers (the vendored \<open>fast_float\<close> and \<open>strtod\<close>) is a parameter.  The loops that
  walk a string with pointers are recursions over its bytes that carry the token begun.

  The lemmas: splitting and joining are inverse where the code makes them so, the three
  trimming functions agree, and integers are read back from their decimal text.
\<close>

section \<open>Characters\<close>

definition tolower :: "byte \<Rightarrow> byte" where
  "tolower c = (if 65 \<le> c \<and> c \<le> 90 then c + 32 else c)"

definition is_digit :: "byte \<Rightarrow> bool" where
  "is_digit c \<longleftrightarrow> 48 \<le> c \<and> c \<le> 57"

definition kWhitespaces :: bytes where
  "kWhitespaces = [32, 9, 12, 11, 10, 13]"

definition isspace :: "byte \<Rightarrow> bool" where
  "isspace c \<longleftrightarrow> c = 32 \<or> (9 \<le> c \<and> c \<le> 13)"

section \<open>Conversions\<close>

definition lowercase :: "bytes \<Rightarrow> bytes" where
  "lowercase str = map tolower str"

definition toBool :: "bytes \<Rightarrow> bool" where
  "toBool str \<longleftrightarrow> lowercase str = lit ''true'' \<or> str = lit ''1''"

text \<open>
  \<open>std::from_chars\<close> for a signed type with range \<open>lo\<close> to \<open>hi\<close>: an optional minus
  sign and as many digits as there are.
\<close>

datatype errc = Invalid_Argument | Result_Out_Of_Range

fun digits_val :: "int \<Rightarrow> bytes \<Rightarrow> int" where
  "digits_val acc [] = acc"
| "digits_val acc (c # cs) = digits_val (10 * acc + (int (unat c) - 48)) cs"

definition from_chars :: "int \<Rightarrow> int \<Rightarrow> bytes \<Rightarrow> errc + int" where
  "from_chars lo hi str =
     (let neg = (str \<noteq> [] \<and> hd str = 45);
          ds = takeWhile is_digit (if neg then tl str else str);
          v = (if neg then - digits_val 0 ds else digits_val 0 ds)
      in if ds = [] then Inl Invalid_Argument
         else if lo \<le> v \<and> v \<le> hi then Inr v else Inl Result_Out_Of_Range)"

definition toLong :: "bytes \<Rightarrow> int" where
  "toLong str = (case from_chars (- (2 ^ 63)) (2 ^ 63 - 1) str of Inr val \<Rightarrow> val | Inl ec \<Rightarrow> 0)"

definition toInteger :: "bytes \<Rightarrow> int" where
  "toInteger str = (case from_chars (- (2 ^ 31)) (2 ^ 31 - 1) str of Inr val \<Rightarrow> val | Inl ec \<Rightarrow> 0)"

text \<open>
  A bounded floating-point parser gives a value and the number of bytes it consumed, or an
  error; \<open>strtod\<close> always gives both.  Values are their bits.
\<close>

type_synonym 'f float_parser = "bytes \<Rightarrow> errc + ('f \<times> nat)"

definition toDouble :: "u64 float_parser \<Rightarrow> bytes \<Rightarrow> u64" where
  "toDouble ff str =
     (if str = [] then 0
      else case ff str of
             Inr (result, n) \<Rightarrow> (if n = length str then result else 0)
           | Inl ec \<Rightarrow> 0)"

definition toDoubleCompatible :: "u64 float_parser \<Rightarrow> (bytes \<Rightarrow> u64 \<times> nat) \<Rightarrow> bytes \<Rightarrow> u64" where
  "toDoubleCompatible ff strtod str =
     (if str = [] then 0
      else case ff str of
             Inr (result, n) \<Rightarrow>
               (if n = length str then result
                else let (r, k) = strtod str in if k = length str then r else 0)
           | Inl ec \<Rightarrow> (let (r, k) = strtod str in if k = length str then r else 0))"

section \<open>Trimming\<close>

text \<open>\<open>find_last_not_of\<close> and \<open>erase\<close>, then \<open>find_first_not_of\<close> and \<open>erase\<close>.\<close>

definition find_first_not_of :: "bytes \<Rightarrow> bytes \<Rightarrow> nat option" where
  "find_first_not_of s cs =
     (let n = length (takeWhile (\<lambda>c. c \<in> set cs) s) in if n < length s then Some n else None)"

definition find_last_not_of :: "bytes \<Rightarrow> bytes \<Rightarrow> nat option" where
  "find_last_not_of s cs =
     (let n = length (takeWhile (\<lambda>c. c \<in> set cs) (rev s))
      in if n < length s then Some (length s - 1 - n) else None)"

definition trim :: "bytes \<Rightarrow> bytes" where
  "trim string =
     (case find_last_not_of string kWhitespaces of
        Some pos \<Rightarrow>
          (let result = take (pos + 1) string
           in case find_first_not_of result kWhitespaces of
                Some pos' \<Rightarrow> drop pos' result
              | None \<Rightarrow> result)
      | None \<Rightarrow> [])"

definition stringViewTrim :: "bytes \<Rightarrow> bytes \<Rightarrow> bytes" where
  "stringViewTrim input trimChars =
     (case (find_first_not_of input trimChars, find_last_not_of input trimChars) of
        (Some first, Some last_pos) \<Rightarrow> take (last_pos - first + 1) (drop first input)
      | _ \<Rightarrow> [])"

text \<open>The two pointer loops of \<open>trimSpaces\<close>; \<open>right\<close> stops at \<open>left\<close>.\<close>

definition trimSpaces :: "bytes \<Rightarrow> bytes" where
  "trimSpaces s =
     (if s = [] then []
      else let left = length (takeWhile isspace s);
               rest = drop left s
           in take (length rest - length (takeWhile isspace (rev rest))) rest)"

definition stringViewTrimSpaces :: "bytes \<Rightarrow> bytes" where
  "stringViewTrimSpaces input = trimSpaces input"

section \<open>Splitting and joining\<close>

definition splitFirstOccurence :: "byte \<Rightarrow> bytes \<Rightarrow> bytes list" where
  "splitFirstOccurence delim string =
     (let pos = length (takeWhile (\<lambda>c. c \<noteq> delim) string)
      in if pos = length string then [string] else [take pos string, drop (pos + 1) string])"

text \<open>\<open>split\<close>: the token begun, if any, is \<open>Some\<close> of its bytes so far.\<close>

fun split_loop :: "byte \<Rightarrow> bytes option \<Rightarrow> bytes \<Rightarrow> bytes list" where
  "split_loop delim token [] = (case token of Some t \<Rightarrow> [t] | None \<Rightarrow> [])"
| "split_loop delim token (elem # rest) =
     (if elem = delim
      then (case token of Some t \<Rightarrow> t | None \<Rightarrow> []) # split_loop delim None rest
      else split_loop delim (Some ((case token of Some t \<Rightarrow> t | None \<Rightarrow> []) @ [elem])) rest)"

definition split :: "byte \<Rightarrow> bytes \<Rightarrow> bytes list" where
  "split delim string = split_loop delim None string"

text \<open>\<open>splitStringView\<close> has the same loop over views.\<close>

definition splitStringView :: "byte \<Rightarrow> bytes \<Rightarrow> bytes list" where
  "splitStringView delim string = split_loop delim None string"

definition join :: "byte \<Rightarrow> bytes list \<Rightarrow> bytes" where
  "join separator parts =
     (case parts of [] \<Rightarrow> [] | p # ps \<Rightarrow> p @ concat (map (\<lambda>q. separator # q) ps))"

text \<open>\<open>stringViewSplit\<close> with a character; \<open>token\<close> lies between \<open>first\<close> and \<open>current\<close>.\<close>

fun stringViewSplit_loop :: "byte \<Rightarrow> bytes \<Rightarrow> bytes \<Rightarrow> bytes list" where
  "stringViewSplit_loop delimiter token [] = [token]"
| "stringViewSplit_loop delimiter token (c # rest) =
     (if c = delimiter then token # stringViewSplit_loop delimiter [] rest
      else stringViewSplit_loop delimiter (token @ [c]) rest)"

definition stringViewSplit :: "byte \<Rightarrow> bytes \<Rightarrow> bytes list" where
  "stringViewSplit delimiter input =
     (if input = [] then [[]] else stringViewSplit_loop delimiter [] input)"

text \<open>
  The loops that look for a delimiter string (\<open>std::search\<close>) or for any of several
  characters (\<open>std::find_first_of\<close>): \<open>finder\<close> is the search from \<open>current\<close>, giving the
  rest's length where nothing is found, and \<open>w\<close> the width skipped.  The second component
  of the result is \<open>next\<close> when the loop ends.
\<close>

definition starts_with :: "bytes \<Rightarrow> bytes \<Rightarrow> bool" where
  "starts_with s d \<longleftrightarrow> take (length d) s = d"

fun search :: "bytes \<Rightarrow> bytes \<Rightarrow> nat" where
  "search [] d = 0"
| "search (c # cs) d = (if starts_with (c # cs) d then 0 else Suc (search cs d))"

function split_search_loop :: "(bytes \<Rightarrow> nat) \<Rightarrow> nat \<Rightarrow> bytes \<Rightarrow> nat \<Rightarrow> nat \<Rightarrow> bytes list \<times> nat" where
  "split_search_loop finder w s current next =
     (if current < length s \<and> 0 < w
      then let next = current + finder (drop current s);
               piece = take (next - current) (drop current s)
           in if next = length s then ([piece], next)
              else let (pieces, n) = split_search_loop finder w s (next + w) next
                   in (piece # pieces, n)
      else ([], next))"
  by pat_completeness auto
termination
  by (relation "measure (\<lambda>(finder, w, s, current, next). length s - current)") auto

declare split_search_loop.simps [simp del]

definition stringViewSplit_string :: "bytes \<Rightarrow> bytes \<Rightarrow> bytes list" where
  "stringViewSplit_string input delimiter =
     (if input = [] then [[]]
      else if delimiter = [] then [input]
      else let (output, next) = split_search_loop (\<lambda>s. search s delimiter) (length delimiter) input 0 0
           in if next + length delimiter = length input then output @ [[]] else output)"

definition stringViewSplitMultiDelimiters :: "bytes \<Rightarrow> bytes \<Rightarrow> bytes list" where
  "stringViewSplitMultiDelimiters input delimiters =
     (if input = [] then [[]]
      else if delimiters = [] then [input]
      else let (output, next) =
             split_search_loop (\<lambda>s. length (takeWhile (\<lambda>c. c \<notin> set delimiters) s)) 1 input 0 0
           in if next + 1 = length input then output @ [[]] else output)"

section \<open>Numbers from views\<close>

text \<open>
  The templates of \<open>common/StringConversion.h\<close>, for a type with parser \<open>parse\<close>
  (\<open>fast_float::from_chars\<close>); \<open>normal\<close> tells the values that are zero or normal, and holds
  of every value of an integer type.  A parse that stops early is not an error.
\<close>

definition errc_code :: "errc \<Rightarrow> nat" where
  "errc_code ec = (case ec of Invalid_Argument \<Rightarrow> 22 | Result_Out_Of_Range \<Rightarrow> 34)"

definition failed_to_convert_msg :: "errc \<Rightarrow> string" where
  "failed_to_convert_msg ec =
     ''Failed to convert string to number. error_code = '' @ show_nat (errc_code ec)"

definition toNumber :: "'t float_parser \<Rightarrow> bytes \<Rightarrow> 't outcome" where
  "toNumber parse sv =
     (case parse sv of Inr (value, n) \<Rightarrow> Inr value | Inl ec \<Rightarrow> Inl (Throw (failed_to_convert_msg ec)))"

definition toNumber_default :: "'t float_parser \<Rightarrow> bytes \<Rightarrow> 't \<Rightarrow> 't" where
  "toNumber_default parse sv defaultValue =
     (case parse sv of Inr (value, n) \<Rightarrow> value | Inl ec \<Rightarrow> defaultValue)"

definition toNormalNumber :: "'t float_parser \<Rightarrow> ('t \<Rightarrow> bool) \<Rightarrow> ('t \<Rightarrow> string) \<Rightarrow> bytes \<Rightarrow> 't outcome" where
  "toNormalNumber parse normal show_value sv =
     (case parse sv of
        Inr (value, n) \<Rightarrow>
          (if normal value then Inr value
           else Inl (Throw (''not a normal floating point number: '' @ show_value value)))
      | Inl ec \<Rightarrow> Inl (Throw (failed_to_convert_msg ec)))"

definition toNormalNumber_default :: "'t float_parser \<Rightarrow> ('t \<Rightarrow> bool) \<Rightarrow> bytes \<Rightarrow> 't \<Rightarrow> 't" where
  "toNormalNumber_default parse normal sv defaultValue =
     (case parse sv of
        Inr (value, n) \<Rightarrow> (if normal value then value else defaultValue)
      | Inl ec \<Rightarrow> defaultValue)"

text \<open>\<open>stringViewToVector\<close>: the pieces between delimiters, trimmed and converted in turn.\<close>

fun toVector_loop :: "(bytes \<Rightarrow> 't outcome) \<Rightarrow> byte \<Rightarrow> bytes \<Rightarrow> bytes \<Rightarrow> 't list outcome" where
  "toVector_loop conv delimiter token [] = and_then (conv (trimSpaces token)) (\<lambda>v. Inr [v])"
| "toVector_loop conv delimiter token (c # rest) =
     (if c = delimiter
      then and_then (conv (trimSpaces token)) (\<lambda>v.
           and_then (toVector_loop conv delimiter [] rest) (\<lambda>vs. Inr (v # vs)))
      else toVector_loop conv delimiter (token @ [c]) rest)"

definition stringViewToVector ::
  "'t float_parser \<Rightarrow> ('t \<Rightarrow> bool) \<Rightarrow> ('t \<Rightarrow> string) \<Rightarrow> bytes \<Rightarrow> byte \<Rightarrow> 't list outcome" where
  "stringViewToVector parse normal show_value input delimiter =
     toVector_loop (toNormalNumber parse normal show_value) delimiter [] input"

fun toVectorWithDefault_loop :: "(bytes \<Rightarrow> 't) \<Rightarrow> byte \<Rightarrow> bytes \<Rightarrow> bytes \<Rightarrow> 't list" where
  "toVectorWithDefault_loop conv delimiter token [] = [conv (trimSpaces token)]"
| "toVectorWithDefault_loop conv delimiter token (c # rest) =
     (if c = delimiter then conv (trimSpaces token) # toVectorWithDefault_loop conv delimiter [] rest
      else toVectorWithDefault_loop conv delimiter (token @ [c]) rest)"

definition stringViewToVectorWithDefault ::
  "'t float_parser \<Rightarrow> ('t \<Rightarrow> bool) \<Rightarrow> bytes \<Rightarrow> 't \<Rightarrow> byte \<Rightarrow> 't list" where
  "stringViewToVectorWithDefault parse normal input defaultValue delimiter =
     toVectorWithDefault_loop (\<lambda>sv. toNormalNumber_default parse normal sv defaultValue) delimiter [] input"

text \<open>
  The overload with a processing function: no trimming, and an empty last piece is left out.
\<close>

fun toVectorProcessed_loop ::
  "(bytes \<Rightarrow> bytes) \<Rightarrow> (bytes \<Rightarrow> 't outcome) \<Rightarrow> byte \<Rightarrow> bytes \<Rightarrow> bytes \<Rightarrow> 't list outcome" where
  "toVectorProcessed_loop processFunc conv delimiter token [] =
     (if token \<noteq> [] then and_then (conv (processFunc token)) (\<lambda>v. Inr [v]) else Inr [])"
| "toVectorProcessed_loop processFunc conv delimiter token (c # rest) =
     (if c = delimiter
      then and_then (conv (processFunc token)) (\<lambda>v.
           and_then (toVectorProcessed_loop processFunc conv delimiter [] rest) (\<lambda>vs. Inr (v # vs)))
      else toVectorProcessed_loop processFunc conv delimiter (token @ [c]) rest)"

definition stringViewToVector_process ::
  "'t float_parser \<Rightarrow> ('t \<Rightarrow> bool) \<Rightarrow> ('t \<Rightarrow> string) \<Rightarrow> bytes \<Rightarrow> byte \<Rightarrow> (bytes \<Rightarrow> bytes) \<Rightarrow> 't list outcome" where
  "stringViewToVector_process parse normal show_value input delimiter processFunc =
     toVectorProcessed_loop processFunc (toNormalNumber parse normal show_value) delimiter [] input"


section \<open>Trimming, three ways\<close>

lemma isspace_iff: "isspace c \<longleftrightarrow> c \<in> set kWhitespaces"
proof -
  have "c = 32 \<or> (9 \<le> c \<and> c \<le> 13) \<longleftrightarrow> c \<in> {32, 9, 12, 11, 10, 13}" for c :: byte
  proof -
    have "9 \<le> c \<and> c \<le> 13 \<longleftrightarrow> unat c \<in> {9, 10, 11, 12, 13}"
      by (auto simp: word_le_nat_alt)
    then show ?thesis by (auto simp: word_unat_eq_iff)
  qed
  then show ?thesis by (simp add: isspace_def kWhitespaces_def)
qed

text \<open>The part of a string between its outer characters of a set, as a reference.\<close>

definition strip :: "(byte \<Rightarrow> bool) \<Rightarrow> bytes \<Rightarrow> bytes" where
  "strip P s = rev (dropWhile P (rev (dropWhile P s)))"

lemma drop_length_takeWhile: "drop (length (takeWhile P s)) s = dropWhile P s"
  by (induction s) auto

lemma take_rev_takeWhile: "take (length s - length (takeWhile P (rev s))) s = rev (dropWhile P (rev s))"
proof -
  have "take (length s - n) s = rev (drop n (rev s))" for n
    by (simp add: rev_drop)
  then show ?thesis by (simp add: drop_length_takeWhile)
qed

lemma trimSpaces_strip: "trimSpaces s = strip isspace s"
  by (simp add: trimSpaces_def Let_def drop_length_takeWhile take_rev_takeWhile strip_def)

lemma length_takeWhile_less_iff: "length (takeWhile P s) < length s \<longleftrightarrow> (\<exists>c \<in> set s. \<not> P c)"
  by (induction s) auto

lemma strip_all: "\<forall>c \<in> set s. P c \<Longrightarrow> strip P s = []"
  by (auto simp: strip_def dest: set_dropWhileD)

text \<open>Trimming the end first gives the same.\<close>

lemma dropWhile_rev_append:
  "\<exists>c \<in> set s. \<not> P c \<Longrightarrow> dropWhile P (rev s @ t) = dropWhile P (rev s) @ t"
  by (induction s rule: rev_induct) auto

lemma strip_commute: "dropWhile P (rev (dropWhile P (rev s))) = strip P s"
proof (cases "\<exists>c \<in> set s. \<not> P c")
  case True
  then show ?thesis
  proof (induction s)
    case Nil
    then show ?case by simp
  next
    case (Cons a s)
    show ?case
    proof (cases "P a")
      case True
      with Cons.prems have ex: "\<exists>c \<in> set s. \<not> P c" by auto
      from Cons.IH [OF ex] dropWhile_rev_append [OF ex, of "[a]"] True show ?thesis
        by (simp add: strip_def)
    next
      case False
      have "dropWhile P (rev s @ [a]) = (if \<exists>c \<in> set s. \<not> P c then dropWhile P (rev s) @ [a] else [a])"
        using False dropWhile_rev_append [of s P "[a]"] dropWhile_append2 [of "rev s" P "[a]"] by auto
      then show ?thesis using False by (auto simp: strip_def)
    qed
  qed
next
  case False
  then show ?thesis by (auto simp: strip_all dest: set_dropWhileD)
qed

lemma trim_strip: "trim s = strip isspace s"
proof (cases "\<exists>c \<in> set s. \<not> isspace c")
  case True
  have fl: "find_last_not_of s kWhitespaces = Some (length s - 1 - length (takeWhile isspace (rev s)))"
    using True length_takeWhile_less_iff [of isspace "rev s"]
    by (simp add: find_last_not_of_def Let_def flip: isspace_iff)
  let ?r = "take (length s - length (takeWhile isspace (rev s))) s"
  have lt: "length (takeWhile isspace (rev s)) < length s"
    using True length_takeWhile_less_iff [of isspace "rev s"] by simp
  then have suc: "length s - 1 - length (takeWhile isspace (rev s)) + 1 =
      length s - length (takeWhile isspace (rev s))" by simp
  have r: "?r = rev (dropWhile isspace (rev s))" by (rule take_rev_takeWhile)
  have "\<exists>c \<in> set ?r. \<not> isspace c"
  proof -
    obtain c where c: "hd (dropWhile isspace (rev s)) = c" by simp
    have ne: "dropWhile isspace (rev s) \<noteq> []" using True by auto
    from hd_dropWhile [OF ne] c have "\<not> isspace c" by simp
    moreover have "c \<in> set ?r" unfolding r using c hd_in_set [OF ne] by simp
    ultimately show ?thesis by blast
  qed
  then have ff: "find_first_not_of ?r kWhitespaces = Some (length (takeWhile isspace ?r))"
    using length_takeWhile_less_iff [of isspace ?r]
    by (simp add: find_first_not_of_def Let_def flip: isspace_iff)
  show ?thesis
    unfolding trim_def fl using suc ff strip_commute [of isspace s]
    by (simp add: Let_def drop_length_takeWhile r)
next
  case False
  then have "find_last_not_of s kWhitespaces = None"
    using length_takeWhile_less_iff [of isspace "rev s"]
    by (simp add: find_last_not_of_def Let_def flip: isspace_iff)
  with False show ?thesis by (simp add: trim_def strip_all)
qed


lemma dropWhile_takeWhile_index:
  "P (s ! n) = False \<Longrightarrow> n < length s \<Longrightarrow> length (takeWhile P s) \<le> n"
  by (metis leI nth_mem set_takeWhileD takeWhile_nth)

text \<open>\<open>substr\<close> between the two positions is the same part.\<close>

lemma stringViewTrim_strip: "stringViewTrim s cs = strip (\<lambda>c. c \<in> set cs) s"
proof (cases "\<exists>c \<in> set s. \<not> c \<in> set cs")
  case True
  let ?P = "\<lambda>c. c \<in> set cs"
  let ?l = "length (takeWhile ?P s)" and ?e = "length (takeWhile ?P (rev s))"
  have l: "?l < length s" and e: "?e < length s"
    using True length_takeWhile_less_iff [of ?P s] length_takeWhile_less_iff [of ?P "rev s"] by auto
  have "\<not> ?P (s ! ?l)" using nth_length_takeWhile [OF l] .
  have "\<not> ?P (s ! (length s - 1 - ?e))"
    using nth_length_takeWhile [of ?P "rev s"] e by (simp add: rev_nth)
  then have le: "?l \<le> length s - 1 - ?e"
    using e by (intro dropWhile_takeWhile_index) auto
  have "length s - 1 - ?e - ?l + 1 = length s - ?e - ?l"
    using l e le by linarith
  then have "stringViewTrim s cs = take (length s - ?e - ?l) (drop ?l s)"
    using l e by (simp add: stringViewTrim_def find_first_not_of_def find_last_not_of_def Let_def)
  also have "\<dots> = drop ?l (take (length s - ?e) s)"
    by (simp add: drop_take)
  also have "take (length s - ?e) s = rev (dropWhile ?P (rev s))"
    by (rule take_rev_takeWhile)
  also have "?l = length (takeWhile ?P (rev (dropWhile ?P (rev s))))"
  proof -
    have "s = rev (dropWhile ?P (rev s)) @ rev (takeWhile ?P (rev s))"
      by (metis rev_append rev_rev_ident takeWhile_dropWhile_id)
    moreover have "\<exists>c \<in> set (rev (dropWhile ?P (rev s))). \<not> ?P c"
    proof -
      have ne: "dropWhile ?P (rev s) \<noteq> []" using True by auto
      from hd_dropWhile [OF ne] hd_in_set [OF ne] show ?thesis by auto
    qed
    ultimately show ?thesis by (metis takeWhile_append1)
  qed
  finally show ?thesis
    using strip_commute [of ?P s] by (simp add: drop_length_takeWhile)
next
  case False
  then have "find_first_not_of s cs = None"
    using length_takeWhile_less_iff [of "\<lambda>c. c \<in> set cs" s] by (simp add: find_first_not_of_def Let_def)
  with False show ?thesis by (simp add: stringViewTrim_def strip_all)
qed

section \<open>Splitting and joining\<close>

lemma split_loop_Cons: "\<exists>p ps. split_loop d (Some t) s = p # ps"
  by (induction s arbitrary: t) auto

lemma join_split_loop:
  "last (t @ s) \<noteq> d \<Longrightarrow> s \<noteq> [] \<Longrightarrow> join d (split_loop d (if t = [] then None else Some t) s) = t @ s"
proof (induction s arbitrary: t)
  case Nil
  then show ?case by simp
next
  case (Cons c s)
  show ?case
  proof (cases "s = []")
    case True
    with Cons.prems show ?thesis by (auto simp: join_def)
  next
    case False
    show ?thesis
    proof (cases "c = d")
      case True
      from Cons.IH [of "[]"] Cons.prems False
      have "join d (split_loop d None s) = s" by simp
      moreover have "split_loop d None s \<noteq> []"
        using False split_loop_Cons [of d "[hd s]" "tl s"] by (cases s) auto
      ultimately show ?thesis
        using True by (auto simp: join_def split: list.splits)
    next
      case c: False
      from Cons.IH [of "t @ [c]"] Cons.prems False c show ?thesis by auto
    qed
  qed
qed

lemma split_loop_token:
  assumes "d \<notin> set p"
  shows "split_loop d (Some t) (p @ s) = split_loop d (Some (t @ p)) s"
  using assms by (induction p arbitrary: t) auto

lemma split_loop_part:
  assumes "d \<notin> set p"
  shows "split_loop d None (p @ d # s) = p # split_loop d None s"
proof (cases p)
  case (Cons c cs)
  with assms split_loop_token [of d cs "[c]" "d # s"] show ?thesis by auto
qed simp

lemma split_loop_last:
  assumes "d \<notin> set p" and "p \<noteq> []"
  shows "split_loop d None p = [p]"
  using assms split_loop_token [of d "tl p" "[hd p]" "[]"] by (cases p) auto

lemma split_join_loop:
  assumes "\<forall>p \<in> set parts. d \<notin> set p" and "parts \<noteq> []" and "last parts \<noteq> []"
  shows "split d (join d parts) = parts"
  using assms
proof (induction parts)
  case Nil
  then show ?case by simp
next
  case (Cons p ps)
  show ?case
  proof (cases ps)
    case Nil
    with Cons.prems show ?thesis by (simp add: join_def split_def split_loop_last)
  next
    case (Cons q qs)
    have "join d (p # ps) = p @ d # join d ps"
      using Cons by (simp add: join_def)
    then show ?thesis
      using Cons.IH Cons.prems split_loop_part [of d p] \<open>ps = q # qs\<close> by (simp add: split_def)
  qed
qed

text \<open>The view version keeps a last empty piece, so joining always gives the input back.\<close>

lemma stringViewSplit_loop_join: "join d (stringViewSplit_loop d t s) = t @ s"
proof (induction s arbitrary: t)
  case Nil
  then show ?case by (simp add: join_def)
next
  case (Cons c s)
  have ne: "stringViewSplit_loop d [] s \<noteq> []"
  proof -
    have "stringViewSplit_loop d u s \<noteq> []" for u by (induction s arbitrary: u) auto
    then show ?thesis .
  qed
  show ?case
  proof (cases "c = d")
    case True
    obtain p ps where pps: "stringViewSplit_loop d [] s = p # ps" using ne by (cases "stringViewSplit_loop d [] s") auto
    with Cons.IH [of "[]"] True show ?thesis by (simp add: join_def)
  qed (use Cons.IH [of "t @ [c]"] in simp)
qed

lemma stringViewSplit_loop_pieces:
  "d \<notin> set t \<Longrightarrow> \<forall>p \<in> set (stringViewSplit_loop d t s). d \<notin> set p"
proof (induction s arbitrary: t)
  case (Cons c s)
  show ?case
    using Cons.prems Cons.IH [of "[]"] Cons.IH [of "t @ [c]"] by (cases "c = d") simp_all
qed simp


lemma search_le: "search s d \<le> length s"
  by (induction s) auto

lemma search_found: "search s d < length s \<Longrightarrow> starts_with (drop (search s d) s) d"
  by (induction s) auto

lemma starts_with_append: "starts_with s d \<Longrightarrow> s = d @ drop (length d) s"
  by (subst append_take_drop_id [of "length d" s, symmetric]) (simp only: starts_with_def)

text \<open>Putting a delimiter string between the pieces.\<close>

definition intercalate :: "bytes \<Rightarrow> bytes list \<Rightarrow> bytes" where
  "intercalate d parts = (case parts of [] \<Rightarrow> [] | p # ps \<Rightarrow> p @ concat (map (\<lambda>q. d @ q) ps))"

lemma intercalate_Cons: "ps \<noteq> [] \<Longrightarrow> intercalate d (p # ps) = p @ d @ intercalate d ps"
  by (cases ps) (simp_all add: intercalate_def)

lemma intercalate_snoc: "ps \<noteq> [] \<Longrightarrow> intercalate d (ps @ [q]) = intercalate d ps @ d @ q"
  by (cases ps) (simp_all add: intercalate_def)

lemma split_search_loop_string:
  assumes "split_search_loop (\<lambda>s. search s d) (length d) s cur nx = (ps, n)"
    and "d \<noteq> []" and "cur < length s"
  shows "ps \<noteq> [] \<and> (if n + length d = length s then intercalate d ps @ d = drop cur s
                    else intercalate d ps = drop cur s)"
  using assms
proof (induction "length s - cur" arbitrary: cur nx ps n rule: less_induct)
  case less
  let ?f = "search (drop cur s) d"
  let ?nx = "cur + ?f"
  have f: "?f \<le> length s - cur"
    using search_le [of "drop cur s" d] by simp
  show ?case
  proof (cases "?nx = length s")
    case True
    with less.prems have "ps = [take ?f (drop cur s)]" "n = length s"
      by (subst (asm) split_search_loop.simps; simp)+
    then show ?thesis
      using True less.prems(2,3) by (simp add: intercalate_def)
  next
    case False
    with f less.prems(3) have lt: "?f < length (drop cur s)" by simp
    have d: "drop ?nx s = d @ drop (?nx + length d) s"
      using starts_with_append [OF search_found [OF lt]] by (simp add: add.commute add.left_commute)
    have "length (drop ?nx s) = length d + length (drop (?nx + length d) s)"
      by (subst d) simp
    with False f less.prems(3) have fit: "?nx + length d \<le> length s"
      by simp
    have split: "drop cur s = take ?f (drop cur s) @ d @ drop (?nx + length d) s"
      by (metis add.commute append_take_drop_id d drop_drop)
    obtain ps' where rec: "split_search_loop (\<lambda>s. search s d) (length d) s (?nx + length d) ?nx = (ps', n)"
      and ps: "ps = take ?f (drop cur s) # ps'"
      using less.prems False
      by (subst (asm) split_search_loop.simps) (auto simp: Let_def split: prod.splits)
    show ?thesis
    proof (cases "?nx + length d < length s")
      case True
      have "0 < length d" using less.prems(2) by simp
      then have "length s - (?nx + length d) < length s - cur"
        using less.prems(3) by linarith
      from less.hyps [OF this rec less.prems(2) True]
      have IH: "ps' \<noteq> []" "if n + length d = length s then intercalate d ps' @ d = drop (?nx + length d) s
          else intercalate d ps' = drop (?nx + length d) s" by auto
      show ?thesis
        using IH(2) by (subst (1 2) split) (simp add: ps intercalate_Cons [OF IH(1)] split: if_splits)
    next
      case stop: False
      with rec have "ps' = []" "n = ?nx"
        by (subst (asm) split_search_loop.simps; simp)+
      moreover have "?nx + length d = length s" using stop fit by simp
      ultimately show ?thesis
        by (subst (1 2) split) (simp add: ps intercalate_def)
    qed
  qed
qed

lemma intercalate_stringViewSplit_string:
  "d \<noteq> [] \<Longrightarrow> intercalate d (stringViewSplit_string s d) = s"
proof (cases "s = []")
  case False
  assume d: "d \<noteq> []"
  obtain ps n where l: "split_search_loop (\<lambda>s. search s d) (length d) s 0 0 = (ps, n)"
    by (metis surj_pair)
  from split_search_loop_string [OF l d] False have "ps \<noteq> []"
    "if n + length d = length s then intercalate d ps @ d = s else intercalate d ps = s" by auto
  then show ?thesis
    using False d l by (auto simp: stringViewSplit_string_def intercalate_snoc)
qed (simp add: stringViewSplit_string_def intercalate_def)

section \<open>Decimal text\<close>

lemma of_char_digit: "d < 10 \<Longrightarrow> (of_char (digit_char d) :: byte) = of_nat (48 + d)"
proof -
  assume "d < 10"
  then have "(of_nat (of_char (char_of (48 + d))) :: byte) = of_nat (48 + d)"
    by (simp only: of_char_of mod_less)
  then show ?thesis by (simp only: of_nat_of_char digit_char_def)
qed

lemma is_digit_of_nat: "d < 10 \<Longrightarrow> is_digit (of_nat (48 + d))"
  by (simp add: is_digit_def word_le_nat_alt unat_of_nat del: of_nat_add)

lemma lit_append [simp]: "lit (a @ b) = lit a @ lit b"
  by (simp add: lit_def)

lemma digits_val_snoc: "digits_val acc (xs @ [c]) = 10 * digits_val acc xs + (int (unat c) - 48)"
  by (induction xs arbitrary: acc) auto

lemma show_nat_digits:
  "lit (show_nat n) \<noteq> [] \<and> (\<forall>c \<in> set (lit (show_nat n)). is_digit c) \<and> digits_val 0 (lit (show_nat n)) = int n"
proof (induction n rule: show_nat.induct)
  case (1 n)
  show ?case
  proof (cases "n < 10")
    case True
    then show ?thesis
      by (subst (1 2 3) show_nat.simps)
        (simp add: lit_def of_char_digit is_digit_of_nat unat_of_nat del: of_nat_add)
  next
    case False
    have "n mod 10 < 10" by simp
    note dg = of_char_digit [OF this] is_digit_of_nat [OF this]
    have "unat (of_nat (48 + n mod 10) :: byte) = 48 + n mod 10"
      using \<open>n mod 10 < 10\<close> by (simp add: unat_of_nat del: of_nat_add)
    moreover have "10 * int (n div 10) + (int (48 + n mod 10) - 48) = int n"
      by presburger
    ultimately show ?thesis
      using 1 [OF False] False dg
      by (subst (1 2 3) show_nat.simps)
        (auto simp: digits_val_snoc lit_def [of "[_]"] simp del: of_nat_add)
  qed
qed

text \<open>The text of a number in range is read back as that number.\<close>

lemma from_chars_show_int:
  assumes "lo \<le> i" and "i \<le> hi"
  shows "from_chars lo hi (lit (show_int i)) = Inr i"
proof -
  note n = show_nat_digits [of "nat i"] and m = show_nat_digits [of "nat (- i)"]
  have tw: "takeWhile is_digit (lit (show_nat k)) = lit (show_nat k)" for k
    using show_nat_digits [of k] by (auto simp: takeWhile_eq_all_conv)
  show ?thesis
  proof (cases "i < 0")
    case True
    have minus: "lit (show_int i) = 45 # lit (show_nat (nat (- i)))"
      using True by (simp add: show_int_def lit_def)
    show ?thesis
      using m assms True by (simp add: from_chars_def minus tw)
  next
    case False
    have plus: "lit (show_int i) = lit (show_nat (nat i))"
      using False by (simp add: show_int_def)
    have "is_digit (hd (lit (show_nat (nat i))))"
      using n hd_in_set by blast
    then have "hd (lit (show_nat (nat i))) \<noteq> 45"
      by (auto simp: is_digit_def)
    then show ?thesis
      using n assms False by (simp add: from_chars_def plus tw)
  qed
qed

text \<open>A number out of range is refused, and \<open>toLong\<close> and \<open>toInteger\<close> then give 0.\<close>

lemma from_chars_show_int_range:
  "from_chars lo hi (lit (show_int i)) = (if lo \<le> i \<and> i \<le> hi then Inr i else Inl Result_Out_Of_Range)"
proof -
  have wide: "from_chars (min lo i) (max hi i) (lit (show_int i)) = Inr i"
    by (rule from_chars_show_int) auto
  then show ?thesis
    unfolding from_chars_def Let_def by (auto split: if_splits)
qed

section \<open>Conversion of lists\<close>

text \<open>Converting pieces from left to right, up to the first failure.\<close>

fun convert_all :: "(bytes \<Rightarrow> 't outcome) \<Rightarrow> bytes list \<Rightarrow> 't list outcome" where
  "convert_all conv [] = Inr []"
| "convert_all conv (p # ps) =
     and_then (conv p) (\<lambda>v. and_then (convert_all conv ps) (\<lambda>vs. Inr (v # vs)))"

lemma toVector_loop_split:
  "toVector_loop conv d t s = convert_all (\<lambda>p. conv (strip isspace p)) (stringViewSplit_loop d t s)"
  by (induction s arbitrary: t) (simp_all add: trimSpaces_strip)

lemma toVectorWithDefault_loop_split:
  "toVectorWithDefault_loop conv d t s = map (\<lambda>p. conv (strip isspace p)) (stringViewSplit_loop d t s)"
  by (induction s arbitrary: t) (simp_all add: trimSpaces_strip)

lemma stringViewSplit_loop_eq: "stringViewSplit_loop d [] s = stringViewSplit d s"
  by (cases s) (simp_all add: stringViewSplit_def)

section \<open>Properties\<close>

text \<open>The three ways of trimming agree: the one over find functions, the one over iterators and
  the one with a set of characters all give the part between the outer white space, which is the
  whole string when there is none and nothing when there is nothing else.\<close>

theorem trims_agree:
  "trim s = strip isspace s \<and> stringViewTrimSpaces s = strip isspace s \<and>
   stringViewTrim s kWhitespaces = strip isspace s \<and>
   (\<exists>l r. s = l @ trim s @ r \<and> list_all isspace l \<and> list_all isspace r)"
proof -
  have "stringViewTrim s kWhitespaces = strip isspace s"
    unfolding stringViewTrim_strip isspace_iff ..
  moreover have "\<exists>l r. s = l @ strip isspace s @ r \<and> list_all isspace l \<and> list_all isspace r"
  proof (intro exI conjI)
    let ?m = "dropWhile isspace s"
    have "?m = rev (dropWhile isspace (rev ?m)) @ rev (takeWhile isspace (rev ?m))"
      by (metis rev_append rev_rev_ident takeWhile_dropWhile_id)
    then show "s = takeWhile isspace s @ strip isspace s @ rev (takeWhile isspace (rev ?m))"
      by (metis strip_def takeWhile_dropWhile_id)
  qed (auto simp: list_all_iff dest: set_takeWhileD)
  ultimately show ?thesis by (simp add: trim_strip trimSpaces_strip stringViewTrimSpaces_def)
qed

text \<open>Splitting and joining are inverse: joining the pieces that \<open>stringViewSplit\<close> finds gives the
  string back and no piece holds the delimiter; the same for a delimiter of several bytes; \<open>split\<close>
  drops a last empty piece and is inverse where there is none.\<close>

theorem split_join_round_trip:
  "join d (stringViewSplit d s) = s \<and> (\<forall>p \<in> set (stringViewSplit d s). d \<notin> set p) \<and>
   (ds \<noteq> [] \<longrightarrow> intercalate ds (stringViewSplit_string s ds) = s) \<and>
   (s \<noteq> [] \<and> last s \<noteq> d \<longrightarrow> join d (split d s) = s) \<and>
   (parts \<noteq> [] \<and> last parts \<noteq> [] \<and> (\<forall>p \<in> set parts. d \<notin> set p) \<longrightarrow> split d (join d parts) = parts)"
  using stringViewSplit_loop_join [of d "[]" s] stringViewSplit_loop_pieces [of d "[]" s]
    intercalate_stringViewSplit_string [of ds s] join_split_loop [of "[]" s d] split_join_loop [of parts d]
  by (simp add: stringViewSplit_loop_eq split_def)

theorem split_join_round_trip_witness:
  "split 44 (join 44 [[1], [2]]) = [[1], [2]] \<and> intercalate [7, 8] (stringViewSplit_string [1, 7, 8, 2] [7, 8]) = [1, 7, 8, 2]"
  using split_join_round_trip [of 44 "[1, 7, 8, 2]" "[7, 8]" "[[1], [2]]"] by simp

text \<open>The decimal text of a number reads back as that number where it fits the type, 64 bits for
  \<open>toLong\<close> and 32 for \<open>toInteger\<close>, and as 0 where it does not.\<close>

theorem decimal_round_trip:
  "toLong (lit (show_int i)) = (if - (2 ^ 63) \<le> i \<and> i < 2 ^ 63 then i else 0) \<and>
   toInteger (lit (show_int i)) = (if - (2 ^ 31) \<le> i \<and> i < 2 ^ 31 then i else 0)"
  by (simp add: toLong_def toInteger_def from_chars_show_int_range)

text \<open>Reading a vector of numbers out of a text is splitting at the delimiter, trimming every piece
  and converting the pieces from left to right up to the first failure; with a default value no
  piece can fail and the vector has a number for each piece.\<close>

theorem string_to_vector_split:
  "stringViewToVector parse normal show_value s d =
     convert_all (\<lambda>p. toNormalNumber parse normal show_value (strip isspace p)) (stringViewSplit d s) \<and>
   stringViewToVectorWithDefault parse normal s dflt d =
     map (\<lambda>p. toNormalNumber_default parse normal (strip isspace p) dflt) (stringViewSplit d s)"
  by (simp add: stringViewToVector_def stringViewToVectorWithDefault_def toVector_loop_split
      toVectorWithDefault_loop_split stringViewSplit_loop_eq)

end
