(* ===== verification/Typed_Access.thy ===== *)
theory Typed_Access
  imports Hashed_Cache Transformers String_Utils
begin

text \<open>
  The typed interface of \<open>HashedCacheBase\<close>: \<open>put\<close> encodes a value and calls
  \<open>putInternal\<close>, the getters call the virtual \<open>getInternal\<close> or
  \<open>getWithTypeInternal\<close> and decode what comes back.  The virtual functions of a cache
  are the record \<open>lookup\<close>, so that one model of the getters serves all three kinds of
  cache.  A getter returns its value, the flag where it has one, and \<open>*foundHash\<close>.

  The locales state what the getters and their users rely on: \<open>value_reader\<close> and
  \<open>typed_reader\<close> that the virtual functions look a key up in a map, \<open>typed_store\<close> that
  \<open>putInternal\<close> extends that map.  Inside them each value that was put is read back.
\<close>

section \<open>The virtual functions\<close>

record lookup =
  vt_value :: "bytes \<Rightarrow> CacheValueType \<Rightarrow> (bytes \<times> u64) outcome option"
  vt_exist :: "bytes \<Rightarrow> CacheValueType \<Rightarrow> (bytes \<times> bool \<times> u64) outcome option"
  vt_typed :: "bytes \<Rightarrow> (bytes \<times> CacheValueType \<times> u64) outcome option"

text \<open>The parsers of floating-point text, and \<open>std::to_string(float)\<close> for messages.\<close>

record float_lib =
  fl_double :: "u64 float_parser"
  fl_float :: "u32 float_parser"
  fl_strtod :: "bytes \<Rightarrow> u64 \<times> nat"
  fl_show :: "u32 \<Rightarrow> string"

text \<open>\<open>std::isnormal( value ) || value == 0\<close> on the bits of a float.\<close>

definition normal_or_zero :: "u32 \<Rightarrow> bool" where
  "normal_or_zero x \<longleftrightarrow>
     (let e = drop_bit 23 x AND 255 in (e \<noteq> 0 \<and> e \<noteq> 255) \<or> x AND 0x7FFFFFFF = 0)"

definition float_vector :: "float_lib \<Rightarrow> bytes \<Rightarrow> u32 list outcome" where
  "float_vector fl value = stringViewToVector (fl_float fl) normal_or_zero (fl_show fl) value 58"

section \<open>Getters\<close>

definition get :: "lookup \<Rightarrow> bytes \<Rightarrow> bytes \<Rightarrow> (bytes \<times> u64) outcome option" where
  "get vt key defaultValue =
     run_then (vt_value vt key TString) (\<lambda>(str, h).
     run_then (Some (if str \<noteq> [] then trimExtraNullTerminator str else Inr str)) (\<lambda>str.
       Some (Inr (if str = [] then defaultValue else str, h))))"

definition getVector :: "lookup \<Rightarrow> bytes \<Rightarrow> bytes list \<Rightarrow> (bytes list \<times> u64) outcome option" where
  "getVector vt key defaultValue =
     run_then (vt_value vt key TStringList) (\<lambda>(str, h).
     run_then (Some (if str = [] then Inr defaultValue else decode_list str)) (\<lambda>retValue.
       Some (Inr (if retValue = [] then defaultValue else retValue, h))))"

definition getString :: "lookup \<Rightarrow> bytes \<Rightarrow> bytes \<Rightarrow> (bytes \<times> bool \<times> u64) outcome option" where
  "getString vt key defaultValue =
     run_then (vt_exist vt key TString) (\<lambda>(str, isExist, h).
       if \<not> isExist then Some (Inr (defaultValue, False, h))
       else run_then (Some (trimExtraNullTerminator str)) (\<lambda>s. Some (Inr (s, True, h))))"

definition getWithType :: "lookup \<Rightarrow> bytes \<Rightarrow> (bytes \<times> CacheValueType \<times> u64) outcome option" where
  "getWithType vt key =
     run_then (vt_typed vt key) (\<lambda>(value, type, h).
       if type = TString
       then run_then (Some (if value = [] then Inr value else trimExtraNullTerminator value))
              (\<lambda>s. Some (Inr (s, type, h)))
       else if type = TStringList then Some (Inr ([], type, h))
       else Some (Inr (value, type, h)))"

definition getBool :: "lookup \<Rightarrow> bytes \<Rightarrow> bool \<Rightarrow> (bool \<times> bool \<times> u64) outcome option" where
  "getBool vt key defaultValue =
     run_then (getWithType vt key) (\<lambda>(str, type, h).
       if str = [] then Some (Inr (defaultValue, False, h))
       else if type = TBool then run_then (Some (string_to_bool str)) (\<lambda>b. Some (Inr (b, True, h)))
       else if type = TInt64 then Some (Inr (string_to_int64 str \<noteq> 0, True, h))
       else if type = TString then Some (Inr (toBool str, True, h))
       else Some (Inr (defaultValue, False, h)))"

definition getInt64 :: "lookup \<Rightarrow> bytes \<Rightarrow> i64 \<Rightarrow> (i64 \<times> bool \<times> u64) outcome option" where
  "getInt64 vt key defaultValue =
     run_then (getWithType vt key) (\<lambda>(str, type, h).
       if str = [] then Some (Inr (defaultValue, False, h))
       else if type = TInt64 then Some (Inr (string_to_int64 str, True, h))
       else if type = TString then Some (Inr (of_int (toLong str), True, h))
       else Some (Inr (defaultValue, False, h)))"

definition getDouble :: "float_lib \<Rightarrow> lookup \<Rightarrow> bytes \<Rightarrow> f64 \<Rightarrow> (f64 \<times> bool \<times> u64) outcome option" where
  "getDouble fl vt key defaultValue =
     run_then (getWithType vt key) (\<lambda>(str, type, h).
       if str = [] then Some (Inr (defaultValue, False, h))
       else if type = TDouble then Some (Inr (string_to_double str, True, h))
       else if type = TString
       then Some (Inr (toDoubleCompatible (fl_double fl) (fl_strtod fl) str, True, h))
       else Some (Inr (defaultValue, False, h)))"

definition getFloatVector :: "float_lib \<Rightarrow> lookup \<Rightarrow> bytes \<Rightarrow> (f32 list \<times> u64) outcome option" where
  "getFloatVector fl vt key =
     run_then (vt_typed vt key) (\<lambda>(value, type, h).
       if value \<noteq> [] \<and> type = TString
       then run_then (Some (float_vector fl value)) (\<lambda>v. Some (Inr (v, h)))
       else if value \<noteq> [] \<and> type = TFloatList then Some (Inr (string_to_floats value, h))
       else Some (Inr ([], h)))"

definition float_span_msg :: string where
  "float_span_msg = ''Cache value type is string, please use getFloatVector instead to explicitly convert it to a float vector''"

definition getFloatSpan :: "lookup \<Rightarrow> bytes \<Rightarrow> (f32 list \<times> u64) outcome option" where
  "getFloatSpan vt key =
     run_then (vt_typed vt key) (\<lambda>(value, type, h).
       if value \<noteq> [] \<and> type = TString then Some (Inl (Throw float_span_msg))
       else if value \<noteq> [] \<and> type = TFloatList then Some (Inr (string_to_span value, h))
       else Some (Inr ([], h)))"

definition readKey :: "lookup \<Rightarrow> bytes \<Rightarrow> (bytes \<times> u64) outcome option" where
  "readKey vt key =
     run_then (vt_typed vt key) (\<lambda>(value, type, h).
       if value = [] then Some (Inr ([], h))
       else if type = TString
       then run_then (Some (trimExtraNullTerminator value)) (\<lambda>s. Some (Inr (s, h)))
       else if type = TStringList
       then run_then (Some (decode_list value)) (\<lambda>vs.
              Some (Inr (if length vs = 1 then hd vs else [], h)))
       else Some (Inr ([], h)))"

definition readKeys :: "lookup \<Rightarrow> bytes \<Rightarrow> (bytes list \<times> u64) outcome option" where
  "readKeys vt key =
     run_then (vt_typed vt key) (\<lambda>(value, type, h).
       if value = [] then Some (Inr ([], h))
       else if type = TString
       then run_then (Some (trimExtraNullTerminator value)) (\<lambda>s. Some (Inr ([s], h)))
       else if type = TStringList
       then run_then (Some (decode_list value)) (\<lambda>vs. Some (Inr (vs, h)))
       else Some (Inr ([], h)))"

text \<open>One element; an index outside the vector gives 0.  The index is an \<open>int32_t\<close>.\<close>

definition float_at :: "bytes \<Rightarrow> u32 \<Rightarrow> f32 outcome" where
  "float_at value index =
     (let offset = (scast index :: u64) * 4
      in if 0 \<le> sint index \<and> unat offset < length value then load_u32 value (unat offset) else Inr 0)"

definition float_in :: "f32 list \<Rightarrow> u32 \<Rightarrow> f32" where
  "float_in values index =
     (if 0 \<le> sint index \<and> nat (sint index) < length values then values ! nat (sint index) else 0)"

definition getFloatAtIndex :: "float_lib \<Rightarrow> lookup \<Rightarrow> bytes \<Rightarrow> u32 \<Rightarrow> (f32 \<times> u64) outcome option" where
  "getFloatAtIndex fl vt key index =
     run_then (vt_typed vt key) (\<lambda>(value, type, h).
       if value \<noteq> [] \<and> type = TString
       then run_then (Some (float_vector fl value)) (\<lambda>values. Some (Inr (float_in values index, h)))
       else if value \<noteq> [] \<and> type = TFloatList
       then run_then (Some (float_at value index)) (\<lambda>x. Some (Inr (x, h)))
       else Some (Inr (0, h)))"

fun floats_at :: "bytes \<Rightarrow> u32 list \<Rightarrow> f32 list outcome" where
  "floats_at value [] = Inr []"
| "floats_at value (i # is) =
     and_then (float_at value i) (\<lambda>x. and_then (floats_at value is) (\<lambda>xs. Inr (x # xs)))"

definition getFloatAtIndices ::
  "float_lib \<Rightarrow> lookup \<Rightarrow> bytes \<Rightarrow> u32 list \<Rightarrow> (f32 list \<times> u64) outcome option" where
  "getFloatAtIndices fl vt key indices =
     run_then (vt_typed vt key) (\<lambda>(value, type, h).
       if value \<noteq> [] \<and> type = TString
       then run_then (Some (float_vector fl value)) (\<lambda>values.
              Some (Inr (map (float_in values) indices, h)))
       else if value \<noteq> [] \<and> type = TFloatList
       then run_then (Some (floats_at value indices)) (\<lambda>xs. Some (Inr (xs, h)))
       else Some (Inr (replicate (length indices) 0, h)))"

definition getKeyType :: "lookup \<Rightarrow> bytes \<Rightarrow> (string \<times> u64) outcome option" where
  "getKeyType vt key =
     run_then (vt_typed vt key) (\<lambda>(value, type, h).
       if value = [] then Some (Inr ('''', h))
       else let strType = CacheValueType_to_string type
            in Some (Inr (if strType = ''None'' then '''' else strType, h)))"

section \<open>Typed insertion\<close>

text \<open>
  The overloads of \<open>put\<close> for the six types of value, over the virtual
  \<open>putInternal\<close> of a cache.
\<close>

datatype put_value =
    Put_String bytes | Put_List "bytes list" | Put_Bool bool | Put_Int64 i64 | Put_Double f64
  | Put_Floats "f32 list"

fun put_type :: "put_value \<Rightarrow> CacheValueType" where
  "put_type (Put_String value) = TString"
| "put_type (Put_List value) = TStringList"
| "put_type (Put_Bool value) = TBool"
| "put_type (Put_Int64 value) = TInt64"
| "put_type (Put_Double value) = TDouble"
| "put_type (Put_Floats value) = TFloatList"

fun put_encode :: "put_value \<Rightarrow> bytes outcome" where
  "put_encode (Put_String value) = Inr (nul_terminate value)"
| "put_encode (Put_List value) = encode_list value"
| "put_encode (Put_Bool value) = Inr (bool_to_string value)"
| "put_encode (Put_Int64 value) = Inr (int64_to_string value)"
| "put_encode (Put_Double value) = Inr (double_to_string value)"
| "put_encode (Put_Floats value) = Inr (floats_to_string value)"

type_synonym 'c putter =
  "'c \<Rightarrow> bytes \<Rightarrow> CacheValueType \<Rightarrow> bytes \<Rightarrow> ('c \<times> (bool \<times> u32) outcome) option"

definition put :: "'c putter \<Rightarrow> 'c \<Rightarrow> bytes \<Rightarrow> put_value \<Rightarrow> ('c \<times> (bool \<times> u32) outcome) option" where
  "put putInternal c key value =
     (case put_encode value of
        Inl e \<Rightarrow> Some (c, Inl e)
      | Inr str \<Rightarrow> putInternal c key (put_type value) str)"

section \<open>Interfaces\<close>

text \<open>
  \<open>reads c M\<close>: the cache \<open>c\<close> represents the map \<open>M\<close>.  \<open>found\<close> gives \<open>*foundHash\<close>
  for a key that is absent or present.  \<open>lax\<close> tells whether \<open>isExist\<close> stays true when
  the key is stored with another type.
\<close>

locale value_reader =
  fixes virtuals :: "'c \<Rightarrow> lookup"
    and reads :: "'c \<Rightarrow> entry_map \<Rightarrow> bool"
    and found :: "bytes \<Rightarrow> bool \<Rightarrow> u64"
    and lax :: bool
  assumes value_law: "reads c M \<Longrightarrow> vt_value (virtuals c) key t = Some (Inr (case M key of
      None \<Rightarrow> ([], found key False) | Some (t', v) \<Rightarrow> (if t = t' then v else [], found key True)))"
    and exist_law: "reads c M \<Longrightarrow> vt_exist (virtuals c) key t = Some (Inr (case M key of
      None \<Rightarrow> ([], False, found key False)
    | Some (t', v) \<Rightarrow> (if t = t' then v else [], t = t' \<or> lax, found key True)))"
begin

lemma get_stored:
  "reads c M \<Longrightarrow> M key = Some (TString, nul_terminate s) \<Longrightarrow>
     get (virtuals c) key d = Some (Inr (if s = [] then d else s, found key True))"
  by (simp add: get_def value_law)

lemma get_other:
  "reads c M \<Longrightarrow> \<forall>v. M key \<noteq> Some (TString, v) \<Longrightarrow>
     get (virtuals c) key d = Some (Inr (d, found key (M key \<noteq> None)))"
  by (cases "M key") (auto simp: get_def value_law)

lemma getString_stored:
  "reads c M \<Longrightarrow> M key = Some (TString, nul_terminate s) \<Longrightarrow>
     getString (virtuals c) key d = Some (Inr (s, True, found key True))"
  by (simp add: getString_def exist_law)

lemma getString_absent:
  "reads c M \<Longrightarrow> M key = None \<Longrightarrow>
     getString (virtuals c) key d = Some (Inr (d, False, found key False))"
  by (simp add: getString_def exist_law)

text \<open>A key stored with another type: where \<open>isExist\<close> stays true, an empty view is trimmed.\<close>

lemma getString_mismatch:
  "reads c M \<Longrightarrow> M key = Some (t, v) \<Longrightarrow> t \<noteq> TString \<Longrightarrow>
     getString (virtuals c) key d =
       Some (if lax then Inl (Undefined Bad_String_View) else Inr (d, False, found key True))"
  by (simp add: getString_def exist_law trimExtraNullTerminator_def)

lemma getVector_stored:
  "reads c M \<Longrightarrow> M key = Some (TStringList, e) \<Longrightarrow> encode_list ss = Inr e \<Longrightarrow>
     getVector (virtuals c) key d = Some (Inr (if ss = [] then d else ss, found key True))"
  by (simp add: getVector_def value_law decode_encode_list encode_list_nonempty)

lemma getVector_absent:
  "reads c M \<Longrightarrow> M key = None \<Longrightarrow> getVector (virtuals c) key d = Some (Inr (d, found key False))"
  by (simp add: getVector_def value_law)

end

locale typed_reader = value_reader virtuals reads found lax
  for virtuals :: "'c \<Rightarrow> lookup" and reads :: "'c \<Rightarrow> entry_map \<Rightarrow> bool"
    and found :: "bytes \<Rightarrow> bool \<Rightarrow> u64" and lax :: bool +
  assumes typed_law: "reads c M \<Longrightarrow> vt_typed (virtuals c) key = Some (Inr (case M key of
      None \<Rightarrow> ([], TString, found key False) | Some (t, v) \<Rightarrow> (v, t, found key True)))"
begin

lemma typed_absent:
  assumes "reads c M" and "M key = None"
  shows "getBool (virtuals c) key db = Some (Inr (db, False, found key False))"
    and "getInt64 (virtuals c) key di = Some (Inr (di, False, found key False))"
    and "getDouble fl (virtuals c) key dd = Some (Inr (dd, False, found key False))"
    and "getFloatVector fl (virtuals c) key = Some (Inr ([], found key False))"
    and "getFloatAtIndex fl (virtuals c) key i = Some (Inr (0, found key False))"
    and "readKey (virtuals c) key = Some (Inr ([], found key False))"
    and "readKeys (virtuals c) key = Some (Inr ([], found key False))"
    and "getKeyType (virtuals c) key = Some (Inr ([], found key False))"
  by (simp_all add: typed_law [OF assms(1)] assms(2) getWithType_def getBool_def getInt64_def getDouble_def
      getFloatVector_def getFloatAtIndex_def readKey_def readKeys_def getKeyType_def)

lemma getBool_stored:
  "reads c M \<Longrightarrow> M key = Some (TBool, bool_to_string b) \<Longrightarrow>
     getBool (virtuals c) key d = Some (Inr (b, True, found key True))"
  by (simp add: getBool_def getWithType_def typed_law) (simp add: bool_to_string_def)

lemma int64_nonempty [simp]: "int64_to_string x \<noteq> []" "double_to_string y \<noteq> []"
  using scalar_lengths(2) [of x] scalar_lengths(3) [of y] by fastforce+

lemma getInt64_stored:
  "reads c M \<Longrightarrow> M key = Some (TInt64, int64_to_string x) \<Longrightarrow>
     getInt64 (virtuals c) key d = Some (Inr (x, True, found key True))"
  by (simp add: getInt64_def getWithType_def typed_law)

text \<open>An integer reads as a truth value, a decimal string as an integer.\<close>

lemma getBool_of_int64:
  "reads c M \<Longrightarrow> M key = Some (TInt64, int64_to_string x) \<Longrightarrow>
     getBool (virtuals c) key d = Some (Inr (x \<noteq> 0, True, found key True))"
  by (simp add: getBool_def getWithType_def typed_law)

lemma getInt64_of_decimal:
  assumes "reads c M" and "M key = Some (TString, nul_terminate (lit (show_int i)))"
    and "- (2 ^ 63) \<le> i" and "i < 2 ^ 63"
  shows "getInt64 (virtuals c) key d = Some (Inr (of_int i, True, found key True))"
proof -
  have "lit (show_int i) \<noteq> []"
    using show_nat_digits by (auto simp: show_int_def lit_def)
  moreover have "toLong (lit (show_int i)) = i"
    using assms(3,4) by (simp add: toLong_def from_chars_show_int)
  ultimately show ?thesis
    using assms by (simp add: getInt64_def getWithType_def typed_law)
qed

lemma getDouble_stored:
  "reads c M \<Longrightarrow> M key = Some (TDouble, double_to_string x) \<Longrightarrow>
     getDouble fl (virtuals c) key d = Some (Inr (x, True, found key True))"
  by (simp add: getDouble_def getWithType_def typed_law)

lemma getFloats_stored:
  assumes "reads c M" and "M key = Some (TFloatList, floats_to_string xs)"
  shows "getFloatVector fl (virtuals c) key = Some (Inr (xs, found key True))"
    and "getFloatSpan (virtuals c) key = Some (Inr (xs, found key True))"
proof -
  have "floats_to_string xs = [] \<Longrightarrow> xs = []"
    using length_floats_to_string [of xs] by simp
  then show "getFloatVector fl (virtuals c) key = Some (Inr (xs, found key True))"
    "getFloatSpan (virtuals c) key = Some (Inr (xs, found key True))"
    using string_to_floats_inverse [of xs] assms
    by (auto simp: getFloatVector_def getFloatSpan_def typed_law string_to_span_def string_to_floats_def)
qed

lemma getKeyType_stored:
  "reads c M \<Longrightarrow> M key = Some (t, v) \<Longrightarrow> v \<noteq> [] \<Longrightarrow>
     getKeyType (virtuals c) key = Some (Inr (CacheValueType_to_string t, found key True))"
  by (cases t) (simp_all add: getKeyType_def typed_law)

lemma readKeys_stored:
  "reads c M \<Longrightarrow> M key = Some (TString, nul_terminate s) \<Longrightarrow>
     readKey (virtuals c) key = Some (Inr (s, found key True)) \<and>
     readKeys (virtuals c) key = Some (Inr ([s], found key True))"
  by (simp add: readKey_def readKeys_def typed_law)

lemma readKeys_list:
  "reads c M \<Longrightarrow> M key = Some (TStringList, e) \<Longrightarrow> encode_list ss = Inr e \<Longrightarrow>
     readKeys (virtuals c) key = Some (Inr (ss, found key True))"
  by (simp add: readKeys_def typed_law decode_encode_list encode_list_nonempty)

end

section \<open>Reading back what was put\<close>

definition reads_back :: "float_lib \<Rightarrow> lookup \<Rightarrow> u64 \<Rightarrow> bytes \<Rightarrow> put_value \<Rightarrow> bool" where
  "reads_back fl vt h key value \<longleftrightarrow>
     (case value of
        Put_String s \<Rightarrow> (\<forall>d. getString vt key d = Some (Inr (s, True, h)))
      | Put_List ss \<Rightarrow> (\<forall>d. getVector vt key d = Some (Inr (if ss = [] then d else ss, h)))
      | Put_Bool b \<Rightarrow> (\<forall>d. getBool vt key d = Some (Inr (b, True, h)))
      | Put_Int64 x \<Rightarrow> (\<forall>d. getInt64 vt key d = Some (Inr (x, True, h)))
      | Put_Double x \<Rightarrow> (\<forall>d. getDouble fl vt key d = Some (Inr (x, True, h)))
      | Put_Floats xs \<Rightarrow> getFloatVector fl vt key = Some (Inr (xs, h)) \<and>
                         getFloatSpan vt key = Some (Inr (xs, h)))"

text \<open>The entry of a value in the map a cache represents.\<close>

definition holds_value :: "entry_map \<Rightarrow> bytes \<Rightarrow> put_value \<Rightarrow> bool" where
  "holds_value M key value \<longleftrightarrow> (\<exists>e. put_encode value = Inr e \<and> M key = Some (put_type value, e))"

context typed_reader begin

lemma holds_reads_back:
  assumes "reads c M" and "holds_value M key value"
  shows "reads_back fl (virtuals c) (found key True) key value"
  using assms
  by (cases "value")
    (auto simp: reads_back_def holds_value_def getString_stored getVector_stored getBool_stored
      getInt64_stored getDouble_stored getFloats_stored)

end

text \<open>
  A store: \<open>builds c M\<close> is what insertion preserves, \<open>room c\<close> that the limit of entries is not
  reached, and \<open>accepts c key v\<close> that there is room for this record.
\<close>

locale typed_store = typed_reader virtuals reads found lax
  for virtuals :: "'c \<Rightarrow> lookup" and reads :: "'c \<Rightarrow> entry_map \<Rightarrow> bool"
    and found :: "bytes \<Rightarrow> bool \<Rightarrow> u64" and lax :: bool +
  fixes putInternal :: "'c putter"
    and builds :: "'c \<Rightarrow> entry_map \<Rightarrow> bool"
    and room :: "'c \<Rightarrow> bool"
    and accepts :: "'c \<Rightarrow> bytes \<Rightarrow> bytes \<Rightarrow> bool"
  assumes builds_reads: "builds c M \<Longrightarrow> reads c M"
    and put_new: "builds c M \<Longrightarrow> M key = None \<Longrightarrow> accepts c key v \<Longrightarrow>
      \<exists>c' n. putInternal c key t v = Some (c', Inr (True, n)) \<and> builds c' (M(key \<mapsto> (t, v)))"
    and put_existing: "builds c M \<Longrightarrow> M key \<noteq> None \<Longrightarrow> room c \<Longrightarrow>
      \<exists>n. putInternal c key t v = Some (c, Inr (False, n))"
begin

lemma put_then_read:
  assumes B: "builds c M" and new: "M key = None" and e: "put_encode value = Inr e"
    and acc: "accepts c key e"
  shows "\<exists>c' n. put putInternal c key value = Some (c', Inr (True, n)) \<and>
    builds c' (M(key \<mapsto> (put_type value, e))) \<and>
    reads_back fl (virtuals c') (found key True) key value"
proof -
  obtain c' n where p: "putInternal c key (put_type value) e = Some (c', Inr (True, n))"
    and B': "builds c' (M(key \<mapsto> (put_type value, e)))"
    using put_new [OF B new acc] by blast
  have "reads_back fl (virtuals c') (found key True) key value"
    by (rule holds_reads_back [OF builds_reads [OF B']]) (simp add: holds_value_def e)
  with p B' show ?thesis by (auto simp: put_def e)
qed

text \<open>A second put of a key is refused, and the first value stays.\<close>

lemma put_twice:
  assumes B: "builds c M" and old: "holds_value M key value" and r: "room c"
  shows "\<exists>n. (\<exists>e. put_encode value' = Inr e) \<longrightarrow> put putInternal c key value' = Some (c, Inr (False, n))"
    and "reads_back fl (virtuals c) (found key True) key value"
proof -
  have "M key \<noteq> None" using old by (auto simp: holds_value_def)
  from put_existing [OF B this r]
  show "\<exists>n. (\<exists>e. put_encode value' = Inr e) \<longrightarrow> put putInternal c key value' = Some (c, Inr (False, n))"
    by (cases "put_encode value'") (auto simp: put_def)
  show "reads_back fl (virtuals c) (found key True) key value"
    by (rule holds_reads_back [OF builds_reads [OF B] old])
qed

text \<open>Values of other keys stay readable.\<close>

lemma put_keeps_others:
  assumes "builds c M" and "M key = None" and "accepts c key v" and "holds_value M other value"
    and "putInternal c key t v = Some (c', r)"
  shows "reads_back fl (virtuals c') (found other True) other value"
proof -
  have "other \<noteq> key" using assms(2,4) by (auto simp: holds_value_def)
  then have "holds_value (M(key \<mapsto> (t, v))) other value"
    using assms(4) by (simp add: holds_value_def)
  moreover have "builds c' (M(key \<mapsto> (t, v)))"
    using put_new [OF assms(1-3), of t] assms(5) by auto
  ultimately show ?thesis using builds_reads holds_reads_back by blast
qed

end

end
