(* ===== verification/Linear_Store.thy ===== *)
theory Linear_Store
  imports Linear_Cache Typed_Access
begin

text \<open>
  \<open>LinearProbeCache\<close> (\<open>cache/LinearProbeCache.h\<close>, the instance of
  \<open>HashedCacheBase\<close> for \<open>LINEAR_PROBE\<close>) as a typed store: its virtual functions, and
  the proof that they keep the contracts of \<open>Typed_Access\<close>.
\<close>

definition hc_lookup :: "('p, 'v) policy \<Rightarrow> ('p, 'v, 'm) hashed_cache_scheme \<Rightarrow> lookup" where
  "hc_lookup pol c =
     \<lparr>vt_value = hc_getInternal_value pol c, vt_exist = hc_getInternal pol c,
      vt_typed = hc_getWithTypeInternal pol c\<rparr>"

definition linear_lookup :: "(bytes \<Rightarrow> u64) \<Rightarrow> linear_cache \<Rightarrow> lookup" where
  "linear_lookup H c = hc_lookup (linear_policy H) c"

definition found_hash :: "(bytes \<Rightarrow> u64) \<Rightarrow> bytes \<Rightarrow> bool \<Rightarrow> u64" where
  "found_hash H key present = (if present then H key else 0)"

text \<open>The conditions under which a record is taken.\<close>

definition lp_room :: "'m lp_cache_scheme \<Rightarrow> bool" where
  "lp_room c \<longleftrightarrow> hdr_numberOfEntries (hc_header c) < hc_maxNumberOfEntries c"

definition lp_accepts :: "'m lp_cache_scheme \<Rightarrow> bytes \<Rightarrow> bytes \<Rightarrow> bool" where
  "lp_accepts c key v \<longleftrightarrow>
     lp_room c \<and> length key \<le> kKeyLength \<and> length v \<le> kValueLength \<and>
     data_end c + entry_size key v \<le> mem_limit \<and> reachable_end c"

lemma linear_getInternal_value:
  assumes "lp_reads H [] c M"
  shows "hc_getInternal_value (linear_policy H) c key t =
    Some (Inr (case M key of None \<Rightarrow> ([], 0) | Some (t', v) \<Rightarrow> (if t = t' then v else [], H key)))"
proof -
  have "hc_getInternal_value (linear_policy H) c key t =
      run_then (hc_getInternal (linear_policy H) c key t) (\<lambda>(v, b, h). Some (Inr (v, h)))"
    by (auto simp: hc_getInternal_value_def hc_getInternal_def linear_policy_def Let_def run_then_def
        and_then_def split: option.splits sum.splits prod.splits)
  then show ?thesis
    by (simp add: linear_getInternal [OF assms] split: option.splits prod.splits)
qed

interpretation linear: typed_store "linear_lookup H" "lp_reads H []" "found_hash H" True
  "hc_putInternal (linear_policy H)" "lp_builds H []" lp_room lp_accepts
  for H :: "bytes \<Rightarrow> u64"
proof
  fix c :: linear_cache and M key t v
  show "lp_reads H [] c M \<Longrightarrow> vt_value (linear_lookup H c) key t = Some (Inr (case M key of
      None \<Rightarrow> ([], found_hash H key False)
    | Some (t', v) \<Rightarrow> (if t = t' then v else [], found_hash H key True)))"
    by (simp add: linear_lookup_def hc_lookup_def linear_getInternal_value found_hash_def split: option.split)
  show "lp_reads H [] c M \<Longrightarrow> vt_exist (linear_lookup H c) key t = Some (Inr (case M key of
      None \<Rightarrow> ([], False, found_hash H key False)
    | Some (t', v) \<Rightarrow> (if t = t' then v else [], t = t' \<or> True, found_hash H key True)))"
    by (simp add: linear_lookup_def hc_lookup_def linear_getInternal found_hash_def split: option.split)
  show "lp_reads H [] c M \<Longrightarrow> vt_typed (linear_lookup H c) key = Some (Inr (case M key of
      None \<Rightarrow> ([], TString, found_hash H key False) | Some (t, v) \<Rightarrow> (v, t, found_hash H key True)))"
    by (simp add: linear_lookup_def hc_lookup_def linear_getWithTypeInternal found_hash_def split: option.split)
  show "lp_builds H [] c M \<Longrightarrow> lp_reads H [] c M"
    by (rule lp_builds_reads)
  show "lp_builds H [] c M \<Longrightarrow> M key = None \<Longrightarrow> lp_accepts c key v \<Longrightarrow>
      \<exists>c' n. hc_putInternal (linear_policy H) c key t v = Some (c', Inr (True, n)) \<and>
        lp_builds H [] c' (M(key \<mapsto> (t, v)))"
    using linear_put_new [of H "[]" c M key v t] by (auto simp: lp_accepts_def lp_room_def)
  show "lp_builds H [] c M \<Longrightarrow> M key \<noteq> None \<Longrightarrow> lp_room c \<Longrightarrow>
      \<exists>n. hc_putInternal (linear_policy H) c key t v = Some (c, Inr (False, n))"
    using linear_put_existing by (simp add: lp_room_def)
qed

section \<open>A concrete cache\<close>

text \<open>Four slots, 16 offset bits and a load factor of 0.5, whose bits are \<open>half\<close>.\<close>

definition half :: double where "half = 0x3FE0000000000000"

lemma decode_half: "decode_double half = Finite False 4503599627370496 (-53)"
  by (simp add: decode_double_def half_def Let_def)

lemma max_entries_half: "max_entries 4 half = Inr 2"
  by (simp add: max_entries_def decode_half round53_def excess_bits.simps Let_def)

lemma load_factor_half: "\<not> load_factor_too_big half"
  by (simp add: load_factor_too_big_def decode_half decode_max_load double_gt_def Let_def)

definition small_cache :: "(bytes \<Rightarrow> u64) \<Rightarrow> linear_cache outcome" where
  "small_cache H = HashedCacheBase (linear_policy H) 16 4 half (MallocMemoryHandler (\<lambda>b i. 0) 1024)"

lemma small_cache:
  obtains c where "small_cache H = Inr c" and "lp_builds H fv c Map.empty" and "lp_room c"
    and "entries c = 0" and "hc_maxNumberOfEntries c = 2"
    and "\<And>key v. length key \<le> 100 \<Longrightarrow> length v \<le> 100 \<Longrightarrow> lp_accepts c key v"
    and "lp_offsetBits (hc_probe c) = 16" and "data_end c = 32"
proof -
  obtain c where c: "small_cache H = Inr c"
    by (simp add: small_cache_def HashedCacheBase_def max_entries_half load_factor_half linear_policy_def
        LinearProbe_def constant_defs MallocMemoryHandler_def mem_allocate_def)
  have n: "0 < unat (4 :: u64)" "8 * unat (4 :: u64) \<le> mem_limit"
    by (simp_all add: mem_limit_def)
  have t: "pol_probeType (linear_policy H) = LINEAR_PROBE" by (simp add: linear_policy_def)
  note b = HashedCacheBase_builds [OF lp_policy_linear t c [unfolded small_cache_def] n]
  have m: "hc_maxNumberOfEntries c = 2"
    using b(6) by (simp add: max_entries_half)
  have room: "lp_room c"
    using b(2) m by (simp add: lp_room_def entries_def word_less_nat_alt)
  have "reachable_end c"
    using b(3-5) by (simp add: reachable_end_def)
  then have "lp_accepts c key v" if "length key \<le> 100" "length v \<le> 100" for key v
    using that room b(3) by (simp add: lp_accepts_def entry_size_def mem_limit_def kKeyLength_def kValueLength_def)
  with c b(1-4) m room show ?thesis by (intro that [of c]) simp_all
qed

section \<open>Properties\<close>

text \<open>C2: putting a value under a new key of a linear-probe cache that has room for it succeeds,
  counts as an insertion, updates the represented map at that key only, and the getter of the
  value's type reads the same value back with the key's hash, for all six types of value.\<close>

theorem linear_put_then_read:
  assumes "lp_builds H [] c M" and "M key = None" and "put_encode value = Inr e"
    and "lp_accepts c key e"
  shows "\<exists>c' n. put (hc_putInternal (linear_policy H)) c key value = Some (c', Inr (True, n)) \<and>
    lp_builds H [] c' (M(key \<mapsto> (put_type value, e))) \<and>
    reads_back fl (linear_lookup H c') (H key) key value"
  using linear.put_then_read [OF assms] by (simp add: found_hash_def)

theorem linear_put_then_read_witness:
  "\<exists>c c' n. small_cache (\<lambda>key. 0) = Inr c \<and>
     put (hc_putInternal (linear_policy (\<lambda>key. 0))) c (lit ''k'') (Put_Int64 5) = Some (c', Inr (True, n)) \<and>
     getInt64 (linear_lookup (\<lambda>key. 0) c') (lit ''k'') 7 = Some (Inr (5, True, 0))"
proof -
  obtain c where c: "small_cache (\<lambda>key. 0) = Inr c" "lp_builds (\<lambda>key. 0) [] c Map.empty"
    and acc: "\<And>key v. length key \<le> 100 \<Longrightarrow> length v \<le> 100 \<Longrightarrow> lp_accepts c key v"
    using small_cache by metis
  have "\<exists>c' n. put (hc_putInternal (linear_policy (\<lambda>key. 0))) c (lit ''k'') (Put_Int64 5) =
        Some (c', Inr (True, n)) \<and>
      lp_builds (\<lambda>key. 0) [] c' (Map.empty(lit ''k'' \<mapsto> (put_type (Put_Int64 5), int64_to_string 5))) \<and>
      reads_back undefined (linear_lookup (\<lambda>key. 0) c') 0 (lit ''k'') (Put_Int64 5)"
    by (rule linear_put_then_read [OF c(2)]) (simp_all add: acc)
  with c(1) show ?thesis by (auto simp: reads_back_def)
qed

text \<open>C5: inserting a key leaves every value that was readable under another key readable and
  unchanged, although the memory may have moved and slots were probed past.\<close>

theorem linear_put_keeps_others:
  assumes "lp_builds H [] c M" and "M key = None" and "lp_accepts c key v"
    and "holds_value M other value"
    and "hc_putInternal (linear_policy H) c key t v = Some (c', r)"
  shows "reads_back fl (linear_lookup H c') (H other) other value"
  using linear.put_keeps_others [OF assms] by (simp add: found_hash_def)

theorem linear_put_keeps_others_witness:
  "\<exists>c c1 c2 n m. small_cache (\<lambda>key. 0) = Inr c \<and>
     hc_putInternal (linear_policy (\<lambda>key. 0)) c (lit ''a'') TBool [1] = Some (c1, Inr (True, n)) \<and>
     hc_putInternal (linear_policy (\<lambda>key. 0)) c1 (lit ''b'') TInt64 (le64 9) = Some (c2, m) \<and>
     getBool (linear_lookup (\<lambda>key. 0) c2) (lit ''a'') False = Some (Inr (True, True, 0))"
proof -
  let ?H = "\<lambda>key :: bytes. 0 :: u64"
  let ?v = "bool_to_string True" and ?w = "le64 9"
  obtain c where c: "small_cache ?H = Inr c" and B: "lp_builds ?H [] c Map.empty" and room: "lp_room c"
    and acc: "\<And>key v. length key \<le> 100 \<Longrightarrow> length v \<le> 100 \<Longrightarrow> lp_accepts c key v"
    and max2: "hc_maxNumberOfEntries c = 2" and n0: "entries c = 0" and ob: "lp_offsetBits (hc_probe c) = 16"
    and de: "data_end c = 32"
    using small_cache by metis
  have reach: "reachable_end c" and ks: "hdr_numberOfEntries (hc_header c) < hc_maxNumberOfEntries c"
    using acc [of "[]" "[]"] by (simp_all add: lp_accepts_def lp_room_def)
  obtain c1 n where p1: "hc_putInternal (linear_policy ?H) c (lit ''a'') TBool ?v = Some (c1, Inr (True, n))"
    and B1: "lp_builds ?H [] c1 (Map.empty(lit ''a'' \<mapsto> (TBool, ?v)))"
    and c1: "entries c1 = Suc (entries c)" "data_end c1 = data_end c + entry_size (lit ''a'') ?v"
      "hc_maxNumberOfEntries c1 = hc_maxNumberOfEntries c" "hc_probe c1 = hc_probe c"
    using linear_put_new [OF B _ ks _ _ _ reach, of "lit ''a''" ?v TBool]
    by (auto simp: de entry_size_def mem_limit_def kKeyLength_def kValueLength_def)
  have acc1: "lp_accepts c1 (lit ''b'') ?w"
    using c1 reach by (simp add: lp_accepts_def lp_room_def word_less_nat_alt entries_def [symmetric] n0 max2
        de ob entry_size_def mem_limit_def kKeyLength_def kValueLength_def reachable_end_def)
  obtain c2 m where p2: "hc_putInternal (linear_policy ?H) c1 (lit ''b'') TInt64 ?w = Some (c2, m)"
    using linear.put_new [OF B1 _ acc1, where t = TInt64] by (auto simp: lit_def)
  have "reads_back undefined (linear_lookup ?H c2) 0 (lit ''a'') (Put_Bool True)"
    by (rule linear_put_keeps_others [OF B1 _ acc1 _ p2]) (simp_all add: holds_value_def lit_def)
  with c p1 p2 show ?thesis by (auto simp: reads_back_def bool_to_string_def)
qed

text \<open>C7: on any linear-probe cache that represents a map, whatever its key slots hold, the three
  lookups of every key return (their unbounded loops end) with the map's answer; the found hash
  is 0 exactly where the key is absent, up to a hash that is itself 0.\<close>

theorem linear_lookups_total:
  assumes "lp_reads H [] c M"
  shows "hc_getInternal (linear_policy H) c key t = Some (Inr (case M key of
        None \<Rightarrow> ([], False, 0) | Some (t', v) \<Rightarrow> (if t = t' then v else [], True, H key)))
    \<and> hc_getWithTypeInternal (linear_policy H) c key = Some (Inr (case M key of
        None \<Rightarrow> ([], TString, 0) | Some (t', v) \<Rightarrow> (v, t', H key)))
    \<and> hc_contains (linear_policy H) c key =
        Some (Inr (M key \<noteq> None, if M key = None then 0 else H key))"
  using linear_getInternal [OF assms] linear_getWithTypeInternal [OF assms] linear_contains [OF assms]
  by blast

theorem linear_lookups_total_witness:
  "\<exists>c. small_cache (\<lambda>key. 7) = Inr c \<and>
     hc_getInternal (linear_policy (\<lambda>key. 7)) c (lit ''a'') TBool = Some (Inr ([], False, 0)) \<and>
     hc_contains (linear_policy (\<lambda>key. 7)) c (lit ''a'') = Some (Inr (False, 0))"
proof -
  obtain c where "small_cache (\<lambda>key. 7) = Inr c" "lp_builds (\<lambda>key. 7) [] c Map.empty"
    using small_cache by metis
  then show ?thesis using linear_lookups_total [OF lp_builds_reads, of _ c Map.empty] by auto
qed

text \<open>C17: putting a key that is present returns \<open>false\<close> and leaves the whole state of the cache
  as it was, whatever the type and value offered.\<close>

theorem linear_put_duplicate:
  fixes c :: linear_cache
  assumes "lp_builds H [] c M" and "M key \<noteq> None" and "lp_room c"
  shows "\<exists>n. hc_putInternal (linear_policy H) c key t v = Some (c, Inr (False, n))"
  using linear.put_existing [OF assms] .

theorem linear_put_duplicate_witness:
  "\<exists>c c1 n m. small_cache (\<lambda>key. 0) = Inr c \<and>
     hc_putInternal (linear_policy (\<lambda>key. 0)) c (lit ''a'') TBool [1] = Some (c1, Inr (True, n)) \<and>
     hc_putInternal (linear_policy (\<lambda>key. 0)) c1 (lit ''a'') TString [0] = Some (c1, Inr (False, m))"
proof -
  let ?H = "\<lambda>key :: bytes. 0 :: u64"
  obtain c where c: "small_cache ?H = Inr c" and B: "lp_builds ?H [] c Map.empty"
    and acc: "\<And>key v. length key \<le> 100 \<Longrightarrow> length v \<le> 100 \<Longrightarrow> lp_accepts c key v"
    and max2: "hc_maxNumberOfEntries c = 2" and n0: "entries c = 0"
    using small_cache by metis
  have a: "lp_accepts c (lit ''a'') [1]" using acc by simp
  obtain c1 n where p1: "hc_putInternal (linear_policy ?H) c (lit ''a'') TBool [1] = Some (c1, Inr (True, n))"
    and B1: "lp_builds ?H [] c1 (Map.empty(lit ''a'' \<mapsto> (TBool, [1])))"
    and c1: "entries c1 = Suc (entries c)" "hc_maxNumberOfEntries c1 = hc_maxNumberOfEntries c"
    using linear_put_new [OF B _ _ _ _ _ _, of "lit ''a''" "[1]" TBool] a
    by (auto simp: lp_accepts_def lp_room_def)
  have "lp_room c1"
    using c1 max2 n0 by (simp add: lp_room_def entries_def word_less_nat_alt)
  from linear_put_duplicate [OF B1 _ this, of "lit ''a''" TString "[0]"] c p1
  show ?thesis by auto
qed



text \<open>C19: a key of more than 65535 bytes or a value of more than 16777215 bytes is refused with an
  exception before anything is written: the cache is unchanged.\<close>

theorem linear_put_oversize_throws:
  assumes "lp_builds H [] c M" and "M key = None" and "lp_room c"
    and "2 ^ 16 - 1 < length key \<or> 2 ^ 24 - 1 < length v"
  shows "hc_putInternal (linear_policy H) c key t v =
    Some (c, Inl (Throw (if 2 ^ 16 - 1 < length key then key_too_large_msg key else value_too_large_msg v)))"
  using linear_put_oversize [of H "[]" c M key v t] assms
  by (simp add: lp_room_def kKeyLength_def kValueLength_def)

theorem linear_put_oversize_throws_witness:
  "\<exists>c. small_cache (\<lambda>key. 0) = Inr c \<and>
     hc_putInternal (linear_policy (\<lambda>key. 0)) c (replicate (2 ^ 16) 65) TBool [1] =
       Some (c, Inl (Throw (key_too_large_msg (replicate (2 ^ 16) 65))))"
proof -
  obtain c where c: "small_cache (\<lambda>key. 0) = Inr c" "lp_builds (\<lambda>key. 0) [] c Map.empty" "lp_room c"
    using small_cache by metis
  have big: "2 ^ 16 - 1 < length (replicate (2 ^ 16) (65 :: byte))" by simp
  have "hc_putInternal (linear_policy (\<lambda>key. 0)) c (replicate (2 ^ 16) 65) TBool [1] =
      Some (c, Inl (Throw (if 2 ^ 16 - 1 < length (replicate (2 ^ 16) (65 :: byte))
        then key_too_large_msg (replicate (2 ^ 16) 65) else value_too_large_msg [1])))"
    by (rule linear_put_oversize_throws [OF c(2) _ c(3) disjI1 [OF big]]) simp
  then have "hc_putInternal (linear_policy (\<lambda>key. 0)) c (replicate (2 ^ 16) 65) TBool [1] =
      Some (c, Inl (Throw (key_too_large_msg (replicate (2 ^ 16) 65))))"
    unfolding if_P [OF big] .
  with c(1) show ?thesis by blast
qed

text \<open>C20: when the end of the data is out of reach of the slot's offset bits, a put throws after the
  memory has grown by the record, which no slot points to; and where the growth moved the block,
  the key-space pointer dangles, so that the next lookup of any key is a use after free.\<close>

theorem linear_put_short_offset:
  assumes "lp_builds H [] c M" and "M key = None" and "lp_room c"
    and "length key \<le> kKeyLength" and "length v \<le> kValueLength"
    and "data_end c + entry_size key v \<le> mem_limit" and "\<not> reachable_end c"
  shows "\<exists>h. hc_putInternal (linear_policy H) c key t v =
      Some (c\<lparr>hc_memory := h\<rparr>, Inl (Throw (offset_bits_msg (hc_valueMgr c)))) \<and>
    unat (mDataSize h) = data_end c + entry_size key v \<and>
    take (data_end c) (mData h) = used (hc_memory c) \<and>
    (mBlock h \<noteq> hc_keySpacePtr c \<longrightarrow>
       (\<forall>key' t'. hc_getInternal (linear_policy H) (c\<lparr>hc_memory := h\<rparr>) key' t' =
          Some (Inl (Undefined Use_After_Free))))"
proof -
  obtain h where h: "hc_putInternal (linear_policy H) c key t v =
      Some (c\<lparr>hc_memory := h\<rparr>, Inl (Throw (offset_bits_msg (hc_valueMgr c))))"
    "unat (mDataSize h) = data_end c + entry_size key v" "take (data_end c) (mData h) = used (hc_memory c)"
    "mBlock h \<noteq> hc_keySpacePtr c \<longrightarrow> key_space (c\<lparr>hc_memory := h\<rparr>) = Inl (Undefined Use_After_Free)"
    using linear_put_short [OF assms(1,2) assms(3) [unfolded lp_room_def] assms(4-7)] by blast
  then have "mBlock h \<noteq> hc_keySpacePtr c \<longrightarrow>
       hc_getInternal (linear_policy H) (c\<lparr>hc_memory := h\<rparr>) key' t' = Some (Inl (Undefined Use_After_Free))"
    for key' t' by (simp add: hc_getInternal_def)
  with h(1-3) show ?thesis by blast
qed

theorem linear_put_short_offset_witness:
  "\<exists>c c1 n h. small_cache (\<lambda>key. 0) = Inr c \<and>
     hc_putInternal (linear_policy (\<lambda>key. 0)) c (lit ''a'') TString (replicate 70000 65) =
       Some (c1, Inr (True, n)) \<and>
     hc_putInternal (linear_policy (\<lambda>key. 0)) c1 (lit ''b'') TBool [1] =
       Some (c1\<lparr>hc_memory := h\<rparr>, Inl (Throw (offset_bits_msg (hc_valueMgr c1))))"
proof -
  let ?H = "\<lambda>key :: bytes. 0 :: u64" and ?v = "replicate 70000 65 :: bytes"
  obtain c where c: "small_cache ?H = Inr c" and B: "lp_builds ?H [] c Map.empty" and room: "lp_room c"
    and acc: "\<And>key v. length key \<le> 100 \<Longrightarrow> length v \<le> 100 \<Longrightarrow> lp_accepts c key v"
    and max2: "hc_maxNumberOfEntries c = 2" and n0: "entries c = 0" and ob: "lp_offsetBits (hc_probe c) = 16"
    and de: "data_end c = 32"
    using small_cache by metis
  obtain T where T: "lp_models ?H [] c T Map.empty" using B by (auto simp: lp_builds_def)
  have reach: "reachable_end c" using acc [of "[]" "[]"] by (simp add: lp_accepts_def)
  obtain c1 n where p1: "hc_putInternal (linear_policy ?H) c (lit ''a'') TString ?v = Some (c1, Inr (True, n))"
    and B1: "lp_builds ?H [] c1 (Map.empty(lit ''a'' \<mapsto> (TString, ?v)))"
    and c1: "entries c1 = Suc (entries c)" "data_end c1 = data_end c + entry_size (lit ''a'') ?v"
      "hc_maxNumberOfEntries c1 = hc_maxNumberOfEntries c" "hc_probe c1 = hc_probe c"
    using linear_put_new [OF B _ room [unfolded lp_room_def] _ _ _ reach, of "lit ''a''" ?v TString]
    by (auto simp: de entry_size_def mem_limit_def kKeyLength_def kValueLength_def)
  have room1: "lp_room c1"
    using c1 max2 n0 by (simp add: lp_room_def entries_def word_less_nat_alt)
  have "keyspace_bytes (hc_probe c) \<le> 32"
    using lp_models_keyspace [OF T] de by (simp add: data_end_def)
  then have far: "\<not> reachable_end c1"
    using c1 by (simp add: reachable_end_def ob de entry_size_def)
  from linear_put_short_offset [OF B1 _ room1 _ _ _ far, of "lit ''b''" "[1]" TBool] c p1
  show ?thesis
    by (auto simp: c1(2) de entry_size_def mem_limit_def kKeyLength_def kValueLength_def lit_def)
qed

text \<open>The constructor accepts a load factor of at most 0.8 and then limits the entries to fewer than
  there are slots, so that an empty slot always remains; the new cache represents the empty map.\<close>

theorem linear_cache_new:
  assumes "HashedCacheBase (linear_policy H) ob n lf (MallocMemoryHandler fresh cap) = Inr c"
    and "0 < unat n" and "8 * unat n \<le> 2 ^ 60"
  shows "lp_builds H [] c Map.empty \<and> entries c = 0 \<and> data_end c = 8 * unat n \<and>
    unat (hc_maxNumberOfEntries c) < unat n \<and> max_entries n lf = Inr (hc_maxNumberOfEntries c)"
proof -
  have t: "pol_probeType (linear_policy H) = LINEAR_PROBE" by (simp add: linear_policy_def)
  have n: "8 * unat n \<le> mem_limit" using assms(3) by (simp add: mem_limit_def)
  note b = HashedCacheBase_builds [OF lp_policy_linear t assms(1,2) n]
  show ?thesis using b(1) [of "[]"] b(2,3,6,7) by blast
qed

theorem linear_cache_new_witness:
  "\<exists>c. small_cache (\<lambda>key. 0) = Inr c \<and> lp_builds (\<lambda>key. 0) [] c Map.empty \<and> data_end c = 32"
proof -
  obtain c where c: "small_cache (\<lambda>key. 0) = Inr c" using small_cache by metis
  from linear_cache_new [OF c [unfolded small_cache_def]] c show ?thesis by simp
qed

text \<open>\<open>getString\<close> of a key that is stored with a type other than String does not report the
  key as absent: it trims an empty view, whose size wraps around.\<close>

theorem linear_getString_mismatch:
  assumes "lp_reads H [] c M" and "M key = Some (t, v)" and "t \<noteq> TString"
  shows "getString (linear_lookup H c) key d = Some (Inl (Undefined Bad_String_View))"
  using linear.getString_mismatch [OF assms] by simp

theorem linear_getString_mismatch_witness:
  "\<exists>c c1 n. small_cache (\<lambda>key. 0) = Inr c \<and>
     hc_putInternal (linear_policy (\<lambda>key. 0)) c (lit ''a'') TBool [1] = Some (c1, Inr (True, n)) \<and>
     getString (linear_lookup (\<lambda>key. 0) c1) (lit ''a'') [] = Some (Inl (Undefined Bad_String_View))"
proof -
  let ?H = "\<lambda>key :: bytes. 0 :: u64"
  obtain c where c: "small_cache ?H = Inr c" and B: "lp_builds ?H [] c Map.empty"
    and acc: "\<And>key v. length key \<le> 100 \<Longrightarrow> length v \<le> 100 \<Longrightarrow> lp_accepts c key v"
    using small_cache by metis
  have a: "lp_accepts c (lit ''a'') [1]" using acc by simp
  obtain c1 n where p: "hc_putInternal (linear_policy ?H) c (lit ''a'') TBool [1] = Some (c1, Inr (True, n))"
    and B1: "lp_builds ?H [] c1 (Map.empty(lit ''a'' \<mapsto> (TBool, [1])))"
    using linear.put_new [OF B _ a, where t = TBool] by auto
  from linear_getString_mismatch [OF lp_builds_reads [OF B1], of "lit ''a''" TBool "[1]" "[]"] c p
  show ?thesis by auto
qed

end
