(* ===== verification/Dedup_Cache.thy ===== *)
theory Dedup_Cache
  imports Linear_Store
begin

text \<open>
  \<open>LinearProbeDedupCache\<close> of \<open>cache/LinearProbeDedupCache.h\<close> and \<open>.cpp\<close>: a
  linear-probe cache that keeps frequent values once, in a vector, and stores their index
  in the records.  \<open>setDuplicatedValues\<close> registers the values before the puts,
  \<open>output\<close> appends them to the data, \<open>setFrequentValue\<close> finds them again from the last
  8 bytes of a loaded cache.

  The state extends that of \<open>HashedCacheBase\<close>, so the lemmas of \<open>Linear_Cache\<close> apply;
  the last section shows that the class keeps the contract \<open>typed_store\<close>.
\<close>

section \<open>State\<close>

record dedup_cache = "(linear_probe, linear_probe_value) hashed_cache" +
  dd_values :: "bytes list"
  dd_valuesToIndex :: "nat \<Rightarrow> (bytes \<Rightarrow> u16 option) option"
  dd_valuesMemory :: "memory_handler option"
  dd_isValuesLoaded :: bool
  dd_cacheType :: "CacheType option"

text \<open>The base object together with the members of the derived class.\<close>

definition dedup_members ::
  "bytes list \<Rightarrow> (nat \<Rightarrow> (bytes \<Rightarrow> u16 option) option) \<Rightarrow> memory_handler option \<Rightarrow> bool \<Rightarrow>
   CacheType option \<Rightarrow> linear_cache \<Rightarrow> dedup_cache" where
  "dedup_members values valuesToIndex valuesMemory isValuesLoaded cacheType c =
     hashed_cache.extend c
       (dedup_cache.fields values valuesToIndex valuesMemory isValuesLoaded cacheType)"

definition LinearProbeDedupCache ::
  "(bytes \<Rightarrow> u64) \<Rightarrow> u16 \<Rightarrow> u64 \<Rightarrow> double \<Rightarrow> memory_handler \<Rightarrow> CacheType \<Rightarrow> dedup_cache outcome" where
  "LinearProbeDedupCache H offsetBits numberOfKeySlots maxLoadFactor memory cacheType =
     and_then (HashedCacheBase (linear_policy H) offsetBits numberOfKeySlots maxLoadFactor memory)
       (\<lambda>c. Inr (dedup_members [] Map.empty None False (Some cacheType) c))"

text \<open>\<open>std::map\<close> of \<open>std::unordered_map\<close>: find, and \<open>emplace\<close>, which keeps an old entry.\<close>

definition find_index :: "(nat \<Rightarrow> (bytes \<Rightarrow> u16 option) option) \<Rightarrow> bytes \<Rightarrow> u16 option" where
  "find_index m v = (case m (length v) of None \<Rightarrow> None | Some sub \<Rightarrow> sub v)"

definition emplace_index ::
  "bytes \<Rightarrow> u16 \<Rightarrow> (nat \<Rightarrow> (bytes \<Rightarrow> u16 option) option) \<Rightarrow> nat \<Rightarrow> (bytes \<Rightarrow> u16 option) option" where
  "emplace_index v i m =
     (let sub = (case m (length v) of None \<Rightarrow> Map.empty | Some sub \<Rightarrow> sub)
      in m(length v \<mapsto> (case sub v of None \<Rightarrow> sub(v \<mapsto> i) | Some _ \<Rightarrow> sub)))"

section \<open>Registering values\<close>

text \<open>The first loop appends the values to a memory of their own.\<close>

fun store_values :: "memory_handler \<Rightarrow> bytes list \<Rightarrow> memory_handler outcome" where
  "store_values h [] = Inr h"
| "store_values h (v # vs) =
     and_then (grow h (of_nat (length v))) (\<lambda>(ptr, h1).
     and_then (mem_store h1 (unat ptr) v) (\<lambda>h2. store_values h2 vs))"

text \<open>
  The second loop makes the views into that memory, from the offset \<open>ptr\<close> on, and numbers
  them.
\<close>

fun view_values ::
  "bytes \<Rightarrow> nat \<Rightarrow> u16 \<Rightarrow> bytes list \<Rightarrow> bytes list \<Rightarrow> (nat \<Rightarrow> (bytes \<Rightarrow> u16 option) option) \<Rightarrow>
   (bytes list \<times> (nat \<Rightarrow> (bytes \<Rightarrow> u16 option) option)) outcome" where
  "view_values m ptr index [] views idx = Inr (views, idx)"
| "view_values m ptr index (v # vs) views idx =
     and_then (slice m ptr (length v)) (\<lambda>view.
       view_values m (ptr + length v) (index + 1) vs (views @ [view]) (emplace_index view index idx))"

definition setDuplicatedValues ::
  "(nat \<Rightarrow> nat \<Rightarrow> byte) \<Rightarrow> dedup_cache \<Rightarrow> bytes list \<Rightarrow> dedup_cache outcome" where
  "setDuplicatedValues fresh c values =
     (if length values > 65536
      then Inl (Throw ''Should not set more than 65536 duplicated values'')
      else if dd_isValuesLoaded c then Inl (Throw ''Values already loaded from memory'')
      else if dd_valuesMemory c \<noteq> None
      then Inl (Throw ''Values already set, call this API only once'')
      else and_then (store_values (MallocMemoryHandler fresh kMemoryCapcityBytes) values) (\<lambda>h.
           and_then (view_values (mData h) 0 0 values [] Map.empty) (\<lambda>(views, idx).
             Inr (c\<lparr>dd_values := views, dd_valuesToIndex := idx, dd_valuesMemory := Some h\<rparr>))))"

definition getDuplicatedValues :: "dedup_cache \<Rightarrow> bytes list" where
  "getDuplicatedValues c = dd_values c"

section \<open>Insertion and lookup\<close>

definition dd_putInternal ::
  "(bytes \<Rightarrow> u64) \<Rightarrow> dedup_cache \<Rightarrow> bytes \<Rightarrow> CacheValueType \<Rightarrow> bytes \<Rightarrow>
   (dedup_cache \<times> (bool \<times> u32) outcome) option" where
  "dd_putInternal H c key type value =
     put_with (linear_policy H) (\<lambda>c off hashcode.
       Some (case find_index (dd_valuesToIndex c) value of
               None \<Rightarrow> lv_add (hc_valueMgr c) off key hashcode (type_byte type) value (hc_memory c)
             | Some index \<Rightarrow>
                 lv_add_index (hc_valueMgr c) off key hashcode (type_byte type)
                   (of_nat (length value)) index (hc_memory c))) c key"

text \<open>The lookups decode the slot that the probe has loaded; \<open>slot\<close> starts as 0.\<close>

definition dd_getInternal ::
  "(bytes \<Rightarrow> u64) \<Rightarrow> dedup_cache \<Rightarrow> bytes \<Rightarrow> CacheValueType \<Rightarrow> (bytes \<times> bool \<times> u64) outcome option" where
  "dd_getInternal H c key type =
     (let hash = H key in
      run_then (Some (key_space c)) (\<lambda>m.
      run_then (findKeySlotOffset (hc_probe c) key hash m) (\<lambda>(off, found).
        let slot = (case found of Some s \<Rightarrow> s | None \<Rightarrow> 0);
            isExists = (off \<noteq> AXONCACHE_KEY_NOT_FOUND)
        in run_then (Some (if isExists
               then lv_getFromSlot (hc_valueMgr c) m slot (type_byte type) (dd_values c)
               else Inr []))
             (\<lambda>value. Some (Inr (value, isExists, setFoundHash hash off))))))"

definition dd_getInternal_value ::
  "(bytes \<Rightarrow> u64) \<Rightarrow> dedup_cache \<Rightarrow> bytes \<Rightarrow> CacheValueType \<Rightarrow> (bytes \<times> u64) outcome option" where
  "dd_getInternal_value H c key type =
     (let hash = H key in
      run_then (Some (key_space c)) (\<lambda>m.
      run_then (findKeySlotOffset (hc_probe c) key hash m) (\<lambda>(off, found).
        let slot = (case found of Some s \<Rightarrow> s | None \<Rightarrow> 0)
        in run_then (Some (if off = AXONCACHE_KEY_NOT_FOUND then Inr []
               else lv_getFromSlot (hc_valueMgr c) m slot (type_byte type) (dd_values c)))
             (\<lambda>value. Some (Inr (value, setFoundHash hash off))))))"

definition dd_getWithTypeInternal ::
  "(bytes \<Rightarrow> u64) \<Rightarrow> dedup_cache \<Rightarrow> bytes \<Rightarrow> (bytes \<times> CacheValueType \<times> u64) outcome option" where
  "dd_getWithTypeInternal H c key =
     (let hash = H key in
      run_then (Some (key_space c)) (\<lambda>m.
      run_then (findKeySlotOffset (hc_probe c) key hash m) (\<lambda>(off, found).
        let slot = (case found of Some s \<Rightarrow> s | None \<Rightarrow> 0)
        in run_then (Some (if off = AXONCACHE_KEY_NOT_FOUND then Inr ([], TString)
               else lv_getWithTypeFromSlot (hc_valueMgr c) m slot (dd_values c)))
             (\<lambda>(value, type). Some (Inr (value, type, setFoundHash hash off))))))"

definition dedup_lookup :: "(bytes \<Rightarrow> u64) \<Rightarrow> dedup_cache \<Rightarrow> lookup" where
  "dedup_lookup H c =
     \<lparr>vt_value = dd_getInternal_value H c, vt_exist = dd_getInternal H c,
      vt_typed = dd_getWithTypeInternal H c\<rparr>"

text \<open>The class's own \<open>getString\<close>, which calls \<open>getInternal\<close> directly.\<close>

definition dd_getString :: "(bytes \<Rightarrow> u64) \<Rightarrow> dedup_cache \<Rightarrow> bytes \<Rightarrow> bytes \<Rightarrow> (bytes \<times> bool \<times> u64) outcome option" where
  "dd_getString H c key defaultValue =
     run_then (dd_getInternal H c key TString) (\<lambda>(str, isExist, h).
       if \<not> isExist then Some (Inr (defaultValue, False, h))
       else run_then (Some (trimExtraNullTerminator str)) (\<lambda>s. Some (Inr (s, True, h))))"

section \<open>Writing the values behind the data, and finding them again\<close>

text \<open>
  \<open>frequentValuesOutput\<close>: what it writes, and how it ends.  The count is a \<open>uint16_t\<close>; a
  vector with more values would be written past the end of \<open>topValuesLength\<close>.
\<close>

definition frequentValuesOutput :: "bytes list \<Rightarrow> memory_handler \<Rightarrow> bytes \<times> unit outcome" where
  "frequentValuesOutput valuesInOrder handler =
     (let topValueCount = (of_nat (length valuesInOrder) :: u16);
          n = unat topValueCount;
          checkSize = sum_list (map length valuesInOrder)
      in if n = 0 then (le64 0, Inr ())
         else if n < length valuesInOrder then (le16 topValueCount, Inl (Undefined Out_Of_Bounds))
         else let values = le16 topValueCount @
                    concat (map (\<lambda>v. le32 (of_nat (length v))) valuesInOrder) @ used handler
              in if checkSize \<noteq> unat (mDataSize handler)
                 then (values, Inl (Throw ''frequent values total size doesn't match''))
                 else (values @ le64 (of_nat (2 + n * 4 + unat (mDataSize handler) + 8)), Inr ()))"

definition dd_output :: "dedup_cache \<Rightarrow> bytes \<times> unit outcome" where
  "dd_output c =
     (if dd_cacheType c = Some LINEAR_PROBE \<or> dd_isValuesLoaded c then (hc_output c, Inr ())
      else case dd_valuesMemory c of
             Some h \<Rightarrow> (let (b, r) = frequentValuesOutput (dd_values c) h in (hc_output c @ b, r))
           | None \<Rightarrow> (hc_output c @ le64 0, Inr ()))"

text \<open>
  \<open>setFrequentValue\<close>: offsets are \<open>uint64_t\<close>, and wrap around for a value offset larger
  than the data.  The numbering of the views is a \<open>uint8_t\<close>.
\<close>

fun read_lengths :: "bytes \<Rightarrow> nat \<Rightarrow> nat \<Rightarrow> u32 list outcome" where
  "read_lengths m off 0 = Inr []"
| "read_lengths m off (Suc n) =
     and_then (load_u32 m off) (\<lambda>l. and_then (read_lengths m (off + 4) n) (\<lambda>ls. Inr (l # ls)))"

fun load_values ::
  "bytes \<Rightarrow> u64 \<Rightarrow> u8 \<Rightarrow> u32 list \<Rightarrow> bytes list \<Rightarrow> (nat \<Rightarrow> (bytes \<Rightarrow> u16 option) option) \<Rightarrow>
   (u64 \<times> bytes list \<times> (nat \<Rightarrow> (bytes \<Rightarrow> u16 option) option)) outcome" where
  "load_values m off index [] views idx = Inr (off, views, idx)"
| "load_values m off index (l # ls) views idx =
     and_then (slice m (unat off) (unat l)) (\<lambda>view.
       load_values m (off + ucast l) (index + 1) ls (views @ [view]) (emplace_index view (ucast index) idx))"

definition setFrequentValue :: "dedup_cache \<Rightarrow> dedup_cache outcome" where
  "setFrequentValue c0 =
     (let c = c0\<lparr>dd_isValuesLoaded := True\<rparr>; m = mData (hc_memory c); size = mDataSize (hc_memory c)
      in and_then (load_u64 m (unat (size - 8))) (\<lambda>valueOffset.
         if valueOffset = 0 then Inr c
         else let currentOffset = size - valueOffset in
           and_then (load_u16 m (unat currentOffset)) (\<lambda>count.
           and_then (read_lengths m (unat (currentOffset + 2)) (unat count)) (\<lambda>lengths.
           and_then (load_values m (currentOffset + 2 + ucast count * 4) 0 lengths
                       (dd_values c) (dd_valuesToIndex c)) (\<lambda>(off, views, idx).
             if off + 8 \<noteq> size then Inl (Throw ''data size doesn't match'')
             else Inr (c\<lparr>dd_values := views, dd_valuesToIndex := idx\<rparr>))))))"

definition LinearProbeDedupCache_loaded ::
  "(bytes \<Rightarrow> u64) \<Rightarrow> CacheHeader \<Rightarrow> memory_handler \<Rightarrow> dedup_cache outcome" where
  "LinearProbeDedupCache_loaded H header memory =
     and_then (HashedCacheBase_loaded (linear_policy H) header memory) (\<lambda>b.
       let c = dedup_members [] Map.empty None False (CacheType_of (int (unat (hdr_cacheType header)))) b
       in if dd_cacheType c \<noteq> Some LINEAR_PROBE then setFrequentValue c else Inr c)"

section \<open>The registered values\<close>

lemma store_values_ok:
  assumes "mem_ok h" and "mKind h = Malloc_Handler"
    and "unat (mDataSize h) + sum_list (map length vs) \<le> mem_limit"
  shows "\<exists>h'. store_values h vs = Inr h' \<and> mem_ok h' \<and> mKind h' = Malloc_Handler \<and>
    unat (mDataSize h') = unat (mDataSize h) + sum_list (map length vs) \<and>
    used h' = used h @ concat vs"
  using assms
proof (induction vs arbitrary: h)
  case Nil
  then show ?case by simp
next
  case (Cons v vs)
  have len: "unat (of_nat (length v) :: u64) = length v"
    using Cons.prems(3) by (intro unat_of_nat_u64) (simp add: mem_limit_def)
  have lim: "unat (mDataSize h) + unat (of_nat (length v) :: u64) \<le> mem_limit"
    using Cons.prems(3) by (simp add: len)
  obtain h1 where g: "grow h (of_nat (length v)) = Inr (mDataSize h, h1)" and ok1: "mem_ok h1"
    and ds1: "unat (mDataSize h1) = unat (mDataSize h) + length v"
    and pre: "take (unat (mDataSize h)) (mData h1) = used h" and k1: "mKind h1 = Malloc_Handler"
    using grow_malloc [OF Cons.prems(1,2) lim] unfolding len by metis
  have "unat (mDataSize h) + length v \<le> length (mData h1)"
    using ok1 ds1 by (simp add: mem_ok_def)
  then obtain h2 where st: "mem_store h1 (unat (mDataSize h)) v = Inr h2"
    using mem_store_exists by blast
  note fr = mem_store_frame [OF st]
  have lu: "length (used h) = unat (mDataSize h)"
    using Cons.prems(1) by (simp add: used_def mem_ok_def)
  have ok2: "mem_ok h2" using mem_store_ok [OF st ok1] .
  have "take (unat (mDataSize h) + length v) (mData h2) = used h @ v"
    using fr(7) pre lu by (auto simp: splice_Inr_iff)
  then have u2: "used h2 = used h @ v" by (simp add: used_def fr ds1)
  have "unat (mDataSize h2) + sum_list (map length vs) \<le> mem_limit"
    using Cons.prems(3) by (simp add: fr ds1)
  from Cons.IH [OF ok2 _ this] obtain h' where "store_values h2 vs = Inr h'" "mem_ok h'"
    "mKind h' = Malloc_Handler" "unat (mDataSize h') = unat (mDataSize h2) + sum_list (map length vs)"
    "used h' = used h2 @ concat vs"
    using fr k1 by auto
  then show ?case
    using g st u2 fr ds1 by simp
qed

text \<open>An index that is found leads to its value.\<close>

definition index_ok :: "bytes list \<Rightarrow> (nat \<Rightarrow> (bytes \<Rightarrow> u16 option) option) \<Rightarrow> bool" where
  "index_ok values idx \<longleftrightarrow>
     (\<forall>v i. find_index idx v = Some i \<longrightarrow> unat i < length values \<and> values ! unat i = v)"

lemma find_emplace_index:
  "find_index (emplace_index v i m) w =
     (if w = v then (case find_index m v of None \<Rightarrow> Some i | Some j \<Rightarrow> Some j) else find_index m w)"
  by (auto simp: find_index_def emplace_index_def Let_def split: option.splits)

lemma index_ok_emplace:
  assumes "index_ok values idx" and "unat i = length values"
  shows "index_ok (values @ [v]) (emplace_index v i idx)"
  using assms
  by (auto simp: index_ok_def find_emplace_index nth_append less_SucI split: option.splits if_splits)

lemma view_values_ok:
  assumes "drop ptr m = concat vs @ rest" and "ptr \<le> length m" and "index_ok views idx"
    and "unat index = length views" and "length views + length vs \<le> 65536"
  shows "\<exists>idx'. view_values m ptr index vs views idx = Inr (views @ vs, idx') \<and>
    index_ok (views @ vs) idx' \<and>
    (\<forall>v. find_index idx' v = None \<longleftrightarrow> find_index idx v = None \<and> v \<notin> set vs)"
  using assms
proof (induction vs arbitrary: ptr index views idx)
  case Nil
  then show ?case by simp
next
  case (Cons v vs)
  have len: "ptr + length v \<le> length m"
    using arg_cong [OF Cons.prems(1), of length] Cons.prems(2) by simp
  have sl: "slice m ptr (length v) = Inr v"
    using Cons.prems(1) len by (simp add: slice_def)
  have dr: "drop (ptr + length v) m = concat vs @ rest"
    using Cons.prems(1) by (metis add.commute append_assoc append_eq_conv_conj concat.simps(2) drop_drop)
  show ?case
  proof (cases vs)
    case Nil
    then show ?thesis
      using sl index_ok_emplace [OF Cons.prems(3,4), of v]
      by (auto simp: find_emplace_index split: option.splits)
  next
    case (Cons w ws)
    have "length views + 1 < 2 ^ 16"
      using Cons.prems(5) Cons by simp
    then have ix: "unat (index + 1) = length (views @ [v])"
      using Cons.prems(4) by (simp add: unat_word_ariths)
    have "length (views @ [v]) + length vs \<le> 65536"
      using Cons.prems(5) by simp
    from Cons.IH [OF dr len index_ok_emplace [OF Cons.prems(3,4)] ix this]
    show ?thesis
      using sl by (auto simp: find_emplace_index split: option.splits)
  qed
qed

text \<open>
  After \<open>setDuplicatedValues\<close> on a fresh cache, the vector holds the given values in order,
  and exactly those are found by the index.
\<close>

lemma setDuplicatedValues_ok:
  assumes "length values \<le> 65536" and "sum_list (map length values) \<le> mem_limit"
    and "\<not> dd_isValuesLoaded c" and "dd_valuesMemory c = None"
  obtains h idx where "setDuplicatedValues fresh c values =
      Inr (c\<lparr>dd_values := values, dd_valuesToIndex := idx, dd_valuesMemory := Some h\<rparr>)"
    and "index_ok values idx" and "\<And>v. find_index idx v = None \<longleftrightarrow> v \<notin> set values"
    and "used h = concat values" and "unat (mDataSize h) = sum_list (map length values)"
proof -
  let ?h = "MallocMemoryHandler fresh kMemoryCapcityBytes"
  have "mem_ok ?h"
    by (rule MallocMemoryHandler_ok) (simp add: kMemoryCapcityBytes_def)
  moreover have "mKind ?h = Malloc_Handler" "unat (mDataSize ?h) = 0"
    by (simp_all add: MallocMemoryHandler_def)
  ultimately obtain h where st: "store_values ?h values = Inr h" and ok: "mem_ok h"
    and ds: "unat (mDataSize h) = sum_list (map length values)" and u: "used h = used ?h @ concat values"
    using store_values_ok [of ?h "values"] assms(2) by auto
  have u': "used h = concat values"
    using u by (simp add: used_def MallocMemoryHandler_def)
  have "drop 0 (mData h) = concat values @ drop (unat (mDataSize h)) (mData h)"
    using u' by (metis append_take_drop_id drop0 used_def)
  from view_values_ok [OF this, of "[]" Map.empty 0] assms(1)
  obtain idx where "view_values (mData h) 0 0 values [] Map.empty = Inr (values, idx)"
    "index_ok values idx" "\<And>v. find_index idx v = None \<longleftrightarrow> v \<notin> set values"
    by (auto simp: index_ok_def find_index_def)
  then show ?thesis
    using that [of h idx] st u' ds assms by (simp add: setDuplicatedValues_def not_less)
qed

section \<open>The class as a typed store\<close>

definition dedup_reads :: "(bytes \<Rightarrow> u64) \<Rightarrow> dedup_cache \<Rightarrow> entry_map \<Rightarrow> bool" where
  "dedup_reads H c M \<longleftrightarrow> lp_reads H (dd_values c) c M"

definition dedup_builds :: "(bytes \<Rightarrow> u64) \<Rightarrow> dedup_cache \<Rightarrow> entry_map \<Rightarrow> bool" where
  "dedup_builds H c M \<longleftrightarrow> lp_builds H (dd_values c) c M \<and> index_ok (dd_values c) (dd_valuesToIndex c)"

text \<open>An index takes up to two bytes where the value itself could be shorter.\<close>

definition dedup_accepts :: "dedup_cache \<Rightarrow> bytes \<Rightarrow> bytes \<Rightarrow> bool" where
  "dedup_accepts c key v \<longleftrightarrow>
     lp_room c \<and> length key \<le> kKeyLength \<and> length v \<le> kValueLength \<and>
     data_end c + entry_size key v + 2 \<le> mem_limit \<and> reachable_end c"

lemma dedup_lookups:
  assumes "dedup_reads H c M"
  shows "dd_getInternal H c key t = Some (Inr (case M key of
      None \<Rightarrow> ([], False, 0) | Some (t', v) \<Rightarrow> (if t = t' then v else [], True, H key)))"
    and "dd_getInternal_value H c key t = Some (Inr (case M key of
      None \<Rightarrow> ([], 0) | Some (t', v) \<Rightarrow> (if t = t' then v else [], H key)))"
    and "dd_getWithTypeInternal H c key = Some (Inr (case M key of
      None \<Rightarrow> ([], TString, 0) | Some (t, v) \<Rightarrow> (v, t, H key)))"
proof -
  obtain T where T: "lp_models H (dd_values c) c T M"
    using assms by (auto simp: dedup_reads_def lp_reads_def)
  note ks = lp_models_key_space [OF T]
  have "dd_getInternal H c key t = Some (Inr (case M key of
      None \<Rightarrow> ([], False, 0) | Some (t', v) \<Rightarrow> (if t = t' then v else [], True, H key))) \<and>
    dd_getInternal_value H c key t = Some (Inr (case M key of
      None \<Rightarrow> ([], 0) | Some (t', v) \<Rightarrow> (if t = t' then v else [], H key))) \<and>
    dd_getWithTypeInternal H c key = Some (Inr (case M key of
      None \<Rightarrow> ([], TString, 0) | Some (t, v) \<Rightarrow> (v, t, H key)))"
  proof (cases "M key")
    case None
    then show ?thesis
      using lp_find(1) [OF T None]
      by (simp add: dd_getInternal_def dd_getInternal_value_def dd_getWithTypeInternal_def ks
          setFoundHash_def Let_def)
  next
    case (Some tv)
    obtain t' v where tv: "tv = (t', v)" by (cases tv)
    obtain i slot where "findKeySlotOffset (hc_probe c) key (H key) (mData (hc_memory c)) =
       Some (Inr (of_nat (8 * i), Some slot))" "(of_nat (8 * i) :: u64) \<noteq> AXONCACHE_KEY_NOT_FOUND"
      "\<And>t''. lv_getFromSlot (hc_valueMgr c) (mData (hc_memory c)) slot (type_byte t'') (dd_values c) =
           Inr (if t'' = t' then v else [])"
      "lv_getWithTypeFromSlot (hc_valueMgr c) (mData (hc_memory c)) slot (dd_values c) = Inr (v, t')"
      using lp_read_value [OF T] Some tv by metis
    then show ?thesis
      by (simp add: dd_getInternal_def dd_getInternal_value_def dd_getWithTypeInternal_def ks
          setFoundHash_def Let_def Some tv del: of_nat_mult)
  qed
  then show "dd_getInternal H c key t = Some (Inr (case M key of
      None \<Rightarrow> ([], False, 0) | Some (t', v) \<Rightarrow> (if t = t' then v else [], True, H key)))"
    "dd_getInternal_value H c key t = Some (Inr (case M key of
      None \<Rightarrow> ([], 0) | Some (t', v) \<Rightarrow> (if t = t' then v else [], H key)))"
    "dd_getWithTypeInternal H c key = Some (Inr (case M key of
      None \<Rightarrow> ([], TString, 0) | Some (t, v) \<Rightarrow> (v, t, H key)))"
    by blast+
qed

text \<open>What a put adds behind the key: the value itself, or one or two bytes of an index.\<close>

definition payload_size :: "dedup_cache \<Rightarrow> bytes \<Rightarrow> nat" where
  "payload_size c v =
     (case find_index (dd_valuesToIndex c) v of
        None \<Rightarrow> length v | Some index \<Rightarrow> if index < 256 then 1 else 2)"

lemma dedup_put_sized:
  assumes B: "dedup_builds H c M" and M: "M key = None" and acc: "dedup_accepts c key v"
  shows "\<exists>c' n. dd_putInternal H c key t v = Some (c', Inr (True, n)) \<and>
    dedup_builds H c' (M(key \<mapsto> (t, v))) \<and> entries c' = Suc (entries c) \<and>
    data_end c' = data_end c + 6 + length key + payload_size c v \<and>
    (\<exists>h. c' = updateKeySpacePtr (count_entry n (c\<lparr>hc_memory := h\<rparr>)))"
proof -
  let ?add = "\<lambda>c off hashcode. Some (case find_index (dd_valuesToIndex c) v of
       None \<Rightarrow> lv_add (hc_valueMgr c) off key hashcode (type_byte t) v (hc_memory c)
     | Some index \<Rightarrow> lv_add_index (hc_valueMgr c) off key hashcode (type_byte t)
                        (of_nat (length v)) index (hc_memory c))"
  have lp: "lp_builds H (dd_values c) c M" and ix: "index_ok (dd_values c) (dd_valuesToIndex c)"
    using B by (auto simp: dedup_builds_def)
  have room: "hdr_numberOfEntries (hc_header c) < hc_maxNumberOfEntries c"
    and key: "length key \<le> kKeyLength" and v: "length v \<le> kValueLength"
    and lim: "data_end c + entry_size key v + 2 \<le> mem_limit" and reach: "reachable_end c"
    using acc by (auto simp: dedup_accepts_def lp_room_def)
  have "\<exists>c' coll. put_with (linear_policy H) ?add c key = Some (c', Inr (True, coll)) \<and>
    lp_builds H (dd_values c) c' (M(key \<mapsto> (t, v))) \<and> entries c' = Suc (entries c) \<and>
    data_end c' = data_end c + 6 + length key + payload_size c v \<and>
    (\<exists>h. c' = updateKeySpacePtr (count_entry coll (c\<lparr>hc_memory := h\<rparr>)))"
  proof (cases "find_index (dd_valuesToIndex c) v")
    case None
    have "unat (lv_calculateSize key v) = length (encode_entry key (plain_entry t v))"
      using unat_lv_calculateSize [OF key v] by simp
    moreover have "entry_stands_for (dd_values c) (plain_entry t v) t v"
      using v by (simp add: entry_stands_for_def)
    moreover have "?add c off (H key) = Some (append_entry (hc_valueMgr c) off (H key)
        (lv_calculateSize key v) (entry_header key (plain_entry t v)) key (e_payload (plain_entry t v))
        (hc_memory c))" for off
      by (simp add: None lv_add_append [OF key v])
    moreover have "data_end c + length (encode_entry key (plain_entry t v)) \<le> mem_limit"
      using lim by (simp add: entry_size_def)
    ultimately show ?thesis
      using lp_put_new [OF lp lp_policy_linear M room key, where add = ?add and e = "plain_entry t v"] reach None
      by (simp add: payload_size_def add.assoc)
  next
    case (Some index)
    let ?e = "index_entry t (of_nat (length v)) index"
    have "unat index < length (dd_values c)" "dd_values c ! unat index = v"
      using ix Some by (auto simp: index_ok_def)
    then have "entry_stands_for (dd_values c) ?e t v"
      by (auto simp: entry_stands_for_def)
    moreover have "unat (lv_calculateSize_index key index) = length (encode_entry key ?e)"
      using unat_lv_calculateSize_index [OF key] by simp
    moreover have "?add c off (H key) = Some (append_entry (hc_valueMgr c) off (H key)
        (lv_calculateSize_index key index) (entry_header key ?e) key (e_payload ?e) (hc_memory c))" for off
      by (simp add: Some lv_add_index_append [OF key])
    moreover have "data_end c + length (encode_entry key ?e) \<le> mem_limit"
      using lim by (simp add: entry_size_def)
    ultimately show ?thesis
      using lp_put_new [OF lp lp_policy_linear M room key, where add = ?add and e = ?e] reach Some
      by (simp add: payload_size_def add.assoc)
  qed
  then obtain c' coll h where p: "put_with (linear_policy H) ?add c key = Some (c', Inr (True, coll))"
    and lp': "lp_builds H (dd_values c) c' (M(key \<mapsto> (t, v)))"
    and sz: "entries c' = Suc (entries c)" "data_end c' = data_end c + 6 + length key + payload_size c v"
    and c': "c' = updateKeySpacePtr (count_entry coll (c\<lparr>hc_memory := h\<rparr>))" by blast
  have "dd_values c' = dd_values c" "dd_valuesToIndex c' = dd_valuesToIndex c"
    by (simp_all add: c' updateKeySpacePtr_def count_entry_def)
  with p lp' ix sz c' show ?thesis by (auto simp: dd_putInternal_def dedup_builds_def)
qed

lemma dedup_put_new:
  assumes "dedup_builds H c M" and "M key = None" and "dedup_accepts c key v"
  shows "\<exists>c' n. dd_putInternal H c key t v = Some (c', Inr (True, n)) \<and>
    dedup_builds H c' (M(key \<mapsto> (t, v)))"
  using dedup_put_sized [OF assms] by blast

interpretation dedup: typed_store "dedup_lookup H" "dedup_reads H" "found_hash H" True
  "dd_putInternal H" "dedup_builds H" lp_room dedup_accepts
  for H :: "bytes \<Rightarrow> u64"
proof
  fix c :: dedup_cache and M key t v
  show "dedup_reads H c M \<Longrightarrow> vt_value (dedup_lookup H c) key t = Some (Inr (case M key of
      None \<Rightarrow> ([], found_hash H key False)
    | Some (t', v) \<Rightarrow> (if t = t' then v else [], found_hash H key True)))"
    by (simp add: dedup_lookup_def dedup_lookups found_hash_def split: option.split)
  show "dedup_reads H c M \<Longrightarrow> vt_exist (dedup_lookup H c) key t = Some (Inr (case M key of
      None \<Rightarrow> ([], False, found_hash H key False)
    | Some (t', v) \<Rightarrow> (if t = t' then v else [], t = t' \<or> True, found_hash H key True)))"
    by (simp add: dedup_lookup_def dedup_lookups found_hash_def split: option.split)
  show "dedup_reads H c M \<Longrightarrow> vt_typed (dedup_lookup H c) key = Some (Inr (case M key of
      None \<Rightarrow> ([], TString, found_hash H key False) | Some (t, v) \<Rightarrow> (v, t, found_hash H key True)))"
    by (simp add: dedup_lookup_def dedup_lookups found_hash_def split: option.split)
  show "dedup_builds H c M \<Longrightarrow> dedup_reads H c M"
    by (auto simp: dedup_builds_def dedup_reads_def intro: lp_builds_reads)
  show "dedup_builds H c M \<Longrightarrow> M key = None \<Longrightarrow> dedup_accepts c key v \<Longrightarrow>
      \<exists>c' n. dd_putInternal H c key t v = Some (c', Inr (True, n)) \<and>
        dedup_builds H c' (M(key \<mapsto> (t, v)))"
    by (rule dedup_put_new)
  show "dedup_builds H c M \<Longrightarrow> M key \<noteq> None \<Longrightarrow> lp_room c \<Longrightarrow>
      \<exists>n. dd_putInternal H c key t v = Some (c, Inr (False, n))"
    unfolding dedup_builds_def lp_builds_def lp_room_def dd_putInternal_def
    using lp_put_existing [OF _ lp_policy_linear] by blast
qed

lemma dd_getString_eq: "dd_getString H c key d = getString (dedup_lookup H c) key d"
  by (simp add: dd_getString_def getString_def dedup_lookup_def)

end
