(* ===== verification/Simple_Probe.thy ===== *)
theory Simple_Probe
  imports Hashed_Cache
begin

text \<open>
  \<open>SimpleProbe<sizeof( uint64_t )>\<close> of \<open>cache/probe/SimpleProbe.h\<close>, the probe of the
  bucket-chain cache, and \<open>math::roundUpToPowerOfTwo\<close> of \<open>Math.h\<close>.  The probe maps a
  hash to one of a power of two of buckets by a mask; it looks at no key.
\<close>

section \<open>Powers of two\<close>

text \<open>The number of significant bits, so that \<open>__builtin_clzl( x )\<close> is 64 minus that.\<close>

fun bit_length :: "nat \<Rightarrow> nat" where
  "bit_length n = (if n = 0 then 0 else Suc (bit_length (n div 2)))"

declare bit_length.simps [simp del]

definition clzl :: "u64 \<Rightarrow> nat" where "clzl x = 64 - bit_length (unat x)"
definition clz :: "u32 \<Rightarrow> nat" where "clz x = 32 - bit_length (unat x)"

text \<open>A number of more than \<open>2 ^ 63\<close> would be shifted by 64.\<close>

definition roundUpToPowerOfTwo :: "u64 \<Rightarrow> u64 outcome" where
  "roundUpToPowerOfTwo number =
     (if number \<le> 1 then Inr 1
      else let s = 64 - clzl (number - 1)
           in if s < 64 then Inr (push_bit s 1) else Inl (Undefined Shift_Out_Of_Range))"

lemma unat_pow2: "k \<le> 63 \<Longrightarrow> unat (2 ^ k :: u64) = 2 ^ k"
proof -
  assume "k \<le> 63"
  then have "(2 :: nat) ^ k < 2 ^ 64" by (intro power_strict_increasing) auto
  then show ?thesis
    by (metis of_nat_numeral of_nat_power unat_of_nat_u64)
qed

lemma bit_length_simps [simp]: "bit_length 0 = 0" "bit_length (Suc 0) = 1"
  by (simp_all add: bit_length.simps)

lemma bit_length_less: "n < 2 ^ bit_length n"
  by (induction n rule: bit_length.induct) (subst bit_length.simps, auto)

lemma bit_length_le: "n < 2 ^ k \<Longrightarrow> bit_length n \<le> k"
proof (induction k arbitrary: n)
  case 0
  then show ?case by simp
next
  case (Suc k)
  then have "n div 2 < 2 ^ k" by simp
  with Suc.IH [of "n div 2"] show ?case by (subst bit_length.simps) simp
qed

lemma bit_length_ge: "0 < n \<Longrightarrow> 2 ^ (bit_length n - 1) \<le> n"
proof (induction n rule: bit_length.induct)
  case (1 n)
  show ?case
  proof (cases "n div 2 = 0")
    case True
    then have "n = 1" using 1 by simp
    then show ?thesis by simp
  next
    case False
    then have "2 ^ (bit_length (n div 2) - 1) \<le> n div 2" using 1 by simp
    moreover have "bit_length n = Suc (bit_length (n div 2))"
      using 1 by (subst bit_length.simps) simp
    moreover have "bit_length (n div 2) = Suc (bit_length (n div 2) - 1)"
      using False by (subst (1 2) bit_length.simps) simp
    ultimately show ?thesis
      by (metis Suc_diff_1 diff_Suc_1 mult_le_mono2 nonzero_mult_div_cancel_left order_trans power_Suc
          times_div_less_eq_dividend zero_less_Suc)
  qed
qed

lemma bit_length_pow: "bit_length (2 ^ k - 1) = k"
proof (induction k)
  case 0
  then show ?case by simp
next
  case (Suc k)
  have "(2 ^ Suc k - 1) div 2 = (2 ^ k - 1 :: nat)" by simp
  moreover have "(1 :: nat) < 2 ^ Suc k" by (rule one_less_power) simp_all
  then have "(2 ^ Suc k - 1 :: nat) \<noteq> 0" by linarith
  ultimately show ?case using Suc by (subst bit_length.simps) simp
qed

text \<open>The result is a power of two, at least the number and less than twice it.\<close>

lemma roundUpToPowerOfTwo_ok:
  assumes "unat n \<le> 2 ^ 63"
  obtains k where "roundUpToPowerOfTwo n = Inr (2 ^ k)" and "k \<le> 63"
    and "unat (2 ^ k :: u64) = 2 ^ k" and "unat n \<le> 2 ^ k" and "1 < unat n \<longrightarrow> 2 ^ k < 2 * unat n"
proof (cases "n \<le> 1")
  case True
  then show ?thesis
    using that [of 0] by (simp add: roundUpToPowerOfTwo_def word_le_nat_alt)
next
  case False
  then have n1: "1 < unat n" by (simp add: word_le_nat_alt)
  then have um: "unat (n - 1) = unat n - 1"
    by (metis less_imp_le unat_1 unat_sub word_le_nat_alt)
  let ?k = "bit_length (unat n - 1)"
  have k: "?k \<le> 63" using assms n1 by (intro bit_length_le) simp
  then have s: "64 - clzl (n - 1) = ?k" by (simp add: clzl_def um)
  have pb: "unat (2 ^ ?k :: u64) = 2 ^ ?k"
    using k by (rule unat_pow2)
  have "unat n - 1 < 2 ^ ?k" by (rule bit_length_less)
  moreover have "2 ^ ?k < 2 * unat n"
  proof -
    have "2 ^ (?k - 1) \<le> unat n - 1" using n1 by (intro bit_length_ge) simp
    moreover have "(2 :: nat) ^ ?k \<le> 2 * 2 ^ (?k - 1)" by (cases ?k) auto
    ultimately show ?thesis using n1 by linarith
  qed
  ultimately show ?thesis
    using that [of ?k] False k pb s n1 by (simp add: roundUpToPowerOfTwo_def)
qed

lemma roundUpToPowerOfTwo_fixed:
  assumes "k \<le> 63"
  shows "roundUpToPowerOfTwo (2 ^ k) = Inr (2 ^ k)"
proof (cases k)
  case 0
  then show ?thesis by (simp add: roundUpToPowerOfTwo_def)
next
  case (Suc j)
  have pb: "unat (2 ^ k :: u64) = 2 ^ k"
    using assms by (rule unat_pow2)
  have k2: "(2 :: nat) \<le> 2 ^ k" by (simp add: Suc)
  then have um: "unat ((2 ^ k :: u64) - 1) = 2 ^ k - 1"
    by (metis one_le_numeral order_trans pb unat_1 unat_sub word_le_nat_alt)
  have "\<not> (2 ^ k :: u64) \<le> 1"
    using k2 by (simp add: word_le_nat_alt pb)
  with assms show ?thesis
    using bit_length_pow [of k] by (simp add: roundUpToPowerOfTwo_def clzl_def um Let_def)
qed

section \<open>The probe\<close>

record simple_probe =
  sp_log2OfKeyWidth :: u16
  sp_hashcodeBits :: u16
  sp_offsetBits :: u16
  sp_numberOfKeySlots :: u64
  sp_keySpaceSizeMask :: u64

text \<open>\<open>KeyWidth\<close> is \<open>sizeof( uint64_t )\<close>.\<close>

definition KeyWidth :: u32 where "KeyWidth = 8"

definition SimpleProbe :: "u16 \<Rightarrow> u64 \<Rightarrow> simple_probe outcome" where
  "SimpleProbe offsetBits numberOfKeySlots =
     and_then (roundUpToPowerOfTwo numberOfKeySlots) (\<lambda>slots.
       Inr \<lparr>sp_log2OfKeyWidth = of_nat (clz KeyWidth) XOR 31, sp_hashcodeBits = 0, sp_offsetBits = 64,
            sp_numberOfKeySlots = slots, sp_keySpaceSizeMask = slots - 1\<rparr>)"

definition sp_keyspaceSize :: "simple_probe \<Rightarrow> u64" where
  "sp_keyspaceSize p = sp_numberOfKeySlots p * ucast KeyWidth"

definition sp_keySlotToPtrOffset :: "simple_probe \<Rightarrow> u64 \<Rightarrow> u64" where
  "sp_keySlotToPtrOffset p keySlot = push_bit (unat (sp_log2OfKeyWidth p)) keySlot"

definition sp_calculateKeySpaceSize :: "simple_probe \<Rightarrow> u64" where
  "sp_calculateKeySpaceSize p = sp_keySlotToPtrOffset p (sp_numberOfKeySlots p)"

definition sp_findKeySlotOffset :: "simple_probe \<Rightarrow> bytes \<Rightarrow> u64 \<Rightarrow> bytes \<Rightarrow> u64" where
  "sp_findKeySlotOffset p key hashcode keySpace =
     sp_keySlotToPtrOffset p (hashcode AND sp_keySpaceSizeMask p)"

definition sp_findFreeKeySlotOffset :: "simple_probe \<Rightarrow> bytes \<Rightarrow> u64 \<Rightarrow> bytes \<Rightarrow> u64 \<times> u32" where
  "sp_findFreeKeySlotOffset p key hashcode keySpace =
     (sp_findKeySlotOffset p key hashcode keySpace, 0)"

text \<open>
  What construction gives: a positive number of buckets, of which none leaves the key
  space, and the same probe again from the number of buckets that is written to a header.
\<close>

definition buckets :: "simple_probe \<Rightarrow> nat" where "buckets p = unat (sp_numberOfKeySlots p)"

definition bucket :: "simple_probe \<Rightarrow> (bytes \<Rightarrow> u64) \<Rightarrow> bytes \<Rightarrow> nat" where
  "bucket p H key = unat (H key AND sp_keySpaceSizeMask p)"

definition simple_probe_ok :: "simple_probe \<Rightarrow> bool" where
  "simple_probe_ok p \<longleftrightarrow>
     0 < buckets p \<and> 8 * buckets p \<le> mem_limit \<and> sp_log2OfKeyWidth p = 3 \<and>
     sp_keySpaceSizeMask p = sp_numberOfKeySlots p - 1 \<and>
     (\<forall>ob. SimpleProbe ob (sp_numberOfKeySlots p) = Inr p)"

lemma KeyWidth_log2: "of_nat (clz KeyWidth) XOR 31 = (3 :: u16)"
  by (simp add: clz_def KeyWidth_def bit_length.simps [of 8] bit_length.simps [of 4] bit_length.simps [of 2])

lemma SimpleProbe_ok:
  assumes "8 * (2 * unat n) \<le> mem_limit"
  obtains p where "SimpleProbe ob n = Inr p" and "simple_probe_ok p" and "unat n \<le> buckets p"
    and "buckets p \<le> max 1 (2 * unat n)"
proof -
  obtain k where k: "roundUpToPowerOfTwo n = Inr (push_bit k 1)" "k \<le> 63"
    "unat (2 ^ k :: u64) = 2 ^ k" "unat n \<le> 2 ^ k" "1 < unat n \<longrightarrow> 2 ^ k < 2 * unat n"
    using roundUpToPowerOfTwo_ok [of n] assms by (auto simp: mem_limit_def)
  let ?p = "\<lparr>sp_log2OfKeyWidth = 3, sp_hashcodeBits = 0, sp_offsetBits = 64,
            sp_numberOfKeySlots = 2 ^ k, sp_keySpaceSizeMask = 2 ^ k - 1\<rparr>"
  have p: "SimpleProbe ob n = Inr ?p"
    by (simp add: SimpleProbe_def k(1) KeyWidth_log2)
  have le: "(2 :: nat) ^ k \<le> max 1 (2 * unat n)"
  proof (cases "1 < unat n")
    case False
    then have "n \<le> 1" by (simp add: word_le_nat_alt)
    then have "push_bit k 1 = (1 :: u64)" using k(1) by (simp add: roundUpToPowerOfTwo_def)
    then show ?thesis using k(3) by simp
  qed (use k(5) in simp)
  then have "8 * (2 :: nat) ^ k \<le> mem_limit"
    using assms by (auto simp: mem_limit_def max_def split: if_splits)
  then have "simple_probe_ok ?p"
    using roundUpToPowerOfTwo_fixed [OF k(2)] k(3)
    by (simp add: simple_probe_ok_def buckets_def SimpleProbe_def KeyWidth_log2)
  with p k le show ?thesis using that [of ?p] by (simp add: buckets_def)
qed

lemma bucket_less: "simple_probe_ok p \<Longrightarrow> bucket p H key < buckets p"
proof -
  assume ok: "simple_probe_ok p"
  have "unat (H key AND (sp_numberOfKeySlots p - 1)) \<le> unat (sp_numberOfKeySlots p - 1)"
    using word_and_le1 by (simp add: word_le_nat_alt)
  also have "unat (sp_numberOfKeySlots p - 1) = buckets p - 1"
    using ok by (simp add: simple_probe_ok_def buckets_def unat_sub word_le_nat_alt)
  finally have "bucket p H key \<le> buckets p - 1"
    using ok by (simp add: simple_probe_ok_def bucket_def)
  then show ?thesis using ok by (auto simp: simple_probe_ok_def)
qed

lemma unat_push3: "8 * unat (w :: u64) < 2 ^ 64 \<Longrightarrow> unat (push_bit 3 w) = 8 * unat w"
  by (simp add: push_bit_eq_mult unat_word_ariths)

lemma sp_calculateKeySpaceSize_eq:
  assumes "simple_probe_ok p"
  shows "unat (sp_calculateKeySpaceSize p) = 8 * buckets p" and "unat (sp_keyspaceSize p) = 8 * buckets p"
  using assms unat_push3 [of "sp_numberOfKeySlots p"]
  by (simp_all add: simple_probe_ok_def sp_calculateKeySpaceSize_def sp_keySlotToPtrOffset_def buckets_def
      mem_limit_def sp_keyspaceSize_def KeyWidth_def unat_word_ariths)

lemma sp_find_eq:
  assumes "simple_probe_ok p"
  shows "sp_findKeySlotOffset p key (H key) m = of_nat (8 * bucket p H key)"
proof -
  have "bucket p H key < buckets p" by (rule bucket_less [OF assms])
  then have "8 * bucket p H key < 2 ^ 64"
    using assms by (simp add: simple_probe_ok_def mem_limit_def)
  moreover from this have "unat (sp_findKeySlotOffset p key (H key) m) = 8 * bucket p H key"
    using assms unat_push3 [of "H key AND sp_keySpaceSizeMask p"]
    by (simp add: sp_findKeySlotOffset_def sp_keySlotToPtrOffset_def simple_probe_ok_def bucket_def)
  ultimately show ?thesis by (metis unat_of_nat_u64 word_unat_eq_iff)
qed

section \<open>Properties\<close>

text \<open>Rounding up to a power of two: up to \<open>2^63\<close> the result is the least power of two that is not
  below the number; above it the shift by 64 is undefined.\<close>

theorem round_up_bounds:
  "(unat n \<le> 2 ^ 63 \<longrightarrow> (\<exists>k \<le> 63. roundUpToPowerOfTwo n = Inr (2 ^ k) \<and> unat n \<le> 2 ^ k \<and>
      (\<forall>j. unat n \<le> 2 ^ j \<longrightarrow> k \<le> j))) \<and>
   (2 ^ 63 < unat n \<longrightarrow> roundUpToPowerOfTwo n = Inl (Undefined Shift_Out_Of_Range))"
proof (intro conjI impI)
  assume "unat n \<le> 2 ^ 63"
  then obtain k where k: "roundUpToPowerOfTwo n = Inr (2 ^ k)" "k \<le> 63" "unat (2 ^ k :: u64) = 2 ^ k"
    "unat n \<le> 2 ^ k" "1 < unat n \<longrightarrow> 2 ^ k < 2 * unat n"
    by (rule roundUpToPowerOfTwo_ok)
  show "\<exists>k \<le> 63. roundUpToPowerOfTwo n = Inr (2 ^ k) \<and> unat n \<le> 2 ^ k \<and> (\<forall>j. unat n \<le> 2 ^ j \<longrightarrow> k \<le> j)"
  proof (cases "1 < unat n")
    case True
    have "k \<le> j" if "unat n \<le> 2 ^ j" for j
    proof -
      have "(2 :: nat) ^ k < 2 ^ Suc j" using k(5) True that by simp
      then have "k < Suc j" by (simp only: power_strict_increasing_iff)
      then show ?thesis by simp
    qed
    with k show ?thesis by blast
  next
    case False
    then have "n \<le> 1" by (simp add: word_le_nat_alt)
    then have "roundUpToPowerOfTwo n = Inr (2 ^ 0)" by (simp add: roundUpToPowerOfTwo_def)
    with False show ?thesis by (intro exI [of _ 0]) simp
  qed
next
  assume n: "2 ^ 63 < unat n"
  then have n1: "\<not> n \<le> 1" "unat (n - 1) = unat n - 1"
    by (auto simp: word_le_nat_alt unat_sub)
  have "(2 :: nat) ^ 63 \<le> unat n - 1" using n by linarith
  also have "\<dots> < 2 ^ bit_length (unat n - 1)" by (rule bit_length_less)
  finally have "63 < bit_length (unat n - 1)" by (simp only: power_strict_increasing_iff)
  moreover have "bit_length (unat n - 1) \<le> 64"
  proof (rule ccontr)
    assume "\<not> bit_length (unat n - 1) \<le> 64"
    then have "(2 :: nat) ^ 64 \<le> 2 ^ (bit_length (unat n - 1) - 1)"
      by (intro power_increasing) auto
    moreover have "2 ^ (bit_length (unat n - 1) - 1) \<le> unat n - 1"
      using n by (intro bit_length_ge) simp
    moreover have "(2 :: nat) ^ 64 = 18446744073709551616" "unat n < 18446744073709551616"
      using unat_u64_bound [of n] by simp_all
    ultimately show False by linarith
  qed
  ultimately show "roundUpToPowerOfTwo n = Inl (Undefined Shift_Out_Of_Range)"
    using n1 by (simp add: roundUpToPowerOfTwo_def clzl_def)
qed

theorem round_up_bounds_witness: "\<exists>k \<le> 63. roundUpToPowerOfTwo 5 = Inr (2 ^ k) \<and> k \<le> 3"
proof -
  have "\<exists>k \<le> 63. roundUpToPowerOfTwo 5 = Inr (2 ^ k) \<and> unat (5 :: u64) \<le> 2 ^ k \<and>
      (\<forall>j. unat (5 :: u64) \<le> 2 ^ j \<longrightarrow> k \<le> j)"
    using round_up_bounds [of 5] by simp
  then obtain k where "k \<le> 63" "roundUpToPowerOfTwo 5 = Inr (2 ^ k)" "\<forall>j. 5 \<le> (2 :: nat) ^ j \<longrightarrow> k \<le> j"
    by auto
  moreover from this(3) have "k \<le> 3" by (auto dest: spec [of _ 3])
  ultimately show ?thesis by blast
qed

end
