(* ===== verification/Chained_Value.thy ===== *)
theory Chained_Value
  imports Simple_Probe
begin

text \<open>
  \<open>ChainedValue\<close> of \<open>cache/value/ChainedValue.h\<close> and \<open>.cpp\<close>: the records of a bucket
  form a linked list.  A record is the offset of the next one (8 bytes, 0 at the end), the
  size of the key (2), the size of the value and its type (3 and 1), the key and the value.
  The object has no state.  The loops over a chain follow offsets found in memory and end
  only if the chain does.

  Lemmas: the memory of a cache is a function of the list of its records (\<open>chain_image\<close>),
  \<open>add\<close> extends that list, and the loops return what it says.
\<close>

section \<open>Writing\<close>

definition cv_calculateSize :: "bytes \<Rightarrow> bytes \<Rightarrow> u64" where
  "cv_calculateSize key value = 8 + 2 + 1 + 3 + of_nat (length key) + of_nat (length value)"

definition size_and_type :: "u8 \<Rightarrow> nat \<Rightarrow> u32" where
  "size_and_type type valueSize = push_bit 24 (ucast type) OR (0xFFFFFF AND of_nat valueSize)"

definition cv_addToEnd :: "bytes \<Rightarrow> u8 \<Rightarrow> bytes \<Rightarrow> memory_handler \<Rightarrow> (u64 \<times> memory_handler) outcome" where
  "cv_addToEnd key type value memory =
     (if length key > kKeyLength then Inl (Throw (key_too_large_msg key))
      else if length value > kValueLength then Inl (Throw (value_too_large_msg value))
      else and_then (grow memory (cv_calculateSize key value)) (\<lambda>(valueSpace, h0).
           let a = unat valueSpace in
           and_then (mem_store h0 a (le64 0)) (\<lambda>h1.
           and_then (mem_store h1 (a + 8) (le16 (of_nat (length key)))) (\<lambda>h2.
           and_then (mem_store h2 (a + 10) (le32 (size_and_type type (length value)))) (\<lambda>h3.
           and_then (mem_store h3 (a + 14) key) (\<lambda>h4.
           and_then (mem_store h4 (a + 14 + length key) value) (\<lambda>h5. Inr (valueSpace, h5))))))))"

text \<open>The loop to the end of the chain: where its last pointer is, and the records passed.\<close>

partial_function (option) cv_find_end :: "bytes \<Rightarrow> u64 \<Rightarrow> u32 \<Rightarrow> (u64 \<times> u32) outcome option" where
  "cv_find_end m valueOffset collisions =
     (case load_u64 m (unat valueOffset) of
        Inl e \<Rightarrow> Some (Inl e)
      | Inr nxt \<Rightarrow>
          (if nxt = 0 then Some (Inr (valueOffset, collisions))
           else cv_find_end m nxt (collisions + 1)))"

text \<open>
  \<open>add\<close>: the loop sees the memory before it grows; the pointer is then written into the
  block as it is after.
\<close>

definition cv_add ::
  "u64 \<Rightarrow> bytes \<Rightarrow> u64 \<Rightarrow> u8 \<Rightarrow> bytes \<Rightarrow> memory_handler \<Rightarrow> (memory_handler \<times> u32 outcome) option" where
  "cv_add keySpaceOffset key hashcode type value memory =
     (case cv_find_end (mData memory) keySpaceOffset 0 of
        None \<Rightarrow> None
      | Some (Inl e) \<Rightarrow> Some (memory, Inl e)
      | Some (Inr (valueOffset, collisions)) \<Rightarrow>
          (case cv_addToEnd key type value memory of
             Inl e \<Rightarrow> Some (memory, Inl e)
           | Inr (newValueOffset, h) \<Rightarrow>
               (case mem_store h (unat valueOffset) (le64 newValueOffset) of
                  Inl e \<Rightarrow> Some (h, Inl e)
                | Inr h' \<Rightarrow> Some (h', Inr collisions))))"

section \<open>Reading\<close>

text \<open>
  The loop of \<open>get\<close> and \<open>contains\<close>: the first record of the chain with this key.  The key
  is compared only where its size is right.
\<close>

partial_function (option) cv_search :: "bytes \<Rightarrow> u64 \<Rightarrow> bytes \<Rightarrow> u64 option outcome option" where
  "cv_search m valueOffset key =
     (if valueOffset = 0 then Some (Inr None)
      else case load_u16 m (unat valueOffset + 8) of
        Inl e \<Rightarrow> Some (Inl e)
      | Inr foundKeySize \<Rightarrow>
          (case (if unat foundKeySize = length key
                 then and_then (slice m (unat valueOffset + 14) (length key)) (\<lambda>k. Inr (k = key))
                 else Inr False) of
             Inl e \<Rightarrow> Some (Inl e)
           | Inr same \<Rightarrow>
               (if same then Some (Inr (Some valueOffset))
                else case load_u64 m (unat valueOffset) of
                  Inl e \<Rightarrow> Some (Inl e)
                | Inr nxt \<Rightarrow> cv_search m nxt key)))"

text \<open>\<open>get\<close>: the value and \<open>*isExist\<close>.  A record of another type ends the search.\<close>

definition cv_get :: "bytes \<Rightarrow> u64 \<Rightarrow> bytes \<Rightarrow> u8 \<Rightarrow> (bytes \<times> bool) outcome option" where
  "cv_get dataSpace keySpaceOffset key type =
     run_then (Some (load_u64 dataSpace (unat keySpaceOffset))) (\<lambda>valueOffset.
     run_then (cv_search dataSpace valueOffset key) (\<lambda>found.
       case found of
         None \<Rightarrow> Some (Inr ([], False))
       | Some a \<Rightarrow>
           run_then (Some (load_u32 dataSpace (unat a + 10))) (\<lambda>valueSizeAndType.
             if (ucast (drop_bit 24 valueSizeAndType) :: u8) \<noteq> type then Some (Inr ([], False))
             else run_then (Some (slice dataSpace (unat a + 14 + length key)
                     (unat (valueSizeAndType AND 0xFFFFFF)))) (\<lambda>value. Some (Inr (value, True))))))"

definition cv_getWithType :: "bytes \<Rightarrow> u64 \<Rightarrow> (bytes \<times> CacheValueType) outcome option" where
  "cv_getWithType dataSpace keySpaceOffset = Some (Inr ([], TString))"

definition cv_contains :: "bytes \<Rightarrow> u64 \<Rightarrow> bytes \<Rightarrow> bool outcome option" where
  "cv_contains dataSpace keySpaceOffset key =
     run_then (Some (load_u64 dataSpace (unat keySpaceOffset))) (\<lambda>valueOffset.
     run_then (cv_search dataSpace valueOffset key) (\<lambda>found. Some (Inr (found \<noteq> None))))"

section \<open>The memory as a function of the records\<close>

text \<open>
  A cache is abstractly the list of its records in the order of insertion.  Node \<open>q < S\<close> is
  the head of bucket \<open>q\<close>, node \<open>S + j\<close> is record \<open>j\<close>; both start with a pointer to the
  next record of their bucket.
\<close>

type_synonym chain_entry = "bytes \<times> CacheValueType \<times> bytes"

definition entry_bytes :: "chain_entry \<Rightarrow> bytes" where
  "entry_bytes e = (case e of (k, t, v) \<Rightarrow>
     le16 (of_nat (length k)) @ le32 (size_and_type (type_byte t) (length v)) @ k @ v)"

definition entry_fits :: "chain_entry \<Rightarrow> bool" where
  "entry_fits e = (case e of (k, t, v) \<Rightarrow> length k \<le> kKeyLength \<and> length v \<le> kValueLength)"

definition node_len :: "nat \<Rightarrow> chain_entry list \<Rightarrow> nat \<Rightarrow> nat" where
  "node_len S log q = (if q < S then 8 else 8 + length (entry_bytes (log ! (q - S))))"

definition node_pos :: "nat \<Rightarrow> chain_entry list \<Rightarrow> nat \<Rightarrow> nat" where
  "node_pos S log q = sum_list (map (node_len S log) [0..<q])"

definition next_node :: "(bytes \<Rightarrow> nat) \<Rightarrow> nat \<Rightarrow> chain_entry list \<Rightarrow> nat \<Rightarrow> nat \<Rightarrow> nat option" where
  "next_node f S log i q =
     map_option (\<lambda>j. S + j) (find (\<lambda>j. f (fst (log ! j)) = i) [Suc q - S..<length log])"

definition ptr_of :: "nat \<Rightarrow> chain_entry list \<Rightarrow> nat option \<Rightarrow> u64" where
  "ptr_of S log r = (case r of None \<Rightarrow> 0 | Some q \<Rightarrow> of_nat (node_pos S log q))"

definition chain_of :: "(bytes \<Rightarrow> nat) \<Rightarrow> nat \<Rightarrow> chain_entry list \<Rightarrow> nat \<Rightarrow> nat" where
  "chain_of f S log q = (if q < S then q else f (fst (log ! (q - S))))"

definition node_bytes :: "(bytes \<Rightarrow> nat) \<Rightarrow> nat \<Rightarrow> chain_entry list \<Rightarrow> nat \<Rightarrow> bytes" where
  "node_bytes f S log q =
     le64 (ptr_of S log (next_node f S log (chain_of f S log q) q)) @
     (if q < S then [] else entry_bytes (log ! (q - S)))"

definition chain_image :: "(bytes \<Rightarrow> nat) \<Rightarrow> nat \<Rightarrow> chain_entry list \<Rightarrow> bytes" where
  "chain_image f S log = concat (map (node_bytes f S log) [0..<S + length log])"

text \<open>The map a list of records represents: the first record of a key counts.\<close>

definition log_map :: "chain_entry list \<Rightarrow> entry_map" where
  "log_map log = map_of log"

lemma node_pos_Suc: "node_pos S log (Suc q) = node_pos S log q + node_len S log q"
  by (simp add: node_pos_def)

lemma node_pos_head: "q \<le> S \<Longrightarrow> node_pos S log q = 8 * q"
  by (induction q) (simp_all add: node_pos_def node_len_def)

lemma node_pos_mono: "q \<le> r \<Longrightarrow> node_pos S log q \<le> node_pos S log r"
  by (induction r) (auto simp: node_pos_Suc le_Suc_eq)

lemma node_pos_next: "q < r \<Longrightarrow> node_pos S log q + node_len S log q \<le> node_pos S log r"
  using node_pos_mono [of "Suc q" r S log] by (simp add: node_pos_Suc)

lemma length_node_bytes [simp]: "length (node_bytes f S log q) = node_len S log q"
  by (simp add: node_bytes_def node_len_def)

lemma length_concat_map: "length (concat (map f xs)) = sum_list (map (\<lambda>x. length (f x)) xs)"
  by (simp add: length_concat comp_def)

lemma length_chain_image: "length (chain_image f S log) = node_pos S log (S + length log)"
  by (simp add: chain_image_def node_pos_def length_concat_map)

lemma node_len_snoc: "q < S + length log \<Longrightarrow> node_len S (log @ [e]) q = node_len S log q"
  by (auto simp: node_len_def nth_append)

lemma node_pos_snoc: "q \<le> S + length log \<Longrightarrow> node_pos S (log @ [e]) q = node_pos S log q"
  unfolding node_pos_def by (intro arg_cong [where f = sum_list] map_cong) (auto simp: node_len_snoc)

text \<open>The bytes of a node lie at its position.\<close>

lemma slice_concat_upt:
  assumes "q < n"
  shows "slice (concat (map g [0..<n])) (sum_list (map (\<lambda>q. length (g q)) [0..<q])) (length (g q)) = Inr (g q)"
proof -
  have "[0..<n] = [0..<q] @ q # [Suc q..<n]"
    using assms by (metis le0 less_imp_le upt_add_eq_append upt_conv_Cons le_add_diff_inverse2 add.commute)
  then show ?thesis by (simp add: slice_def length_concat_map)
qed

lemma slice_node:
  assumes "q < S + length log"
  shows "slice (chain_image f S log) (node_pos S log q) (node_len S log q) = Inr (node_bytes f S log q)"
  using slice_concat_upt [OF assms, of "node_bytes f S log"] by (simp add: chain_image_def node_pos_def)

lemma load_node:
  assumes "q < S + length log"
  shows "load_u64 (chain_image f S log) (node_pos S log q) =
    Inr (ptr_of S log (next_node f S log (chain_of f S log q) q))"
proof (rule load_u64_le)
  have "0 + 8 \<le> node_len S log q" by (simp add: node_len_def)
  from slice_sub [OF slice_node [OF assms, of f] this]
  show "slice (chain_image f S log) (node_pos S log q) 8 =
      Inr (le64 (ptr_of S log (next_node f S log (chain_of f S log q) q)))"
    by (simp add: node_bytes_def slice_append1) (simp add: slice_def)
qed

text \<open>The fields of a record.\<close>

lemma slice_entry:
  assumes "j < length log" and "i + l \<le> length (entry_bytes (log ! j))"
  shows "slice (chain_image f S log) (node_pos S log (S + j) + 8 + i) l = slice (entry_bytes (log ! j)) i l"
proof -
  have "(8 + i) + l \<le> node_len S log (S + j)"
    using assms(2) by (simp add: node_len_def)
  from slice_sub [OF slice_node [of "S + j" S log f] this] assms(1) show ?thesis
    by (simp add: node_bytes_def slice_append2 add.assoc)
qed

lemma entry_fields:
  assumes "log ! j = (k, t, v)" and "j < length log" and "entry_fits (k, t, v)"
  shows "load_u16 (chain_image f S log) (node_pos S log (S + j) + 8) = Inr (of_nat (length k))"
    and "load_u32 (chain_image f S log) (node_pos S log (S + j) + 10) =
           Inr (size_and_type (type_byte t) (length v))"
    and "slice (chain_image f S log) (node_pos S log (S + j) + 14) (length k) = Inr k"
    and "slice (chain_image f S log) (node_pos S log (S + j) + 14 + length k) (length v) = Inr v"
proof -
  let ?e = "entry_bytes (k, t, v)" and ?p = "node_pos S log (S + j)"
  have sl: "i + l \<le> length ?e \<Longrightarrow> slice (chain_image f S log) (?p + 8 + i) l = slice ?e i l" for i l
    using slice_entry [OF assms(2), of i l f S] assms(1) by simp
  have e: "length ?e = 6 + length k + length v" by (simp add: entry_bytes_def)
  show "load_u16 (chain_image f S log) (?p + 8) = Inr (of_nat (length k))"
    using sl [of 0 2] by (intro load_u16_le) (simp add: e, simp add: entry_bytes_def slice_def)
  show "load_u32 (chain_image f S log) (?p + 10) = Inr (size_and_type (type_byte t) (length v))"
  proof (rule load_u32_le)
    have "?p + 8 + 2 = ?p + 10" by simp
    from sl [of 2 4, unfolded this] show "slice (chain_image f S log) (?p + 10) 4 =
        Inr (le32 (size_and_type (type_byte t) (length v)))"
      by (simp add: e) (simp add: entry_bytes_def slice_def)
  qed
  show "slice (chain_image f S log) (?p + 14) (length k) = Inr k"
  proof -
    have "?p + 8 + 6 = ?p + 14" by simp
    from sl [of 6 "length k", unfolded this] show ?thesis
      by (simp add: e) (simp add: entry_bytes_def slice_def)
  qed
  show "slice (chain_image f S log) (?p + 14 + length k) (length v) = Inr v"
  proof -
    have "?p + 8 + (6 + length k) = ?p + 14 + length k" by simp
    from sl [of "6 + length k" "length v", unfolded this] show ?thesis
      by (simp add: e) (simp add: entry_bytes_def slice_def)
  qed
qed

section \<open>Following a chain\<close>

lemma find_upt:
  "find P [a..<b] = (if \<exists>j. a \<le> j \<and> j < b \<and> P j then Some (LEAST j. a \<le> j \<and> P j) else None)"
proof (cases "\<exists>j. a \<le> j \<and> j < b \<and> P j")
  case True
  define m where "m = (LEAST j. a \<le> j \<and> P j)"
  obtain j where j: "a \<le> j" "j < b" "P j" using True by blast
  have m: "a \<le> m" "P m" using LeastI [of "\<lambda>j. a \<le> j \<and> P j" j] j by (auto simp: m_def)
  have "m \<le> j" using Least_le [of "\<lambda>j. a \<le> j \<and> P j" j] j by (simp add: m_def)
  then have mb: "m < b" using j by simp
  have before: "i < m \<Longrightarrow> a \<le> i \<Longrightarrow> \<not> P i" for i
    using not_less_Least [of i "\<lambda>j. a \<le> j \<and> P j"] by (auto simp: m_def)
  have "find P [a..<b] = Some m"
    unfolding find_Some_iff using m mb before
    by (intro exI [of _ "m - a"]) auto
  with True show ?thesis by (simp add: m_def)
next
  case False
  then have "find P [a..<b] = None" by (auto simp: find_None_iff)
  with False show ?thesis by simp
qed

lemma next_node_None:
  "next_node f S log i q = None \<longleftrightarrow>
     (\<forall>j. Suc q - S \<le> j \<and> j < length log \<longrightarrow> f (fst (log ! j)) \<noteq> i)"
  by (auto simp: next_node_def find_None_iff)

lemma next_node_Some:
  assumes "next_node f S log i q = Some r"
  obtains j where "r = S + j" and "j < length log" and "Suc q - S \<le> j" and "f (fst (log ! j)) = i"
    and "\<And>j'. Suc q - S \<le> j' \<Longrightarrow> j' < j \<Longrightarrow> f (fst (log ! j')) \<noteq> i"
proof -
  let ?P = "\<lambda>j. f (fst (log ! j)) = i"
  obtain j where r: "r = S + j" and f: "find ?P [Suc q - S..<length log] = Some j"
    using assms by (auto simp: next_node_def)
  from f have "j \<in> set [Suc q - S..<length log]" "?P j"
    by (auto simp: find_Some_iff)
  moreover have "j = (LEAST j. Suc q - S \<le> j \<and> ?P j)"
    using f by (auto simp: find_upt split: if_splits)
  then have "j' < j \<Longrightarrow> Suc q - S \<le> j' \<Longrightarrow> \<not> ?P j'" for j'
    using not_less_Least by blast
  ultimately show ?thesis using that [of j] r by auto
qed

lemma chain_of_record [simp]: "chain_of f S log (S + j) = f (fst (log ! j))"
  by (simp add: chain_of_def)

lemma chain_of_head [simp]: "i < S \<Longrightarrow> chain_of f S log i = i"
  by (simp add: chain_of_def)

text \<open>Offsets of nodes are 64-bit numbers, and those of records are not 0.\<close>

lemma node_pos_bound: "q \<le> S + length log \<Longrightarrow> node_pos S log q \<le> length (chain_image f S log)"
  using node_pos_mono [of q "S + length log"] by (simp add: length_chain_image)

lemma unat_node_pos:
  assumes "length (chain_image f S log) \<le> mem_limit" and "q \<le> S + length log"
  shows "unat (of_nat (node_pos S log q) :: u64) = node_pos S log q"
  using node_pos_bound [OF assms(2), of f] assms(1) by (intro unat_of_nat_u64) (simp add: mem_limit_def)

lemma node_pos_nonzero:
  assumes "0 < S" and "length (chain_image f S log) \<le> mem_limit" and "j < length log"
  shows "(of_nat (node_pos S log (S + j)) :: u64) \<noteq> 0"
proof
  assume "(of_nat (node_pos S log (S + j)) :: u64) = 0"
  then have "node_pos S log (S + j) = 0"
    using unat_node_pos [OF assms(2), of "S + j"] assms(3) by simp
  moreover have "8 * S \<le> node_pos S log (S + j)"
    using node_pos_mono [of S "S + j" S log] node_pos_head [of S S log] by simp
  ultimately show False using assms(1) by simp
qed

text \<open>A block that starts with the image reads like it.\<close>

lemma image_slice:
  assumes "take (length img) m = img" and "off + len \<le> length img"
  shows "slice m off len = slice img off len"
proof (rule slice_prefix [OF _ assms(2)])
  show "length img \<le> length m" using arg_cong [OF assms(1), of length] by simp
qed (simp_all add: assms(1))

lemma image_load_node:
  assumes "take (length (chain_image f S log)) m = chain_image f S log" and "q < S + length log"
  shows "load_u64 m (node_pos S log q) = Inr (ptr_of S log (next_node f S log (chain_of f S log q) q))"
proof -
  have "node_pos S log q + 8 \<le> length (chain_image f S log)"
    using node_pos_next [of q "S + length log" S log] assms(2)
    by (simp add: length_chain_image node_len_def split: if_splits)
  then show ?thesis
    using image_slice [OF assms(1)] load_node [OF assms(2), of f] by (simp add: load_u64_def load_le_def)
qed

lemma image_entry_fields:
  assumes m: "take (length (chain_image f S log)) m = chain_image f S log"
    and j: "log ! j = (k, t, v)" "j < length log" "entry_fits (k, t, v)"
  shows "load_u16 m (node_pos S log (S + j) + 8) = Inr (of_nat (length k))"
    and "load_u32 m (node_pos S log (S + j) + 10) = Inr (size_and_type (type_byte t) (length v))"
    and "slice m (node_pos S log (S + j) + 14) (length k) = Inr k"
    and "slice m (node_pos S log (S + j) + 14 + length k) (length v) = Inr v"
proof -
  have "node_pos S log (S + j) + 14 + length k + length v \<le> length (chain_image f S log)"
    using node_pos_next [of "S + j" "S + length log" S log] j
    by (simp add: length_chain_image node_len_def entry_bytes_def)
  then have eq: "off + l \<le> node_pos S log (S + j) + 14 + length k + length v \<Longrightarrow>
      slice m off l = slice (chain_image f S log) off l" for off l
    using image_slice [OF m] by simp
  note e = entry_fields [OF j, of f S]
  show "load_u16 m (node_pos S log (S + j) + 8) = Inr (of_nat (length k))"
    using e(1) eq [of "node_pos S log (S + j) + 8" 2] by (simp add: load_u16_def load_le_def)
  show "load_u32 m (node_pos S log (S + j) + 10) = Inr (size_and_type (type_byte t) (length v))"
    using e(2) eq [of "node_pos S log (S + j) + 10" 4] by (simp add: load_u32_def load_le_def)
  show "slice m (node_pos S log (S + j) + 14) (length k) = Inr k"
    using e(3) eq [of "node_pos S log (S + j) + 14" "length k"] by simp
  show "slice m (node_pos S log (S + j) + 14 + length k) (length v) = Inr v"
    using e(4) eq [of "node_pos S log (S + j) + 14 + length k" "length v"] by simp
qed

text \<open>The loop of \<open>add\<close> stops at the last node of the chain.\<close>

lemma cv_find_end_ok:
  assumes S: "0 < S" and lim: "length (chain_image f S log) \<le> mem_limit"
    and m: "take (length (chain_image f S log)) m = chain_image f S log"
    and q: "q < S + length log" and i: "chain_of f S log q = i"
  shows "\<exists>r n. cv_find_end m (of_nat (node_pos S log q)) c = Some (Inr (of_nat (node_pos S log r), n)) \<and>
    q \<le> r \<and> r < S + length log \<and> chain_of f S log r = i \<and> next_node f S log i r = None"
  using q i
proof (induction "S + length log - q" arbitrary: q c rule: less_induct)
  case less
  have u: "unat (of_nat (node_pos S log q) :: u64) = node_pos S log q"
    using less.prems by (intro unat_node_pos [OF lim]) simp
  note ld = image_load_node [OF m less.prems(1), unfolded less.prems(2)]
  show ?case
  proof (cases "next_node f S log i q")
    case None
    then have "cv_find_end m (of_nat (node_pos S log q)) c = Some (Inr (of_nat (node_pos S log q), c))"
      by (subst cv_find_end.simps) (simp add: u ld ptr_of_def)
    with None less.prems show ?thesis by auto
  next
    case (Some r)
    obtain j where j: "r = S + j" "j < length log" "Suc q - S \<le> j" "f (fst (log ! j)) = i"
      using next_node_Some [OF Some] by metis
    have "S + length log - r < S + length log - q" "r < S + length log" "chain_of f S log r = i"
      using j less.prems by auto
    from less.hyps [OF this, of "c + 1"] obtain s n where
      "cv_find_end m (of_nat (node_pos S log r)) (c + 1) = Some (Inr (of_nat (node_pos S log s), n))"
      "r \<le> s" "s < S + length log" "chain_of f S log s = i" "next_node f S log i s = None" by blast
    moreover have "(of_nat (node_pos S log r) :: u64) \<noteq> 0"
      using node_pos_nonzero [OF S lim j(2)] j(1) by simp
    ultimately have "cv_find_end m (of_nat (node_pos S log q)) c = Some (Inr (of_nat (node_pos S log s), n))"
      by (subst cv_find_end.simps) (simp add: u ld ptr_of_def Some)
    moreover have "q \<le> s" using \<open>r \<le> s\<close> j by simp
    ultimately show ?thesis
      using \<open>s < S + length log\<close> \<open>chain_of f S log s = i\<close> \<open>next_node f S log i s = None\<close> by blast
  qed
qed

text \<open>The loop of \<open>get\<close> and \<open>contains\<close> finds the first record of the key behind a node.\<close>

definition entry_addr :: "nat \<Rightarrow> chain_entry list \<Rightarrow> nat \<Rightarrow> u64" where
  "entry_addr S log j = of_nat (node_pos S log (S + j))"

lemma find_upt_skip:
  assumes "a \<le> b" and "b \<le> n" and "\<And>j. a \<le> j \<Longrightarrow> j < b \<Longrightarrow> \<not> P j"
  shows "find P [a..<n] = find P [b..<n]"
proof -
  have "[a..<n] = [a..<b] @ [b..<n]"
    using assms(1,2) by (metis le_add_diff_inverse upt_add_eq_append)
  moreover have "find P (xs @ ys) = (case find P xs of None \<Rightarrow> find P ys | Some x \<Rightarrow> Some x)" for xs ys
    by (induction xs) auto
  moreover have "find P [a..<b] = None" using assms(3) by (auto simp: find_None_iff)
  ultimately show ?thesis by simp
qed

lemma cv_search_ok:
  assumes S: "0 < S" and lim: "length (chain_image f S log) \<le> mem_limit"
    and m: "take (length (chain_image f S log)) m = chain_image f S log"
    and fits: "\<forall>e \<in> set log. entry_fits e"
    and q: "q < S + length log"
  shows "cv_search m (ptr_of S log (next_node f S log (f key) q)) key =
    Some (Inr (map_option (entry_addr S log) (find (\<lambda>j. fst (log ! j) = key) [Suc q - S..<length log])))"
  using q
proof (induction "S + length log - q" arbitrary: q rule: less_induct)
  case less
  let ?n = "length log"
  show ?case
  proof (cases "next_node f S log (f key) q")
    case None
    then have "find (\<lambda>j. fst (log ! j) = key) [Suc q - S..<?n] = None"
      by (auto simp: next_node_None find_None_iff)
    with None show ?thesis by (subst cv_search.simps) (simp add: ptr_of_def)
  next
    case (Some r)
    obtain j where j: "r = S + j" "j < ?n" "Suc q - S \<le> j" "f (fst (log ! j)) = f key"
      and skip: "\<And>j'. Suc q - S \<le> j' \<Longrightarrow> j' < j \<Longrightarrow> f (fst (log ! j')) \<noteq> f key"
      using next_node_Some [OF Some] by metis
    obtain k t v where e: "log ! j = (k, t, v)" by (cases "log ! j")
    have fe: "entry_fits (k, t, v)" using fits j(2) e by (metis nth_mem)
    have len: "unat (of_nat (length k) :: u16) = length k"
      using fe by (simp add: entry_fits_def kKeyLength_def unat_of_nat)
    note fld = image_entry_fields [OF m e j(2) fe]
    have u: "unat (entry_addr S log j) = node_pos S log (S + j)"
      using unat_node_pos [OF lim, of "S + j"] j(2) by (simp add: entry_addr_def)
    have nz: "entry_addr S log j \<noteq> 0"
      using node_pos_nonzero [OF S lim j(2)] by (simp add: entry_addr_def)
    have p: "ptr_of S log (next_node f S log (f key) q) = entry_addr S log j"
      by (simp add: Some j(1) ptr_of_def entry_addr_def)
    have sk: "find (\<lambda>j. fst (log ! j) = key) [Suc q - S..<?n] = find (\<lambda>j. fst (log ! j) = key) [j..<?n]"
      using j skip by (intro find_upt_skip) auto
    have up: "[j..<?n] = j # [Suc j..<?n]" using j(2) by (rule upt_conv_Cons)
    show ?thesis
    proof (cases "k = key")
      case True
      then have "cv_search m (entry_addr S log j) key = Some (Inr (Some (entry_addr S log j)))"
        using fld len nz by (subst cv_search.simps) (simp add: u)
      with True e show ?thesis unfolding p sk up by simp
    next
      case False
      have "S + ?n - (S + j) < S + ?n - q" "S + j < S + ?n"
        using j less.prems by auto
      note IH = less.hyps [OF this]
      have ld: "load_u64 m (node_pos S log (S + j)) = Inr (ptr_of S log (next_node f S log (f key) (S + j)))"
        using image_load_node [OF m, of "S + j"] j by simp
      have "cv_search m (entry_addr S log j) key =
          cv_search m (ptr_of S log (next_node f S log (f key) (S + j))) key"
        using fld(1,3) len nz False ld
        by (subst cv_search.simps, cases "length k = length key") (simp_all add: u)
      also have "\<dots> = Some (Inr (map_option (entry_addr S log)
          (find (\<lambda>j. fst (log ! j) = key) [Suc j..<?n])))"
        using IH by simp
      finally show ?thesis using False e unfolding p sk up by simp
    qed
  qed
qed

section \<open>Lookups\<close>

lemma size_and_type_fields:
  assumes "n \<le> kValueLength"
  shows "(ucast (drop_bit 24 (size_and_type tb n)) :: u8) = tb"
    and "unat (size_and_type tb n AND 0xFFFFFF) = n"
proof -
  have m: "(0xFFFFFF :: u32) = mask 24" by (simp add: mask_eq_exp_minus_1)
  show "(ucast (drop_bit 24 (size_and_type tb n)) :: u8) = tb"
    unfolding size_and_type_def m by (rule bit_word_eqI) (auto simp: bit_simps)
  have "size_and_type tb n AND 0xFFFFFF = take_bit 24 (of_nat n)"
    unfolding size_and_type_def m by (rule bit_word_eqI) (auto simp: bit_simps)
  then have "unat (size_and_type tb n AND 0xFFFFFF) = take_bit 24 (unat (of_nat n :: u32))"
    by (simp only: unsigned_take_bit_eq)
  then show "unat (size_and_type tb n AND 0xFFFFFF) = n"
    using assms by (simp add: unat_of_nat take_bit_eq_mod kValueLength_def)
qed

lemma map_of_find:
  "map_of log key = map_option (\<lambda>j. snd (log ! j)) (find (\<lambda>j. fst (log ! j) = key) [0..<length log])"
proof (induction log)
  case (Cons e log)
  have fm: "find P (map Suc xs) = map_option Suc (find (\<lambda>j. P (Suc j)) xs)" for P xs
    by (induction xs) auto
  have u: "[0..<length (e # log)] = 0 # map Suc [0..<length log]"
    by (simp add: upt_conv_Cons map_Suc_upt del: upt_Suc)
  show ?case
    unfolding u using Cons by (cases e) (simp add: fm option.map_comp comp_def)
qed simp

lemma cv_find_head:
  assumes "0 < S" and "length (chain_image f S log) \<le> mem_limit"
    and "take (length (chain_image f S log)) m = chain_image f S log"
    and "\<forall>e \<in> set log. entry_fits e" and i: "f key < S"
  shows "\<exists>w. load_u64 m (unat (of_nat (8 * f key) :: u64)) = Inr w \<and>
    cv_search m w key =
      Some (Inr (map_option (entry_addr S log) (find (\<lambda>j. fst (log ! j) = key) [0..<length log])))"
proof -
  have p: "node_pos S log (f key) = 8 * f key" using i by (simp add: node_pos_head)
  have u: "unat (of_nat (8 * f key) :: u64) = 8 * f key"
    using unat_node_pos [OF assms(2), of "f key"] i p by simp
  have q: "f key < S + length log" using i by simp
  have "Suc (f key) - S = 0" using i by simp
  then have "cv_search m (ptr_of S log (next_node f S log (f key) (f key))) key =
      Some (Inr (map_option (entry_addr S log) (find (\<lambda>j. fst (log ! j) = key) [0..<length log])))"
    using cv_search_ok [OF assms(1-4) q, of key] by simp
  moreover have "load_u64 m (8 * f key) = Inr (ptr_of S log (next_node f S log (f key) (f key)))"
    using image_load_node [OF assms(3) q] i by (simp add: p)
  ultimately show ?thesis by (simp add: u del: of_nat_mult)
qed

lemma cv_get_ok:
  assumes S: "0 < S" and lim: "length (chain_image f S log) \<le> mem_limit"
    and m: "take (length (chain_image f S log)) m = chain_image f S log"
    and fits: "\<forall>e \<in> set log. entry_fits e" and i: "f key < S"
  shows "cv_get m (of_nat (8 * f key)) key (type_byte t) = Some (Inr (case log_map log key of
      None \<Rightarrow> ([], False) | Some (t', v) \<Rightarrow> (if t = t' then (v, True) else ([], False))))"
    and "cv_contains m (of_nat (8 * f key)) key = Some (Inr (log_map log key \<noteq> None))"
proof -
  obtain w where w: "load_u64 m (unat (of_nat (8 * f key) :: u64)) = Inr w"
    and s: "cv_search m w key =
      Some (Inr (map_option (entry_addr S log) (find (\<lambda>j. fst (log ! j) = key) [0..<length log])))"
    using cv_find_head [OF S lim m fits i] by blast
  have "cv_get m (of_nat (8 * f key)) key (type_byte t) = Some (Inr (case log_map log key of
      None \<Rightarrow> ([], False) | Some (t', v) \<Rightarrow> (if t = t' then (v, True) else ([], False)))) \<and>
    cv_contains m (of_nat (8 * f key)) key = Some (Inr (log_map log key \<noteq> None))"
  proof (cases "find (\<lambda>j. fst (log ! j) = key) [0..<length log]")
    case None
    then show ?thesis
      using w s by (simp add: cv_get_def cv_contains_def log_map_def map_of_find del: of_nat_mult)
  next
    case (Some j)
    obtain k t' v where e: "log ! j = (k, t', v)" by (cases "log ! j")
    have j: "j < length log" "k = key" using Some e by (auto simp: find_Some_iff)
    have fe: "entry_fits (k, t', v)" using fits j(1) e by (metis nth_mem)
    have v: "length v \<le> kValueLength" using fe by (simp add: entry_fits_def)
    note fld = image_entry_fields [OF m e j(1) fe]
    have u: "unat (entry_addr S log j) = node_pos S log (S + j)"
      using unat_node_pos [OF lim, of "S + j"] j(1) by (simp add: entry_addr_def)
    have M: "log_map log key = Some (t', v)" using Some e by (simp add: log_map_def map_of_find)
    have tb: "type_byte t' = type_byte t \<longleftrightarrow> t = t'"
      by (metis CacheValueType_code_inject unat_type_byte)
    show ?thesis
      using w s Some fld size_and_type_fields [OF v, of "type_byte t'"] j(2)
      by (simp add: cv_get_def cv_contains_def u M tb del: of_nat_mult)
  qed
  then show "cv_get m (of_nat (8 * f key)) key (type_byte t) = Some (Inr (case log_map log key of
      None \<Rightarrow> ([], False) | Some (t', v) \<Rightarrow> (if t = t' then (v, True) else ([], False))))"
    "cv_contains m (of_nat (8 * f key)) key = Some (Inr (log_map log key \<noteq> None))" by blast+
qed

section \<open>Insertion\<close>

lemma unat_cv_calculateSize:
  assumes "entry_fits (key, t, v)"
  shows "unat (cv_calculateSize key v) = 8 + length (entry_bytes (key, t, v))"
proof -
  have "unat (of_nat (length key) :: u64) = length key" "unat (of_nat (length v) :: u64) = length v"
    using assms by (simp_all add: entry_fits_def kKeyLength_def kValueLength_def unat_of_nat)
  with assms show ?thesis
    by (simp add: cv_calculateSize_def entry_bytes_def entry_fits_def kKeyLength_def kValueLength_def
        unat_word_ariths)
qed

lemma cv_addToEnd_ok:
  assumes ok: "mem_ok h" and k: "mKind h = Malloc_Handler" and fe: "entry_fits (key, t, v)"
    and lim: "unat (mDataSize h) + 8 + length (entry_bytes (key, t, v)) \<le> mem_limit"
  obtains h' where "cv_addToEnd key (type_byte t) v h = Inr (mDataSize h, h')" and "mem_ok h'"
    and "mKind h' = Malloc_Handler"
    and "unat (mDataSize h') = unat (mDataSize h) + 8 + length (entry_bytes (key, t, v))"
    and "used h' = used h @ le64 0 @ entry_bytes (key, t, v)"
proof -
  let ?b = "le64 0 @ entry_bytes (key, t, v)" and ?a = "unat (mDataSize h)"
  have n: "unat (cv_calculateSize key v) = length ?b"
    using unat_cv_calculateSize [OF fe] by simp
  have lim': "?a + length ?b \<le> mem_limit" using lim by simp
  obtain h1 h2 where g: "grow h (cv_calculateSize key v) = Inr (mDataSize h, h1)"
    and room: "?a + length ?b \<le> length (mData h1)" and st: "mem_store h1 ?a ?b = Inr h2"
    and h2: "mem_ok h2" "mKind h2 = Malloc_Handler" "unat (mDataSize h2) = ?a + length ?b"
      "used h2 = used h @ ?b"
    using append_bytes [OF ok k n lim'] by metis
  have r: "?a + (14 + length key + length v) \<le> length (mData h1)"
    using room by (simp add: entry_bytes_def)
  let ?A = "le64 0" and ?B = "le16 (of_nat (length key))"
    and ?C = "le32 (size_and_type (type_byte t) (length v))"
  let ?g = "\<lambda>h5. Inr (mDataSize h, h5)"
  have "and_then (mem_store h1 ?a ?A) (\<lambda>h1.
     and_then (mem_store h1 (?a + length ?A) ?B) (\<lambda>h2.
     and_then (mem_store h2 (?a + length (?A @ ?B)) ?C) (\<lambda>h3.
     and_then (mem_store h3 (?a + length ((?A @ ?B) @ ?C)) key) (\<lambda>h4.
     and_then (mem_store h4 (?a + length (((?A @ ?B) @ ?C) @ key)) v) ?g)))) =
     and_then (mem_store h1 ?a ?b) ?g"
    by (subst mem_store_then, use r in simp)+ (simp add: entry_bytes_def)
  then have "and_then (mem_store h1 ?a ?A) (\<lambda>h1.
     and_then (mem_store h1 (?a + 8) ?B) (\<lambda>h2.
     and_then (mem_store h2 (?a + 10) ?C) (\<lambda>h3.
     and_then (mem_store h3 (?a + 14) key) (\<lambda>h4.
     and_then (mem_store h4 (?a + 14 + length key) v) ?g)))) = Inr (mDataSize h, h2)"
    using st by (simp add: add.assoc)
  then have "cv_addToEnd key (type_byte t) v h = Inr (mDataSize h, h2)"
    using fe g by (simp add: cv_addToEnd_def entry_fits_def Let_def add.assoc)
  then show ?thesis
    using h2 by (intro that [of h2]) simp_all
qed

text \<open>Writing inside one block of a concatenation.\<close>

lemma splice_concat:
  assumes "q < length bs" and "length b \<le> length (bs ! q)"
  shows "splice (concat bs) (sum_list (map length (take q bs))) b =
    Inr (concat (bs[q := b @ drop (length b) (bs ! q)]))"
proof -
  have s: "bs = take q bs @ bs ! q # drop (Suc q) bs"
    using assms(1) by (simp add: id_take_nth_drop)
  have l: "length (concat (take q bs)) = sum_list (map length (take q bs))"
    by (simp add: length_concat)
  have c: "concat bs = concat (take q bs) @ bs ! q @ concat (drop (Suc q) bs)"
    by (subst s) simp
  have u: "concat (bs[q := b @ drop (length b) (bs ! q)]) =
      concat (take q bs) @ (b @ drop (length b) (bs ! q)) @ concat (drop (Suc q) bs)"
    using assms(1) by (simp add: upd_conv_take_nth_drop)
  show ?thesis
    unfolding u c using assms(2) by (simp add: splice_def flip: l)
qed

lemma splice_used:
  assumes "splice (mData h) off b = Inr d" and "off + length b \<le> unat (mDataSize h)" and "mem_ok h"
  shows "splice (used h) off b = Inr (take (unat (mDataSize h)) d)"
proof -
  have l: "unat (mDataSize h) \<le> length (mData h)" using assms(3) by (simp add: mem_ok_def)
  have d: "d = take off (mData h) @ b @ drop (off + length b) (mData h)"
    using assms(1) by (simp add: splice_Inr_iff)
  have "min off (length (mData h)) = off" using l assms(2) by simp
  moreover have "unat (mDataSize h) \<le> off \<Longrightarrow> off = unat (mDataSize h) \<and> b = []"
    using assms(2) by (cases b) auto
  ultimately show ?thesis
    using l assms(2) by (auto simp: d splice_Inr_iff used_def drop_take min_def)
qed

text \<open>Of each chain exactly one node has no next record; a new record changes only its pointer.\<close>

lemma last_node_unique:
  assumes "next_node f S log i q = None" and "next_node f S log i r = None"
    and "chain_of f S log q = i" and "chain_of f S log r = i"
    and "q < S + length log" and "r < S + length log"
  shows "q = r"
proof -
  have False if n: "next_node f S log i a = None" and "chain_of f S log b = i" "chain_of f S log a = i"
    "a < b" "b < S + length log" for a b
  proof (cases "b < S")
    case True
    with that show False by (simp add: chain_of_def)
  next
    case False
    then have "Suc a - S \<le> b - S" "b - S < length log" "f (fst (log ! (b - S))) = i"
      using that by (auto simp: chain_of_def)
    with n show False by (auto simp: next_node_None)
  qed
  with assms show ?thesis by (meson nat_neq_iff)
qed

lemma chain_of_snoc: "q < S + length log \<Longrightarrow> chain_of f S (log @ [e]) q = chain_of f S log q"
  by (auto simp: chain_of_def nth_append)

lemma next_node_snoc:
  assumes "q < S + length log"
  shows "next_node f S (log @ [e]) i q =
    (case next_node f S log i q of Some r \<Rightarrow> Some r
     | None \<Rightarrow> if f (fst e) = i then Some (S + length log) else None)"
proof -
  let ?P = "\<lambda>j. f (fst (log ! j)) = i" and ?a = "Suc q - S" and ?n = "length log"
  have "[?a..<Suc ?n] = [?a..<?n] @ [?n]" using assms by simp
  moreover have "find P (xs @ ys) = (case find P xs of None \<Rightarrow> find P ys | Some x \<Rightarrow> Some x)" for P and xs ys :: "nat list"
    by (induction xs) auto
  moreover have "find (\<lambda>j. f (fst ((log @ [e]) ! j)) = i) [?a..<?n] = find ?P [?a..<?n]"
    by (intro find_cong) (auto simp: nth_append)
  ultimately show ?thesis
    by (simp add: next_node_def split: option.split)
qed

lemma ptr_of_snoc:
  assumes "\<And>r. x = Some r \<Longrightarrow> r \<le> S + length log"
  shows "ptr_of S (log @ [e]) x = ptr_of S log x"
  using assms by (auto simp: ptr_of_def node_pos_snoc split: option.split)

lemma node_bytes_snoc:
  assumes q: "q < S + length log"
  shows "node_bytes f S (log @ [e]) q =
    (if chain_of f S log q = f (fst e) \<and> next_node f S log (f (fst e)) q = None
     then le64 (of_nat (node_pos S log (S + length log))) @ drop 8 (node_bytes f S log q)
     else node_bytes f S log q)"
proof -
  let ?i = "chain_of f S log q"
  have tail: "(if q < S then [] else entry_bytes ((log @ [e]) ! (q - S))) =
      (if q < S then [] else entry_bytes (log ! (q - S)))"
    using q by (auto simp: nth_append)
  have old: "next_node f S log i q = Some r \<Longrightarrow> r \<le> S + length log" for i r
    by (auto elim: next_node_Some)
  show ?thesis
    unfolding node_bytes_def chain_of_snoc [OF q] next_node_snoc [OF q] tail
    using old [of ?i] by (auto simp: ptr_of_snoc ptr_of_def node_pos_snoc split: option.split)
qed

lemma node_bytes_new:
  "node_bytes f S (log @ [e]) (S + length log) = le64 0 @ entry_bytes e"
proof -
  have "next_node f S (log @ [e]) i (S + length log) = None" for i
    by (auto simp: next_node_None)
  then show ?thesis by (simp add: node_bytes_def ptr_of_def)
qed

lemma chain_image_snoc:
  assumes q: "q < S + length log" and i: "chain_of f S log q = f (fst e)"
    and l: "next_node f S log (f (fst e)) q = None"
  shows "splice (chain_image f S log @ le64 0 @ entry_bytes e) (node_pos S log q)
      (le64 (of_nat (node_pos S log (S + length log)))) = Inr (chain_image f S (log @ [e]))"
proof -
  let ?n = "S + length log" and ?b = "le64 (of_nat (node_pos S log (S + length log)))"
  let ?bs = "map (node_bytes f S log) [0..<?n] @ [le64 0 @ entry_bytes e]"
  have qb: "q < length ?bs" "length ?b \<le> length (?bs ! q)"
    using q by (simp_all add: nth_append node_len_def)
  have pos: "sum_list (map length (take q ?bs)) = node_pos S log q"
    using q by (simp add: node_pos_def take_map comp_def)
  have "?bs[q := ?b @ drop (length ?b) (?bs ! q)] = map (node_bytes f S (log @ [e])) [0..<Suc ?n]"
  proof (rule nth_equalityI)
    fix r assume "r < length (?bs[q := ?b @ drop (length ?b) (?bs ! q)])"
    then have r: "r < ?n \<or> r = ?n" by auto
    have other: "r < ?n \<Longrightarrow> r \<noteq> q \<Longrightarrow> \<not> (chain_of f S log r = f (fst e) \<and> next_node f S log (f (fst e)) r = None)"
      using last_node_unique [OF l _ i _ q] by blast
    show "?bs[q := ?b @ drop (length ?b) (?bs ! q)] ! r = map (node_bytes f S (log @ [e])) [0..<Suc ?n] ! r"
      using r
    proof
      assume "r < ?n"
      then show ?thesis
        using q other i l by (auto simp: nth_append node_bytes_snoc nth_list_update simp del: upt_Suc)
    next
      assume "r = ?n"
      then show ?thesis
        using q by (auto simp: nth_append node_bytes_new nth_list_update simp del: upt_Suc)
    qed
  qed simp
  with splice_concat [OF qb] show ?thesis
    unfolding pos by (simp add: chain_image_def del: upt_Suc)
qed

text \<open>\<open>add\<close> on a memory that holds a list of records leaves the memory of the longer list.\<close>

lemma used_image:
  assumes "used h = img" and "unat (mDataSize h) \<le> length (mData h)"
  shows "take (length img) (mData h) = img" and "length img = unat (mDataSize h)"
proof -
  show l: "length img = unat (mDataSize h)"
    using assms by (auto simp: used_def)
  show "take (length img) (mData h) = img"
    using assms(1) by (simp add: l used_def)
qed

lemma cv_add_ok:
  assumes ok: "mem_ok h" and k: "mKind h = Malloc_Handler" and img: "used h = chain_image f S log"
    and S: "0 < S" and i: "f key < S" and fe: "entry_fits (key, t, v)"
    and lim: "unat (mDataSize h) + 8 + length (entry_bytes (key, t, v)) \<le> mem_limit"
  obtains h' n where "cv_add (of_nat (8 * f key)) key hc (type_byte t) v h = Some (h', Inr n)"
    and "mem_ok h'" and "mKind h' = Malloc_Handler"
    and "used h' = chain_image f S (log @ [(key, t, v)])"
    and "unat (mDataSize h') = unat (mDataSize h) + 8 + length (entry_bytes (key, t, v))"
proof -
  let ?e = "(key, t, v)"
  have "unat (mDataSize h) \<le> length (mData h)" using ok by (simp add: mem_ok_def)
  note ui = used_image [OF img this]
  have lim0: "length (chain_image f S log) \<le> mem_limit" using lim ui(2) by simp
  have q0: "f key < S + length log" using i by simp
  obtain r n where fe': "cv_find_end (mData h) (of_nat (8 * f key)) 0 = Some (Inr (of_nat (node_pos S log r), n))"
    and r: "r < S + length log" "chain_of f S log r = f key" "next_node f S log (f key) r = None"
    using cv_find_end_ok [OF S lim0 ui(1) q0, of "f key" 0] i by (auto simp: node_pos_head)
  obtain h1 where a: "cv_addToEnd key (type_byte t) v h = Inr (mDataSize h, h1)" and ok1: "mem_ok h1"
    and k1: "mKind h1 = Malloc_Handler"
    and ds1: "unat (mDataSize h1) = unat (mDataSize h) + 8 + length (entry_bytes ?e)"
    and u1: "used h1 = used h @ le64 0 @ entry_bytes ?e"
    using cv_addToEnd_ok [OF ok k fe lim] by blast
  have end_pos: "node_pos S log (S + length log) = unat (mDataSize h)"
    using ui(2) by (simp add: length_chain_image)
  have off: "unat (of_nat (node_pos S log r) :: u64) = node_pos S log r"
    using unat_node_pos [OF lim0, of r] r(1) by simp
  have b: "(of_nat (node_pos S log (S + length log)) :: u64) = mDataSize h"
    unfolding end_pos by simp
  have inside: "node_pos S log r + 8 \<le> unat (mDataSize h1)"
    using node_pos_next [OF r(1), of S log] end_pos ds1 by (simp add: node_len_def split: if_splits)
  then have "node_pos S log r + length (le64 (mDataSize h)) \<le> length (mData h1)"
    using ok1 by (simp add: mem_ok_def)
  then obtain h2 where st: "mem_store h1 (node_pos S log r) (le64 (mDataSize h)) = Inr h2"
    using mem_store_exists by blast
  note fr = mem_store_frame [OF st]
  have sn: "splice (chain_image f S log @ le64 0 @ entry_bytes ?e) (node_pos S log r)
      (le64 (mDataSize h)) = Inr (chain_image f S (log @ [?e]))"
    using chain_image_snoc [of r S log f ?e] r unfolding b by simp
  have "used h2 = take (unat (mDataSize h1)) (mData h2)" by (simp add: used_def fr)
  also have "Inr \<dots> = splice (used h1) (node_pos S log r) (le64 (mDataSize h))"
    using splice_used [OF fr(7) _ ok1] inside by simp
  also have "\<dots> = Inr (chain_image f S (log @ [?e]))"
    unfolding u1 img by (rule sn)
  finally have "used h2 = chain_image f S (log @ [?e])" by simp
  moreover have "cv_add (of_nat (8 * f key)) key hc (type_byte t) v h = Some (h2, Inr n)"
    by (simp add: cv_add_def fe' a off st del: of_nat_mult)
  ultimately show ?thesis
    using that mem_store_ok [OF st ok1] fr k1 ds1 by simp
qed

lemma chain_image_Nil: "chain_image f S [] = replicate (8 * S) 0"
proof -
  have "node_bytes f S [] q = replicate 8 0" if "q < S" for q
    using that by (simp add: node_bytes_def next_node_def ptr_of_def le64_def)
  then have m: "map (node_bytes f S []) [0..<S] = map (\<lambda>q. replicate 8 0) [0..<S]" by simp
  have "concat (map (\<lambda>q. replicate 8 (0 :: byte)) [0..<n]) = replicate (8 * n) 0" for n
    by (induction n) (simp_all flip: replicate_add add: add.commute)
  then show ?thesis by (simp only: chain_image_def list.size add_0_right m)
qed

end
