(* ===== verification/Bucket_Chain.thy ===== *)
theory Bucket_Chain
  imports Chained_Value Linear_Store
begin

text \<open>
  \<open>BucketChainCache\<close> (\<open>cache/BucketChainCache.h\<close>): \<open>HashedCacheBase\<close> with
  \<open>SimpleProbe\<close> and \<open>ChainedValue\<close>.  A cache represents the map that its list of records
  gives, where the first record of a key counts: \<open>putInternal\<close> looks for no key and appends
  a second record for one that is there.  The class is a \<open>value_reader\<close>; it supports none
  of the getters over \<open>getWithType\<close>.
\<close>

section \<open>The class\<close>

definition bucket_policy :: "(bytes \<Rightarrow> u64) \<Rightarrow> (simple_probe, unit) policy" where
  "bucket_policy H =
     \<lparr>pol_type = BUCKET_CHAIN, pol_probeType = BUCKET_CHAIN, pol_hash = H,
      pol_hashFuncId = HashFuncId_XXH3, pol_makeProbe = SimpleProbe,
      pol_makeValueMgr = (\<lambda>ob n p. ()),
      pol_hashcodeBits = (\<lambda>p. 0), pol_offsetBits = sp_offsetBits,
      pol_numberOfKeySlots = sp_numberOfKeySlots, pol_keyspaceSize = sp_keyspaceSize,
      pol_calculateKeySpaceSize = sp_calculateKeySpaceSize,
      pol_find = (\<lambda>p key h m. Some (Inr (sp_findKeySlotOffset p key h m))),
      pol_findFree = (\<lambda>p key h m. Some (Inr (sp_findFreeKeySlotOffset p key h m))),
      pol_add = (\<lambda>v. cv_add),
      pol_get = (\<lambda>v m off key t isExist. cv_get m off key t),
      pol_getWithType = (\<lambda>v m off. cv_getWithType m off),
      pol_contains = (\<lambda>v m off key. cv_contains m off key)\<rparr>"

type_synonym bucket_cache = "(simple_probe, unit) hashed_cache"

definition bucket_lookup :: "(bytes \<Rightarrow> u64) \<Rightarrow> bucket_cache \<Rightarrow> lookup" where
  "bucket_lookup H c = hc_lookup (bucket_policy H) c"

section \<open>What a cache represents\<close>

definition bc_models :: "(bytes \<Rightarrow> u64) \<Rightarrow> bucket_cache \<Rightarrow> chain_entry list \<Rightarrow> bool" where
  "bc_models H c log \<longleftrightarrow>
     simple_probe_ok (hc_probe c) \<and> hc_keySpacePtr c = mBlock (hc_memory c) \<and>
     (\<forall>e \<in> set log. entry_fits e) \<and>
     used (hc_memory c) = chain_image (bucket (hc_probe c) H) (buckets (hc_probe c)) log \<and>
     unat (mDataSize (hc_memory c)) \<le> length (mData (hc_memory c)) \<and>
     unat (mDataSize (hc_memory c)) \<le> mem_limit"

definition bc_reads :: "(bytes \<Rightarrow> u64) \<Rightarrow> bucket_cache \<Rightarrow> entry_map \<Rightarrow> bool" where
  "bc_reads H c M \<longleftrightarrow> (\<exists>log. bc_models H c log \<and> M = log_map log)"

definition bc_builds :: "(bytes \<Rightarrow> u64) \<Rightarrow> bucket_cache \<Rightarrow> chain_entry list \<Rightarrow> bool" where
  "bc_builds H c log \<longleftrightarrow>
     bc_models H c log \<and> mem_ok (hc_memory c) \<and> mKind (hc_memory c) = Malloc_Handler \<and>
     unat (hdr_numberOfEntries (hc_header c)) = length log"

definition bc_room :: "bucket_cache \<Rightarrow> bool" where
  "bc_room c \<longleftrightarrow> hdr_numberOfEntries (hc_header c) < hc_maxNumberOfEntries c"

definition bc_size :: "bucket_cache \<Rightarrow> nat" where
  "bc_size c = unat (mDataSize (hc_memory c))"

lemma bc_reads_builds: "bc_builds H c log \<Longrightarrow> bc_reads H c (log_map log)"
  by (auto simp: bc_builds_def bc_reads_def)

lemma log_map_snoc:
  "log_map (log @ [(key, t, v)]) =
     (if log_map log key = None then (log_map log)(key \<mapsto> (t, v)) else log_map log)"
  by (auto simp: log_map_def map_add_def fun_eq_iff map_of_append split: option.splits)

section \<open>Lookups\<close>

lemma bc_key_space: "bc_models H c log \<Longrightarrow> key_space c = Inr (mData (hc_memory c))"
  by (simp add: bc_models_def key_space_def)

lemma bc_find:
  assumes "bc_models H c log"
  shows "sp_findKeySlotOffset (hc_probe c) key (H key) m = of_nat (8 * bucket (hc_probe c) H key)"
    and "setFoundHash h (of_nat (8 * bucket (hc_probe c) H key)) = h"
proof -
  have ok: "simple_probe_ok (hc_probe c)" using assms by (simp add: bc_models_def)
  show "sp_findKeySlotOffset (hc_probe c) key (H key) m = of_nat (8 * bucket (hc_probe c) H key)"
    by (rule sp_find_eq [OF ok])
  let ?o = "8 * bucket (hc_probe c) H key"
  have "?o < 2 ^ 60"
    using bucket_less [OF ok, of H key] ok by (simp add: simple_probe_ok_def mem_limit_def)
  then have "unat (of_nat ?o :: u64) < 2 ^ 60" by (simp add: unat_of_nat_u64 del: of_nat_mult)
  then have "(of_nat ?o :: u64) \<noteq> AXONCACHE_KEY_NOT_FOUND"
    by (auto simp: AXONCACHE_KEY_NOT_FOUND_def unsigned_minus_1_eq_mask mask_eq_exp_minus_1 simp del: of_nat_mult)
  then show "setFoundHash h (of_nat ?o) = h" by (simp add: setFoundHash_def del: of_nat_mult)
qed

lemma bc_lookups:
  assumes T: "bc_models H c log"
  shows "hc_getInternal (bucket_policy H) c key t = Some (Inr (case log_map log key of
      None \<Rightarrow> ([], False, H key)
    | Some (t', v) \<Rightarrow> (if t = t' then v else [], t = t', H key)))"
    and "hc_getInternal_value (bucket_policy H) c key t = Some (Inr (case log_map log key of
      None \<Rightarrow> ([], H key) | Some (t', v) \<Rightarrow> (if t = t' then v else [], H key)))"
    and "hc_contains (bucket_policy H) c key = Some (Inr (log_map log key \<noteq> None, H key))"
    and "hc_getWithTypeInternal (bucket_policy H) c key = Some (Inr ([], TString, H key))"
proof -
  let ?p = "hc_probe c" and ?h = "hc_memory c"
  let ?img = "chain_image (bucket ?p H) (buckets ?p) log"
  have ok: "simple_probe_ok ?p" and S: "0 < buckets ?p" and fits: "\<forall>e \<in> set log. entry_fits e"
    using T by (auto simp: bc_models_def simple_probe_ok_def)
  have l: "length ?img = unat (mDataSize ?h)" and m: "take (length ?img) (mData ?h) = ?img"
    using T used_image [of ?h ?img] by (auto simp: bc_models_def)
  have lim: "length ?img \<le> mem_limit" using T l by (simp add: bc_models_def)
  note g = cv_get_ok [OF S lim m fits bucket_less [OF ok]]
  note s = bc_key_space [OF T] bc_find [OF T] g
  show "hc_getInternal (bucket_policy H) c key t = Some (Inr (case log_map log key of
      None \<Rightarrow> ([], False, H key)
    | Some (t', v) \<Rightarrow> (if t = t' then v else [], t = t', H key)))"
    unfolding hc_getInternal_def bucket_policy_def Let_def
    by (simp add: s del: of_nat_mult split: option.split)
  show "hc_getInternal_value (bucket_policy H) c key t = Some (Inr (case log_map log key of
      None \<Rightarrow> ([], H key) | Some (t', v) \<Rightarrow> (if t = t' then v else [], H key)))"
    unfolding hc_getInternal_value_def bucket_policy_def Let_def
    by (simp add: s del: of_nat_mult split: option.split)
  show "hc_contains (bucket_policy H) c key = Some (Inr (log_map log key \<noteq> None, H key))"
    unfolding hc_contains_def bucket_policy_def Let_def by (simp add: s del: of_nat_mult)
  show "hc_getWithTypeInternal (bucket_policy H) c key = Some (Inr ([], TString, H key))"
    unfolding hc_getWithTypeInternal_def bucket_policy_def Let_def
    by (simp add: s cv_getWithType_def del: of_nat_mult)
qed

interpretation bucket: value_reader "bucket_lookup H" "bc_reads H" "\<lambda>key present. H key" False
  for H :: "bytes \<Rightarrow> u64"
  by unfold_locales
    (auto simp: bc_reads_def bucket_lookup_def hc_lookup_def bc_lookups split: option.split)

section \<open>Insertion\<close>

lemma bucket_put:
  assumes B: "bc_builds H c log" and room: "bc_room c" and fe: "entry_fits (key, t, v)"
    and lim: "bc_size c + 8 + length (entry_bytes (key, t, v)) \<le> mem_limit"
  obtains c' n where "hc_putInternal (bucket_policy H) c key t v = Some (c', Inr (True, n))"
    and "bc_builds H c' (log @ [(key, t, v)])" and "hc_probe c' = hc_probe c"
    and "hc_maxNumberOfEntries c' = hc_maxNumberOfEntries c"
    and "bc_size c' = bc_size c + 8 + length (entry_bytes (key, t, v))"
proof -
  let ?p = "hc_probe c" and ?off = "of_nat (8 * bucket (hc_probe c) H key) :: u64"
  have T: "bc_models H c log" and ok: "mem_ok (hc_memory c)" and k: "mKind (hc_memory c) = Malloc_Handler"
    and n: "unat (hdr_numberOfEntries (hc_header c)) = length log"
    using B by (auto simp: bc_builds_def)
  have pk: "simple_probe_ok ?p" and S: "0 < buckets ?p" and fits: "\<forall>e \<in> set log. entry_fits e"
    and img: "used (hc_memory c) = chain_image (bucket ?p H) (buckets ?p) log"
    using T by (auto simp: bc_models_def simple_probe_ok_def)
  obtain h n1 where a: "cv_add ?off key (H key) (type_byte t) v (hc_memory c) = Some (h, Inr n1)"
    and h: "mem_ok h" "mKind h = Malloc_Handler"
      "used h = chain_image (bucket ?p H) (buckets ?p) (log @ [(key, t, v)])"
      "unat (mDataSize h) = unat (mDataSize (hc_memory c)) + 8 + length (entry_bytes (key, t, v))"
    using cv_add_ok [OF ok k img S bucket_less [OF pk] fe lim [unfolded bc_size_def]] by metis
  have ne: "?off \<noteq> AXONCACHE_KEY_EXISTS"
  proof -
    have "8 * bucket ?p H key < 2 ^ 60"
      using bucket_less [OF pk, of H key] pk by (simp add: simple_probe_ok_def mem_limit_def)
    then have "unat ?off < 2 ^ 60" by (simp add: unat_of_nat_u64 del: of_nat_mult)
    then show ?thesis by (auto simp: AXONCACHE_KEY_EXISTS_def simp del: of_nat_mult)
  qed
  let ?t = "max 0 n1"
  let ?c' = "updateKeySpacePtr (count_entry ?t (c\<lparr>hc_memory := h\<rparr>))"
  have room': "\<not> hc_maxNumberOfEntries c \<le> hdr_numberOfEntries (hc_header c)"
    using room by (simp add: bc_room_def not_le)
  have p: "hc_putInternal (bucket_policy H) c key t v = Some (?c', Inr (True, ?t))"
    using room' ne a
    unfolding hc_putInternal_def put_with_def bucket_policy_def Let_def
    by (simp add: bc_key_space [OF T] sp_findFreeKeySlotOffset_def bc_find(1) [OF T] del: of_nat_mult)
  have "unat (hdr_numberOfEntries (hc_header c)) + unat (1 :: u64) \<le> unat (hc_maxNumberOfEntries c)"
    using room by (simp add: bc_room_def word_less_nat_alt)
  also have "\<dots> < 2 ^ 64" by simp
  finally have n': "unat (hdr_numberOfEntries (hc_header c) + 1) = Suc (length log)"
    using n by (simp add: unat_add_lt)
  have "bc_builds H ?c' (log @ [(key, t, v)])"
    using h fits fe pk lim n'
    by (auto simp: bc_builds_def bc_models_def updateKeySpacePtr_def count_entry_def mem_ok_def bc_size_def)
  moreover have "hc_probe ?c' = ?p" "hc_maxNumberOfEntries ?c' = hc_maxNumberOfEntries c"
    "bc_size ?c' = bc_size c + 8 + length (entry_bytes (key, t, v))"
    using h by (simp_all add: updateKeySpacePtr_def count_entry_def bc_size_def)
  ultimately show ?thesis using p that by blast
qed

lemma HashedCacheBase_bucket:
  assumes new: "HashedCacheBase (bucket_policy H) ob n lf (MallocMemoryHandler fresh cap) = Inr c"
    and n: "16 * unat n \<le> mem_limit"
  shows "bc_builds H c []" and "max_entries n lf = Inr (hc_maxNumberOfEntries c)"
    and "unat n \<le> buckets (hc_probe c)" and "bc_size c = 8 * buckets (hc_probe c)"
proof -
  let ?h = "MallocMemoryHandler fresh cap"
  obtain p where p: "SimpleProbe ob n = Inr p" and pk: "simple_probe_ok p" and np: "unat n \<le> buckets p"
    using SimpleProbe_ok [of n ob] n by auto
  have c: "max_entries n lf = Inr (hc_maxNumberOfEntries c)"
    "hc_memory c = ?h\<lparr>mData := zero_block (sp_calculateKeySpaceSize p),
        mDataSize := sp_calculateKeySpaceSize p, mRealDataSize := sp_calculateKeySpaceSize p, mBlock := 1\<rparr>"
    "hc_probe c = p" "hc_keySpacePtr c = 1" "hdr_numberOfEntries (hc_header c) = 0"
    using new p
    by (auto simp: HashedCacheBase_def and_then_Inr_iff bucket_policy_def malloc_allocate_fresh
        MallocMemoryHandler_def updateKeySpacePtr_def zero_header_def)
  note ks = sp_calculateKeySpaceSize_eq [OF pk]
  show "max_entries n lf = Inr (hc_maxNumberOfEntries c)" by (rule c(1))
  show "unat n \<le> buckets (hc_probe c)" using np by (simp add: c(3))
  show "bc_size c = 8 * buckets (hc_probe c)" by (simp add: bc_size_def c ks)
  show "bc_builds H c []"
    using pk ks
    by (simp add: bc_builds_def bc_models_def c chain_image_Nil used_def zero_block_def mem_ok_def
        MallocMemoryHandler_def simple_probe_ok_def)
qed

section \<open>A concrete cache\<close>

definition small_bucket :: "(bytes \<Rightarrow> u64) \<Rightarrow> bucket_cache outcome" where
  "small_bucket H = HashedCacheBase (bucket_policy H) 64 4 half (MallocMemoryHandler (\<lambda>b i. 0) 1024)"

lemma small_bucket:
  obtains c where "small_bucket H = Inr c" and "bc_builds H c []" and "hc_maxNumberOfEntries c = 2"
    and "bc_size c \<le> 64" and "bc_room c"
proof -
  obtain p where p: "SimpleProbe 64 4 = Inr p" "buckets p \<le> 8"
    using SimpleProbe_ok [of 4 64] by (auto simp: mem_limit_def)
  obtain c where c: "small_bucket H = Inr c" and cp: "hc_probe c = p"
    by (simp add: small_bucket_def HashedCacheBase_def max_entries_half p bucket_policy_def
        MallocMemoryHandler_def mem_allocate_def updateKeySpacePtr_def)
  have n: "16 * unat (4 :: u64) \<le> mem_limit" by (simp add: mem_limit_def)
  note b = HashedCacheBase_bucket [OF c [unfolded small_bucket_def] n]
  have m: "hc_maxNumberOfEntries c = 2" using b(2) by (simp add: max_entries_half)
  have "bc_room c" using b(1) m by (simp add: bc_room_def bc_builds_def word_less_nat_alt)
  with c b m p(2) cp show ?thesis by (intro that [of c]) simp_all
qed

lemma bucket_put_one:
  assumes "length v \<le> 100"
  obtains c c' n where "small_bucket H = Inr c" and "bc_builds H c []"
    and "hc_putInternal (bucket_policy H) c (lit ''a'') t v = Some (c', Inr (True, n))"
    and "bc_builds H c' [(lit ''a'', t, v)]" and "bc_room c'" and "bc_size c' \<le> 200"
proof -
  obtain c where c: "small_bucket H = Inr c" "bc_builds H c []" "hc_maxNumberOfEntries c = 2"
    "bc_size c \<le> 64" "bc_room c" using small_bucket by blast
  have fe: "entry_fits (lit ''a'', t, v)"
    using assms by (simp add: entry_fits_def kKeyLength_def kValueLength_def)
  have lim: "bc_size c + 8 + length (entry_bytes (lit ''a'', t, v)) \<le> mem_limit"
    using c(4) assms by (simp add: entry_bytes_def mem_limit_def)
  obtain c' n where p: "hc_putInternal (bucket_policy H) c (lit ''a'') t v = Some (c', Inr (True, n))"
    and B: "bc_builds H c' ([] @ [(lit ''a'', t, v)])"
    and m: "hc_maxNumberOfEntries c' = hc_maxNumberOfEntries c"
    and sz: "bc_size c' = bc_size c + 8 + length (entry_bytes (lit ''a'', t, v))"
    using bucket_put [OF c(2,5) fe lim] by metis
  have "bc_room c'" using B m c(3) by (simp add: bc_room_def bc_builds_def word_less_nat_alt)
  moreover have "bc_size c' \<le> 200" using sz c(4) assms by (simp add: entry_bytes_def)
  ultimately show ?thesis using c p B by (intro that [of c c' n]) simp_all
qed

section \<open>Properties\<close>

text \<open>C29: putting a string or a list of strings under a new key of a bucket-chain cache with room
  succeeds, adds it to the represented map, and the getter reads the same value back; every other
  key keeps its entry.\<close>

theorem bucket_put_then_read:
  assumes B: "bc_builds H c log" and new: "log_map log key = None" and room: "bc_room c"
    and e: "put_encode value = Inr e" and sz: "length key \<le> kKeyLength" "length e \<le> kValueLength"
    and lim: "bc_size c + 14 + length key + length e \<le> mem_limit"
  shows "\<exists>c' n. put (hc_putInternal (bucket_policy H)) c key value = Some (c', Inr (True, n)) \<and>
    bc_reads H c' ((log_map log)(key \<mapsto> (put_type value, e))) \<and>
    (\<forall>s. value = Put_String s \<longrightarrow>
       (\<forall>d. getString (bucket_lookup H c') key d = Some (Inr (s, True, H key)))) \<and>
    (\<forall>ss. value = Put_List ss \<longrightarrow>
       (\<forall>d. getVector (bucket_lookup H c') key d = Some (Inr (if ss = [] then d else ss, H key))))"
proof -
  have fe: "entry_fits (key, put_type value, e)" using sz by (simp add: entry_fits_def)
  have "bc_size c + 8 + length (entry_bytes (key, put_type value, e)) \<le> mem_limit"
    using lim by (simp add: entry_bytes_def)
  from bucket_put [OF B room fe this] obtain c' n where
    p: "hc_putInternal (bucket_policy H) c key (put_type value) e = Some (c', Inr (True, n))"
    and B': "bc_builds H c' (log @ [(key, put_type value, e)])" by metis
  have R: "bc_reads H c' ((log_map log)(key \<mapsto> (put_type value, e)))"
    using bc_reads_builds [OF B'] new by (simp add: log_map_snoc)
  have "put (hc_putInternal (bucket_policy H)) c key value = Some (c', Inr (True, n))"
    by (simp add: put_def e p)
  moreover have "value = Put_String s \<Longrightarrow> getString (bucket_lookup H c') key d = Some (Inr (s, True, H key))" for s d
    using bucket.getString_stored [OF R] e by simp
  moreover have "value = Put_List ss \<Longrightarrow>
      getVector (bucket_lookup H c') key d = Some (Inr (if ss = [] then d else ss, H key))" for ss d
    using bucket.getVector_stored [OF R, of key e ss d] e by simp
  ultimately show ?thesis using R by blast
qed

theorem bucket_put_then_read_witness:
  "\<exists>c c' n. small_bucket (\<lambda>key. 6) = Inr c \<and>
     put (hc_putInternal (bucket_policy (\<lambda>key. 6))) c (lit ''k'') (Put_String (lit ''v'')) =
       Some (c', Inr (True, n)) \<and>
     getString (bucket_lookup (\<lambda>key. 6) c') (lit ''k'') [] = Some (Inr (lit ''v'', True, 6))"
proof -
  obtain c where c: "small_bucket (\<lambda>key. 6) = Inr c" "bc_builds (\<lambda>key. 6) c []" "bc_size c \<le> 64" "bc_room c"
    using small_bucket by metis
  from bucket_put_then_read [OF c(2) _ c(4), of "lit ''k''" "Put_String (lit ''v'')"] c(1,3) show ?thesis
    by (fastforce simp: log_map_def kKeyLength_def kValueLength_def mem_limit_def)
qed

text \<open>A second put of a key into a bucket-chain cache is not refused: it returns \<open>true\<close>, appends
  a record and counts an entry, and lookups still see the first value only.\<close>

theorem bucket_put_duplicate:
  assumes B: "bc_builds H c log" and old: "log_map log key = Some (TString, nul_terminate s)"
    and room: "bc_room c" and sz: "length key \<le> kKeyLength" "length v \<le> kValueLength"
    and lim: "bc_size c + 14 + length key + length v \<le> mem_limit"
  shows "\<exists>c' n. hc_putInternal (bucket_policy H) c key t v = Some (c', Inr (True, n)) \<and>
    bc_builds H c' (log @ [(key, t, v)]) \<and> bc_size c' = bc_size c + 14 + length key + length v \<and>
    bc_reads H c' (log_map log) \<and>
    getString (bucket_lookup H c') key d = Some (Inr (s, True, H key))"
proof -
  have fe: "entry_fits (key, t, v)" using sz by (simp add: entry_fits_def)
  have "bc_size c + 8 + length (entry_bytes (key, t, v)) \<le> mem_limit"
    using lim by (simp add: entry_bytes_def)
  from bucket_put [OF B room fe this] obtain c' n where
    p: "hc_putInternal (bucket_policy H) c key t v = Some (c', Inr (True, n))"
    and B': "bc_builds H c' (log @ [(key, t, v)])"
    and s: "bc_size c' = bc_size c + 8 + length (entry_bytes (key, t, v))" by metis
  have R: "bc_reads H c' (log_map log)"
    using bc_reads_builds [OF B'] old by (simp add: log_map_snoc)
  with bucket.getString_stored [OF R old] p B' s show ?thesis
    by (auto simp: entry_bytes_def)
qed

theorem bucket_put_duplicate_witness:
  "\<exists>c c' n m. hc_putInternal (bucket_policy (\<lambda>key. 1)) c (lit ''a'') TString [66, 0] = Some (c', Inr (True, n)) \<and>
     bc_builds (\<lambda>key. 1) c [(lit ''a'', TString, [65, 0])] \<and>
     getString (bucket_lookup (\<lambda>key. 1) c') (lit ''a'') [] = Some (Inr ([65], True, 1))"
proof -
  have v: "length (nul_terminate [65]) \<le> 100" by simp
  obtain c where c: "bc_builds (\<lambda>key. 1) c [(lit ''a'', TString, nul_terminate [65])]" "bc_room c" "bc_size c \<le> 200"
    using bucket_put_one [OF v, of "\<lambda>key. 1" TString] by metis
  have M: "log_map [(lit ''a'', TString, nul_terminate [65])] (lit ''a'') = Some (TString, nul_terminate [65])"
    by (simp add: log_map_def)
  from bucket_put_duplicate [OF c(1) M c(2), of "[66, 0]" TString "[]"] c(1,3) show ?thesis
    by (fastforce simp: kKeyLength_def kValueLength_def mem_limit_def nul_terminate_def)
qed

text \<open>The getters over \<open>getWithType\<close> find nothing in a bucket-chain cache, whatever it holds:
  they report every key as absent (with its hash), also the keys that \<open>contains\<close> confirms.\<close>

theorem bucket_typed_getters:
  assumes "bc_reads H c M"
  shows "getBool (bucket_lookup H c) key db = Some (Inr (db, False, H key))
    \<and> getInt64 (bucket_lookup H c) key di = Some (Inr (di, False, H key))
    \<and> getDouble fl (bucket_lookup H c) key dd = Some (Inr (dd, False, H key))
    \<and> getFloatVector fl (bucket_lookup H c) key = Some (Inr ([], H key))
    \<and> readKeys (bucket_lookup H c) key = Some (Inr ([], H key))
    \<and> getKeyType (bucket_lookup H c) key = Some (Inr ('''', H key))
    \<and> hc_contains (bucket_policy H) c key = Some (Inr (M key \<noteq> None, H key))"
proof -
  obtain log where T: "bc_models H c log" "M = log_map log" using assms by (auto simp: bc_reads_def)
  have "vt_typed (bucket_lookup H c) key = Some (Inr ([], TString, H key))"
    by (simp add: bucket_lookup_def hc_lookup_def bc_lookups(4) [OF T(1)])
  then show ?thesis
    by (simp add: getWithType_def getBool_def getInt64_def getDouble_def getFloatVector_def readKeys_def
        getKeyType_def bc_lookups(3) [OF T(1)] T(2))
qed

theorem bucket_typed_getters_witness:
  "\<exists>c. bc_builds (\<lambda>key. 1) c [(lit ''a'', TInt64, le64 5)] \<and>
     getInt64 (bucket_lookup (\<lambda>key. 1) c) (lit ''a'') 9 = Some (Inr (9, False, 1)) \<and>
     hc_contains (bucket_policy (\<lambda>key. 1)) c (lit ''a'') = Some (Inr (True, 1))"
proof -
  obtain c where c: "bc_builds (\<lambda>key. 1) c [(lit ''a'', TInt64, le64 5)]"
    using bucket_put_one [of "le64 5" "\<lambda>key. 1" TInt64] by auto
  from bucket_typed_getters [OF bc_reads_builds [OF c], of "lit ''a''" False 9] c show ?thesis
    by (auto simp: log_map_def)
qed

text \<open>\<open>getString\<close> of a key that a bucket-chain cache holds with another type returns the default
  and reports no value.\<close>

theorem bucket_getString_mismatch:
  assumes "bc_reads H c M" and "M key = Some (t, v)" and "t \<noteq> TString"
  shows "getString (bucket_lookup H c) key d = Some (Inr (d, False, H key))"
  using bucket.getString_mismatch [OF assms] by simp

theorem bucket_getString_mismatch_witness:
  "\<exists>c. bc_builds (\<lambda>key. 1) c [(lit ''a'', TInt64, le64 5)] \<and>
     getString (bucket_lookup (\<lambda>key. 1) c) (lit ''a'') [7] = Some (Inr ([7], False, 1))"
proof -
  obtain c where c: "bc_builds (\<lambda>key. 1) c [(lit ''a'', TInt64, le64 5)]"
    using bucket_put_one [of "le64 5" "\<lambda>key. 1" TInt64] by auto
  from bucket_getString_mismatch [OF bc_reads_builds [OF c], of "lit ''a''" TInt64 "le64 5" "[7]"] c show ?thesis
    by (auto simp: log_map_def)
qed

end
