(* ===== verification/Settings.thy ===== *)
theory Settings
  imports String_Utils Cache_Header
begin

text \<open>
  \<open>SharedSettingsProvider\<close> of \<open>common/SharedSettingsProvider.h\<close>: settings read from a
  properties file, and typed access to them.  The lookups go through \<open>c_str()\<close>, so a name
  is cut at its first NUL.  Also \<open>std::getline\<close>, which the readers of files share.
\<close>

section \<open>Lines\<close>

text \<open>
  \<open>std::getline\<close> until the end of the stream: the pieces between delimiters, without a last
  empty piece.
\<close>

fun getlines_loop :: "byte \<Rightarrow> bytes \<Rightarrow> bytes \<Rightarrow> bytes list" where
  "getlines_loop delim line [] = (if line = [] then [] else [line])"
| "getlines_loop delim line (c # rest) =
     (if c = delim then line # getlines_loop delim [] rest
      else getlines_loop delim (line @ [c]) rest)"

definition getlines :: "byte \<Rightarrow> bytes \<Rightarrow> bytes list" where
  "getlines delim content = getlines_loop delim [] content"

section \<open>The provider\<close>

type_synonym settings = "bytes \<Rightarrow> bytes option"

definition setSetting :: "settings \<Rightarrow> bytes \<Rightarrow> bytes \<Rightarrow> settings" where
  "setSetting s key value = s(key \<mapsto> value)"

definition isSet :: "settings \<Rightarrow> bytes \<Rightarrow> bool" where
  "isSet s key \<longleftrightarrow> s key \<noteq> None"

definition setIfNotSet :: "settings \<Rightarrow> bytes \<Rightarrow> bytes \<Rightarrow> settings \<times> bool" where
  "setIfNotSet s key value = (if \<not> isSet s key then (s(key \<mapsto> value), True) else (s, False))"

text \<open>One line of the file; 61 is \<open>=\<close> and 35 is \<open>#\<close>.\<close>

definition settings_line :: "settings \<Rightarrow> bytes \<Rightarrow> settings" where
  "settings_line s line =
     (let components = splitFirstOccurence 61 line
      in if length components = 2
         then let key = trim (hd components); value = trim (last components)
              in if 35 \<notin> set key then s(key \<mapsto> value) else s
         else s)"

text \<open>The constructor, over the content of the file (empty where it cannot be opened).\<close>

definition SharedSettingsProvider :: "bytes \<Rightarrow> settings" where
  "SharedSettingsProvider content = foldl settings_line Map.empty (getlines 10 content)"

definition set_getString :: "settings \<Rightarrow> bytes \<Rightarrow> bytes \<Rightarrow> bytes" where
  "set_getString s name defaultValue =
     (case s (c_string name) of Some v \<Rightarrow> v | None \<Rightarrow> defaultValue)"

definition set_getBool :: "settings \<Rightarrow> bytes \<Rightarrow> bool \<Rightarrow> bool" where
  "set_getBool s name defaultValue =
     (let stringValue = set_getString s name []
      in if stringValue \<noteq> [] then toBool stringValue else defaultValue)"

definition set_getInt :: "settings \<Rightarrow> bytes \<Rightarrow> int \<Rightarrow> int" where
  "set_getInt s name defaultValue =
     (let stringValue = set_getString s name []
      in if stringValue \<noteq> [] then toInteger stringValue else defaultValue)"

definition set_getDouble :: "u64 float_parser \<Rightarrow> settings \<Rightarrow> bytes \<Rightarrow> u64 \<Rightarrow> u64" where
  "set_getDouble ff s name defaultValue =
     (let stringValue = set_getString s name []
      in if stringValue \<noteq> [] then toDouble ff stringValue else defaultValue)"

text \<open>The escapes are the two characters backslash (92) and letter.\<close>

definition set_getChar :: "settings \<Rightarrow> bytes \<Rightarrow> byte \<Rightarrow> byte" where
  "set_getChar s name defaultValue =
     (let result = set_getString s name []
      in if result = [] then defaultValue
         else if result = [92, 110] then 10
         else if result = [92, 116] then 9
         else if result = [92, 114] then 13
         else if result = [92, 48] then 0
         else if result = [92, 98] then 8
         else if result = [92, 102] then 12
         else if result = [92, 97] then 7
         else if result = [92, 118] then 11
         else if result = [92, 92] then 92
         else hd result)"

section \<open>Reading a file of settings\<close>

lemma getlines_loop_token:
  "d \<notin> set p \<Longrightarrow> getlines_loop d t (p @ s) = getlines_loop d (t @ p) s"
  by (induction p arbitrary: t) auto

text \<open>Lines that end in the delimiter come back as they are.\<close>

lemma getlines_concat:
  assumes "\<forall>l \<in> set ls. d \<notin> set l"
  shows "getlines d (concat (map (\<lambda>l. l @ [d]) ls)) = ls"
  using assms
proof (induction ls)
  case (Cons l ls)
  then have "getlines_loop d [] (l @ d # concat (map (\<lambda>l. l @ [d]) ls)) = l # ls"
    by (subst getlines_loop_token) (simp_all add: getlines_def)
  then show ?case by (simp add: getlines_def)
qed (simp add: getlines_def)

lemma splitFirstOccurence_at:
  "d \<notin> set k \<Longrightarrow> splitFirstOccurence d (k @ d # v) = [k, v]"
proof -
  assume "d \<notin> set k"
  then have "takeWhile (\<lambda>c. c \<noteq> d) (k @ d # v) = k"
    by (induction k) auto
  then show ?thesis by (simp add: splitFirstOccurence_def Let_def)
qed

lemma set_strip: "set (strip P s) \<subseteq> set s"
  unfolding strip_def set_rev by (auto dest!: set_dropWhileD)

lemma settings_line_pair:
  assumes "61 \<notin> set k" and "35 \<notin> set k"
  shows "settings_line s (k @ 61 # v) = s(trim k \<mapsto> trim v)"
proof -
  have "35 \<notin> set (trim k)"
    using assms(2) set_strip [of isspace k] by (auto simp: trim_strip)
  then show ?thesis
    using splitFirstOccurence_at [OF assms(1), of v] by (simp add: settings_line_def)
qed

text \<open>A comment, or a line without \<open>=\<close>, changes nothing.\<close>

lemma settings_line_other: "61 \<notin> set l \<Longrightarrow> settings_line s l = s"
proof -
  assume "61 \<notin> set l"
  then have tw: "takeWhile (\<lambda>c. c \<noteq> 61) l = l"
    unfolding takeWhile_eq_all_conv by blast
  have "splitFirstOccurence 61 l = [l]"
    by (simp only: splitFirstOccurence_def tw Let_def if_True simp_thms)
  then show ?thesis by (simp add: settings_line_def)
qed

text \<open>A file of lines \<open>key=value\<close> yields the trimmed pairs, the last one of a key winning.\<close>

lemma settings_of_pairs:
  assumes "\<forall>(k, v) \<in> set kvs. 61 \<notin> set k \<and> 35 \<notin> set k \<and> 10 \<notin> set k \<and> 10 \<notin> set v"
  shows "SharedSettingsProvider (concat (map (\<lambda>(k, v). (k @ 61 # v) @ [10]) kvs)) =
    map_of (rev (map (\<lambda>(k, v). (trim k, trim v)) kvs))"
proof -
  have gl: "getlines 10 (concat (map (\<lambda>(k, v). (k @ 61 # v) @ [10]) kvs)) = map (\<lambda>(k, v). k @ 61 # v) kvs"
    using getlines_concat [of "map (\<lambda>(k, v). k @ 61 # v) kvs" 10] assms
    by (simp add: comp_def case_prod_unfold)
  have "foldl settings_line s (map (\<lambda>(k, v). k @ 61 # v) kvs) =
      s ++ map_of (rev (map (\<lambda>(k, v). (trim k, trim v)) kvs))" for s
    using assms
  proof (induction kvs arbitrary: s)
    case (Cons kv kvs)
    obtain k v where kv: "kv = (k, v)" by (cases kv)
    have "settings_line s (k @ 61 # v) = s(trim k \<mapsto> trim v)"
      using Cons.prems kv by (intro settings_line_pair) auto
    with Cons kv show ?case by (simp add: map_add_def fun_eq_iff split: option.split)
  qed simp
  from this [of Map.empty] gl show ?thesis by (simp add: SharedSettingsProvider_def)
qed

section \<open>Properties\<close>

text \<open>A settings file of lines \<open>key=value\<close> gives the keys their values, both without outer white
  space and the last line of a key winning; a name that is not in the file has the default.\<close>

theorem settings_file_round_trip:
  assumes "\<forall>(k, v) \<in> set kvs. 61 \<notin> set k \<and> 35 \<notin> set k \<and> 10 \<notin> set k \<and> 10 \<notin> set v" and "0 \<notin> set name"
  shows "set_getString (SharedSettingsProvider (concat (map (\<lambda>(k, v). (k @ 61 # v) @ [10]) kvs))) name dflt =
    (case map_of (rev (map (\<lambda>(k, v). (trim k, trim v)) kvs)) name of Some v \<Rightarrow> v | None \<Rightarrow> dflt)"
proof -
  have "c_string name = name"
    unfolding c_string_def using assms(2) by (simp add: takeWhile_eq_all_conv) blast
  then show ?thesis by (simp only: set_getString_def settings_of_pairs [OF assms(1)])
qed

theorem settings_file_round_trip_witness:
  "set_getString (SharedSettingsProvider [97, 61, 32, 98, 10]) [97] [] = [98]"
proof -
  have t: "trim [97] = [97]" "trim [32, 98] = [98]"
    by (simp_all add: trim_strip strip_def isspace_def)
  show ?thesis
    using settings_file_round_trip [of "[([97], [32, 98])]" "[97]" "[]"] by (simp add: t)
qed

end
