(* ===== verification/Cache_File.thy ===== *)
theory Cache_File
  imports Dedup_Cache Bucket_Chain Settings
begin

text \<open>
  Cache files: \<open>CacheFileWriter\<close> (\<open>writer\<close>), \<open>CacheOneTimeLoader\<close> and
  \<open>CacheLoader\<close> (\<open>loader\<close>).  The files are a map from paths to contents, with their
  modification times next to it; writing to a file that could be created does not fail.
  A loader is modelled for a cache class given by its constructor over loaded data.

  The lemmas close the loop: what is written from a cache that represents a map is loaded
  as a cache that represents the same map.
\<close>

section \<open>Writing\<close>

type_synonym files = "bytes \<Rightarrow> bytes option"

definition fullCacheFileName :: "bytes \<Rightarrow> bytes \<Rightarrow> bytes" where
  "fullCacheFileName outputDirectory cacheName =
     outputDirectory @ lit ''/'' @ cacheName @ kCacheFileNameSuffix"

text \<open>
  \<open>CacheWriter::write\<close> on a \<open>CacheFileWriter\<close>: the header, then what \<open>output\<close> writes,
  also when it throws in the end.  \<open>now\<close> is the clock and \<open>junk\<close> the old bytes of the
  name buffer.
\<close>

definition CacheFileWriter_write ::
  "files \<Rightarrow> bytes \<Rightarrow> bytes \<Rightarrow> cache_access \<Rightarrow> bytes \<times> unit outcome \<Rightarrow> u64 \<Rightarrow> bytes \<Rightarrow>
   files \<times> unit outcome" where
  "CacheFileWriter_write files outputDirectory cacheName access output now junk =
     (let path = fullCacheFileName outputDirectory cacheName;
          header = GenerateHeader_write access now junk cacheName;
          (b, r) = output
      in (files(path \<mapsto> header @ b), r))"

section \<open>Loading once\<close>

definition kLoadDir :: bytes where "kLoadDir = lit ''axoncache.load_dir''"
definition kLoadDir_default :: bytes where "kLoadDir_default = lit ''/var/lib/applovin/datamover''"

definition load_dir :: "settings \<Rightarrow> bytes \<Rightarrow> bytes" where
  "load_dir s cacheName = set_getString s (kLoadDir @ lit ''.'' @ cacheName) kLoadDir_default"

definition getFullCacheFileName :: "settings \<Rightarrow> bytes \<Rightarrow> bytes" where
  "getFullCacheFileName s cacheName =
     load_dir s cacheName @ lit ''/'' @ cacheName @ kCacheFileNameSuffix"

text \<open>Exceptions carry a path; \<open>str\<close> turns bytes into the text of a message.\<close>

definition str :: "bytes \<Rightarrow> string" where "str b = map (\<lambda>c. char_of (unat c)) b"

definition getLatestTimestampFullCacheFileName :: "files \<Rightarrow> settings \<Rightarrow> bytes \<Rightarrow> bytes outcome" where
  "getLatestTimestampFullCacheFileName files s cacheName =
     (let loadDir = load_dir s cacheName;
          latestTimestampFile = loadDir @ lit ''/'' @ cacheName @ kCacheFileNameSuffix @
                                kLatestTimestampFileNameSuffix
      in case files latestTimestampFile of
           None \<Rightarrow> Inl (Throw (''can't open '' @ str latestTimestampFile))
         | Some latestTimestamp \<Rightarrow>
             (if latestTimestamp = [] then Inl (Throw (str latestTimestampFile @ '' is empty''))
              else Inr (loadDir @ lit ''/'' @ cacheName @ lit ''.'' @ latestTimestamp @
                        kCacheFileNameSuffix)))"

definition getTimestampFullCacheFileName :: "settings \<Rightarrow> bytes \<Rightarrow> int \<Rightarrow> bytes" where
  "getTimestampFullCacheFileName s cacheName timestamp =
     load_dir s cacheName @ lit ''/'' @ cacheName @ lit ''.'' @ lit (show_int timestamp) @
     kCacheFileNameSuffix"

definition loadHeader :: "files \<Rightarrow> bytes \<Rightarrow> (bytes \<times> CacheHeader) outcome" where
  "loadHeader files cacheFile =
     (case files cacheFile of
        None \<Rightarrow> Inl (Throw (''Could not open axoncache : '' @ str cacheFile))
      | Some content \<Rightarrow> GenerateHeader_read content)"

text \<open>
  The timestamp in a file name: the name without its last 6 bytes, from behind its last byte
  that is no digit.  The subtraction wraps around for a shorter name, which is kept whole.
\<close>

definition file_timestamp :: "bytes \<Rightarrow> bytes" where
  "file_timestamp cacheFileName =
     (let stem = (if length cacheFileName < length kCacheFileNameSuffix then cacheFileName
                  else take (length cacheFileName - length kCacheFileNameSuffix) cacheFileName)
      in rev (takeWhile is_digit (rev stem)))"

definition version_msg :: "u16 \<Rightarrow> string" where
  "version_msg v =
     ''trying to load file version '' @ show_nat (unat v) @ '' with a runtime version '' @
     show_nat (unat cache_version)"

definition dedup_data_msg :: string where
  "dedup_data_msg =
     ''LINEAR_PROBE cache can't load LINEAR_PROBE_DEDUP or LINEAR_PROBE_DEDUP_TYPED cache data''"

definition loadAbsolutePath ::
  "bool \<Rightarrow> (CacheHeader \<Rightarrow> memory_handler \<Rightarrow> 'c outcome) \<Rightarrow> bool \<Rightarrow> files \<Rightarrow> bytes \<Rightarrow>
   ('c \<times> bytes) outcome" where
  "loadAbsolutePath is_linear construct os_ok files cacheFileName =
     and_then (loadHeader files cacheFileName) (\<lambda>(name, header).
       if is_linear \<and>
          (unat (hdr_cacheType header) = CacheType_code LINEAR_PROBE_DEDUP \<or>
           unat (hdr_cacheType header) = CacheType_code LINEAR_PROBE_DEDUP_TYPED)
       then Inl (Throw dedup_data_msg)
       else and_then (construct header (MmapMemoryHandler os_ok (hdr_headerSize header) (files cacheFileName)))
         (\<lambda>cache.
           if hdr_version header \<noteq> cache_version then Inl (Throw (version_msg (hdr_version header)))
           else Inr (cache, file_timestamp cacheFileName)))"

definition load_linear :: "(bytes \<Rightarrow> u64) \<Rightarrow> bool \<Rightarrow> files \<Rightarrow> bytes \<Rightarrow> (linear_cache \<times> bytes) outcome" where
  "load_linear H = loadAbsolutePath True (HashedCacheBase_loaded (linear_policy H))"

definition load_bucket :: "(bytes \<Rightarrow> u64) \<Rightarrow> bool \<Rightarrow> files \<Rightarrow> bytes \<Rightarrow> (bucket_cache \<times> bytes) outcome" where
  "load_bucket H = loadAbsolutePath False (HashedCacheBase_loaded (bucket_policy H))"

definition load_dedup :: "(bytes \<Rightarrow> u64) \<Rightarrow> bool \<Rightarrow> files \<Rightarrow> bytes \<Rightarrow> (dedup_cache \<times> bytes) outcome" where
  "load_dedup H = loadAbsolutePath False (LinearProbeDedupCache_loaded H)"

section \<open>Loading again when the file has changed\<close>

text \<open>
  \<open>CacheLoader\<close>: \<open>mtimes\<close> gives the modification times, and \<open>load\<close> is
  \<open>loadAbsolutePath\<close>.  The time is noted before the load, so a load that throws is not
  tried again until the file changes.
\<close>

record cache_loader =
  cl_lastModification :: int
  cl_type :: "CacheType option"

definition file_time_min :: int where "file_time_min = - (2 ^ 63)"

definition CacheLoader :: cache_loader where
  "CacheLoader = \<lparr>cl_lastModification = file_time_min, cl_type = Some NONE\<rparr>"

definition loadWithName ::
  "(bytes \<Rightarrow> int option) \<Rightarrow> (bytes \<Rightarrow> ('c \<times> bytes) outcome) \<Rightarrow> ('c \<Rightarrow> CacheType option) \<Rightarrow>
   cache_loader \<Rightarrow> bytes \<Rightarrow> cache_loader \<times> (bool \<times> 'c option) outcome" where
  "loadWithName mtimes load type_of l path =
     (case mtimes path of
        None \<Rightarrow> (l, Inl (Throw (''filesystem error: cannot get file time: '' @ str path)))
      | Some lastModifiedAt \<Rightarrow>
          (if lastModifiedAt > cl_lastModification l
           then let l1 = l\<lparr>cl_lastModification := lastModifiedAt\<rparr>
                in case load path of
                     Inl e \<Rightarrow> (l1, Inl e)
                   | Inr (cache, timestamp) \<Rightarrow>
                       (l1\<lparr>cl_type := type_of cache\<rparr>, Inr (True, Some cache))
           else (l, Inr (False, None))))"

text \<open>A second call finds the file unchanged and does not load it again, whatever the first did.\<close>

lemma loadWithName_twice:
  assumes "mtimes f = Some t" and "loadWithName mtimes load ty l f = (l', r)"
  shows "loadWithName mtimes load ty l' f = (l', Inr (False, None))"
  using assms by (auto simp: loadWithName_def Let_def split: if_splits sum.splits prod.splits)

section \<open>A loaded cache represents the map of the cache it was written from\<close>

lemma loaded_models:
  assumes T: "lp_models H fv c T M" and ob: "hdr_offsetBits header = lp_offsetBits (hc_probe c)"
    and ns: "hdr_numberOfKeySlots header = lp_numberOfKeySlots (hc_probe c)"
    and m: "mData h = used (hc_memory c) @ tail" and ds: "unat (mDataSize h) = length (mData h)"
  shows "\<exists>c'. HashedCacheBase_loaded (linear_policy H) header h = Inr c' \<and>
    lp_models H fv c' T M \<and> hc_memory c' = h"
proof -
  let ?p = "hc_probe c" and ?D = "unat (mDataSize (hc_memory c))"
  have p: "probe_ok ?p" and repr: "lp_repr ?p H (mData (hc_memory c)) ?D T"
    using T by (auto simp: lp_models_def)
  have D: "?D \<le> length (mData (hc_memory c))" using repr by (simp add: lp_repr_def)
  have lu: "length (used (hc_memory c)) = ?D" using D by (simp add: used_def)
  have mk: "LinearProbe (lp_offsetBits ?p) (lp_numberOfKeySlots ?p) = Inr ?p"
    using p by (simp add: probe_ok_def)
  let ?c = "updateKeySpacePtr
     \<lparr>hc_memory = h, hc_maxNumberOfEntries = 0, hc_keySpacePtr = mBlock h, hc_header = header,
      hc_probe = ?p, hc_valueMgr = manager_of ?p\<rparr>"
  have "HashedCacheBase_loaded (linear_policy H) header h = Inr ?c"
    using mk by (simp add: HashedCacheBase_loaded_def linear_policy_def ob ns manager_of_def)
  moreover have "lp_repr ?p H (mData h) (unat (mDataSize h)) T"
  proof (rule lp_repr_prefix [OF repr])
    show "take ?D (mData (hc_memory c)) = take ?D (mData h)"
      using lu by (simp add: m) (simp add: used_def)
    show "?D \<le> unat (mDataSize h)" using lu by (simp add: ds m)
    show "unat (mDataSize h) \<le> length (mData h)" by (simp add: ds)
  qed
  then have "lp_models H fv ?c T M"
    using T by (simp add: lp_models_def updateKeySpacePtr_def)
  ultimately show ?thesis by (auto simp: updateKeySpacePtr_def)
qed

text \<open>The header of a written file is the first 104 bytes, and the mapped data what follows.\<close>

lemma read_written_header:
  assumes "length junk = kMaxCacheNameSize"
  shows "loadHeader (files(path \<mapsto> GenerateHeader_write access now junk name @ b)) path =
    Inr (header_name name, make_header access now junk name)"
  using header_read_write [OF assms] by (simp add: loadHeader_def)

lemma map_written_file:
  assumes junk: "length junk = kMaxCacheNameSize" and b: "b \<noteq> []" "length b \<le> mem_limit"
  shows "MmapMemoryHandler True (hdr_headerSize (make_header access now junk name))
      (Some (GenerateHeader_write access now junk name @ b)) =
    \<lparr>mKind = Mmap_Handler, mData = b, mDataSize = of_nat (length b), mRealDataSize = 0, mBlock = 0,
     mFresh = (\<lambda>b i. 0)\<rparr>"
proof (rule MmapMemoryHandler_mapped)
  have ln: "length (hdr_cacheName (make_header access now junk name)) = kMaxCacheNameSize"
    using junk length_snprintf_s [of junk "min (length name + 1) kMaxCacheNameSize" name]
    by (simp add: make_header_def kMaxCacheNameSize_def)
  have l: "length (GenerateHeader_write access now junk name) = 104"
    using length_encode_header [OF ln] by (simp add: GenerateHeader_write_def sizeof_CacheHeader_def)
  have h: "unat (hdr_headerSize (make_header access now junk name)) = 104"
    by (simp add: make_header_def sizeof_CacheHeader_def)
  show "unat (hdr_headerSize (make_header access now junk name)) =
      length (GenerateHeader_write access now junk name)"
    by (simp add: l h)
  show "unat (hdr_headerSize (make_header access now junk name)) <
      length (GenerateHeader_write access now junk name @ b)"
    using b(1) by (simp add: l h)
  show "length (GenerateHeader_write access now junk name @ b) < 2 ^ 64"
    using b(2) by (simp add: l mem_limit_def)
qed simp

text \<open>The type that the header of a file names.\<close>

definition has_type :: "files \<Rightarrow> bytes \<Rightarrow> CacheType \<Rightarrow> bool" where
  "has_type files path ty \<longleftrightarrow>
     (\<exists>content. files path = Some content \<and> sizeof_CacheHeader \<le> length content \<and>
        CacheType_of (int (unat (hdr_cacheType (decode_header content)))) = Some ty)"

lemma written_has_type:
  assumes junk: "length junk = kMaxCacheNameSize"
    and w: "CacheFileWriter_write files dir name access output now junk = (files', r)"
  shows "has_type files' (fullCacheFileName dir name) (acc_type access)"
proof -
  let ?h = "make_header access now junk name"
  have ln: "length (hdr_cacheName ?h) = kMaxCacheNameSize"
    using junk length_snprintf_s [of junk "min (length name + 1) kMaxCacheNameSize" name]
    by (simp add: make_header_def kMaxCacheNameSize_def)
  obtain b where f: "files' (fullCacheFileName dir name) = Some (encode_header ?h @ b)"
    using w by (auto simp: CacheFileWriter_write_def GenerateHeader_write_def Let_def split: prod.splits)
  have "CacheType_of (int (unat (hdr_cacheType ?h))) = Some (acc_type access)"
    by (cases "acc_type access") (simp_all add: make_header_def CacheType_of_def)
  then show ?thesis
    by (simp add: has_type_def f decode_encode_header [OF ln] length_encode_header [OF ln])
qed

section \<open>Round trip of the linear-probe cache\<close>

lemma lp_models_used:
  assumes "lp_models H fv c T M"
  shows "length (used (hc_memory c)) = data_end c" and "8 \<le> data_end c"
proof -
  have p: "probe_ok (hc_probe c)"
    and repr: "lp_repr (hc_probe c) H (mData (hc_memory c)) (unat (mDataSize (hc_memory c))) T"
    using assms by (auto simp: lp_models_def)
  show "length (used (hc_memory c)) = data_end c"
    using repr by (simp add: used_def lp_repr_def data_end_def)
  show "8 \<le> data_end c"
    using repr probe_ok_slots(1) [OF p] by (simp add: lp_repr_def data_end_def)
qed

lemma access_header:
  "hdr_offsetBits (make_header (hc_access (linear_policy H) ty c) now junk name) = lp_offsetBits (hc_probe c)"
  "hdr_numberOfKeySlots (make_header (hc_access (linear_policy H) ty c) now junk name) =
     lp_numberOfKeySlots (hc_probe c)"
  "hdr_version (make_header (hc_access (linear_policy H) ty c) now junk name) = cache_version"
  "unat (hdr_cacheType (make_header (hc_access (linear_policy H) ty c) now junk name)) = CacheType_code ty"
  by (cases ty; simp add: make_header_def hc_access_def linear_policy_def)+

lemma linear_file_round_trip:
  assumes B: "lp_builds H [] c M" and junk: "length junk = kMaxCacheNameSize"
    and lim: "data_end c \<le> mem_limit"
    and w: "CacheFileWriter_write files dir name (hc_access (linear_policy H) LINEAR_PROBE c)
              (hc_output c, Inr ()) now junk = (files', r)"
  shows "r = Inr ()" and "\<exists>c'. load_linear H True files' (fullCacheFileName dir name) =
      Inr (c', file_timestamp (fullCacheFileName dir name)) \<and> lp_reads H [] c' M"
proof -
  let ?acc = "hc_access (linear_policy H) LINEAR_PROBE c" and ?path = "fullCacheFileName dir name"
  let ?hdr = "make_header ?acc now junk name" and ?b = "hc_output c"
  obtain T where T: "lp_models H [] c T M" using B by (auto simp: lp_builds_def)
  have f: "files' = files(?path \<mapsto> GenerateHeader_write ?acc now junk name @ ?b)" and r: "r = Inr ()"
    using w by (auto simp: CacheFileWriter_write_def Let_def)
  show "r = Inr ()" by (rule r)
  have b: "?b \<noteq> []" "length ?b \<le> mem_limit" "length ?b < 2 ^ 64"
    using lp_models_used [OF T] lim by (auto simp: hc_output_def mem_limit_def)
  note hd = read_written_header [OF junk, of files ?path ?acc now name ?b]
  note mm = map_written_file [OF junk b(1,2), of ?acc now name]
  let ?h = "\<lparr>mKind = Mmap_Handler, mData = ?b, mDataSize = of_nat (length ?b), mRealDataSize = 0,
     mBlock = 0, mFresh = (\<lambda>b i. 0)\<rparr>"
  obtain c' where ld: "HashedCacheBase_loaded (linear_policy H) ?hdr ?h = Inr c'"
    and T': "lp_models H [] c' T M"
    using loaded_models [OF T access_header(1) [of H LINEAR_PROBE c now junk name]
        access_header(2) [of H LINEAR_PROBE c now junk name], of ?h "[]"] b(3)
    by (auto simp: hc_output_def unat_of_nat_u64)
  have "load_linear H True files' ?path = Inr (c', file_timestamp ?path)"
    using hd mm ld access_header(3,4) [of H LINEAR_PROBE c now junk name]
    by (simp add: load_linear_def loadAbsolutePath_def f)
  with T' show "\<exists>c'. load_linear H True files' ?path = Inr (c', file_timestamp ?path) \<and> lp_reads H [] c' M"
    by (auto simp: lp_reads_def)
qed

section \<open>Round trip of the dedup cache\<close>

lemma read_lengths_ok:
  assumes "drop off m = concat (map (\<lambda>v. le32 (of_nat (length v))) vs) @ rest"
    and "off + 4 * length vs \<le> length m"
  shows "read_lengths m off (length vs) = Inr (map (\<lambda>v. of_nat (length v)) vs)"
  using assms
proof (induction vs arbitrary: off)
  case (Cons v vs)
  have ld: "load_u32 m off = Inr (of_nat (length v))"
    using Cons.prems by (intro load_u32_le) (simp add: slice_def)
  have "drop (off + 4) m = drop 4 (drop off m)"
    by (simp add: add.commute)
  also have "\<dots> = concat (map (\<lambda>v. le32 (of_nat (length v))) vs) @ rest"
    by (simp add: Cons.prems(1))
  finally have dr: "drop (off + 4) m = concat (map (\<lambda>v. le32 (of_nat (length v))) vs) @ rest" .
  have "off + 4 + 4 * length vs \<le> length m"
    using Cons.prems(2) by simp
  from Cons.IH [OF dr this] ld show ?case by simp
qed simp

lemma load_values_ok:
  assumes "drop (unat off) m = concat vs @ rest" and "unat off + sum_list (map length vs) \<le> length m"
    and "length m \<le> mem_limit" and "\<forall>v \<in> set vs. length v < 2 ^ 32"
  shows "\<exists>idx'. load_values m off index (map (\<lambda>v. of_nat (length v)) vs) views idx =
    Inr (of_nat (unat off + sum_list (map length vs)), views @ vs, idx')"
  using assms
proof (induction vs arbitrary: off index views idx)
  case (Cons v vs)
  have len: "unat (of_nat (length v) :: u32) = length v"
    using Cons.prems(4) by (simp add: unat_of_nat)
  have sl: "slice m (unat off) (length v) = Inr v"
    using Cons.prems(1,2) by (simp add: slice_def)
  have uc: "(ucast (of_nat (length v) :: u32) :: u64) = of_nat (length v)"
    by (metis len of_nat_unat)
  have u64: "unat (of_nat (length v) :: u64) = length v"
    using Cons.prems(2,3) by (intro unat_of_nat_u64) (simp add: mem_limit_def)
  have off': "unat (off + of_nat (length v)) = unat off + length v"
    using Cons.prems(2,3) u64 by (subst unat_add_lt) (simp_all add: mem_limit_def)
  have "drop (unat off + length v) m = drop (length v) (drop (unat off) m)"
    by (simp add: add.commute)
  then have dr: "drop (unat (off + of_nat (length v))) m = concat vs @ rest"
    by (simp add: off' Cons.prems(1))
  have bd: "unat (off + of_nat (length v)) + sum_list (map length vs) \<le> length m"
    using Cons.prems(2) by (simp add: off')
  have big: "\<forall>v \<in> set vs. length v < 2 ^ 32" using Cons.prems(4) by simp
  from Cons.IH [OF dr bd Cons.prems(3) big, of "index + 1" "views @ [v]" "emplace_index v (ucast index) idx"]
    sl len uc off' show ?case
    by (simp add: add.assoc)
qed simp

lemma extend_fields [simp]:
  "hc_memory (dedup_members vs idx mem l ty b) = hc_memory b"
  "hc_maxNumberOfEntries (dedup_members vs idx mem l ty b) = hc_maxNumberOfEntries b"
  "hc_keySpacePtr (dedup_members vs idx mem l ty b) = hc_keySpacePtr b"
  "hc_header (dedup_members vs idx mem l ty b) = hc_header b"
  "hc_probe (dedup_members vs idx mem l ty b) = hc_probe b"
  "hc_valueMgr (dedup_members vs idx mem l ty b) = hc_valueMgr b"
  "dd_values (dedup_members vs idx mem l ty b) = vs"
  "dd_valuesToIndex (dedup_members vs idx mem l ty b) = idx"
  "dd_valuesMemory (dedup_members vs idx mem l ty b) = mem"
  "dd_isValuesLoaded (dedup_members vs idx mem l ty b) = l"
  "dd_cacheType (dedup_members vs idx mem l ty b) = ty"
  by (simp_all add: dedup_members_def hashed_cache.defs dedup_cache.defs)

lemma lp_models_members: "lp_models H fv (dedup_members vs idx mem l ty b) T M = lp_models H fv b T M"
  by (simp add: lp_models_def)

text \<open>The block of values behind the data, and the offset at its end.\<close>

definition values_block :: "bytes list \<Rightarrow> bytes" where
  "values_block vs =
     (if vs = [] then le64 0
      else le16 (of_nat (length vs)) @ concat (map (\<lambda>v. le32 (of_nat (length v))) vs) @ concat vs @
           le64 (of_nat (2 + length vs * 4 + sum_list (map length vs) + 8)))"

lemma length_lengths: "length (concat (map (\<lambda>v. le32 (f v)) vs)) = 4 * length vs"
  by (induction vs) simp_all

lemma lengths_size: "sum_list (map (length \<circ> (\<lambda>v. le32 (f v))) vs) = 4 * length vs"
  by (induction vs) simp_all

lemma length_concat_sum: "length (concat vs) = sum_list (map length vs)"
  by (induction vs) simp_all

lemma length_values_block:
  "length (values_block vs) = (if vs = [] then 8 else 2 + length vs * 4 + sum_list (map length vs) + 8)"
  unfolding values_block_def
  by (simp only: length_append length_lengths length_le split: if_split) (simp add: length_concat_sum)

lemma setFrequentValue_ok:
  assumes m: "mData (hc_memory c) = d @ values_block vs"
    and ds: "mDataSize (hc_memory c) = of_nat (length d + length (values_block vs))"
    and lim: "length d + length (values_block vs) \<le> mem_limit"
    and n: "length vs < 65536" and big: "\<forall>v \<in> set vs. length v < 2 ^ 32" and c: "dd_values c = []"
  shows "\<exists>idx. setFrequentValue c = Inr (c\<lparr>dd_isValuesLoaded := True, dd_values := vs, dd_valuesToIndex := idx\<rparr>)"
proof -
  let ?m = "d @ values_block vs"
  let ?L = "length d + length (values_block vs)"
  have L: "?L < 2 ^ 64" using lim by (simp add: mem_limit_def)
  have u: "unat (of_nat ?L :: u64) = ?L"
    by (rule unat_of_nat_u64 [OF L])
  have ge8: "8 \<le> length (values_block vs)" by (simp add: length_values_block)
  have sub: "(of_nat (?L - k) :: u64) = of_nat ?L - of_nat k" if "k \<le> ?L" for k
    using that by (rule of_nat_diff)
  have off8: "unat (of_nat ?L - 8 :: u64) = ?L - 8"
    using sub [of 8] ge8 L unat_of_nat_u64 [of "?L - 8"] by simp
  show ?thesis
  proof (cases "vs = []")
    case True
    have "load_u64 ?m (?L - 8) = Inr 0"
      using True by (intro load_u64_le) (simp add: slice_def values_block_def)
    then show ?thesis
      using True off8 c by (intro exI [of _ "dd_valuesToIndex c"])
        (simp add: setFrequentValue_def m ds Let_def)
  next
    case False
    let ?V = "length (values_block vs)"
    have V: "?V = 2 + length vs * 4 + sum_list (map length vs) + 8"
      using False by (simp add: length_values_block)
    have blk: "values_block vs = le16 (of_nat (length vs)) @
        concat (map (\<lambda>v. le32 (of_nat (length v))) vs) @ concat vs @ le64 (of_nat ?V)"
      using False by (simp only: V) (simp add: values_block_def)
    have dL: "drop (?L - 8) ?m = le64 (of_nat ?V)"
    proof -
      have "?m = (d @ le16 (of_nat (length vs)) @ concat (map (\<lambda>v. le32 (of_nat (length v))) vs) @ concat vs)
          @ le64 (of_nat ?V)"
        by (subst blk) simp
      moreover have "length (d @ le16 (of_nat (length vs)) @
          concat (map (\<lambda>v. le32 (of_nat (length v))) vs) @ concat vs) = ?L - 8"
        using V by (simp only: length_append length_lengths) (simp add: length_concat_sum)
      ultimately show ?thesis by (metis append_eq_conv_conj)
    qed
    have lV: "load_u64 ?m (?L - 8) = Inr (of_nat ?V)"
      using dL ge8 by (intro load_u64_le) (simp add: slice_def)
    have nz: "(of_nat ?V :: u64) \<noteq> 0"
      using V L unat_of_nat_u64 [of ?V] by (metis add_is_0 le_add2 le_less_trans numeral_eq_Suc unat_0 nat.distinct(1))
    have cur: "(of_nat ?L - of_nat ?V :: u64) = of_nat (length d)"
      by simp
    have ud: "unat (of_nat (length d) :: u64) = length d"
      using L by (intro unat_of_nat_u64) simp
    have ud2: "unat (of_nat (length d) + 2 :: u64) = length d + 2"
      using V L unat_of_nat_u64 [of "length d + 2"] by (simp add: add.commute)
    have cnt: "unat (of_nat (length vs) :: u16) = length vs"
      using n by (simp add: unat_of_nat)
    have lc: "load_u16 ?m (length d) = Inr (of_nat (length vs))"
    proof -
      obtain rest where "values_block vs = le16 (of_nat (length vs)) @ rest" using blk by blast
      then show ?thesis by (intro load_u16_le) (simp add: slice_def)
    qed
    have dr: "drop (length d + 2) ?m = concat (map (\<lambda>v. le32 (of_nat (length v))) vs) @ concat vs @ le64 (of_nat ?V)"
      by (subst blk) simp
    have rl: "read_lengths ?m (length d + 2) (length vs) = Inr (map (\<lambda>v. of_nat (length v)) vs)"
      using V by (intro read_lengths_ok [OF dr]) simp
    have o4: "(of_nat (length d) + 2 + ucast (of_nat (length vs) :: u16) * 4 :: u64) =
        of_nat (length d + 2 + 4 * length vs)"
    proof -
      have "(ucast (of_nat (length vs) :: u16) :: u64) = of_nat (length vs)"
        by (metis cnt of_nat_unat)
      then show ?thesis by simp
    qed
    have uo4: "unat (of_nat (length d + 2 + 4 * length vs) :: u64) = length d + 2 + 4 * length vs"
      using V L by (intro unat_of_nat_u64) simp
    have "drop (length d + 2 + 4 * length vs) ?m = drop (4 * length vs) (drop (length d + 2) ?m)"
      by (simp add: add.commute)
    also have "\<dots> = concat vs @ le64 (of_nat ?V)"
      unfolding dr by (simp add: length_lengths)
    finally have dv: "drop (unat (of_nat (length d + 2 + 4 * length vs) :: u64)) ?m =
        concat vs @ le64 (of_nat ?V)" by (simp only: uo4)
    have "unat (of_nat (length d + 2 + 4 * length vs) :: u64) + sum_list (map length vs) \<le> length ?m"
      using V by (simp only: uo4) simp
    from load_values_ok [OF dv this _ big, of 0 "[]" "dd_valuesToIndex c"] lim obtain idx where
      lv: "load_values ?m (of_nat (length d + 2 + 4 * length vs)) 0 (map (\<lambda>v. of_nat (length v)) vs) []
          (dd_valuesToIndex c) =
        Inr (of_nat (length d + 2 + 4 * length vs + sum_list (map length vs)), vs, idx)"
      unfolding uo4 by auto
    have fin: "of_nat (length d + 2 + 4 * length vs + sum_list (map length vs)) + 8 = (of_nat ?L :: u64)"
      by (simp add: V)
    have sel: "hc_memory (c\<lparr>dd_isValuesLoaded := True\<rparr>) = hc_memory c"
      "dd_values (c\<lparr>dd_isValuesLoaded := True\<rparr>) = []"
      "dd_valuesToIndex (c\<lparr>dd_isValuesLoaded := True\<rparr>) = dd_valuesToIndex c"
      by (simp_all add: c)
    show ?thesis
      unfolding setFrequentValue_def Let_def
      by (simp only: sel m ds off8 lV and_then_simps nz if_False cur ud
          lc ud2 cnt rl o4 lv fin prod.case simp_thms) blast
  qed
qed

text \<open>What \<open>setDuplicatedValues\<close> leaves: the memory of the values holds them one after another.\<close>

definition values_kept :: "dedup_cache \<Rightarrow> bool" where
  "values_kept c \<longleftrightarrow>
     \<not> dd_isValuesLoaded c \<and>
     (case dd_valuesMemory c of
        None \<Rightarrow> dd_values c = []
      | Some h \<Rightarrow> used h = concat (dd_values c) \<and>
                  unat (mDataSize h) = sum_list (map length (dd_values c)))"

lemma dd_output_values:
  assumes "values_kept c" and "dd_cacheType c \<noteq> Some LINEAR_PROBE" and "length (dd_values c) < 65536"
  shows "dd_output c = (hc_output c @ values_block (dd_values c), Inr ())"
proof (cases "dd_valuesMemory c")
  case None
  with assms show ?thesis by (simp add: dd_output_def values_kept_def values_block_def)
next
  case (Some h)
  have n: "unat (of_nat (length (dd_values c)) :: u16) = length (dd_values c)"
    using assms(3) by (simp add: unat_of_nat)
  have k: "used h = concat (dd_values c)" "unat (mDataSize h) = sum_list (map length (dd_values c))"
    using assms(1) Some by (auto simp: values_kept_def)
  have l: "\<not> dd_isValuesLoaded c" using assms(1) by (simp add: values_kept_def)
  show ?thesis
    using assms(2) l Some
    by (simp add: dd_output_def frequentValuesOutput_def n k values_block_def Let_def)
qed

lemma dedup_loaded_ok:
  assumes T: "lp_models H (dd_values c) c T M" and ob: "hdr_offsetBits header = lp_offsetBits (hc_probe c)"
    and ns: "hdr_numberOfKeySlots header = lp_numberOfKeySlots (hc_probe c)"
    and ty: "unat (hdr_cacheType header) = CacheType_code ty" "ty \<noteq> LINEAR_PROBE"
    and m: "mData h = used (hc_memory c) @ values_block (dd_values c)"
    and ds: "mDataSize h = of_nat (length (mData h))" and lim: "length (mData h) \<le> mem_limit"
    and n: "length (dd_values c) < 65536" and big: "\<forall>v \<in> set (dd_values c). length v < 2 ^ 32"
  shows "\<exists>c'. LinearProbeDedupCache_loaded H header h = Inr c' \<and> dedup_reads H c' M \<and>
    dd_values c' = dd_values c \<and> dd_cacheType c' = Some ty"
proof -
  have L: "unat (mDataSize h) = length (mData h)"
    unfolding ds using lim by (intro unat_of_nat_u64) (simp add: mem_limit_def)
  obtain b where b: "HashedCacheBase_loaded (linear_policy H) header h = Inr b"
    and Tb: "lp_models H (dd_values c) b T M" and mb: "hc_memory b = h"
    using loaded_models [OF T ob ns m L] by blast
  let ?c = "dedup_members [] Map.empty None False (Some ty) b"
  have t: "CacheType_of (int (unat (hdr_cacheType header))) = Some ty"
    unfolding ty(1) by (rule CacheType_of_code)
  have "\<exists>idx. setFrequentValue ?c =
      Inr (?c\<lparr>dd_isValuesLoaded := True, dd_values := dd_values c, dd_valuesToIndex := idx\<rparr>)"
    by (rule setFrequentValue_ok [where d = "used (hc_memory c)"])
      (use m ds lim n big mb in \<open>simp_all\<close>)
  then obtain idx where sf: "setFrequentValue ?c =
      Inr (?c\<lparr>dd_isValuesLoaded := True, dd_values := dd_values c, dd_valuesToIndex := idx\<rparr>)" by blast
  let ?c' = "?c\<lparr>dd_isValuesLoaded := True, dd_values := dd_values c, dd_valuesToIndex := idx\<rparr>"
  have "LinearProbeDedupCache_loaded H header h = Inr ?c'"
    using b t ty(2) sf by (simp add: LinearProbeDedupCache_loaded_def Let_def)
  moreover have "lp_models H (dd_values c) ?c' T M"
    using Tb by (simp add: lp_models_def)
  then have "dedup_reads H ?c' M"
    by (auto simp: dedup_reads_def lp_reads_def)
  moreover have "dd_values ?c' = dd_values c" "dd_cacheType ?c' = Some ty" by simp_all
  ultimately show ?thesis by blast
qed

lemma dedup_file_round_trip:
  assumes B: "dedup_builds H c M" and junk: "length junk = kMaxCacheNameSize"
    and ty: "dd_cacheType c = Some ty" "ty = LINEAR_PROBE_DEDUP \<or> ty = LINEAR_PROBE_DEDUP_TYPED"
    and kept: "values_kept c" and n: "length (dd_values c) < 65536"
    and big: "\<forall>v \<in> set (dd_values c). length v < 2 ^ 32"
    and lim: "data_end c + length (values_block (dd_values c)) \<le> mem_limit"
    and w: "CacheFileWriter_write files dir name (hc_access (linear_policy H) ty c)
              (dd_output c) now junk = (files', r)"
  shows "r = Inr ()" and "\<exists>c'. load_dedup H True files' (fullCacheFileName dir name) =
      Inr (c', file_timestamp (fullCacheFileName dir name)) \<and> dedup_reads H c' M \<and>
      dd_values c' = dd_values c"
proof -
  let ?acc = "hc_access (linear_policy H) ty c" and ?path = "fullCacheFileName dir name"
  let ?hdr = "make_header ?acc now junk name" and ?b = "hc_output c @ values_block (dd_values c)"
  obtain T where T: "lp_models H (dd_values c) c T M"
    using B by (auto simp: dedup_builds_def lp_builds_def)
  have nlp: "ty \<noteq> LINEAR_PROBE" using ty(2) by auto
  have out: "dd_output c = (?b, Inr ())"
    using dd_output_values [OF kept _ n] ty(1) nlp by simp
  have f: "files' = files(?path \<mapsto> GenerateHeader_write ?acc now junk name @ ?b)" and r: "r = Inr ()"
    using w by (auto simp: CacheFileWriter_write_def Let_def out)
  show "r = Inr ()" by (rule r)
  have b: "?b \<noteq> []" "length ?b \<le> mem_limit"
    using lp_models_used [OF T] lim by (auto simp: hc_output_def)
  note hd = read_written_header [OF junk, of files ?path ?acc now name ?b]
  note mm = map_written_file [OF junk b, of ?acc now name]
  let ?h = "\<lparr>mKind = Mmap_Handler, mData = ?b, mDataSize = of_nat (length ?b), mRealDataSize = 0,
     mBlock = 0, mFresh = (\<lambda>b i. 0)\<rparr>"
  obtain c' where ld: "LinearProbeDedupCache_loaded H ?hdr ?h = Inr c'" and R: "dedup_reads H c' M"
    and v: "dd_values c' = dd_values c"
    using dedup_loaded_ok [OF T access_header(1) [of H ty c now junk name]
        access_header(2) [of H ty c now junk name] access_header(4) [of H ty c now junk name] nlp, of ?h]
      b(2) n big
    by (auto simp: hc_output_def)
  have "load_dedup H True files' ?path = Inr (c', file_timestamp ?path)"
    using hd mm ld access_header(3) [of H ty c now junk name]
    by (simp add: load_dedup_def loadAbsolutePath_def f)
  with R v show "\<exists>c'. load_dedup H True files' ?path = Inr (c', file_timestamp ?path) \<and>
      dedup_reads H c' M \<and> dd_values c' = dd_values c" by blast
qed

text \<open>
  With exactly 65536 values, the count written is 0: a cache that has registered them writes
  no values at all.
\<close>

lemma dd_output_65536:
  assumes "values_kept c" and "dd_cacheType c \<noteq> Some LINEAR_PROBE" and "length (dd_values c) = 65536"
  shows "dd_output c = (hc_output c @ le64 0, Inr ())"
proof -
  obtain h where h: "dd_valuesMemory c = Some h"
    using assms(1,3) by (cases "dd_valuesMemory c") (auto simp: values_kept_def)
  have l: "\<not> dd_isValuesLoaded c" using assms(1) by (simp add: values_kept_def)
  show ?thesis
    using assms(2) l by (simp add: dd_output_def h frequentValuesOutput_def assms(3))
qed

section \<open>Round trip of the bucket-chain cache\<close>

lemma bucket_file_round_trip:
  assumes B: "bc_builds H c log" and junk: "length junk = kMaxCacheNameSize"
    and w: "CacheFileWriter_write files dir name (hc_access (bucket_policy H) BUCKET_CHAIN c)
              (hc_output c, Inr ()) now junk = (files', r)"
  shows "r = Inr ()" and "\<exists>c'. load_bucket H True files' (fullCacheFileName dir name) =
      Inr (c', file_timestamp (fullCacheFileName dir name)) \<and> bc_models H c' log"
proof -
  let ?acc = "hc_access (bucket_policy H) BUCKET_CHAIN c" and ?path = "fullCacheFileName dir name"
  let ?hdr = "make_header ?acc now junk name" and ?b = "hc_output c" and ?p = "hc_probe c"
  have T: "bc_models H c log" using B by (simp add: bc_builds_def)
  have ok: "simple_probe_ok ?p" and le: "unat (mDataSize (hc_memory c)) \<le> length (mData (hc_memory c))"
    and lim: "unat (mDataSize (hc_memory c)) \<le> mem_limit"
    and img: "used (hc_memory c) = chain_image (bucket ?p H) (buckets ?p) log"
    using T by (auto simp: bc_models_def)
  have f: "files' = files(?path \<mapsto> GenerateHeader_write ?acc now junk name @ ?b)" and r: "r = Inr ()"
    using w by (auto simp: CacheFileWriter_write_def Let_def)
  show "r = Inr ()" by (rule r)
  have lb: "length ?b = unat (mDataSize (hc_memory c))"
    using used_image(2) [OF refl le] by (simp add: hc_output_def)
  have "8 * buckets ?p \<le> length ?b"
    using node_pos_mono [of "buckets ?p" "buckets ?p + length log" "buckets ?p" log]
      node_pos_head [of "buckets ?p" "buckets ?p" log]
    by (simp add: hc_output_def img length_chain_image)
  then have b: "?b \<noteq> []" "length ?b \<le> mem_limit" "length ?b < 2 ^ 64"
    using ok lim lb by (auto simp: simple_probe_ok_def mem_limit_def)
  note hd = read_written_header [OF junk, of files ?path ?acc now name ?b]
  note mm = map_written_file [OF junk b(1,2), of ?acc now name]
  let ?h = "\<lparr>mKind = Mmap_Handler, mData = ?b, mDataSize = of_nat (length ?b), mRealDataSize = 0,
     mBlock = 0, mFresh = (\<lambda>b i. 0)\<rparr>"
  have a: "hdr_numberOfKeySlots ?hdr = sp_numberOfKeySlots ?p" "hdr_version ?hdr = cache_version"
    by (simp_all add: make_header_def hc_access_def bucket_policy_def)
  have pm: "pol_makeProbe (bucket_policy H) = SimpleProbe"
    "pol_makeValueMgr (bucket_policy H) = (\<lambda>ob n p. ())"
    by (simp_all add: bucket_policy_def)
  let ?c = "updateKeySpacePtr \<lparr>hc_memory = ?h, hc_maxNumberOfEntries = 0, hc_keySpacePtr = 0,
     hc_header = ?hdr, hc_probe = ?p, hc_valueMgr = ()\<rparr>"
  have ld: "HashedCacheBase_loaded (bucket_policy H) ?hdr ?h = Inr ?c"
    using ok by (simp add: HashedCacheBase_loaded_def pm a simple_probe_ok_def)
  have "load_bucket H True files' ?path = Inr (?c, file_timestamp ?path)"
    using hd mm ld a(2) by (simp add: load_bucket_def loadAbsolutePath_def f)
  moreover have "bc_models H ?c log"
    using T b lb img by (simp add: bc_models_def updateKeySpacePtr_def used_def hc_output_def unat_of_nat_u64)
  ultimately show "\<exists>c'. load_bucket H True files' ?path = Inr (c', file_timestamp ?path) \<and> bc_models H c' log"
    by blast
qed

section \<open>Properties\<close>

text \<open>C30: a bucket-chain cache written to a file is loaded again without an error, and the loaded cache
  represents the same map.\<close>

theorem bucket_file_read_back:
  assumes "bc_builds H c log" and "length junk = kMaxCacheNameSize"
  shows "\<exists>files' c'. CacheFileWriter_write files dir name (hc_access (bucket_policy H) BUCKET_CHAIN c)
      (hc_output c, Inr ()) now junk = (files', Inr ()) \<and>
    load_bucket H True files' (fullCacheFileName dir name) =
      Inr (c', file_timestamp (fullCacheFileName dir name)) \<and>
    bc_reads H c' (log_map log)"
proof -
  obtain files' r where w: "CacheFileWriter_write files dir name (hc_access (bucket_policy H) BUCKET_CHAIN c)
      (hc_output c, Inr ()) now junk = (files', r)"
    by (cases "CacheFileWriter_write files dir name (hc_access (bucket_policy H) BUCKET_CHAIN c)
      (hc_output c, Inr ()) now junk")
  from bucket_file_round_trip [OF assms w] w show ?thesis by (auto simp: bc_reads_def)
qed

theorem bucket_file_read_back_witness:
  "\<exists>c files' c' ts. small_bucket (\<lambda>key. 6) = Inr c \<and>
     CacheFileWriter_write Map.empty (lit ''d'') (lit ''n'') (hc_access (bucket_policy (\<lambda>key. 6)) BUCKET_CHAIN c)
       (hc_output c, Inr ()) 0 (replicate 32 0) = (files', Inr ()) \<and>
     load_bucket (\<lambda>key. 6) True files' (fullCacheFileName (lit ''d'') (lit ''n'')) = Inr (c', ts)"
proof -
  obtain c where c: "small_bucket (\<lambda>key. 6) = Inr c" "bc_builds (\<lambda>key. 6) c []"
    using small_bucket by metis
  have "length (replicate 32 (0 :: byte)) = kMaxCacheNameSize" by (simp add: kMaxCacheNameSize_def)
  from bucket_file_read_back [OF c(2) this, of Map.empty "lit ''d''" "lit ''n''" 0] c(1) show ?thesis by blast
qed

text \<open>A loader that is called again for an unchanged file does nothing, also when its first call
  threw: the modification time is noted before the load, so a file that was read while it could
  not be loaded is not tried again.\<close>

theorem loader_second_call:
  assumes "mtimes path = Some t" and "loadWithName mtimes load type_of l path = (l', r)"
  shows "loadWithName mtimes load2 type_of2 l' path = (l', Inr (False, None)) \<and>
    (cl_lastModification l < t \<longrightarrow> load path = Inl e \<longrightarrow> r = Inl e \<and> cl_type l' = cl_type l)"
  using assms by (auto simp: loadWithName_def Let_def split: if_splits sum.splits prod.splits)

theorem loader_second_call_witness:
  "loadWithName (\<lambda>p. Some 5) (\<lambda>p. Inr ((), [])) (\<lambda>c. Some MAP)
     (CacheLoader\<lparr>cl_lastModification := 5\<rparr>) [97] = (CacheLoader\<lparr>cl_lastModification := 5\<rparr>, Inr (False, None))"
proof -
  have "loadWithName (\<lambda>p. Some 5) (\<lambda>p. Inl (Throw ''x'')) (\<lambda>c. Some MAP) CacheLoader [97] =
      (CacheLoader\<lparr>cl_lastModification := 5\<rparr>, Inl (Throw ''x''))"
    by (simp add: loadWithName_def CacheLoader_def file_time_min_def)
  from loader_second_call [OF _ this] show ?thesis by blast
qed

end
