(* ===== verification/Dedup_Store.thy ===== *)
theory Dedup_Store
  imports Cache_File
begin

text \<open>
  The life of a \<open>LinearProbeDedupCache\<close>, from the constructor over the registration of
  values to the file and back, and the properties of the class.
\<close>

section \<open>A new cache\<close>

lemma dedup_members_extend:
  "dd_values (dedup_members vs idx mem l ty b) = vs"
  "dd_valuesToIndex (dedup_members vs idx mem l ty b) = idx"
  "dd_valuesMemory (dedup_members vs idx mem l ty b) = mem"
  "dd_isValuesLoaded (dedup_members vs idx mem l ty b) = l"
  "dd_cacheType (dedup_members vs idx mem l ty b) = ty"
  by (simp_all add: dedup_members_def dedup_cache.defs hashed_cache.defs)

lemma lp_builds_members: "lp_builds H fv (dedup_members vs idx mem l ty b) M \<longleftrightarrow> lp_builds H fv b M"
  by (simp add: lp_builds_def lp_models_members counts_def)

lemma lp_builds_values:
  "lp_builds H fv (c\<lparr>dd_values := vs, dd_valuesToIndex := idx, dd_valuesMemory := mem\<rparr>) M \<longleftrightarrow>
     lp_builds H fv c M"
  by (simp add: lp_builds_def lp_models_def counts_def key_space_def)

lemma LinearProbeDedupCache_new:
  assumes "LinearProbeDedupCache H ob n lf (MallocMemoryHandler fresh cap) ty = Inr c"
    and "0 < unat n" and "8 * unat n \<le> mem_limit"
  shows "lp_builds H fv c Map.empty" and "dd_values c = []" and "dd_valuesToIndex c = Map.empty"
    and "dd_valuesMemory c = None" and "\<not> dd_isValuesLoaded c" and "dd_cacheType c = Some ty"
    and "entries c = 0" and "data_end c = 8 * unat n" and "lp_offsetBits (hc_probe c) = ob"
    and "max_entries n lf = Inr (hc_maxNumberOfEntries c)" and "lp_numberOfKeySlots (hc_probe c) = n"
proof -
  obtain b where b: "HashedCacheBase (linear_policy H) ob n lf (MallocMemoryHandler fresh cap) = Inr b"
    and c: "c = dedup_members [] Map.empty None False (Some ty) b"
    using assms(1) by (auto simp: LinearProbeDedupCache_def and_then_Inr_iff)
  have t: "pol_probeType (linear_policy H) = LINEAR_PROBE" by (simp add: linear_policy_def)
  note B = HashedCacheBase_builds [OF lp_policy_linear t b assms(2,3)]
  show "lp_builds H fv c Map.empty" by (simp add: c lp_builds_members B(1))
  show "dd_values c = []" "dd_valuesToIndex c = Map.empty" "dd_valuesMemory c = None"
    "\<not> dd_isValuesLoaded c" "dd_cacheType c = Some ty"
    by (simp_all add: c dedup_members_extend)
  show "entries c = 0" "data_end c = 8 * unat n" "lp_offsetBits (hc_probe c) = ob"
    "max_entries n lf = Inr (hc_maxNumberOfEntries c)" "lp_numberOfKeySlots (hc_probe c) = n"
    using B(2-6) by (simp_all add: c entries_def data_end_def)
qed

text \<open>A new cache in which values have been registered.\<close>

lemma setDuplicatedValues_new:
  assumes new: "LinearProbeDedupCache H ob n lf (MallocMemoryHandler fresh cap) ty = Inr c"
    and n: "0 < unat n" "8 * unat n \<le> mem_limit"
    and vs: "length values \<le> 65536" "sum_list (map length values) \<le> mem_limit"
  obtains c' where "setDuplicatedValues fresh' c values = Inr c'" and "dedup_builds H c' Map.empty"
    and "values_kept c'" and "dd_values c' = values" and "dd_cacheType c' = Some ty"
    and "\<And>v. find_index (dd_valuesToIndex c') v = None \<longleftrightarrow> v \<notin> set values"
    and "entries c' = 0" and "data_end c' = 8 * unat n" and "lp_offsetBits (hc_probe c') = ob"
    and "max_entries n lf = Inr (hc_maxNumberOfEntries c')" and "lp_numberOfKeySlots (hc_probe c') = n"
proof -
  note N = LinearProbeDedupCache_new [OF new n]
  obtain h idx where s: "setDuplicatedValues fresh' c values =
      Inr (c\<lparr>dd_values := values, dd_valuesToIndex := idx, dd_valuesMemory := Some h\<rparr>)"
    and ix: "index_ok values idx" "\<And>v. find_index idx v = None \<longleftrightarrow> v \<notin> set values"
    and h: "used h = concat values" "unat (mDataSize h) = sum_list (map length values)"
    using setDuplicatedValues_ok [OF vs N(5,4)] by blast
  let ?c = "c\<lparr>dd_values := values, dd_valuesToIndex := idx, dd_valuesMemory := Some h\<rparr>"
  show ?thesis
  proof (rule that [of ?c])
    show "setDuplicatedValues fresh' c values = Inr ?c" by (rule s)
    show "dedup_builds H ?c Map.empty"
      using N(1) ix by (simp add: dedup_builds_def lp_builds_values)
    show "values_kept ?c" using N(5) h by (simp add: values_kept_def)
  qed (use N ix in \<open>simp_all add: entries_def data_end_def\<close>)
qed

section \<open>A concrete cache\<close>

definition small_dedup :: "(bytes \<Rightarrow> u64) \<Rightarrow> dedup_cache outcome" where
  "small_dedup H =
     LinearProbeDedupCache H 16 4 half (MallocMemoryHandler (\<lambda>b i. 0) 1024) LINEAR_PROBE_DEDUP_TYPED"

lemma small_dedup:
  obtains c0 where "small_dedup H = Inr c0"
proof -
  obtain b where "small_cache H = Inr b" using small_cache [of H] by metis
  then show ?thesis
    using that by (simp add: small_dedup_def LinearProbeDedupCache_def small_cache_def)
qed

lemma small_dedup_values:
  assumes "length values \<le> 65536" and "sum_list (map length values) \<le> mem_limit"
  obtains c0 c where "small_dedup H = Inr c0" and "setDuplicatedValues fresh c0 values = Inr c"
    and "dedup_builds H c Map.empty" and "values_kept c" and "dd_values c = values"
    and "dd_cacheType c = Some LINEAR_PROBE_DEDUP_TYPED"
    and "\<And>v. find_index (dd_valuesToIndex c) v = None \<longleftrightarrow> v \<notin> set values"
    and "entries c = 0" and "data_end c = 32" and "lp_offsetBits (hc_probe c) = 16"
    and "hc_maxNumberOfEntries c = 2"
proof -
  obtain c0 where c0: "small_dedup H = Inr c0" by (rule small_dedup)
  have n: "0 < unat (4 :: u64)" "8 * unat (4 :: u64) \<le> mem_limit" by (simp_all add: mem_limit_def)
  show ?thesis
    by (rule setDuplicatedValues_new [OF c0 [unfolded small_dedup_def] n assms, of fresh])
      (rule that [OF c0], simp_all add: max_entries_half)
qed

section \<open>Properties\<close>

text \<open>C31: registering values in a new dedup cache: up to 65536 values of bounded total size are
  taken, the cache then lists exactly these values in order, finds an index for a value just when
  it was registered, represents the empty map, and refuses a second registration.\<close>

theorem set_duplicated_values:
  assumes "LinearProbeDedupCache H ob n lf (MallocMemoryHandler fresh cap) ty = Inr c"
    and "0 < unat n" and "8 * unat n \<le> mem_limit"
    and "length values \<le> 65536" and "sum_list (map length values) \<le> mem_limit"
  shows "\<exists>c'. setDuplicatedValues fresh' c values = Inr c' \<and> getDuplicatedValues c' = values \<and>
    (\<forall>v. find_index (dd_valuesToIndex c') v = None \<longleftrightarrow> v \<notin> set values) \<and>
    (\<forall>v i. find_index (dd_valuesToIndex c') v = Some i \<longrightarrow> values ! unat i = v) \<and>
    dedup_builds H c' Map.empty \<and>
    (\<exists>msg. setDuplicatedValues fresh' c' again = Inl (Throw msg))"
proof (rule setDuplicatedValues_new [OF assms, of fresh'])
  fix c'
  assume s: "setDuplicatedValues fresh' c values = Inr c'" and B: "dedup_builds H c' Map.empty"
    and v: "dd_values c' = values" and f: "\<And>v. find_index (dd_valuesToIndex c') v = None \<longleftrightarrow> v \<notin> set values"
  have "dd_valuesMemory c' \<noteq> None"
    using s by (auto simp: setDuplicatedValues_def and_then_Inr_iff split: if_splits)
  then have "\<exists>msg. setDuplicatedValues fresh' c' again = Inl (Throw msg)"
    by (simp add: setDuplicatedValues_def)
  with s B v f show ?thesis
    by (auto simp: getDuplicatedValues_def dedup_builds_def index_ok_def)
qed

theorem set_duplicated_values_witness:
  "\<exists>c c'. small_dedup (\<lambda>key. 0) = Inr c \<and>
     setDuplicatedValues (\<lambda>b i. 0) c [[7, 0], [8]] = Inr c' \<and> getDuplicatedValues c' = [[7, 0], [8]] \<and>
     find_index (dd_valuesToIndex c') [9] = None"
proof -
  obtain c where c: "small_dedup (\<lambda>key. 0) = Inr c" by (rule small_dedup)
  have "\<exists>c'. setDuplicatedValues (\<lambda>b i. 0) c [[7, 0], [8]] = Inr c' \<and> getDuplicatedValues c' = [[7, 0], [8]] \<and>
    (\<forall>v. find_index (dd_valuesToIndex c') v = None \<longleftrightarrow> v \<notin> set [[7, 0], [8]]) \<and>
    (\<forall>v i. find_index (dd_valuesToIndex c') v = Some i \<longrightarrow> [[7, 0], [8]] ! unat i = v) \<and>
    dedup_builds (\<lambda>key. 0) c' Map.empty \<and>
    (\<exists>msg. setDuplicatedValues (\<lambda>b i. 0) c' [] = Inl (Throw msg))"
    by (rule set_duplicated_values [OF c [unfolded small_dedup_def]]) (simp_all add: mem_limit_def)
  with c show ?thesis by auto
qed

text \<open>C16: a put of a new key into a dedup cache succeeds and the value reads back by the getter of
  its type; the record takes 6 bytes, the key, and the value itself or, when the value's encoding
  is registered, one or two bytes of index instead.\<close>

theorem dedup_put_then_read:
  assumes "dedup_builds H c M" and "M key = None" and "put_encode value = Inr e"
    and "dedup_accepts c key e"
  shows "\<exists>c' n. put (dd_putInternal H) c key value = Some (c', Inr (True, n)) \<and>
    dedup_builds H c' (M(key \<mapsto> (put_type value, e))) \<and>
    data_end c' = data_end c + 6 + length key +
      (case find_index (dd_valuesToIndex c) e of
         None \<Rightarrow> length e | Some index \<Rightarrow> if index < 256 then 1 else 2) \<and>
    reads_back fl (dedup_lookup H c') (H key) key value"
proof -
  obtain c' n where p: "put (dd_putInternal H) c key value = Some (c', Inr (True, n))"
    "reads_back fl (dedup_lookup H c') (found_hash H key True) key value"
    "dedup_builds H c' (M(key \<mapsto> (put_type value, e)))"
    using dedup.put_then_read [OF assms] by blast
  moreover have "data_end c' = data_end c + 6 + length key + payload_size c e"
    using dedup_put_sized [OF assms(1,2,4), of "put_type value"] p(1) assms(3) by (auto simp: put_def)
  ultimately show ?thesis by (simp add: found_hash_def payload_size_def)
qed

theorem dedup_put_then_read_witness:
  "\<exists>c0 c c' n. small_dedup (\<lambda>key. 0) = Inr c0 \<and>
     setDuplicatedValues (\<lambda>b i. 0) c0 [nul_terminate (lit ''long value'')] = Inr c \<and>
     put (dd_putInternal (\<lambda>key. 0)) c (lit ''k'') (Put_String (lit ''long value'')) =
       Some (c', Inr (True, n)) \<and>
     data_end c' \<le> data_end c + 9 \<and>
     getString (dedup_lookup (\<lambda>key. 0) c') (lit ''k'') [] = Some (Inr (lit ''long value'', True, 0))"
proof -
  let ?v = "nul_terminate (lit ''long value'')" and ?H = "\<lambda>key :: bytes. 0 :: u64"
  have lv: "length ?v = 11" by simp
  obtain c0 c where c: "small_dedup ?H = Inr c0" "setDuplicatedValues (\<lambda>b i. 0) c0 [?v] = Inr c"
    "dedup_builds ?H c Map.empty" "entries c = 0" "data_end c = 32" "hc_maxNumberOfEntries c = 2"
    "lp_offsetBits (hc_probe c) = 16"
    and f: "\<And>v. find_index (dd_valuesToIndex c) v = None \<longleftrightarrow> v \<notin> set [?v]"
    by (rule small_dedup_values [of "[?v]" ?H "\<lambda>b i. 0"]) (simp_all add: mem_limit_def)
  obtain i where i: "find_index (dd_valuesToIndex c) ?v = Some i" using f [of ?v] by auto
  have "dedup_accepts c (lit ''k'') ?v"
    using c(4-7) by (simp add: dedup_accepts_def lp_room_def entries_def word_less_nat_alt entry_size_def
        mem_limit_def kKeyLength_def kValueLength_def reachable_end_def)
  from dedup_put_then_read [OF c(3) _ _ this, of "Put_String (lit ''long value'')" undefined]
  obtain c' n where "put (dd_putInternal ?H) c (lit ''k'') (Put_String (lit ''long value'')) = Some (c', Inr (True, n))"
    "data_end c' = data_end c + 7 + (if i < 256 then 1 else 2)"
    "reads_back undefined (dedup_lookup ?H c') 0 (lit ''k'') (Put_String (lit ''long value''))"
    by (auto simp: i)
  with c(1,2) show ?thesis by (auto simp: reads_back_def)
qed

text \<open>A dedup cache that has registered exactly 65536 values, which \<open>setDuplicatedValues\<close>
  allows, writes a file without them: the count wraps around to 0, only an empty marker follows the
  data, and no error is reported.\<close>

theorem dedup_values_65536:
  assumes "LinearProbeDedupCache H ob n lf (MallocMemoryHandler fresh cap) ty = Inr c"
    and "0 < unat n" and "8 * unat n \<le> mem_limit" and "ty \<noteq> LINEAR_PROBE"
    and "length values = 65536" and "sum_list (map length values) \<le> mem_limit"
  shows "\<exists>c'. setDuplicatedValues fresh' c values = Inr c' \<and> getDuplicatedValues c' = values \<and>
    dd_output c' = (hc_output c' @ le64 0, Inr ())"
proof (rule setDuplicatedValues_new [OF assms(1-3), of "values" fresh'])
  fix c'
  assume s: "setDuplicatedValues fresh' c values = Inr c'" and k: "values_kept c'"
    and v: "dd_values c' = values" and t: "dd_cacheType c' = Some ty"
  have "dd_output c' = (hc_output c' @ le64 0, Inr ())"
    by (rule dd_output_65536 [OF k]) (use t assms(4,5) v in simp_all)
  with s v show ?thesis by (simp add: getDuplicatedValues_def)
qed (use assms in simp_all)

theorem dedup_values_65536_witness:
  "\<exists>c c'. small_dedup (\<lambda>key. 0) = Inr c \<and>
     setDuplicatedValues (\<lambda>b i. 0) c (replicate 65536 [1]) = Inr c' \<and>
     dd_output c' = (hc_output c' @ le64 0, Inr ())"
proof -
  obtain c where c: "small_dedup (\<lambda>key. 0) = Inr c" by (rule small_dedup)
  have "\<exists>c'. setDuplicatedValues (\<lambda>b i. 0) c (replicate 65536 [1]) = Inr c' \<and>
    getDuplicatedValues c' = replicate 65536 [1] \<and> dd_output c' = (hc_output c' @ le64 0, Inr ())"
    by (rule dedup_values_65536 [OF c [unfolded small_dedup_def]])
      (simp_all add: mem_limit_def sum_list_replicate)
  with c show ?thesis by blast
qed

end
