(* ===== verification/Map_Cache.thy ===== *)
theory Map_Cache
  imports Cache_Header
begin

text \<open>
  \<open>MapCacheBase\<close> (\<open>cache/base/MapCacheBase.h\<close> and \<open>.cpp\<close>, alias \<open>MapCache\<close>): a cache
  in two \<open>std::unordered_map\<close>, one of strings and one of lists of strings.  The maps are
  association lists in the order in which iteration visits them; that order is
  unspecified, so no lemma relies on it.  Two overloads of \<open>put\<close> insert, the others report
  that nothing was inserted.
\<close>

section \<open>State and operations\<close>

record map_cache =
  mc_strings :: "(bytes \<times> bytes) list"
  mc_stringLists :: "(bytes \<times> bytes list) list"

definition MapCacheBase :: map_cache where
  "MapCacheBase = \<lparr>mc_strings = [], mc_stringLists = []\<rparr>"

text \<open>\<open>emplace\<close> keeps an entry that is there.\<close>

definition emplace :: "'k \<Rightarrow> 'v \<Rightarrow> ('k \<times> 'v) list \<Rightarrow> ('k \<times> 'v) list \<times> bool" where
  "emplace key value m = (case map_of m key of None \<Rightarrow> ((key, value) # m, True) | Some _ \<Rightarrow> (m, False))"

definition mc_put_string :: "map_cache \<Rightarrow> bytes \<Rightarrow> bytes \<Rightarrow> map_cache \<times> bool \<times> u32" where
  "mc_put_string c key value =
     (let (m, inserted) = emplace key value (mc_strings c)
      in (c\<lparr>mc_strings := m\<rparr>, inserted, 0))"

definition mc_put_list :: "map_cache \<Rightarrow> bytes \<Rightarrow> bytes list \<Rightarrow> map_cache \<times> bool \<times> u32" where
  "mc_put_list c key value =
     (let (m, inserted) = emplace key value (mc_stringLists c)
      in (c\<lparr>mc_stringLists := m\<rparr>, inserted, 0))"

text \<open>The overloads for a bool, an integer, a double and a vector of floats.\<close>

definition mc_put_unsupported :: "map_cache \<Rightarrow> map_cache \<times> bool \<times> u32" where
  "mc_put_unsupported c = (c, False, 0)"

definition mc_get :: "map_cache \<Rightarrow> bytes \<Rightarrow> bytes" where
  "mc_get c key = (case map_of (mc_strings c) key of None \<Rightarrow> [] | Some v \<Rightarrow> v)"

definition mc_getVector :: "map_cache \<Rightarrow> bytes \<Rightarrow> bytes list" where
  "mc_getVector c key = (case map_of (mc_stringLists c) key of None \<Rightarrow> [] | Some vs \<Rightarrow> vs)"

definition mc_contains :: "map_cache \<Rightarrow> bytes \<Rightarrow> bool" where
  "mc_contains c key \<longleftrightarrow> map_of (mc_strings c) key \<noteq> None \<or> map_of (mc_stringLists c) key \<noteq> None"

definition mc_numberOfEntries :: "map_cache \<Rightarrow> u64" where
  "mc_numberOfEntries c = of_nat (length (mc_strings c)) + of_nat (length (mc_stringLists c))"

text \<open>\<open>output\<close>: a line for each entry; 61 is \<open>=\<close>, 124 is \<open>|\<close> and 10 the line feed.\<close>

fun bars :: "bytes \<Rightarrow> bytes list \<Rightarrow> bytes" where
  "bars prefix [] = []"
| "bars prefix (s # ss) = prefix @ s @ bars [124] ss"

definition mc_output :: "map_cache \<Rightarrow> bytes" where
  "mc_output c =
     concat (map (\<lambda>(k, v). k @ [61] @ v @ [10]) (mc_strings c)) @
     concat (map (\<lambda>(k, vs). k @ [61] @ bars [] vs @ [10]) (mc_stringLists c))"

text \<open>What the header of a file takes from the accessors.\<close>

definition mc_access :: "u16 \<Rightarrow> map_cache \<Rightarrow> cache_access" where
  "mc_access version c =
     \<lparr>acc_version = version, acc_type = MAP, acc_hashcodeBits = 0, acc_offsetBits = 0,
      acc_hashFuncId = HashFuncId_UNKNOWN, acc_maxCollisions = 0, acc_maxLoadFactor = 0,
      acc_numberOfKeySlots = mc_numberOfEntries c, acc_numberOfEntries = mc_numberOfEntries c,
      acc_dataSize = 0, acc_size = 0\<rparr>"

section \<open>Lookups after insertions\<close>

lemma mc_put_string_eq:
  "mc_put_string c key v =
     (if map_of (mc_strings c) key = None then (c\<lparr>mc_strings := (key, v) # mc_strings c\<rparr>, True, 0)
      else (c, False, 0))"
  by (simp add: mc_put_string_def emplace_def split: option.split)

lemma mc_put_list_eq:
  "mc_put_list c key vs =
     (if map_of (mc_stringLists c) key = None
      then (c\<lparr>mc_stringLists := (key, vs) # mc_stringLists c\<rparr>, True, 0) else (c, False, 0))"
  by (simp add: mc_put_list_def emplace_def split: option.split)

lemmas mc_access_defs = mc_get_def mc_getVector_def mc_contains_def mc_numberOfEntries_def

section \<open>Properties\<close>

text \<open>A map cache takes a string or a list of strings under a key that its map of that kind does
  not hold, and then returns it; a second value of a key is refused with \<open>false\<close> and changes
  nothing; all other lookups and the other kind are untouched, and the count of entries follows.\<close>

theorem map_cache_put:
  assumes "mc_put_string c key v = (c1, b1, n1)" and "mc_put_list c key vs = (c2, b2, n2)"
  shows "(b1 \<longleftrightarrow> map_of (mc_strings c) key = None) \<and> (\<not> b1 \<longrightarrow> c1 = c) \<and>
      mc_get c1 k = (if b1 \<and> k = key then v else mc_get c k) \<and> mc_getVector c1 k = mc_getVector c k \<and>
      (mc_contains c1 k \<longleftrightarrow> k = key \<or> mc_contains c k) \<and>
      mc_numberOfEntries c1 = mc_numberOfEntries c + (if b1 then 1 else 0) \<and>
      (b2 \<longleftrightarrow> map_of (mc_stringLists c) key = None) \<and> (\<not> b2 \<longrightarrow> c2 = c) \<and>
      mc_getVector c2 k = (if b2 \<and> k = key then vs else mc_getVector c k) \<and> mc_get c2 k = mc_get c k \<and>
      (mc_contains c2 k \<longleftrightarrow> k = key \<or> mc_contains c k) \<and>
      mc_numberOfEntries c2 = mc_numberOfEntries c + (if b2 then 1 else 0)"
  using assms
  by (auto simp: mc_put_string_eq mc_put_list_eq mc_access_defs split: if_splits)

theorem map_cache_put_witness:
  "mc_get (fst (mc_put_string MapCacheBase [1] [2])) [1] = [2] \<and>
   mc_getVector (fst (mc_put_list MapCacheBase [1] [[3]])) [1] = [[3]]"
proof -
  obtain c1 b1 n1 where c1: "mc_put_string MapCacheBase [1] [2] = (c1, b1, n1)" by (rule prod_cases3)
  obtain c2 b2 n2 where c2: "mc_put_list MapCacheBase [1] [[3]] = (c2, b2, n2)" by (rule prod_cases3)
  from map_cache_put [OF c1 c2, of "[1]"] c1 c2 show ?thesis by (simp add: MapCacheBase_def)
qed

end
