(* ===== verification/Cache_Value.thy ===== *)
theory Cache_Value
  imports Typed_Access
begin

text \<open>
  \<open>CacheValue\<close> (\<open>domain/CacheValue.h\<close> and \<open>.cpp\<close>), the value a data file or a caller
  hands to a cache, and the two consumers of such values (\<open>consumer\<close>).  The variant may
  hold another alternative than the type says only in theory; the accessors check it.
  Floats compare as IEEE-754 does.  Their text (\<open>std::to_string\<close>) is a parameter.
\<close>

section \<open>Values\<close>

datatype variant =
    V_String bytes | V_StringList "bytes list" | V_Bool bool | V_Int u32 | V_Float f32
  | V_Double f64 | V_Int64 i64 | V_FloatList "f32 list"

record cache_value =
  mType :: CacheValueType
  mValue :: variant

text \<open>\<open>CacheValue() = default\<close>, and the constructors of the six kinds of value that can be put.\<close>

definition default_value :: cache_value where
  "default_value = \<lparr>mType = TString, mValue = V_String []\<rparr>"

fun CacheValue :: "put_value \<Rightarrow> cache_value" where
  "CacheValue (Put_String value) = \<lparr>mType = TString, mValue = V_String value\<rparr>"
| "CacheValue (Put_List value) = \<lparr>mType = TStringList, mValue = V_StringList value\<rparr>"
| "CacheValue (Put_Bool value) = \<lparr>mType = TBool, mValue = V_Bool value\<rparr>"
| "CacheValue (Put_Double value) = \<lparr>mType = TDouble, mValue = V_Double value\<rparr>"
| "CacheValue (Put_Int64 value) = \<lparr>mType = TInt64, mValue = V_Int64 value\<rparr>"
| "CacheValue (Put_Floats value) = \<lparr>mType = TFloatList, mValue = V_FloatList value\<rparr>"

text \<open>\<open>std::get\<close> of another alternative throws \<open>bad_variant_access\<close>.\<close>

definition bad_variant :: fault where "bad_variant = Throw ''bad_variant_access''"

fun asString :: "variant \<Rightarrow> bytes outcome" where
  "asString (V_String x) = Inr x" | "asString _ = Inl bad_variant"
fun asStringList :: "variant \<Rightarrow> bytes list outcome" where
  "asStringList (V_StringList x) = Inr x" | "asStringList _ = Inl bad_variant"
fun asBool :: "variant \<Rightarrow> bool outcome" where
  "asBool (V_Bool x) = Inr x" | "asBool _ = Inl bad_variant"
fun asInt :: "variant \<Rightarrow> u32 outcome" where
  "asInt (V_Int x) = Inr x" | "asInt _ = Inl bad_variant"
fun asFloat :: "variant \<Rightarrow> f32 outcome" where
  "asFloat (V_Float x) = Inr x" | "asFloat _ = Inl bad_variant"
fun asDouble :: "variant \<Rightarrow> f64 outcome" where
  "asDouble (V_Double x) = Inr x" | "asDouble _ = Inl bad_variant"
fun asInt64 :: "variant \<Rightarrow> i64 outcome" where
  "asInt64 (V_Int64 x) = Inr x" | "asInt64 _ = Inl bad_variant"
fun asFloatList :: "variant \<Rightarrow> f32 list outcome" where
  "asFloatList (V_FloatList x) = Inr x" | "asFloatList _ = Inl bad_variant"

section \<open>Debug text\<close>

text \<open>The elements of a list, each behind the prefix, which is empty for the first.\<close>

fun listed :: "('a \<Rightarrow> bytes) \<Rightarrow> bytes \<Rightarrow> 'a list \<Rightarrow> bytes" where
  "listed show prefix [] = []"
| "listed show prefix (x # xs) = prefix @ show x @ listed show (lit '', '') xs"

definition quoted :: "bytes \<Rightarrow> bytes" where "quoted s = [34] @ s @ [34]"

definition debug_value ::
  "(f32 \<Rightarrow> string) \<Rightarrow> (f64 \<Rightarrow> string) \<Rightarrow> cache_value \<Rightarrow> bytes outcome" where
  "debug_value show_f show_d v =
     (case mType v of
        TString \<Rightarrow> and_then (asString (mValue v)) (\<lambda>s. Inr (quoted s))
      | TStringList \<Rightarrow> and_then (asStringList (mValue v)) (\<lambda>ss.
          Inr (lit ''['' @ listed quoted [] ss @ lit '']''))
      | TBool \<Rightarrow> and_then (asBool (mValue v)) (\<lambda>b. Inr (lit (if b then ''true'' else ''false'')))
      | TInt \<Rightarrow> and_then (asInt (mValue v)) (\<lambda>x. Inr (lit (show_int (sint x))))
      | TFloat \<Rightarrow> and_then (asFloat (mValue v)) (\<lambda>x. Inr (lit (show_f x)))
      | TDouble \<Rightarrow> and_then (asDouble (mValue v)) (\<lambda>x. Inr (lit (show_d x)))
      | TInt64 \<Rightarrow> and_then (asInt64 (mValue v)) (\<lambda>x. Inr (lit (show_int (sint x))))
      | TFloatList \<Rightarrow> and_then (asFloatList (mValue v)) (\<lambda>xs.
          Inr (lit ''['' @ listed (\<lambda>x. lit (show_f x)) [] xs @ lit '']'')))"

definition toDebugString ::
  "(f32 \<Rightarrow> string) \<Rightarrow> (f64 \<Rightarrow> string) \<Rightarrow> cache_value \<Rightarrow> bytes outcome" where
  "toDebugString show_f show_d v =
     and_then (debug_value show_f show_d v) (\<lambda>valueStr.
       Inr (lit ''{'' @ quoted (lit ''type'') @ lit '':'' @
            quoted (lit (CacheValueType_to_string (mType v))) @ lit '', '' @
            quoted (lit ''value'') @ lit '':'' @ valueStr @ lit ''}''))"

section \<open>Equality\<close>

text \<open>\<open>==\<close> of floating values: false with a NaN, and 0 equals -0.\<close>

definition nan32 :: "f32 \<Rightarrow> bool" where
  "nan32 x \<longleftrightarrow> drop_bit 23 x AND 255 = 255 \<and> x AND 0x7FFFFF \<noteq> 0"
definition nan64 :: "f64 \<Rightarrow> bool" where
  "nan64 x \<longleftrightarrow> drop_bit 52 x AND 2047 = 2047 \<and> x AND 0xFFFFFFFFFFFFF \<noteq> 0"

definition float_eq :: "f32 \<Rightarrow> f32 \<Rightarrow> bool" where
  "float_eq x y \<longleftrightarrow> \<not> nan32 x \<and> \<not> nan32 y \<and>
     (x = y \<or> x AND 0x7FFFFFFF = 0 \<and> y AND 0x7FFFFFFF = 0)"
definition double_eq :: "f64 \<Rightarrow> f64 \<Rightarrow> bool" where
  "double_eq x y \<longleftrightarrow> \<not> nan64 x \<and> \<not> nan64 y \<and>
     (x = y \<or> x AND 0x7FFFFFFFFFFFFFFF = 0 \<and> y AND 0x7FFFFFFFFFFFFFFF = 0)"

fun floats_eq :: "f32 list \<Rightarrow> f32 list \<Rightarrow> bool" where
  "floats_eq [] [] = True"
| "floats_eq (x # xs) (y # ys) = (float_eq x y \<and> floats_eq xs ys)"
| "floats_eq _ _ = False"

definition both :: "('v \<Rightarrow> 'a outcome) \<Rightarrow> ('a \<Rightarrow> 'a \<Rightarrow> bool) \<Rightarrow> 'v \<Rightarrow> 'v \<Rightarrow> bool outcome" where
  "both acc eq a b = and_then (acc a) (\<lambda>x. and_then (acc b) (\<lambda>y. Inr (eq x y)))"

definition value_eq :: "cache_value \<Rightarrow> cache_value \<Rightarrow> bool outcome" where
  "value_eq a b =
     (if mType a \<noteq> mType b then Inr False
      else case mType a of
        TString \<Rightarrow> both asString (=) (mValue a) (mValue b)
      | TStringList \<Rightarrow> both asStringList (=) (mValue a) (mValue b)
      | TBool \<Rightarrow> both asBool (=) (mValue a) (mValue b)
      | TInt \<Rightarrow> both asInt (=) (mValue a) (mValue b)
      | TFloat \<Rightarrow> both asFloat float_eq (mValue a) (mValue b)
      | TDouble \<Rightarrow> both asDouble double_eq (mValue a) (mValue b)
      | TInt64 \<Rightarrow> both asInt64 (=) (mValue a) (mValue b)
      | TFloatList \<Rightarrow> both asFloatList floats_eq (mValue a) (mValue b))"

section \<open>Consumers\<close>

text \<open>
  \<open>CacheValueConsumer\<close> calls the virtual \<open>put\<close> of its cache, given here over the six
  kinds of value; a value of type Int or Float cannot be put.
\<close>

type_synonym 'c put_fun = "'c \<Rightarrow> bytes \<Rightarrow> put_value \<Rightarrow> ('c \<times> (bool \<times> u32) outcome) option"

definition unknown_type_msg :: "CacheValueType \<Rightarrow> string" where
  "unknown_type_msg t = ''Unknown CacheValueType : '' @ CacheValueType_to_string t"

definition put_as :: "'c \<Rightarrow> ('a \<Rightarrow> ('c \<times> 'b outcome) option) \<Rightarrow> 'a outcome \<Rightarrow> ('c \<times> 'b outcome) option" where
  "put_as c f x = (case x of Inl e \<Rightarrow> Some (c, Inl e) | Inr y \<Rightarrow> f y)"

definition consumeValue :: "'c put_fun \<Rightarrow> 'c \<Rightarrow> bytes \<times> cache_value \<Rightarrow> ('c \<times> (bool \<times> u32) outcome) option" where
  "consumeValue cput c kv =
     (let (key, v) = kv in
      case mType v of
        TString \<Rightarrow> put_as c (\<lambda>x. cput c key (Put_String x)) (asString (mValue v))
      | TStringList \<Rightarrow> put_as c (\<lambda>x. cput c key (Put_List x)) (asStringList (mValue v))
      | TBool \<Rightarrow> put_as c (\<lambda>x. cput c key (Put_Bool x)) (asBool (mValue v))
      | TDouble \<Rightarrow> put_as c (\<lambda>x. cput c key (Put_Double x)) (asDouble (mValue v))
      | TInt64 \<Rightarrow> put_as c (\<lambda>x. cput c key (Put_Int64 x)) (asInt64 (mValue v))
      | TFloatList \<Rightarrow> put_as c (\<lambda>x. cput c key (Put_Floats x)) (asFloatList (mValue v))
      | t \<Rightarrow> Some (c, Inl (Throw (unknown_type_msg t))))"

text \<open>\<open>StringCacheValueConsumer\<close> collects debug text; entries are separated by \<open>,\<close> and a line feed.\<close>

definition consume_debug ::
  "(f32 \<Rightarrow> string) \<Rightarrow> (f64 \<Rightarrow> string) \<Rightarrow> bytes \<Rightarrow> bytes \<times> cache_value \<Rightarrow> bytes outcome" where
  "consume_debug show_f show_d output kv =
     and_then (toDebugString show_f show_d (snd kv)) (\<lambda>s.
       Inr ((if output \<noteq> [] then output @ [44, 10] else output) @ quoted (fst kv) @ lit '':'' @ s))"

section \<open>Lemmas\<close>

text \<open>A consumer puts the very value that was made.\<close>

lemma consumeValue_CacheValue: "consumeValue cput c (key, CacheValue v) = cput c key v"
  by (cases v) (simp_all add: consumeValue_def put_as_def)

lemma floats_eq_refl: "floats_eq xs xs \<longleftrightarrow> (\<forall>x \<in> set xs. \<not> nan32 x)"
  by (induction xs) (auto simp: float_eq_def)

section \<open>Properties\<close>

text \<open>Two values compare equal when they have the same type and content; doubles and floats compare
  as numbers do, so a NaN equals nothing and the two zeros are equal; lists of floats compare
  element by element.  The comparison never throws.\<close>

theorem value_eq_values:
  "value_eq (CacheValue a) (CacheValue b) = Inr
     (case (a, b) of
        (Put_Double x, Put_Double y) \<Rightarrow> double_eq x y
      | (Put_Floats xs, Put_Floats ys) \<Rightarrow> list_all2 float_eq xs ys
      | _ \<Rightarrow> a = b)"
proof -
  have f: "floats_eq xs ys = list_all2 float_eq xs ys" for xs ys
    by (induction xs ys rule: floats_eq.induct) auto
  show ?thesis by (cases a; cases b) (simp_all add: value_eq_def both_def f)
qed

text \<open>A consumer puts the very value that was made from it, under its key, for all six kinds; a
  value of the two kinds that no cache stores is refused and the cache is not touched.\<close>

theorem consumer_puts_value:
  "consumeValue cput c (key, CacheValue v) = cput c key v \<and>
   consumeValue cput c (key, \<lparr>mType = TInt, mValue = x\<rparr>) = Some (c, Inl (Throw (unknown_type_msg TInt))) \<and>
   consumeValue cput c (key, \<lparr>mType = TFloat, mValue = x\<rparr>) = Some (c, Inl (Throw (unknown_type_msg TFloat)))"
  by (cases v) (simp_all add: consumeValue_def put_as_def)

end
