(* ===== verification/Data_Reader.thy ===== *)
theory Data_Reader
  imports Cache_Value Settings "HOL-Library.List_Lexorder"
begin

text \<open>
  The text side of a cache: \<open>CacheValueParser\<close> (\<open>parser\<close>), which turns a line into a key
  and a value, and \<open>DataFileReader\<close> (\<open>reader\<close>), which hands the lines of its files to a
  consumer.  \<open>std::sort\<close> of views orders them by unsigned bytes, as lists of words are
  ordered here.

  The lemmas read back what is written in the format of the parser and show that a reader
  is a fold of \<open>put\<close> over the lines.
\<close>

section \<open>Parsing a line\<close>

definition kControlCharKeyValue :: bytes where "kControlCharKeyValue = lit ''axoncache.control_char.key_value''"
definition kControlCharVectorType :: bytes where "kControlCharVectorType = lit ''axoncache.control_char.vector_type''"
definition kControlCharVectorElem :: bytes where "kControlCharVectorElem = lit ''axoncache.control_char.vector_elem''"
definition kControlCharLine :: bytes where "kControlCharLine = lit ''axoncache.control_char.line''"

definition kControlCharKeyValue_default :: byte where "kControlCharKeyValue_default = 61"
definition kControlCharVectorType_default :: byte where "kControlCharVectorType_default = 1"
definition kControlCharVectorElem_default :: byte where "kControlCharVectorElem_default = 124"
definition kControlCharLine_default :: byte where "kControlCharLine_default = 30"

record parser =
  mVectorType :: byte
  mVectorElemSeparator :: byte
  mKeyValueSeparator :: byte

definition CacheValueParser :: "settings \<Rightarrow> parser" where
  "CacheValueParser s =
     \<lparr>mVectorType = set_getChar s kControlCharVectorType kControlCharVectorType_default,
      mVectorElemSeparator = set_getChar s kControlCharVectorElem kControlCharVectorElem_default,
      mKeyValueSeparator = set_getChar s kControlCharKeyValue kControlCharKeyValue_default\<rparr>"

text \<open>\<open>memchr\<close>: the index of the first such byte.\<close>

definition memchr :: "bytes \<Rightarrow> byte \<Rightarrow> nat option" where
  "memchr s c = (let n = length (takeWhile (\<lambda>b. b \<noteq> c) s) in if n < length s then Some n else None)"

lemma memchr_less: "memchr s c = Some n \<Longrightarrow> n < length s"
  by (auto simp: memchr_def Let_def split: if_splits)

function parseVector_loop :: "byte \<Rightarrow> bytes \<Rightarrow> bytes list" where
  "parseVector_loop sep valueStr =
     (case memchr valueStr sep of
        None \<Rightarrow> [valueStr]
      | Some valueEnd \<Rightarrow> take valueEnd valueStr # parseVector_loop sep (drop (valueEnd + 1) valueStr))"
  by pat_completeness auto
termination
  by (relation "measure (\<lambda>(sep, s). length s)") (auto dest: memchr_less)

declare parseVector_loop.simps [simp del]

definition parseVector :: "parser \<Rightarrow> bytes \<Rightarrow> bytes list" where
  "parseVector p valueStr =
     (if valueStr \<noteq> [] then sort (parseVector_loop (mVectorElemSeparator p) valueStr) else [])"

text \<open>The value behind the separator, which stands at \<open>keyEnd\<close>.\<close>

definition parseValue_at :: "parser \<Rightarrow> bytes \<Rightarrow> nat \<Rightarrow> bytes \<Rightarrow> bool \<Rightarrow> bytes \<times> cache_value" where
  "parseValue_at p line keyEnd key isVector =
     (let valueStr = drop (keyEnd + 1) line
      in if isVector then (key, CacheValue (Put_List (parseVector p valueStr)))
         else (key, CacheValue (Put_String valueStr)))"

text \<open>
  A line that is empty or has no separator yields a default pair, an empty string under the
  empty key.  The key of a vector line starts behind the marker; where the marker is itself
  the separator the size of the view is negative.
\<close>

definition parseValue :: "parser \<Rightarrow> bytes \<Rightarrow> (bytes \<times> cache_value) outcome" where
  "parseValue p line =
     (if line = [] then Inr ([], default_value)
      else let isVector = (hd line = mVectorType p) in
        case memchr line (mKeyValueSeparator p) of
          None \<Rightarrow> Inr ([], default_value)
        | Some keyEnd \<Rightarrow>
            (if isVector \<and> keyEnd = 0 then Inl (Undefined Bad_String_View)
             else let keyStr = (if isVector then drop 1 (take keyEnd line) else take keyEnd line)
                  in Inr (parseValue_at p line keyEnd keyStr isVector)))"

section \<open>Reading files of lines\<close>

fun readLines ::
  "'c put_fun \<Rightarrow> parser \<Rightarrow> 'c \<Rightarrow> u64 \<Rightarrow> bytes list \<Rightarrow> ('c \<times> u64 outcome) option" where
  "readLines cput p c linesRead [] = Some (c, Inr linesRead)"
| "readLines cput p c linesRead (line # rest) =
     (case parseValue p line of
        Inl e \<Rightarrow> Some (c, Inl e)
      | Inr kv \<Rightarrow>
          (case consumeValue cput c kv of
             None \<Rightarrow> None
           | Some (c', Inl e) \<Rightarrow> Some (c', Inl e)
           | Some (c', Inr _) \<Rightarrow> readLines cput p c' (linesRead + 1) rest))"

definition failed_to_open_msg :: string where "failed_to_open_msg = ''Failed to open file''"

fun readFiles ::
  "'c put_fun \<Rightarrow> parser \<Rightarrow> byte \<Rightarrow> (bytes \<Rightarrow> bytes option) \<Rightarrow> 'c \<Rightarrow> u64 \<Rightarrow> bytes list \<Rightarrow>
   ('c \<times> u64 outcome) option" where
  "readFiles cput p delim files c linesRead [] = Some (c, Inr linesRead)"
| "readFiles cput p delim files c linesRead (fileName # rest) =
     (case files fileName of
        None \<Rightarrow> Some (c, Inl (Throw failed_to_open_msg))
      | Some content \<Rightarrow>
          (case readLines cput p c linesRead (getlines delim content) of
             None \<Rightarrow> None
           | Some (c', Inl e) \<Rightarrow> Some (c', Inl e)
           | Some (c', Inr n) \<Rightarrow> readFiles cput p delim files c' n rest))"

text \<open>\<open>DataFileReader::readValues\<close> with the consumer of a cache.\<close>

definition readValues ::
  "'c put_fun \<Rightarrow> parser \<Rightarrow> byte \<Rightarrow> (bytes \<Rightarrow> bytes option) \<Rightarrow> bytes list \<Rightarrow> 'c \<Rightarrow>
   ('c \<times> u64 outcome) option" where
  "readValues cput p delim files fileNames c = readFiles cput p delim files c 0 fileNames"

section \<open>What the parser reads\<close>

lemma memchr_append: "c \<notin> set s \<Longrightarrow> memchr (s @ c # t) c = Some (length s)"
proof -
  assume "c \<notin> set s"
  then have "takeWhile (\<lambda>b. b \<noteq> c) (s @ c # t) = s" by (induction s) auto
  then show ?thesis by (simp add: memchr_def)
qed

lemma memchr_None: "memchr s c = None \<longleftrightarrow> c \<notin> set s"
  by (simp add: memchr_def length_takeWhile_less_iff)

text \<open>The loop of \<open>parseVector\<close> splits as \<open>stringViewSplit\<close> does, so \<open>join\<close> undoes it.\<close>

lemma stringViewSplit_loop_token:
  "sep \<notin> set p \<Longrightarrow> stringViewSplit_loop sep t (p @ s) = stringViewSplit_loop sep (t @ p) s"
  by (induction p arbitrary: t) auto

lemma parseVector_loop_split: "parseVector_loop sep s = stringViewSplit_loop sep [] s"
proof (induction sep s rule: parseVector_loop.induct)
  case (1 sep s)
  show ?case
  proof (cases "memchr s sep")
    case None
    then have "sep \<notin> set s" unfolding memchr_None .
    from None stringViewSplit_loop_token [OF this, of "[]" "[]"] show ?thesis
      by (simp add: parseVector_loop.simps)
  next
    case (Some n)
    then have n: "n = length (takeWhile (\<lambda>b. b \<noteq> sep) s)" "n < length s"
      by (auto simp: memchr_def Let_def split: if_splits)
    then have t: "take n s = takeWhile (\<lambda>b. b \<noteq> sep) s" by (metis takeWhile_eq_take)
    have "s ! n = sep" using n nth_length_takeWhile [of "\<lambda>b. b \<noteq> sep" s] by auto
    then have s: "s = take n s @ sep # drop (n + 1) s"
      using n(2) by (metis Suc_eq_plus1 id_take_nth_drop)
    have "sep \<notin> set (take n s)" unfolding t using set_takeWhileD by fastforce
    then have "stringViewSplit_loop sep [] (take n s @ sep # drop (n + 1) s) =
        take n s # stringViewSplit_loop sep [] (drop (n + 1) s)"
      by (simp add: stringViewSplit_loop_token)
    then show ?thesis
      using Some 1 s by (simp add: parseVector_loop.simps)
  qed
qed

lemma stringViewSplit_loop_joined:
  assumes "ss \<noteq> []" and "\<forall>s \<in> set ss. sep \<notin> set s"
  shows "stringViewSplit_loop sep [] (join sep ss) = ss"
  using assms
proof (induction ss)
  case (Cons s ss)
  show ?case
  proof (cases ss)
    case Nil
    then show ?thesis
      using stringViewSplit_loop_token [of sep s "[]" "[]"] Cons.prems by (simp add: join_def)
  next
    case (Cons s' ss')
    then have "join sep (s # ss) = s @ sep # join sep ss" by (simp add: join_def)
    then show ?thesis
      using Cons.IH Cons.prems Cons by (simp add: stringViewSplit_loop_token)
  qed
qed simp

text \<open>
  Lines in the format of the parser: a string line, and a vector line of elements.  What is
  read from them is what they were written from, the elements in order.
\<close>

definition string_line :: "parser \<Rightarrow> bytes \<Rightarrow> bytes \<Rightarrow> bytes" where
  "string_line p key value = key @ mKeyValueSeparator p # value"

definition vector_line :: "parser \<Rightarrow> bytes \<Rightarrow> bytes list \<Rightarrow> bytes" where
  "vector_line p key values =
     mVectorType p # key @ mKeyValueSeparator p # join (mVectorElemSeparator p) values"

lemma parse_string_line:
  assumes "mKeyValueSeparator p \<notin> set key" and "key = [] \<or> hd key \<noteq> mVectorType p"
    and "mKeyValueSeparator p \<noteq> mVectorType p"
  shows "parseValue p (string_line p key value) = Inr (key, CacheValue (Put_String value))"
  using assms
  by (cases key) (simp_all add: parseValue_def string_line_def memchr_append memchr_append [of _ "[]", simplified]
      memchr_append [of _ "_ # _", simplified] parseValue_at_def)

lemma parse_vector_line:
  assumes "mKeyValueSeparator p \<notin> set key" and "mKeyValueSeparator p \<noteq> mVectorType p"
    and "\<forall>s \<in> set values. mVectorElemSeparator p \<notin> set s" and "values \<noteq> [[]]"
  shows "parseValue p (vector_line p key values) = Inr (key, CacheValue (Put_List (sort values)))"
proof -
  have "memchr (vector_line p key values) (mKeyValueSeparator p) = Some (Suc (length key))"
    using assms(1,2) memchr_append [of "mKeyValueSeparator p" "mVectorType p # key"]
    by (simp add: vector_line_def)
  moreover have "parseVector p (join (mVectorElemSeparator p) values) = sort values"
  proof (cases "values = []")
    case False
    then have "join (mVectorElemSeparator p) values \<noteq> []"
      using assms(4) by (auto simp: join_def split: list.splits)
    then show ?thesis
      using False assms(3) by (simp add: parseVector_def parseVector_loop_split stringViewSplit_loop_joined)
  qed (simp add: join_def parseVector_def)
  ultimately show ?thesis
    by (simp add: parseValue_def vector_line_def parseValue_at_def)
qed

text \<open>A line without a separator is read as an empty string under the empty key.\<close>

lemma parse_invalid_line:
  "mKeyValueSeparator p \<notin> set line \<Longrightarrow> parseValue p line = Inr ([], default_value)"
  by (simp add: parseValue_def memchr_None [THEN iffD2])

lemma default_value_eq: "default_value = CacheValue (Put_String [])"
  by (simp add: default_value_def)

section \<open>A reader as a fold of puts\<close>

fun put_all ::
  "'c put_fun \<Rightarrow> 'c \<Rightarrow> (bytes \<times> put_value) list \<Rightarrow> ('c \<times> unit outcome) option" where
  "put_all cput c [] = Some (c, Inr ())"
| "put_all cput c ((key, v) # rest) =
     (case cput c key v of
        None \<Rightarrow> None
      | Some (c', Inl e) \<Rightarrow> Some (c', Inl e)
      | Some (c', Inr _) \<Rightarrow> put_all cput c' rest)"

lemma readLines_put_all:
  assumes "list_all2 (\<lambda>l (key, v). parseValue p l = Inr (key, CacheValue v)) ls kvs"
  shows "readLines cput p c n ls =
    map_option (\<lambda>(c', r). (c', and_then r (\<lambda>_. Inr (n + of_nat (length ls))))) (put_all cput c kvs)"
  using assms
proof (induction ls kvs arbitrary: c n rule: list_all2_induct)
  case (Cons l ls kv kvs)
  obtain key v where kv: "kv = (key, v)" by (cases kv)
  have p: "parseValue p l = Inr (key, CacheValue v)" using Cons.hyps(1) kv by simp
  show ?case
    using Cons.IH
    by (simp add: p kv consumeValue_CacheValue add.assoc split: option.split sum.split)
qed simp

text \<open>Reading commutes with a map of states that the puts commute with.\<close>

lemma readLines_map:
  assumes "\<And>c k v. cput' (f c) k v = map_option (map_prod f id) (cput c k v)"
  shows "readLines cput' p (f c) n ls = map_option (map_prod f id) (readLines cput p c n ls)"
proof (induction ls arbitrary: c n)
  case (Cons l ls)
  have "consumeValue cput' (f c) kv = map_option (map_prod f id) (consumeValue cput c kv)" for kv
    by (auto simp: consumeValue_def put_as_def assms split: prod.split CacheValueType.split sum.split)
  then show ?case
    by (auto simp: Cons.IH split: sum.split option.split)
qed simp

lemma readLines_append:
  "readLines cput p c n (ls @ ls') =
     (case readLines cput p c n ls of
        None \<Rightarrow> None
      | Some (c', Inl e) \<Rightarrow> Some (c', Inl e)
      | Some (c', Inr m) \<Rightarrow> readLines cput p c' m ls')"
  by (induction ls arbitrary: c n) (simp_all split: sum.split option.split)

text \<open>Files are read as one run over all their lines.\<close>

lemma readFiles_concat:
  assumes "list_all2 (\<lambda>f ls. \<exists>content. files f = Some content \<and> getlines delim content = ls) fs lss"
  shows "readFiles cput p delim files c n fs = readLines cput p c n (concat lss)"
  using assms
  by (induction fs lss arbitrary: c n rule: list_all2_induct)
    (auto simp: readLines_append split: sum.split option.split)

section \<open>Filling a store\<close>

text \<open>The map after puts, where the first value of a key stays.\<close>

fun add_all :: "entry_map \<Rightarrow> (bytes \<times> put_value) list \<Rightarrow> entry_map" where
  "add_all M [] = M"
| "add_all M ((key, v) # rest) =
     (case (M key, put_encode v) of
        (None, Inr e) \<Rightarrow> add_all (M(key \<mapsto> (put_type v, e))) rest
      | _ \<Rightarrow> add_all M rest)"

text \<open>Sizes within the limits, and what an entry takes at most.\<close>

definition entry_ok :: "bytes \<times> put_value \<Rightarrow> bool" where
  "entry_ok kv \<longleftrightarrow>
     (\<exists>e. put_encode (snd kv) = Inr e \<and> length (fst kv) \<le> kKeyLength \<and> length e \<le> kValueLength)"

definition entry_cost :: "bytes \<times> put_value \<Rightarrow> nat" where
  "entry_cost kv =
     8 + length (fst kv) + (case put_encode (snd kv) of Inr e \<Rightarrow> length e | Inl _ \<Rightarrow> 0)"

definition total_cost :: "(bytes \<times> put_value) list \<Rightarrow> nat" where
  "total_cost kvs = sum_list (map entry_cost kvs)"

lemma total_cost_simps [simp]:
  "total_cost [] = 0" "total_cost (kv # kvs) = entry_cost kv + total_cost kvs"
  by (simp_all add: total_cost_def)

lemma add_all_keeps: "M key \<noteq> None \<Longrightarrow> add_all M kvs key = M key"
  by (induction M kvs rule: add_all.induct) (auto split: option.split sum.split)

lemma add_all_holds:
  "\<forall>kv \<in> set kvs. entry_ok kv \<Longrightarrow> M key = None \<Longrightarrow> map_of kvs key = Some v \<Longrightarrow>
     holds_value (add_all M kvs) key v"
proof (induction M kvs rule: add_all.induct)
  case (2 M k w rest)
  obtain e where e: "put_encode w = Inr e" using 2(4) by (auto simp: entry_ok_def)
  show ?case
  proof (cases "k = key")
    case True
    then show ?thesis
      using 2(5,6) add_all_keeps [of "M(key \<mapsto> (put_type w, e))" key rest] e
      by (simp add: holds_value_def)
  next
    case False
    then show ?thesis using 2 e by (cases "M k") (auto simp: fun_upd_def)
  qed
qed simp

lemma add_all_other: "M key = None \<Longrightarrow> map_of kvs key = None \<Longrightarrow> add_all M kvs key = None"
  by (induction M kvs rule: add_all.induct) (auto split: option.split sum.split if_splits)

text \<open>
  A store with a measure of its space: \<open>space c n s\<close> tells that \<open>n\<close> more entries of
  \<open>s\<close> bytes in all can be put.
\<close>

locale sized_store = typed_store virtuals reads found lax putInternal builds room accepts
  for virtuals :: "'c \<Rightarrow> lookup" and reads :: "'c \<Rightarrow> entry_map \<Rightarrow> bool"
    and found :: "bytes \<Rightarrow> bool \<Rightarrow> u64" and lax :: bool and putInternal :: "'c putter"
    and builds :: "'c \<Rightarrow> entry_map \<Rightarrow> bool" and room :: "'c \<Rightarrow> bool"
    and accepts :: "'c \<Rightarrow> bytes \<Rightarrow> bytes \<Rightarrow> bool" +
  fixes space :: "'c \<Rightarrow> nat \<Rightarrow> nat \<Rightarrow> bool"
  assumes space_room: "space c (Suc n) s \<Longrightarrow> room c"
    and space_less: "space c n s \<Longrightarrow> n' \<le> n \<Longrightarrow> s' \<le> s \<Longrightarrow> space c n' s'"
    and space_put: "builds c M \<Longrightarrow> M key = None \<Longrightarrow> length key \<le> kKeyLength \<Longrightarrow>
      length v \<le> kValueLength \<Longrightarrow> space c (Suc n) (8 + length key + length v + s) \<Longrightarrow>
      \<exists>c' k. putInternal c key t v = Some (c', Inr (True, k)) \<and> builds c' (M(key \<mapsto> (t, v))) \<and> space c' n s"
begin

lemma put_all_ok:
  assumes "builds c M" and "\<forall>kv \<in> set kvs. entry_ok kv"
    and "space c (n + length kvs) (s + total_cost kvs)"
  shows "\<exists>c'. put_all (put putInternal) c kvs = Some (c', Inr ()) \<and> builds c' (add_all M kvs) \<and> space c' n s"
  using assms
proof (induction kvs arbitrary: c M)
  case (Cons kv kvs)
  obtain key v where kv: "kv = (key, v)" by (cases kv)
  obtain e where e: "put_encode v = Inr e" "length key \<le> kKeyLength" "length e \<le> kValueLength"
    using Cons.prems(2) kv by (auto simp: entry_ok_def)
  have sp: "space c (Suc (n + length kvs)) (8 + length key + length e + (s + total_cost kvs))"
    using Cons.prems(3) kv e(1) by (simp add: entry_cost_def algebra_simps)
  show ?case
  proof (cases "M key")
    case None
    obtain c' k where p: "putInternal c key (put_type v) e = Some (c', Inr (True, k))"
      and B: "builds c' (M(key \<mapsto> (put_type v, e)))" and s': "space c' (n + length kvs) (s + total_cost kvs)"
      using space_put [OF Cons.prems(1) None e(2,3) sp] by blast
    have q: "put putInternal c key v = Some (c', Inr (True, k))" by (simp add: put_def e(1) p)
    from Cons.IH [OF B _ s'] Cons.prems(2) show ?thesis
      by (simp add: kv q e(1) None fun_upd_def)
  next
    case (Some old)
    then have "M key \<noteq> None" by simp
    from put_existing [OF Cons.prems(1) this space_room [OF sp]]
    obtain k where p: "putInternal c key (put_type v) e = Some (c, Inr (False, k))" by blast
    have "space c (n + length kvs) (s + total_cost kvs)" by (rule space_less [OF sp]) simp_all
    with Cons.IH [OF Cons.prems(1) _ this] Cons.prems(2) show ?thesis
      by (simp add: kv put_def e(1) p Some)
  qed
qed auto

end

section \<open>Properties\<close>



text \<open>A line without a separator is not skipped: it reaches the cache as a put of an empty string
  under the empty key.\<close>

theorem invalid_line_puts_empty_key:
  assumes "mKeyValueSeparator p \<notin> set line" and "cput c [] (Put_String []) = Some (c', Inr r)"
  shows "readLines cput p c n [line] = Some (c', Inr (n + 1))"
  using assms by (simp add: parse_invalid_line default_value_eq consumeValue_CacheValue del: CacheValue.simps)

theorem invalid_line_puts_empty_key_witness:
  "readLines (\<lambda>c key v. Some ((key, v) # c, Inr (True, 0))) (CacheValueParser Map.empty) [] 0 [[120]] =
     Some ([([], Put_String [])], Inr 1)"
proof -
  have "mKeyValueSeparator (CacheValueParser Map.empty) \<notin> set [120]"
    by (simp add: CacheValueParser_def set_getChar_def set_getString_def kControlCharKeyValue_default_def)
  from invalid_line_puts_empty_key [OF this, of "\<lambda>c key v. Some ((key, v) # c, Inr (True, 0))" "[]" _ "(True, 0)" 0]
  show ?thesis by simp
qed

end
