(* ===== verification/Cache_Build.thy ===== *)
theory Cache_Build
  imports Dedup_Store Map_Cache Data_Reader
begin

text \<open>
  From settings and data files to cache files: \<open>CacheFactory\<close>, \<open>CacheBuilder\<close> with
  \<open>CacheFileBuilder\<close>, and \<open>CacheGenerator\<close>.  A \<open>CacheBase *\<close> is a value of
  \<open>any_cache\<close>, and its virtual functions are functions on that type.

  The lemmas compose the components: a build reads its files into the cache, writes the
  cache file, and a loader finds in that file the first value of every key.
\<close>

section \<open>A cache of any kind\<close>

datatype any_cache =
    Any_Map map_cache | Any_Bucket bucket_cache | Any_Linear linear_cache | Any_Dedup dedup_cache

definition not_valid_type_msg :: string where
  "not_valid_type_msg = ''CacheFactory::createCache: CacheType::None is not a valid CacheType''"

text \<open>\<open>CacheFactory::createCache\<close>; a number that is no cache type ends as \<open>NONE\<close> does.\<close>

definition createCache ::
  "(bytes \<Rightarrow> u64) \<Rightarrow> (nat \<Rightarrow> nat \<Rightarrow> byte) \<Rightarrow> u16 \<Rightarrow> u64 \<Rightarrow> double \<Rightarrow> CacheType option \<Rightarrow> any_cache outcome" where
  "createCache H fresh offsetBits numberOfKeySlots maxLoadFactor type =
     (let memory = MallocMemoryHandler fresh kMemoryCapcityBytes in
      case type of
        Some MAP \<Rightarrow> Inr (Any_Map MapCacheBase)
      | Some BUCKET_CHAIN \<Rightarrow>
          and_then (HashedCacheBase (bucket_policy H) offsetBits numberOfKeySlots maxLoadFactor memory)
            (\<lambda>c. Inr (Any_Bucket c))
      | Some LINEAR_PROBE \<Rightarrow>
          and_then (HashedCacheBase (linear_policy H) offsetBits numberOfKeySlots maxLoadFactor memory)
            (\<lambda>c. Inr (Any_Linear c))
      | Some LINEAR_PROBE_DEDUP \<Rightarrow>
          and_then (LinearProbeDedupCache H offsetBits numberOfKeySlots maxLoadFactor memory LINEAR_PROBE_DEDUP)
            (\<lambda>c. Inr (Any_Dedup c))
      | Some LINEAR_PROBE_DEDUP_TYPED \<Rightarrow>
          and_then (LinearProbeDedupCache H offsetBits numberOfKeySlots maxLoadFactor memory LINEAR_PROBE_DEDUP_TYPED)
            (\<lambda>c. Inr (Any_Dedup c))
      | _ \<Rightarrow> Inl (Throw not_valid_type_msg))"

text \<open>The virtual \<open>put\<close>, in all its overloads.\<close>

definition mc_put :: "map_cache \<Rightarrow> bytes \<Rightarrow> put_value \<Rightarrow> map_cache \<times> bool \<times> u32" where
  "mc_put c key value =
     (case value of
        Put_String v \<Rightarrow> mc_put_string c key v
      | Put_List vs \<Rightarrow> mc_put_list c key vs
      | _ \<Rightarrow> mc_put_unsupported c)"

fun any_put :: "(bytes \<Rightarrow> u64) \<Rightarrow> any_cache put_fun" where
  "any_put H (Any_Map c) key value =
     (let (c', inserted, collisions) = mc_put c key value in Some (Any_Map c', Inr (inserted, collisions)))"
| "any_put H (Any_Bucket c) key value =
     map_option (map_prod Any_Bucket id) (put (hc_putInternal (bucket_policy H)) c key value)"
| "any_put H (Any_Linear c) key value =
     map_option (map_prod Any_Linear id) (put (hc_putInternal (linear_policy H)) c key value)"
| "any_put H (Any_Dedup c) key value =
     map_option (map_prod Any_Dedup id) (put (dd_putInternal H) c key value)"

text \<open>The accessors, and \<open>output\<close>.  A dedup cache of the factory has one of its two types.\<close>

fun any_access :: "(bytes \<Rightarrow> u64) \<Rightarrow> any_cache \<Rightarrow> cache_access" where
  "any_access H (Any_Map c) = mc_access cache_version c"
| "any_access H (Any_Bucket c) = hc_access (bucket_policy H) BUCKET_CHAIN c"
| "any_access H (Any_Linear c) = hc_access (linear_policy H) LINEAR_PROBE c"
| "any_access H (Any_Dedup c) = hc_access (linear_policy H) (the (dd_cacheType c)) c"

fun any_output :: "any_cache \<Rightarrow> bytes \<times> unit outcome" where
  "any_output (Any_Map c) = (mc_output c, Inr ())"
| "any_output (Any_Bucket c) = (hc_output c, Inr ())"
| "any_output (Any_Linear c) = (hc_output c, Inr ())"
| "any_output (Any_Dedup c) = dd_output c"

section \<open>Building a cache file\<close>

record file_builder =
  fb_cacheName :: bytes
  fb_outputDirectory :: bytes
  fb_fileNames :: "bytes list"
  fb_parser :: parser
  fb_lineDelimiter :: byte
  fb_cache :: any_cache

definition no_input_msg :: string where "no_input_msg = ''No input datafile''"

definition CacheFileBuilder ::
  "settings \<Rightarrow> bytes \<Rightarrow> bytes \<Rightarrow> bytes list \<Rightarrow> any_cache \<Rightarrow> file_builder outcome" where
  "CacheFileBuilder s outputDirectory cacheName fileNames cache =
     (if fileNames = [] then Inl (Throw no_input_msg)
      else Inr \<lparr>fb_cacheName = cacheName, fb_outputDirectory = outputDirectory,
                fb_fileNames = fileNames, fb_parser = CacheValueParser s,
                fb_lineDelimiter = set_getChar s kControlCharLine kControlCharLine_default,
                fb_cache = cache\<rparr>)"

text \<open>\<open>save\<close>: a writer for the cache, and its \<open>write\<close>.\<close>

definition save :: "(bytes \<Rightarrow> u64) \<Rightarrow> u64 \<Rightarrow> bytes \<Rightarrow> files \<Rightarrow> file_builder \<Rightarrow> files \<times> unit outcome" where
  "save H now junk files b =
     CacheFileWriter_write files (fb_outputDirectory b) (fb_cacheName b)
       (any_access H (fb_cache b)) (any_output (fb_cache b)) now junk"

definition build ::
  "(bytes \<Rightarrow> u64) \<Rightarrow> u64 \<Rightarrow> bytes \<Rightarrow> files \<Rightarrow> file_builder \<Rightarrow>
   (file_builder \<times> files \<times> unit outcome) option" where
  "build H now junk files b =
     (case readValues (any_put H) (fb_parser b) (fb_lineDelimiter b) files (fb_fileNames b) (fb_cache b) of
        None \<Rightarrow> None
      | Some (c, Inl e) \<Rightarrow> Some (b\<lparr>fb_cache := c\<rparr>, files, Inl e)
      | Some (c, Inr _) \<Rightarrow>
          (let b' = b\<lparr>fb_cache := c\<rparr>; (files', r) = save H now junk files b' in Some (b', files', r)))"

section \<open>The generator\<close>

definition kCacheNames :: bytes where "kCacheNames = lit ''axoncache.names''"
definition kCacheType :: bytes where "kCacheType = lit ''axoncache.type''"
definition kOutputDir :: bytes where "kOutputDir = lit ''axoncache.output_dir''"
definition kInputDir :: bytes where "kInputDir = lit ''axoncache.input_dir''"
definition kInputFiles :: bytes where "kInputFiles = lit ''axoncache.input_files''"
definition kOffsetBits :: bytes where "kOffsetBits = lit ''axoncache.offset_bits''"
definition kKeySlots :: bytes where "kKeySlots = lit ''axoncache.key_slots''"
definition kMaxLoadFactor :: bytes where "kMaxLoadFactor = lit ''axoncache.max_load_factor''"

definition kCacheNames_default :: bytes where "kCacheNames_default = lit ''axoncache''"
definition kCacheType_default :: int where "kCacheType_default = int (CacheType_code BUCKET_CHAIN)"
definition kDirectory_default :: bytes where "kDirectory_default = lit ''/var/lib/applovin/datamover''"
definition kBucketChainOffsetBits :: int where "kBucketChainOffsetBits = 64"
definition kLinearProbeOffsetBits :: int where "kLinearProbeOffsetBits = 35"
definition kKeySlots_default :: int where "kKeySlots_default = 1024"
definition kMaxLoadFactor_default :: double where "kMaxLoadFactor_default = 0x3FE0000000000000"

record cache_args =
  ca_offsetBits :: u16
  ca_numberOfKeySlots :: u64
  ca_maxLoadFactor :: double
  ca_cacheName :: bytes
  ca_cacheType :: "CacheType option"
  ca_outputDirectory :: bytes
  ca_inputFiles :: "bytes list"

text \<open>The input paths: the directory string is extended in place, file after file.\<close>

fun input_paths :: "bytes \<Rightarrow> bytes list \<Rightarrow> bytes list" where
  "input_paths inputDir [] = []"
| "input_paths inputDir (inputFile # rest) =
     (let path = inputDir @ [47] @ inputFile in path # input_paths path rest)"

definition generator_args :: "u64 float_parser \<Rightarrow> settings \<Rightarrow> bytes \<Rightarrow> cache_args" where
  "generator_args ff s cacheName =
     (let setting = (\<lambda>key. key @ lit ''.'' @ cacheName);
          type = CacheType_of (set_getInt s (setting kCacheType) kCacheType_default);
          offsetBits = set_getInt s (setting kOffsetBits)
            (if type = Some BUCKET_CHAIN then kBucketChainOffsetBits
             else if type = Some LINEAR_PROBE then kLinearProbeOffsetBits else 0)
      in \<lparr>ca_offsetBits = of_int offsetBits,
          ca_numberOfKeySlots = of_int (set_getInt s (setting kKeySlots) kKeySlots_default),
          ca_maxLoadFactor = set_getDouble ff s (setting kMaxLoadFactor) kMaxLoadFactor_default,
          ca_cacheName = cacheName, ca_cacheType = type,
          ca_outputDirectory = set_getString s (setting kOutputDir) kDirectory_default,
          ca_inputFiles =
            input_paths (set_getString s (setting kInputDir) kDirectory_default)
              (getlines 44 (set_getString s (setting kInputFiles) []))\<rparr>)"

definition CacheGenerator :: "u64 float_parser \<Rightarrow> settings \<Rightarrow> cache_args list" where
  "CacheGenerator ff s =
     map (generator_args ff s) (getlines 44 (set_getString s kCacheNames kCacheNames_default))"

text \<open>What a build takes from outside: the clock and the contents of uninitialised memory.\<close>

record surroundings =
  sr_now :: u64
  sr_junk :: bytes
  sr_fresh :: "nat \<Rightarrow> nat \<Rightarrow> byte"
  sr_fresh_values :: "nat \<Rightarrow> nat \<Rightarrow> byte"

definition dedup_type :: "CacheType option \<Rightarrow> bool" where
  "dedup_type t \<longleftrightarrow> t = Some LINEAR_PROBE_DEDUP \<or> t = Some LINEAR_PROBE_DEDUP_TYPED"

text \<open>The cast to \<open>LinearProbeDedupCache *\<close> is not checked.\<close>

definition register_values ::
  "(nat \<Rightarrow> nat \<Rightarrow> byte) \<Rightarrow> bytes list \<Rightarrow> any_cache \<Rightarrow> any_cache outcome" where
  "register_values fresh values cache =
     (case cache of
        Any_Dedup c \<Rightarrow> and_then (setDuplicatedValues fresh c values) (\<lambda>c'. Inr (Any_Dedup c'))
      | _ \<Rightarrow> Inl (Undefined Bad_Cast))"

definition generate_one ::
  "(bytes \<Rightarrow> u64) \<Rightarrow> settings \<Rightarrow> surroundings \<Rightarrow> bytes list \<Rightarrow> files \<Rightarrow> cache_args \<Rightarrow>
   (files \<times> unit outcome) option" where
  "generate_one H s env values files a =
     (case and_then (createCache H (sr_fresh env) (ca_offsetBits a) (ca_numberOfKeySlots a)
                       (ca_maxLoadFactor a) (ca_cacheType a)) (\<lambda>c0.
           and_then (if values \<noteq> [] \<and> dedup_type (ca_cacheType a)
                     then register_values (sr_fresh_values env) values c0 else Inr c0) (\<lambda>c.
             CacheFileBuilder s (ca_outputDirectory a) (ca_cacheName a) (ca_inputFiles a) c)) of
        Inl e \<Rightarrow> Some (files, Inl e)
      | Inr b \<Rightarrow> map_option snd (build H (sr_now env) (sr_junk env) files b))"

fun generate ::
  "(bytes \<Rightarrow> u64) \<Rightarrow> settings \<Rightarrow> (nat \<Rightarrow> surroundings) \<Rightarrow> bytes list \<Rightarrow> files \<Rightarrow> cache_args list \<Rightarrow>
   (files \<times> unit outcome) option" where
  "generate H s env values files [] = Some (files, Inr ())"
| "generate H s env values files (a # rest) =
     (case generate_one H s (env 0) values files a of
        None \<Rightarrow> None
      | Some (files', Inl e) \<Rightarrow> Some (files', Inl e)
      | Some (files', Inr _) \<Rightarrow> generate H s (\<lambda>i. env (Suc i)) values files' rest)"

text \<open>\<open>CacheGenerator::start\<close>.\<close>

definition generator_start ::
  "(bytes \<Rightarrow> u64) \<Rightarrow> u64 float_parser \<Rightarrow> settings \<Rightarrow> (nat \<Rightarrow> surroundings) \<Rightarrow> bytes list \<Rightarrow> files \<Rightarrow>
   (files \<times> unit outcome) option" where
  "generator_start H ff s env values files = generate H s env values files (CacheGenerator ff s)"

section \<open>The linear-probe caches as sized stores\<close>

definition lp_space :: "'m lp_cache_scheme \<Rightarrow> nat \<Rightarrow> nat \<Rightarrow> bool" where
  "lp_space c n s \<longleftrightarrow>
     entries c + n \<le> unat (hc_maxNumberOfEntries c) \<and> data_end c + s \<le> mem_limit \<and>
     data_end c + s \<le> 2 ^ unat (lp_offsetBits (hc_probe c)) + (keyspace_bytes (hc_probe c) - 8)"

lemma lp_space_room: "lp_space c (Suc n) s \<Longrightarrow> lp_room c"
  by (simp add: lp_space_def lp_room_def entries_def word_less_nat_alt)

lemma lp_space_less: "lp_space c n s \<Longrightarrow> n' \<le> n \<Longrightarrow> s' \<le> s \<Longrightarrow> lp_space c n' s'"
  by (simp add: lp_space_def)

lemma lp_space_reachable: "lp_space c n (8 + s) \<Longrightarrow> reachable_end c"
proof -
  assume "lp_space c n (8 + s)"
  then have "data_end c + 8 \<le> 2 ^ unat (lp_offsetBits (hc_probe c)) + (keyspace_bytes (hc_probe c) - 8)"
    by (simp add: lp_space_def)
  moreover have "a - b < x" if "a + 8 \<le> x + b" "0 < x" for a b x :: nat using that by linarith
  ultimately show ?thesis unfolding reachable_end_def by simp
qed

lemma linear_space_put:
  assumes "lp_builds H [] c M" and "M key = None" and "length key \<le> kKeyLength"
    and "length v \<le> kValueLength" and sp: "lp_space c (Suc n) (8 + length key + length v + s)"
  shows "\<exists>c' k. hc_putInternal (linear_policy H) c key t v = Some (c', Inr (True, k)) \<and>
    lp_builds H [] c' (M(key \<mapsto> (t, v))) \<and> lp_space c' n s"
proof -
  have r: "hdr_numberOfEntries (hc_header c) < hc_maxNumberOfEntries c"
    using lp_space_room [OF sp] by (simp add: lp_room_def)
  have lim: "data_end c + entry_size key v \<le> mem_limit"
    using sp by (simp add: lp_space_def entry_size_def)
  have "reachable_end c" using sp lp_space_reachable [of c "Suc n" "length key + length v + s"] by (simp add: add.assoc)
  from linear_put_new [OF assms(1,2) r assms(3,4) lim this, of t] obtain c' k where
    "hc_putInternal (linear_policy H) c key t v = Some (c', Inr (True, k))"
    "lp_builds H [] c' (M(key \<mapsto> (t, v)))" "entries c' = Suc (entries c)"
    "data_end c' = data_end c + entry_size key v"
    "hc_maxNumberOfEntries c' = hc_maxNumberOfEntries c" "hc_probe c' = hc_probe c" by blast
  then show ?thesis using sp by (auto simp: lp_space_def entry_size_def)
qed

text \<open>The space of a dedup cache, with what its insertions leave as it is.\<close>

definition dedup_space :: "bytes list \<Rightarrow> CacheType option \<Rightarrow> dedup_cache \<Rightarrow> nat \<Rightarrow> nat \<Rightarrow> bool" where
  "dedup_space vs ty c n s \<longleftrightarrow>
     lp_space c n s \<and> values_kept c \<and> dd_values c = vs \<and> dd_cacheType c = ty"

lemma dedup_space_room: "dedup_space vs ty c (Suc n) s \<Longrightarrow> lp_room c"
  by (auto simp: dedup_space_def intro: lp_space_room)

lemma dedup_space_less: "dedup_space vs ty c n s \<Longrightarrow> n' \<le> n \<Longrightarrow> s' \<le> s \<Longrightarrow> dedup_space vs ty c n' s'"
  by (auto simp: dedup_space_def intro: lp_space_less)

lemma payload_size_le: "payload_size c v \<le> length v + 2"
  by (simp add: payload_size_def split: option.split)

lemma dedup_space_put:
  assumes "dedup_builds H c M" and "M key = None" and "length key \<le> kKeyLength"
    and "length v \<le> kValueLength" and dsp: "dedup_space vs ty c (Suc n) (8 + length key + length v + s)"
  shows "\<exists>c' k. dd_putInternal H c key t v = Some (c', Inr (True, k)) \<and>
    dedup_builds H c' (M(key \<mapsto> (t, v))) \<and> dedup_space vs ty c' n s"
proof -
  have sp: "lp_space c (Suc n) (8 + length key + length v + s)"
    and kept: "values_kept c" "dd_values c = vs" "dd_cacheType c = ty"
    using dsp by (simp_all add: dedup_space_def)
  have lim: "data_end c + entry_size key v + 2 \<le> mem_limit"
    using sp by (simp add: lp_space_def entry_size_def)
  have "reachable_end c" using sp lp_space_reachable [of c "Suc n" "length key + length v + s"] by (simp add: add.assoc)
  then have "dedup_accepts c key v"
    using lim lp_space_room [OF sp] assms(3,4) by (simp add: dedup_accepts_def)
  from dedup_put_sized [OF assms(1,2) this, of t] obtain c' k h where
    p: "dd_putInternal H c key t v = Some (c', Inr (True, k))" "dedup_builds H c' (M(key \<mapsto> (t, v)))"
    and e: "entries c' = Suc (entries c)" "data_end c' = data_end c + 6 + length key + payload_size c v"
    and c': "c' = updateKeySpacePtr (count_entry k (c\<lparr>hc_memory := h\<rparr>))" by blast
  have "hc_maxNumberOfEntries c' = hc_maxNumberOfEntries c" "hc_probe c' = hc_probe c"
    by (simp_all add: c' updateKeySpacePtr_def count_entry_def)
  then have "lp_space c' n s"
    using sp e payload_size_le [of c v] by (simp add: lp_space_def)
  moreover have "dd_values c' = dd_values c" "dd_cacheType c' = dd_cacheType c"
    "dd_valuesMemory c' = dd_valuesMemory c" "dd_isValuesLoaded c' = dd_isValuesLoaded c"
    by (simp_all add: c' updateKeySpacePtr_def count_entry_def)
  ultimately have "dedup_space vs ty c' n s"
    using kept by (simp add: dedup_space_def values_kept_def split: option.splits)
  with p show ?thesis by blast
qed

interpretation linear_sized: sized_store "linear_lookup H" "lp_reads H []" "found_hash H" True
  "hc_putInternal (linear_policy H)" "lp_builds H []" lp_room lp_accepts lp_space
  for H :: "bytes \<Rightarrow> u64"
  by unfold_locales (blast intro: lp_space_room lp_space_less linear_space_put)+

interpretation dedup_sized: sized_store "dedup_lookup H" "dedup_reads H" "found_hash H" True
  "dd_putInternal H" "dedup_builds H" lp_room dedup_accepts "dedup_space vs ty"
  for H :: "bytes \<Rightarrow> u64" and vs ty
  by unfold_locales (blast intro: dedup_space_room dedup_space_less dedup_space_put)+

section \<open>From data files to a loaded cache\<close>

text \<open>The data of a builder: its files hold lines that parse to these keys and values.\<close>

definition holds_data :: "files \<Rightarrow> file_builder \<Rightarrow> (bytes \<times> put_value) list \<Rightarrow> bool" where
  "holds_data files b kvs \<longleftrightarrow>
     (\<exists>lss. list_all2 (\<lambda>f ls. \<exists>content. files f = Some content \<and> getlines (fb_lineDelimiter b) content = ls)
              (fb_fileNames b) lss \<and>
            list_all2 (\<lambda>l (key, v). parseValue (fb_parser b) l = Inr (key, CacheValue v)) (concat lss) kvs)"

text \<open>Reading such files into a cache of one kind is the fold of its own put.\<close>

lemma build_reads:
  assumes "holds_data files b kvs" and "fb_cache b = f c"
    and "\<And>c k v. any_put H (f c) k v = map_option (map_prod f id) (cput c k v)"
    and "put_all cput c kvs = Some (c', Inr ())"
  shows "build H now junk files b =
    (let b' = b\<lparr>fb_cache := f c'\<rparr>; (files', r) = save H now junk files b' in Some (b', files', r))"
proof -
  obtain lss where lss: "list_all2 (\<lambda>f ls. \<exists>content. files f = Some content \<and>
      getlines (fb_lineDelimiter b) content = ls) (fb_fileNames b) lss"
    and ps: "list_all2 (\<lambda>l (key, v). parseValue (fb_parser b) l = Inr (key, CacheValue v)) (concat lss) kvs"
    using assms(1) by (auto simp: holds_data_def)
  have "readValues (any_put H) (fb_parser b) (fb_lineDelimiter b) files (fb_fileNames b) (f c) =
      map_option (map_prod f id) (readLines cput (fb_parser b) c 0 (concat lss))"
    unfolding readValues_def readFiles_concat [OF lss] by (rule readLines_map) (rule assms(3))
  then show ?thesis
    by (simp add: build_def assms(2) readLines_put_all [OF ps] assms(4))
qed

text \<open>What a loaded cache gives for each key: its first value, or that it is absent.\<close>

definition serves :: "float_lib \<Rightarrow> (bytes \<Rightarrow> u64) \<Rightarrow> lookup \<Rightarrow> (bytes \<times> put_value) list \<Rightarrow> bool" where
  "serves fl H vt kvs \<longleftrightarrow>
     (\<forall>key. case map_of kvs key of
        Some v \<Rightarrow> reads_back fl vt (H key) key v
      | None \<Rightarrow> \<forall>d. getString vt key d = Some (Inr (d, False, 0)))"

lemma linear_serves:
  assumes "lp_reads H [] c (add_all Map.empty kvs)" and "\<forall>kv \<in> set kvs. entry_ok kv"
  shows "serves fl H (linear_lookup H c) kvs"
  unfolding serves_def
proof (intro allI)
  fix key
  show "case map_of kvs key of
        Some v \<Rightarrow> reads_back fl (linear_lookup H c) (H key) key v
      | None \<Rightarrow> \<forall>d. getString (linear_lookup H c) key d = Some (Inr (d, False, 0))"
    using linear.holds_reads_back [OF assms(1) add_all_holds [OF assms(2)]]
      linear.getString_absent [OF assms(1) add_all_other]
    by (simp add: found_hash_def split: option.split)
qed

lemma dedup_serves:
  assumes "dedup_reads H c (add_all Map.empty kvs)" and "\<forall>kv \<in> set kvs. entry_ok kv"
  shows "serves fl H (dedup_lookup H c) kvs"
  unfolding serves_def
proof (intro allI)
  fix key
  show "case map_of kvs key of
        Some v \<Rightarrow> reads_back fl (dedup_lookup H c) (H key) key v
      | None \<Rightarrow> \<forall>d. getString (dedup_lookup H c) key d = Some (Inr (d, False, 0))"
    using dedup.holds_reads_back [OF assms(1) add_all_holds [OF assms(2)]]
      dedup.getString_absent [OF assms(1) add_all_other]
    by (simp add: found_hash_def split: option.split)
qed

lemma linear_build:
  assumes data: "holds_data files b kvs" and c: "fb_cache b = Any_Linear c"
    and B: "lp_builds H [] c Map.empty" and ok: "\<forall>kv \<in> set kvs. entry_ok kv"
    and sp: "lp_space c (length kvs) (total_cost kvs)" and junk: "length junk = kMaxCacheNameSize"
  shows "\<exists>b' files' c'. build H now junk files b = Some (b', files', Inr ()) \<and>
    load_linear H True files' (fullCacheFileName (fb_outputDirectory b) (fb_cacheName b)) =
      Inr (c', file_timestamp (fullCacheFileName (fb_outputDirectory b) (fb_cacheName b))) \<and>
    serves fl H (linear_lookup H c') kvs \<and>
    has_type files' (fullCacheFileName (fb_outputDirectory b) (fb_cacheName b)) LINEAR_PROBE"
proof -
  obtain c1 where p: "put_all (put (hc_putInternal (linear_policy H))) c kvs = Some (c1, Inr ())"
    and B1: "lp_builds H [] c1 (add_all Map.empty kvs)" and s1: "lp_space c1 0 0"
    using linear_sized.put_all_ok [OF B ok, of 0 0] sp by auto
  have lim: "data_end c1 \<le> mem_limit" using s1 by (simp add: lp_space_def)
  obtain files' r where w: "CacheFileWriter_write files (fb_outputDirectory b) (fb_cacheName b)
      (hc_access (linear_policy H) LINEAR_PROBE c1) (hc_output c1, Inr ()) now junk = (files', r)"
    by (cases "CacheFileWriter_write files (fb_outputDirectory b) (fb_cacheName b)
      (hc_access (linear_policy H) LINEAR_PROBE c1) (hc_output c1, Inr ()) now junk")
  note rt = linear_file_round_trip [OF B1 junk lim w]
  have "build H now junk files b = Some (b\<lparr>fb_cache := Any_Linear c1\<rparr>, files', r)"
    using build_reads [OF data, of Any_Linear c H "put (hc_putInternal (linear_policy H))" c1 now junk] c p w
    by (simp add: save_def)
  moreover have "has_type files' (fullCacheFileName (fb_outputDirectory b) (fb_cacheName b)) LINEAR_PROBE"
    using written_has_type [OF junk w] by (simp add: hc_access_def)
  ultimately show ?thesis using rt linear_serves [OF _ ok] by blast
qed

text \<open>C1: building a linear-probe cache from data files and loading the cache file it writes: the
  build ends without an error, the loader accepts the file, and each key of the data files reads
  back as the first value the files give it, while other keys are absent.\<close>

theorem linear_build_round_trip:
  assumes "holds_data files b kvs" and "fb_cache b = Any_Linear c"
    and "lp_builds H [] c Map.empty" and "\<forall>kv \<in> set kvs. entry_ok kv"
    and "lp_space c (length kvs) (total_cost kvs)" and "length junk = kMaxCacheNameSize"
  shows "\<exists>b' files' c'. build H now junk files b = Some (b', files', Inr ()) \<and>
    load_linear H True files' (fullCacheFileName (fb_outputDirectory b) (fb_cacheName b)) =
      Inr (c', file_timestamp (fullCacheFileName (fb_outputDirectory b) (fb_cacheName b))) \<and>
    serves fl H (linear_lookup H c') kvs"
  using linear_build [OF assms] by blast

text \<open>C4: putting any sequence of keys and values into a linear-probe cache with enough room refines
  the abstract map in which the first value of a key stays: no put fails, whatever the order and
  the repetitions of the keys, and the cache represents the resulting map.\<close>

theorem linear_fill_refines:
  fixes c :: linear_cache
  assumes "lp_builds H [] c M" and "\<forall>kv \<in> set kvs. entry_ok kv"
    and "lp_space c (length kvs) (total_cost kvs)"
  shows "\<exists>c'. put_all (put (hc_putInternal (linear_policy H))) c kvs = Some (c', Inr ()) \<and>
    lp_builds H [] c' (add_all M kvs)"
  using linear_sized.put_all_ok [OF assms(1,2), of 0 0] assms(3) by auto

theorem linear_fill_refines_witness:
  "\<exists>c c'. small_cache (\<lambda>key. 0) = Inr c \<and>
     put_all (put (hc_putInternal (linear_policy (\<lambda>key. 0)))) c
       [(lit ''k'', Put_Bool True), (lit ''k'', Put_Bool False)] = Some (c', Inr ()) \<and>
     lp_builds (\<lambda>key. 0) [] c' [lit ''k'' \<mapsto> (TBool, [1])]"
proof -
  let ?H = "\<lambda>key :: bytes. 0 :: u64" and ?kvs = "[(lit ''k'', Put_Bool True), (lit ''k'', Put_Bool False)]"
  obtain c where c: "small_cache ?H = Inr c" "lp_builds ?H [] c Map.empty" "entries c = 0"
    "hc_maxNumberOfEntries c = 2" "lp_offsetBits (hc_probe c) = 16" "data_end c = 32"
    using small_cache by metis
  have ok: "\<forall>kv \<in> set ?kvs. entry_ok kv"
    by (simp add: entry_ok_def kKeyLength_def kValueLength_def bool_to_string_def)
  have sp: "lp_space c (length ?kvs) (total_cost ?kvs)"
    by (simp add: lp_space_def entry_cost_def c mem_limit_def bool_to_string_def)
  from linear_fill_refines [OF c(2) ok sp] c(1) show ?thesis
    by (auto simp: bool_to_string_def)
qed

text \<open>A small example: one data file with a string line, read with the default settings.\<close>

definition small_files :: files where
  "small_files = [lit ''f'' \<mapsto> string_line (CacheValueParser Map.empty) (lit ''k'') (lit ''v'') @ [30]]"

definition small_builder :: "any_cache \<Rightarrow> file_builder" where
  "small_builder c =
     \<lparr>fb_cacheName = lit ''n'', fb_outputDirectory = lit ''d'', fb_fileNames = [lit ''f''],
      fb_parser = CacheValueParser Map.empty, fb_lineDelimiter = 30, fb_cache = c\<rparr>"

lemma default_parser: "CacheValueParser Map.empty = \<lparr>mVectorType = 1, mVectorElemSeparator = 124, mKeyValueSeparator = 61\<rparr>"
  by (simp add: CacheValueParser_def set_getChar_def set_getString_def kControlCharVectorType_default_def
      kControlCharVectorElem_default_def kControlCharKeyValue_default_def)

lemma small_data: "holds_data small_files (small_builder c) [(lit ''k'', Put_String (lit ''v''))]"
proof -
  let ?l = "string_line (CacheValueParser Map.empty) (lit ''k'') (lit ''v'')"
  have "getlines 30 (concat (map (\<lambda>l. l @ [30]) [?l])) = [?l]"
    by (rule getlines_concat) (simp add: default_parser string_line_def lit_def)
  then have "getlines 30 (?l @ [30]) = [?l]" by simp
  moreover have "parseValue (CacheValueParser Map.empty) ?l =
      Inr (lit ''k'', CacheValue (Put_String (lit ''v'')))"
    by (rule parse_string_line) (simp_all add: default_parser lit_def)
  ultimately show ?thesis
    by (simp add: holds_data_def small_builder_def small_files_def list_all2_Cons1 exI [of _ "[[?l]]"])
qed

lemma small_entry_ok: "\<forall>kv \<in> set [(lit ''k'', Put_String (lit ''v''))]. entry_ok kv"
  by (simp add: entry_ok_def kKeyLength_def kValueLength_def)

lemma small_cost: "total_cost [(lit ''k'', Put_String (lit ''v''))] = 11"
  by (simp add: entry_cost_def)

theorem linear_build_round_trip_witness:
  "\<exists>c b' files' c' ts. small_cache (\<lambda>key. 0) = Inr c \<and>
     build (\<lambda>key. 0) 0 (replicate 32 0) small_files (small_builder (Any_Linear c)) =
       Some (b', files', Inr ()) \<and>
     load_linear (\<lambda>key. 0) True files' (lit ''d/n.cache'') = Inr (c', ts) \<and>
     getString (linear_lookup (\<lambda>key. 0) c') (lit ''k'') [] = Some (Inr (lit ''v'', True, 0)) \<and>
     getString (linear_lookup (\<lambda>key. 0) c') (lit ''x'') [] = Some (Inr ([], False, 0))"
proof -
  let ?H = "\<lambda>key :: bytes. 0 :: u64" and ?kvs = "[(lit ''k'', Put_String (lit ''v''))]"
  obtain c where c: "small_cache ?H = Inr c" "lp_builds ?H [] c Map.empty" "entries c = 0"
    "hc_maxNumberOfEntries c = 2" "lp_offsetBits (hc_probe c) = 16" "data_end c = 32"
    using small_cache by metis
  have sp: "lp_space c (length ?kvs) (total_cost ?kvs)"
    unfolding small_cost by (simp add: lp_space_def c mem_limit_def)
  have path: "fullCacheFileName (lit ''d'') (lit ''n'') = lit ''d/n.cache''"
    by (simp add: fullCacheFileName_def kCacheFileNameSuffix_def lit_def)
  have "\<exists>b' files' c'. build ?H 0 (replicate 32 0) small_files (small_builder (Any_Linear c)) = Some (b', files', Inr ()) \<and>
    load_linear ?H True files' (fullCacheFileName (fb_outputDirectory (small_builder (Any_Linear c)))
        (fb_cacheName (small_builder (Any_Linear c)))) =
      Inr (c', file_timestamp (fullCacheFileName (fb_outputDirectory (small_builder (Any_Linear c)))
        (fb_cacheName (small_builder (Any_Linear c))))) \<and>
    serves undefined ?H (linear_lookup ?H c') ?kvs"
    by (rule linear_build_round_trip [OF small_data _ c(2) small_entry_ok sp])
      (simp_all add: small_builder_def kMaxCacheNameSize_def)
  then obtain b' files' c' where r: "build ?H 0 (replicate 32 0) small_files (small_builder (Any_Linear c)) = Some (b', files', Inr ())"
    "load_linear ?H True files' (lit ''d/n.cache'') = Inr (c', file_timestamp (lit ''d/n.cache''))"
    "serves undefined ?H (linear_lookup ?H c') ?kvs"
    by (auto simp: small_builder_def path)
  have "getString (linear_lookup ?H c') (lit ''k'') [] = Some (Inr (lit ''v'', True, 0))"
    using r(3) [unfolded serves_def, rule_format, of "lit ''k''"] by (simp add: reads_back_def)
  moreover have "getString (linear_lookup ?H c') (lit ''x'') [] = Some (Inr ([], False, 0))"
    using r(3) [unfolded serves_def, rule_format, of "lit ''x''"] by (simp add: lit_def)
  ultimately show ?thesis using c(1) r(1,2) by blast
qed

text \<open>C3: the same for a dedup cache with registered values, of either type and with fewer than
  65536 values: the file carries the values behind the data, and the loaded cache resolves the
  indices in its records to the same values.\<close>

theorem dedup_build_round_trip:
  assumes data: "holds_data files b kvs" and c: "fb_cache b = Any_Dedup c"
    and B: "dedup_builds H c Map.empty" and ok: "\<forall>kv \<in> set kvs. entry_ok kv"
    and kept: "values_kept c" and ty: "dd_cacheType c = Some ty" "dedup_type (Some ty)"
    and vs: "length (dd_values c) < 65536" "\<forall>v \<in> set (dd_values c). length v < 2 ^ 32"
    and sp: "lp_space c (length kvs) (length (values_block (dd_values c)) + total_cost kvs)"
    and junk: "length junk = kMaxCacheNameSize"
  shows "\<exists>b' files' c'. build H now junk files b = Some (b', files', Inr ()) \<and>
    load_dedup H True files' (fullCacheFileName (fb_outputDirectory b) (fb_cacheName b)) =
      Inr (c', file_timestamp (fullCacheFileName (fb_outputDirectory b) (fb_cacheName b))) \<and>
    getDuplicatedValues c' = getDuplicatedValues c \<and> serves fl H (dedup_lookup H c') kvs"
proof -
  let ?vs = "dd_values c" and ?dir = "fb_outputDirectory b" and ?name = "fb_cacheName b"
  have "dedup_space ?vs (Some ty) c (0 + length kvs) (length (values_block ?vs) + total_cost kvs)"
    using sp kept ty by (simp add: dedup_space_def)
  then obtain c1 where p: "put_all (put (dd_putInternal H)) c kvs = Some (c1, Inr ())"
    and B1: "dedup_builds H c1 (add_all Map.empty kvs)"
    and s1: "dedup_space ?vs (Some ty) c1 0 (length (values_block ?vs))"
    using dedup_sized.put_all_ok [OF B ok] by blast
  have k1: "values_kept c1" "dd_values c1 = ?vs" "dd_cacheType c1 = Some ty"
    and lim: "data_end c1 + length (values_block (dd_values c1)) \<le> mem_limit"
    using s1 by (auto simp: dedup_space_def lp_space_def)
  obtain files' r where w: "CacheFileWriter_write files ?dir ?name
      (hc_access (linear_policy H) ty c1) (dd_output c1) now junk = (files', r)"
    by (cases "CacheFileWriter_write files ?dir ?name (hc_access (linear_policy H) ty c1) (dd_output c1) now junk")
  have ty': "ty = LINEAR_PROBE_DEDUP \<or> ty = LINEAR_PROBE_DEDUP_TYPED"
    using ty(2) by (simp add: dedup_type_def)
  have vs': "length (dd_values c1) < 65536" "\<forall>v \<in> set (dd_values c1). length v < 2 ^ 32"
    using vs k1(2) by simp_all
  note rt = dedup_file_round_trip [OF B1 junk k1(3) ty' k1(1) vs' lim w]
  have "build H now junk files b = Some (b\<lparr>fb_cache := Any_Dedup c1\<rparr>, files', r)"
    using build_reads [OF data, of Any_Dedup c H "put (dd_putInternal H)" c1 now junk] c p w k1(3)
    by (simp add: save_def)
  with rt dedup_serves [OF _ ok] k1(2) show ?thesis by (auto simp: getDuplicatedValues_def)
qed

theorem dedup_build_round_trip_witness:
  "\<exists>c0 c b' files' c' ts. small_dedup (\<lambda>key. 0) = Inr c0 \<and>
     setDuplicatedValues (\<lambda>b i. 0) c0 [nul_terminate (lit ''v'')] = Inr c \<and>
     build (\<lambda>key. 0) 0 (replicate 32 0) small_files (small_builder (Any_Dedup c)) =
       Some (b', files', Inr ()) \<and>
     load_dedup (\<lambda>key. 0) True files' (lit ''d/n.cache'') = Inr (c', ts) \<and>
     getDuplicatedValues c' = [nul_terminate (lit ''v'')] \<and>
     getString (dedup_lookup (\<lambda>key. 0) c') (lit ''k'') [] = Some (Inr (lit ''v'', True, 0))"
proof -
  let ?H = "\<lambda>key :: bytes. 0 :: u64" and ?kvs = "[(lit ''k'', Put_String (lit ''v''))]"
    and ?vs = "[nul_terminate (lit ''v'')]"
  obtain c0 c where c: "small_dedup ?H = Inr c0" "setDuplicatedValues (\<lambda>b i. 0) c0 ?vs = Inr c"
    "dedup_builds ?H c Map.empty" "values_kept c" "dd_values c = ?vs"
    "dd_cacheType c = Some LINEAR_PROBE_DEDUP_TYPED" "entries c = 0" "data_end c = 32"
    "hc_maxNumberOfEntries c = 2" "lp_offsetBits (hc_probe c) = 16"
    by (rule small_dedup_values [of ?vs ?H "\<lambda>b i. 0"]) (simp_all add: mem_limit_def)
  have "length (values_block (dd_values c)) = 16"
    by (simp add: c(5) length_values_block)
  then have sp: "lp_space c (length ?kvs) (length (values_block (dd_values c)) + total_cost ?kvs)"
    unfolding small_cost by (simp add: lp_space_def c mem_limit_def)
  have path: "fullCacheFileName (lit ''d'') (lit ''n'') = lit ''d/n.cache''"
    by (simp add: fullCacheFileName_def kCacheFileNameSuffix_def lit_def)
  have "\<exists>b' files' c'. build ?H 0 (replicate 32 0) small_files (small_builder (Any_Dedup c)) = Some (b', files', Inr ()) \<and>
    load_dedup ?H True files' (fullCacheFileName (fb_outputDirectory (small_builder (Any_Dedup c)))
        (fb_cacheName (small_builder (Any_Dedup c)))) =
      Inr (c', file_timestamp (fullCacheFileName (fb_outputDirectory (small_builder (Any_Dedup c)))
        (fb_cacheName (small_builder (Any_Dedup c))))) \<and>
    getDuplicatedValues c' = getDuplicatedValues c \<and> serves undefined ?H (dedup_lookup ?H c') ?kvs"
    by (rule dedup_build_round_trip [OF small_data _ c(3) small_entry_ok c(4,6) _ _ _ sp])
      (simp_all add: small_builder_def kMaxCacheNameSize_def dedup_type_def c)
  then obtain b' files' c' where r: "build ?H 0 (replicate 32 0) small_files (small_builder (Any_Dedup c)) = Some (b', files', Inr ())"
    "load_dedup ?H True files' (lit ''d/n.cache'') = Inr (c', file_timestamp (lit ''d/n.cache''))"
    "getDuplicatedValues c' = ?vs" "serves undefined ?H (dedup_lookup ?H c') ?kvs"
    by (auto simp: small_builder_def path getDuplicatedValues_def c(5))
  have "getString (dedup_lookup ?H c') (lit ''k'') [] = Some (Inr (lit ''v'', True, 0))"
    using r(4) [unfolded serves_def, rule_format, of "lit ''k''"] by (simp add: reads_back_def)
  with c(1,2) r(1-3) show ?thesis by blast
qed

section \<open>The generator\<close>

lemma input_paths_nth:
  "i < length fs \<Longrightarrow> input_paths d fs ! i = d @ concat (map (\<lambda>f. 47 # f) (take (Suc i) fs))"
proof (induction fs arbitrary: d i)
  case (Cons f fs)
  then show ?case by (cases i) (simp_all add: Let_def)
qed simp

lemma length_input_paths: "length (input_paths d fs) = length fs"
  by (induction fs arbitrary: d) (simp_all add: Let_def)

text \<open>The paths a generator reads for a cache: the directory string is never reset between the
  input files, so the path of a file runs through the names of all files listed before it, and only
  the first file is read from the configured directory itself.\<close>

theorem generator_input_paths:
  assumes "fs = getlines 44 (set_getString s (kInputFiles @ lit ''.'' @ name) [])"
    and "d = set_getString s (kInputDir @ lit ''.'' @ name) kDirectory_default" and "i < length fs"
  shows "length (ca_inputFiles (generator_args ff s name)) = length fs \<and>
    ca_inputFiles (generator_args ff s name) ! i = d @ concat (map (\<lambda>f. 47 # f) (take (Suc i) fs))"
  using assms(3)
  by (simp add: generator_args_def Let_def length_input_paths input_paths_nth flip: assms(1,2))

theorem generator_input_paths_witness:
  "ca_inputFiles (generator_args undefined
     [lit ''axoncache.input_files.n'' \<mapsto> lit ''a,b'', lit ''axoncache.input_dir.n'' \<mapsto> lit ''/d''] (lit ''n'')) ! 1 =
     lit ''/d/a/b''"
proof -
  let ?s = "[lit ''axoncache.input_files.n'' \<mapsto> lit ''a,b'', lit ''axoncache.input_dir.n'' \<mapsto> lit ''/d'']"
  have n: "kInputFiles @ lit ''.'' @ lit ''n'' = lit ''axoncache.input_files.n''"
    "kInputDir @ lit ''.'' @ lit ''n'' = lit ''axoncache.input_dir.n''"
    by (simp_all add: kInputFiles_def kInputDir_def lit_def)
  have cs: "c_string (lit ''axoncache.input_files.n'') = lit ''axoncache.input_files.n''"
    "c_string (lit ''axoncache.input_dir.n'') = lit ''axoncache.input_dir.n''"
    "lit ''axoncache.input_files.n'' \<noteq> lit ''axoncache.input_dir.n''"
    by (simp_all add: c_string_def lit_def)
  have fs: "getlines 44 (set_getString ?s (kInputFiles @ lit ''.'' @ lit ''n'') []) = [lit ''a'', lit ''b'']"
    and d: "set_getString ?s (kInputDir @ lit ''.'' @ lit ''n'') kDirectory_default = lit ''/d''"
    unfolding n using cs by (simp_all add: set_getString_def getlines_def lit_def)
  from generator_input_paths [OF fs [symmetric] d [symmetric], of 1 undefined]
  show ?thesis by (simp add: lit_def)
qed

text \<open>A generator whose settings give a dedup cache no offset bits: the default is 0, which the
  probe refuses, so nothing is written for that cache and \<open>start\<close> throws.\<close>

theorem generator_dedup_default_offset:
  assumes "a = generator_args ff s name" and "dedup_type (ca_cacheType a)"
    and "set_getString s (kOffsetBits @ lit ''.'' @ name) [] = []"
    and "max_entries (ca_numberOfKeySlots a) (ca_maxLoadFactor a) = Inr m"
  shows "generate_one H s env values files a = Some (files, Inl (Throw offset_bits_range_msg))"
proof -
  have ob: "ca_offsetBits a = 0"
    using assms(1-3) by (auto simp: generator_args_def Let_def dedup_type_def set_getInt_def)
  have "LinearProbeDedupCache H 0 (ca_numberOfKeySlots a) (ca_maxLoadFactor a) h ty =
      Inl (Throw offset_bits_range_msg)" for h ty
    using assms(4) by (simp add: LinearProbeDedupCache_def HashedCacheBase_def linear_policy_def
        LinearProbe_def constant_defs)
  then show ?thesis
    using assms(2) ob by (auto simp: generate_one_def createCache_def dedup_type_def)
qed

theorem generator_dedup_default_offset_witness:
  "generate_one (\<lambda>key. 0) [lit ''axoncache.type.n'' \<mapsto> lit ''5'', lit ''axoncache.key_slots.n'' \<mapsto> lit ''4'']
     env [] Map.empty
     (generator_args undefined [lit ''axoncache.type.n'' \<mapsto> lit ''5'', lit ''axoncache.key_slots.n'' \<mapsto> lit ''4'']
        (lit ''n'')) = Some (Map.empty, Inl (Throw offset_bits_range_msg))"
proof -
  define S where "S = [lit ''axoncache.type.n'' \<mapsto> lit ''5'', lit ''axoncache.key_slots.n'' \<mapsto> lit ''4'']"
  have key: "c_string (k @ lit ''.'' @ lit ''n'') = k @ lit ''.n''" if "0 \<notin> set k" for k
    using that by (simp add: c_string_def lit_def) (auto simp: takeWhile_eq_all_conv)
  have s: "S (kCacheType @ lit ''.n'') = Some (lit ''5'')" "S (kKeySlots @ lit ''.n'') = Some (lit ''4'')"
    "S (kOffsetBits @ lit ''.n'') = None" "S (kMaxLoadFactor @ lit ''.n'') = None"
    by (simp_all add: S_def kCacheType_def kKeySlots_def kOffsetBits_def kMaxLoadFactor_def lit_def)
  have z: "0 \<notin> set kCacheType" "0 \<notin> set kKeySlots" "0 \<notin> set kOffsetBits" "0 \<notin> set kMaxLoadFactor"
    by (simp_all add: kCacheType_def kKeySlots_def kOffsetBits_def kMaxLoadFactor_def lit_def)
  note get = set_getString_def key [OF z(1)] key [OF z(2)] key [OF z(3)] key [OF z(4)] s
  have v: "lit ''5'' = [53]" "lit ''4'' = [52]" by (simp_all add: lit_def)
  have n: "toInteger [53] = 5" "toInteger [52] = 4"
    by (simp_all add: toInteger_def from_chars_def is_digit_def)
  let ?a = "generator_args undefined S (lit ''n'')"
  have a: "ca_cacheType ?a = Some LINEAR_PROBE_DEDUP_TYPED" "ca_numberOfKeySlots ?a = 4"
    "ca_maxLoadFactor ?a = half"
    by (simp_all add: generator_args_def Let_def set_getInt_def set_getDouble_def get v n CacheType_of_def
        kMaxLoadFactor_default_def half_def)
  show ?thesis
    unfolding S_def [symmetric]
    by (rule generator_dedup_default_offset [OF refl, where m = 2])
      (simp_all add: a dedup_type_def get max_entries_half)
qed

end
