(* ===== verification/Reader_Api.thy ===== *)
theory Reader_Api
  imports Cache_Build
begin

text \<open>
  The C interface for readers, \<open>capi/CacheReaderCApi.cpp\<close>: a handle holds up to one cache of
  each hashed kind and the type of the last file whose header was read, which selects the
  cache that answers.  A null key is \<open>None\<close>.  A call returns its result together with what
  it stores through its pointer arguments; an exception of a getter is not caught and
  leaves the call, as does undefined behaviour.  \<open>int\<close> results that count bytes or
  elements are 32-bit words, flags and codes are numbers.

  The lemmas follow a handle through its initialisations and connect it with the files
  that a builder writes.
\<close>

section \<open>Results\<close>

text \<open>
  \<open>convertToPointer\<close>: a null pointer for nothing, otherwise a copy, with a NUL behind the
  bytes of a string.
\<close>

definition convertToPointer :: "bytes \<Rightarrow> bytes option \<times> u32" where
  "convertToPointer value =
     (if value = [] then (None, 0) else (Some (value @ [0]), of_nat (length value)))"

definition convertToPointer_floats :: "f32 list \<Rightarrow> f32 list option \<times> u32" where
  "convertToPointer_floats values =
     (if values = [] then (None, 0) else (Some values, of_nat (length values)))"

definition convertToPointer_list :: "bytes list \<Rightarrow> bytes list option \<times> u32 \<times> u32 list option" where
  "convertToPointer_list values =
     (if values = [] then (None, 0, None)
      else (Some (map (\<lambda>v. v @ [0]) values), of_nat (length values),
            Some (map (\<lambda>v. of_nat (length v)) values)))"

section \<open>The handle\<close>

record reader =
  rd_linear :: "linear_cache option"
  rd_dedup :: "dedup_cache option"
  rd_bucket :: "bucket_cache option"
  rd_type :: "CacheType option"

definition NewCacheReaderHandle :: reader where
  "NewCacheReaderHandle =
     \<lparr>rd_linear = None, rd_dedup = None, rd_bucket = None, rd_type = Some LINEAR_PROBE_DEDUP\<rparr>"

text \<open>\<open>find_last_of( '.' )\<close> and \<open>substr\<close>: the name without its extension.\<close>

definition strip_extension :: "bytes \<Rightarrow> bytes" where
  "strip_extension name =
     (if 46 \<in> set name then rev (tl (dropWhile (\<lambda>c. c \<noteq> 46) (rev name))) else name)"

definition reader_path :: "bytes \<Rightarrow> bytes \<Rightarrow> bytes \<Rightarrow> bytes" where
  "reader_path taskName destinationFolder timestamp =
     destinationFolder @ lit ''/'' @ strip_extension taskName @ lit ''.'' @ timestamp @ lit ''.cache''"

text \<open>A \<open>std::exception\<close> of the loader is caught and makes the code 1.\<close>

definition store_loaded ::
  "('c \<times> bytes) outcome \<Rightarrow> ('c \<Rightarrow> reader \<Rightarrow> reader) \<Rightarrow> reader \<Rightarrow> reader \<times> int outcome" where
  "store_loaded loaded keep r =
     (case loaded of
        Inl (Throw msg) \<Rightarrow> (r, Inr 1)
      | Inl (Undefined u) \<Rightarrow> (r, Inl (Undefined u))
      | Inr (cache, timestamp) \<Rightarrow> (keep cache r, Inr 0))"

definition initializeReader ::
  "(bytes \<Rightarrow> u64) \<Rightarrow> bool \<Rightarrow> files \<Rightarrow> bytes \<Rightarrow> bytes \<Rightarrow> bytes \<Rightarrow> reader \<Rightarrow> reader \<times> int outcome" where
  "initializeReader H os_ok files taskName destinationFolder timestamp r =
     (let path = reader_path taskName destinationFolder timestamp in
      case files path of
        None \<Rightarrow> (r, Inr 1)
      | Some content \<Rightarrow>
          (if length content < sizeof_CacheHeader then (r, Inr 1)
           else
             let type = CacheType_of (int (unat (hdr_cacheType (decode_header content))));
                 r1 = r\<lparr>rd_type := type\<rparr>
             in case type of
                  Some LINEAR_PROBE \<Rightarrow>
                    store_loaded (load_linear H os_ok files path) (\<lambda>c r. r\<lparr>rd_linear := Some c\<rparr>) r1
                | Some LINEAR_PROBE_DEDUP \<Rightarrow>
                    store_loaded (load_dedup H os_ok files path) (\<lambda>c r. r\<lparr>rd_dedup := Some c\<rparr>) r1
                | Some LINEAR_PROBE_DEDUP_TYPED \<Rightarrow>
                    store_loaded (load_dedup H os_ok files path) (\<lambda>c r. r\<lparr>rd_dedup := Some c\<rparr>) r1
                | Some BUCKET_CHAIN \<Rightarrow>
                    store_loaded (load_bucket H os_ok files path) (\<lambda>c r. r\<lparr>rd_bucket := Some c\<rparr>) r1
                | _ \<Rightarrow> (r1, Inr 0)))"

text \<open>
  The \<open>switch\<close> at the head of every getter: the cache that the type selects, if there is one.
  Most getters know the two linear-probe classes only.
\<close>

datatype 'a selected = Unsupported | No_Cache | Selected 'a

definition from_cache :: "('c \<Rightarrow> 'a) \<Rightarrow> 'c option \<Rightarrow> 'a selected" where
  "from_cache f cache = (case cache of None \<Rightarrow> No_Cache | Some c \<Rightarrow> Selected (f c))"

definition select_probe :: "(linear_cache \<Rightarrow> 'a) \<Rightarrow> (dedup_cache \<Rightarrow> 'a) \<Rightarrow> reader \<Rightarrow> 'a selected" where
  "select_probe on_linear on_dedup r =
     (case rd_type r of
        Some LINEAR_PROBE \<Rightarrow> from_cache on_linear (rd_linear r)
      | Some LINEAR_PROBE_DEDUP \<Rightarrow> from_cache on_dedup (rd_dedup r)
      | Some LINEAR_PROBE_DEDUP_TYPED \<Rightarrow> from_cache on_dedup (rd_dedup r)
      | _ \<Rightarrow> Unsupported)"

definition select_cache ::
  "(linear_cache \<Rightarrow> 'a) \<Rightarrow> (dedup_cache \<Rightarrow> 'a) \<Rightarrow> (bucket_cache \<Rightarrow> 'a) \<Rightarrow> reader \<Rightarrow> 'a selected" where
  "select_cache on_linear on_dedup on_bucket r =
     (if rd_type r = Some BUCKET_CHAIN then from_cache on_bucket (rd_bucket r)
      else select_probe on_linear on_dedup r)"

text \<open>The virtual functions behind the getters of \<open>HashedCacheBase\<close>.\<close>

definition reader_lookup :: "(bytes \<Rightarrow> u64) \<Rightarrow> reader \<Rightarrow> lookup selected" where
  "reader_lookup H r = select_probe (linear_lookup H) (dedup_lookup H) r"

section \<open>Getters\<close>

text \<open>A returned value.\<close>

definition returns :: "'a \<Rightarrow> 'a outcome option" where "returns x = Some (Inr x)"

definition flag :: "bool \<Rightarrow> int" where "flag b = (if b then 1 else 0)"

definition containsKey :: "(bytes \<Rightarrow> u64) \<Rightarrow> reader \<Rightarrow> bytes option \<Rightarrow> int outcome option" where
  "containsKey H r key =
     (case key of
        None \<Rightarrow> returns 0
      | Some k \<Rightarrow>
          (case select_cache (\<lambda>c. hc_contains (linear_policy H) c k) (\<lambda>c. hc_contains (linear_policy H) c k)
                  (\<lambda>c. hc_contains (bucket_policy H) c k) r of
             Selected found \<Rightarrow> run_then found (\<lambda>(b, h). returns (flag b))
           | _ \<Rightarrow> returns 0))"

text \<open>The value, \<open>*isExist\<close> and \<open>*valueSize\<close>.\<close>

definition getKey :: "(bytes \<Rightarrow> u64) \<Rightarrow> reader \<Rightarrow> bytes option \<Rightarrow> (bytes option \<times> int \<times> u32) outcome option" where
  "getKey H r key =
     (case key of
        None \<Rightarrow> returns (None, 0, 0)
      | Some k \<Rightarrow>
          (case select_cache (\<lambda>c. getString (linear_lookup H c) k []) (\<lambda>c. dd_getString H c k [])
                  (\<lambda>c. getString (bucket_lookup H c) k []) r of
             Selected result \<Rightarrow>
               run_then result (\<lambda>(value, isExist, h).
                 let (ptr, size) = convertToPointer value in returns (ptr, flag isExist, size))
           | _ \<Rightarrow> returns (None, 0, 0)))"

text \<open>The element of a vector; only the upper bound of the index is tested.\<close>

definition getVectorKeyItem ::
  "(bytes \<Rightarrow> u64) \<Rightarrow> reader \<Rightarrow> bytes option \<Rightarrow> u32 \<Rightarrow> (bytes option \<times> u32) outcome option" where
  "getVectorKeyItem H r key index =
     (case key of
        None \<Rightarrow> returns (None, 0)
      | Some k \<Rightarrow>
          (case reader_lookup H r of
             Selected vt \<Rightarrow>
               run_then (getVector vt k []) (\<lambda>(items, h).
                 if sint index < sint (of_nat (length items) :: u32)
                 then if 0 \<le> sint index \<and> nat (sint index) < length items
                      then returns (convertToPointer (items ! nat (sint index)))
                      else Some (Inl (Undefined Out_Of_Bounds))
                 else returns (None, 0))
           | _ \<Rightarrow> returns (None, 0)))"

definition getVectorKeySize :: "(bytes \<Rightarrow> u64) \<Rightarrow> reader \<Rightarrow> bytes option \<Rightarrow> u64 outcome option" where
  "getVectorKeySize H r key =
     (case key of
        None \<Rightarrow> returns 0
      | Some k \<Rightarrow>
          (case reader_lookup H r of
             Selected vt \<Rightarrow> run_then (getVector vt k []) (\<lambda>(items, h). returns (of_nat (length items)))
           | _ \<Rightarrow> returns 0))"

text \<open>
  The scalar getters: the default value without a cache, 0 for a type without them, and the
  value with \<open>*isExist\<close>.
\<close>

definition getLong :: "(bytes \<Rightarrow> u64) \<Rightarrow> reader \<Rightarrow> bytes option \<Rightarrow> i64 \<Rightarrow> (i64 \<times> int) outcome option" where
  "getLong H r key defaultValue =
     (case key of
        None \<Rightarrow> returns (defaultValue, 0)
      | Some k \<Rightarrow>
          (case reader_lookup H r of
             Selected vt \<Rightarrow>
               run_then (getInt64 vt k defaultValue) (\<lambda>(value, isExist, h). returns (value, flag isExist))
           | No_Cache \<Rightarrow> returns (defaultValue, 0)
           | Unsupported \<Rightarrow> returns (0, 0)))"

definition getInteger :: "(bytes \<Rightarrow> u64) \<Rightarrow> reader \<Rightarrow> bytes option \<Rightarrow> u32 \<Rightarrow> (u32 \<times> int) outcome option" where
  "getInteger H r key defaultValue =
     (case key of
        None \<Rightarrow> returns (defaultValue, 0)
      | Some k \<Rightarrow>
          (case reader_lookup H r of
             Selected vt \<Rightarrow>
               run_then (getInt64 vt k (scast defaultValue)) (\<lambda>(value, isExist, h).
                 returns (ucast value, flag isExist))
           | No_Cache \<Rightarrow> returns (defaultValue, 0)
           | Unsupported \<Rightarrow> returns (0, 0)))"

definition reader_getDouble ::
  "float_lib \<Rightarrow> (bytes \<Rightarrow> u64) \<Rightarrow> reader \<Rightarrow> bytes option \<Rightarrow> f64 \<Rightarrow> (f64 \<times> int) outcome option" where
  "reader_getDouble fl H r key defaultValue =
     (case key of
        None \<Rightarrow> returns (defaultValue, 0)
      | Some k \<Rightarrow>
          (case reader_lookup H r of
             Selected vt \<Rightarrow>
               run_then (getDouble fl vt k defaultValue) (\<lambda>(value, isExist, h). returns (value, flag isExist))
           | No_Cache \<Rightarrow> returns (defaultValue, 0)
           | Unsupported \<Rightarrow> returns (0, 0)))"

definition reader_getBool :: "(bytes \<Rightarrow> u64) \<Rightarrow> reader \<Rightarrow> bytes option \<Rightarrow> int \<Rightarrow> (int \<times> int) outcome option" where
  "reader_getBool H r key defaultValue =
     (case key of
        None \<Rightarrow> returns (defaultValue, 0)
      | Some k \<Rightarrow>
          (case reader_lookup H r of
             Selected vt \<Rightarrow>
               run_then (getBool vt k (defaultValue \<noteq> 0)) (\<lambda>(value, isExist, h).
                 returns (flag value, flag isExist))
           | No_Cache \<Rightarrow> returns (defaultValue, 0)
           | Unsupported \<Rightarrow> returns (0, 0)))"

definition reader_getVector ::
  "(bytes \<Rightarrow> u64) \<Rightarrow> reader \<Rightarrow> bytes option \<Rightarrow> (bytes list option \<times> u32 \<times> u32 list option) outcome option" where
  "reader_getVector H r key =
     (case key of
        None \<Rightarrow> returns (None, 0, None)
      | Some k \<Rightarrow>
          (case reader_lookup H r of
             Selected vt \<Rightarrow>
               run_then (getVector vt k []) (\<lambda>(items, h). returns (convertToPointer_list items))
           | _ \<Rightarrow> returns (None, 0, None)))"

definition reader_getFloatVector ::
  "(bytes \<Rightarrow> u64) \<Rightarrow> reader \<Rightarrow> bytes option \<Rightarrow> (f32 list option \<times> u32) outcome option" where
  "reader_getFloatVector H r key =
     (case key of
        None \<Rightarrow> returns (None, 0)
      | Some k \<Rightarrow>
          (case reader_lookup H r of
             Selected vt \<Rightarrow>
               run_then (getFloatSpan vt k) (\<lambda>(values, h). returns (convertToPointer_floats values))
           | _ \<Rightarrow> returns (None, 0)))"

definition reader_getKeyType ::
  "(bytes \<Rightarrow> u64) \<Rightarrow> reader \<Rightarrow> bytes option \<Rightarrow> (bytes option \<times> u32) outcome option" where
  "reader_getKeyType H r key =
     (case key of
        None \<Rightarrow> returns (None, 0)
      | Some k \<Rightarrow>
          (case reader_lookup H r of
             Selected vt \<Rightarrow>
               run_then (getKeyType vt k) (\<lambda>(type, h). returns (convertToPointer (lit type)))
           | _ \<Rightarrow> returns (None, 0)))"

text \<open>The exported function with a conversion of its own; the others pass their arguments on.\<close>

definition CacheReader_GetVectorKeySize :: "(bytes \<Rightarrow> u64) \<Rightarrow> reader \<Rightarrow> bytes option \<Rightarrow> u32 outcome option" where
  "CacheReader_GetVectorKeySize H r key = run_then (getVectorKeySize H r key) (\<lambda>n. returns (ucast n))"

section \<open>Initialisation\<close>

lemma strip_extension_plain: "46 \<notin> set name \<Longrightarrow> strip_extension name = name"
  by (simp add: strip_extension_def)

lemma strip_extension_dot: "46 \<notin> set ext \<Longrightarrow> strip_extension (name @ 46 # ext) = name"
proof -
  assume "46 \<notin> set ext"
  then have "dropWhile (\<lambda>c. c \<noteq> 46) (rev ext @ 46 # rev name) = 46 # rev name"
    by (subst dropWhile_append2) auto
  then show ?thesis by (simp add: strip_extension_def)
qed

lemma reader_path_full:
  "46 \<notin> set ext \<Longrightarrow>
     reader_path (name @ 46 # ext) folder timestamp = fullCacheFileName folder (name @ 46 # timestamp)"
  by (simp add: reader_path_def fullCacheFileName_def kCacheFileNameSuffix_def strip_extension_dot lit_def)

lemma initialize_linear:
  assumes "has_type files path LINEAR_PROBE" and "path = reader_path taskName folder timestamp"
    and "load_linear H os_ok files path = Inr (c, ts)"
  shows "initializeReader H os_ok files taskName folder timestamp r =
    (r\<lparr>rd_type := Some LINEAR_PROBE, rd_linear := Some c\<rparr>, Inr 0)"
  using assms(1,3) unfolding assms(2)
  by (auto simp: has_type_def initializeReader_def store_loaded_def Let_def)

text \<open>All a handle can hold after any number of initialisations: caches that were loaded.\<close>

inductive reader_reachable :: "(bytes \<Rightarrow> u64) \<Rightarrow> reader \<Rightarrow> bool" for H where
  new: "reader_reachable H NewCacheReaderHandle"
| initialize: "reader_reachable H r \<Longrightarrow>
    initializeReader H os_ok files taskName folder timestamp r = (r', result) \<Longrightarrow> reader_reachable H r'"

definition holds_loaded :: "(bytes \<Rightarrow> u64) \<Rightarrow> reader \<Rightarrow> bool" where
  "holds_loaded H r \<longleftrightarrow>
     (\<forall>c. rd_linear r = Some c \<longrightarrow> (\<exists>os files path ts. load_linear H os files path = Inr (c, ts))) \<and>
     (\<forall>c. rd_dedup r = Some c \<longrightarrow> (\<exists>os files path ts. load_dedup H os files path = Inr (c, ts))) \<and>
     (\<forall>c. rd_bucket r = Some c \<longrightarrow> (\<exists>os files path ts. load_bucket H os files path = Inr (c, ts)))"

lemma store_loaded_cases:
  "store_loaded loaded keep r = (r', result) \<Longrightarrow>
     (r' = r \<and> (result = Inr 1 \<or> (\<exists>u. result = Inl (Undefined u)))) \<or>
     (\<exists>c ts. loaded = Inr (c, ts) \<and> r' = keep c r \<and> result = Inr 0)"
  by (auto simp: store_loaded_def split: sum.splits fault.splits)

lemma initializeReader_cases:
  assumes "initializeReader H os_ok files taskName folder timestamp r = (r', result)"
  shows "(\<exists>ty. (r' = r \<or> r' = r\<lparr>rd_type := ty\<rparr>) \<and>
      (result = Inr 1 \<or> (\<exists>u. result = Inl (Undefined u)) \<or>
       (result = Inr 0 \<and> rd_type r' = ty \<and> ty \<notin> Some ` {LINEAR_PROBE, LINEAR_PROBE_DEDUP, LINEAR_PROBE_DEDUP_TYPED, BUCKET_CHAIN}))) \<or>
    (\<exists>c ts. load_linear H os_ok files (reader_path taskName folder timestamp) = Inr (c, ts) \<and>
       r' = r\<lparr>rd_type := Some LINEAR_PROBE, rd_linear := Some c\<rparr> \<and> result = Inr 0) \<or>
    (\<exists>c ts ty. load_dedup H os_ok files (reader_path taskName folder timestamp) = Inr (c, ts) \<and>
       (ty = LINEAR_PROBE_DEDUP \<or> ty = LINEAR_PROBE_DEDUP_TYPED) \<and>
       r' = r\<lparr>rd_type := Some ty, rd_dedup := Some c\<rparr> \<and> result = Inr 0) \<or>
    (\<exists>c ts. load_bucket H os_ok files (reader_path taskName folder timestamp) = Inr (c, ts) \<and>
       r' = r\<lparr>rd_type := Some BUCKET_CHAIN, rd_bucket := Some c\<rparr> \<and> result = Inr 0)"
  using assms unfolding initializeReader_def Let_def
  by (auto split: option.splits if_splits CacheType.splits dest!: store_loaded_cases)

lemma reachable_holds_loaded: "reader_reachable H r \<Longrightarrow> holds_loaded H r"
proof (induction rule: reader_reachable.induct)
  case new
  show ?case by (simp add: holds_loaded_def NewCacheReaderHandle_def)
next
  case (initialize r os_ok files taskName folder timestamp r' result)
  from initializeReader_cases [OF initialize.hyps(2)] initialize.IH show ?case
    by (elim disjE exE conjE) (auto simp: holds_loaded_def)
qed

section \<open>Properties\<close>



text \<open>Whatever sequence of initialisations a handle has gone through, with whatever files, every
  cache it holds came out of a successful load by the loader of its class.\<close>

theorem reader_holds_loaded:
  assumes "reader_reachable H r"
  shows "(\<forall>c. rd_linear r = Some c \<longrightarrow> (\<exists>os files path ts. load_linear H os files path = Inr (c, ts))) \<and>
    (\<forall>c. rd_dedup r = Some c \<longrightarrow> (\<exists>os files path ts. load_dedup H os files path = Inr (c, ts))) \<and>
    (\<forall>c. rd_bucket r = Some c \<longrightarrow> (\<exists>os files path ts. load_bucket H os files path = Inr (c, ts)))"
  using reachable_holds_loaded [OF assms] by (simp add: holds_loaded_def)

theorem reader_holds_loaded_witness: "rd_linear NewCacheReaderHandle = None"
proof -
  from reader_holds_loaded [OF reader_reachable.new [of "\<lambda>key. 0"]]
  have "rd_linear NewCacheReaderHandle = Some c \<Longrightarrow>
      \<exists>os files path ts. load_linear (\<lambda>key. 0) os files path = Inr (c, ts)" for c by blast
  then show ?thesis by (simp add: NewCacheReaderHandle_def)
qed

text \<open>An initialisation that fails behind the header hides the cache a handle was serving: the
  type has already been replaced by that of the broken file, so with no cache of that kind loaded
  every key is reported absent although the old cache is still held.\<close>

theorem reader_failed_initialize_hides:
  assumes "rd_type r = Some LINEAR_PROBE" and "rd_linear r = Some c" and "rd_bucket r = None"
    and "has_type files (reader_path taskName folder timestamp) BUCKET_CHAIN"
    and "load_bucket H os_ok files (reader_path taskName folder timestamp) = Inl (Throw msg)"
  shows "\<exists>r'. initializeReader H os_ok files taskName folder timestamp r = (r', Inr 1) \<and>
    rd_linear r' = Some c \<and> (\<forall>key. containsKey H r' key = returns 0) \<and>
    (\<forall>key. getKey H r' key = returns (None, 0, 0))"
proof -
  let ?r = "r\<lparr>rd_type := Some BUCKET_CHAIN\<rparr>"
  have "initializeReader H os_ok files taskName folder timestamp r = (?r, Inr 1)"
    using assms(4,5) by (auto simp: has_type_def initializeReader_def store_loaded_def Let_def)
  moreover have "containsKey H ?r key = returns 0" "getKey H ?r key = returns (None, 0, 0)" for key
    using assms(3) by (simp_all add: containsKey_def getKey_def select_cache_def from_cache_def split: option.split)
  ultimately show ?thesis using assms(2) by auto
qed

theorem reader_failed_initialize_hides_witness:
  "\<exists>c files r'. small_cache (\<lambda>key. 0) = Inr c \<and>
     initializeReader (\<lambda>key. 0) True files (lit ''n'') (lit ''d'') (lit ''1'')
       (NewCacheReaderHandle\<lparr>rd_type := Some LINEAR_PROBE, rd_linear := Some c\<rparr>) = (r', Inr 1) \<and>
     rd_linear r' = Some c \<and> containsKey (\<lambda>key. 0) r' (Some (lit ''k'')) = returns 0"
proof -
  obtain c where c: "small_cache (\<lambda>key. 0) = Inr c" using small_cache by metis
  let ?h = "zero_header\<lparr>hdr_cacheType := 2\<rparr>" and ?path = "reader_path (lit ''n'') (lit ''d'') (lit ''1'')"
  let ?files = "[?path \<mapsto> encode_header ?h]"
  let ?r = "NewCacheReaderHandle\<lparr>rd_type := Some LINEAR_PROBE, rd_linear := Some c\<rparr>"
  have n: "length (hdr_cacheName ?h) = kMaxCacheNameSize"
    by (simp add: zero_header_def kMaxCacheNameSize_def)
  note l = length_encode_header [OF n] and d = decode_encode_header [OF n, of "[]", simplified]
  have ty: "has_type ?files ?path BUCKET_CHAIN"
    by (simp add: has_type_def l d CacheType_of_def)
  have "loadHeader ?files ?path = Inl (Throw (malformed_header_msg ?h))"
    by (simp add: loadHeader_def GenerateHeader_read_def l d Let_def kMaxCacheNameSize_def) (simp add: zero_header_def)
  then have "load_bucket (\<lambda>key. 0) True ?files ?path = Inl (Throw (malformed_header_msg ?h))"
    by (simp add: load_bucket_def loadAbsolutePath_def)
  from reader_failed_initialize_hides [OF _ _ _ ty this, of ?r c] c show ?thesis
    by (auto simp: NewCacheReaderHandle_def)
qed

text \<open>C6: a cache built from data files and initialised in a reader: the code is 0, a key with a
  string value is returned as a copy with its size and its flag, a key with a list as copies of its
  elements with their sizes, and an absent key as a null pointer with a cleared flag.\<close>

theorem reader_serves_build:
  assumes "holds_data files b kvs" and "fb_cache b = Any_Linear c"
    and "lp_builds H [] c Map.empty" and "\<forall>kv \<in> set kvs. entry_ok kv"
    and "lp_space c (length kvs) (total_cost kvs)" and "length junk = kMaxCacheNameSize"
    and name: "fb_cacheName b = name @ 46 # timestamp" and ext: "46 \<notin> set ext"
  shows "\<exists>b' files' r'. build H now junk files b = Some (b', files', Inr ()) \<and>
    initializeReader H True files' (name @ 46 # ext) (fb_outputDirectory b) timestamp r = (r', Inr 0) \<and>
    (\<forall>key v. map_of kvs key = Some (Put_String v) \<longrightarrow>
       getKey H r' (Some key) = returns (let (ptr, size) = convertToPointer v in (ptr, 1, size))) \<and>
    (\<forall>key vs. map_of kvs key = Some (Put_List vs) \<longrightarrow>
       reader_getVector H r' (Some key) = returns (convertToPointer_list vs)) \<and>
    (\<forall>key. map_of kvs key = None \<longrightarrow> getKey H r' (Some key) = returns (None, 0, 0))"
proof -
  let ?path = "reader_path (name @ 46 # ext) (fb_outputDirectory b) timestamp"
  have path: "fullCacheFileName (fb_outputDirectory b) (fb_cacheName b) = ?path"
    by (simp add: name reader_path_full [OF ext])
  obtain b' files' c' ts where B: "build H now junk files b = Some (b', files', Inr ())"
    and ld: "load_linear H True files' ?path = Inr (c', ts)"
    and s: "serves undefined H (linear_lookup H c') kvs" and ty: "has_type files' ?path LINEAR_PROBE"
    using linear_build [OF assms(1-6), where fl = undefined and now = now] unfolding path by blast
  let ?r = "r\<lparr>rd_type := Some LINEAR_PROBE, rd_linear := Some c'\<rparr>"
  have i: "initializeReader H True files' (name @ 46 # ext) (fb_outputDirectory b) timestamp r = (?r, Inr 0)"
    by (rule initialize_linear [OF ty refl ld])
  have g: "getKey H ?r (Some key) = run_then (getString (linear_lookup H c') key []) (\<lambda>(value, isExist, h).
      let (ptr, size) = convertToPointer value in returns (ptr, flag isExist, size))" for key
    by (simp add: getKey_def select_cache_def select_probe_def from_cache_def)
  have v: "reader_getVector H ?r (Some key) = run_then (getVector (linear_lookup H c') key [])
      (\<lambda>(items, h). returns (convertToPointer_list items))" for key
    by (simp add: reader_getVector_def reader_lookup_def select_probe_def from_cache_def)
  have "getKey H ?r (Some key) = returns (let (ptr, size) = convertToPointer w in (ptr, 1, size))"
    if "map_of kvs key = Some (Put_String w)" for key w
    using s [unfolded serves_def, rule_format, of key] that
    by (simp add: g reads_back_def flag_def convertToPointer_def)
  moreover have "reader_getVector H ?r (Some key) = returns (convertToPointer_list vs)"
    if "map_of kvs key = Some (Put_List vs)" for key vs
    using s [unfolded serves_def, rule_format, of key] that by (simp add: v reads_back_def)
  moreover have "getKey H ?r (Some key) = returns (None, 0, 0)" if "map_of kvs key = None" for key
    using s [unfolded serves_def, rule_format, of key] that
    by (simp add: g flag_def convertToPointer_def)
  ultimately show ?thesis using B i by blast
qed

theorem reader_serves_build_witness:
  "\<exists>c b' files' r'. small_cache (\<lambda>key. 0) = Inr c \<and>
     build (\<lambda>key. 0) 0 (replicate 32 0) small_files
       (small_builder (Any_Linear c)\<lparr>fb_cacheName := lit ''n.17''\<rparr>) = Some (b', files', Inr ()) \<and>
     initializeReader (\<lambda>key. 0) True files' (lit ''n.mmap'') (lit ''d'') (lit ''17'') NewCacheReaderHandle =
       (r', Inr 0) \<and>
     getKey (\<lambda>key. 0) r' (Some (lit ''k'')) = returns (Some (lit ''v'' @ [0]), 1, 1)"
proof -
  let ?H = "\<lambda>key :: bytes. 0 :: u64" and ?kvs = "[(lit ''k'', Put_String (lit ''v''))]"
  obtain c where c: "small_cache ?H = Inr c" "lp_builds ?H [] c Map.empty" "entries c = 0"
    "hc_maxNumberOfEntries c = 2" "lp_offsetBits (hc_probe c) = 16" "data_end c = 32"
    using small_cache by metis
  have sp: "lp_space c (length ?kvs) (total_cost ?kvs)"
    unfolding small_cost by (simp add: lp_space_def c mem_limit_def)
  let ?b = "small_builder (Any_Linear c)\<lparr>fb_cacheName := lit ''n.17''\<rparr>"
  have data: "holds_data small_files ?b ?kvs"
    using small_data [of "Any_Linear c"] by (simp add: holds_data_def)
  have dot: "lit ''n.17'' = lit ''n'' @ 46 # lit ''17''" "lit ''n.mmap'' = lit ''n'' @ 46 # lit ''mmap''"
    and ext: "46 \<notin> set (lit ''mmap'')"
    by (simp_all add: lit_def)
  have "\<exists>b' files' r'. build ?H 0 (replicate 32 0) small_files ?b = Some (b', files', Inr ()) \<and>
    initializeReader ?H True files' (lit ''n'' @ 46 # lit ''mmap'') (fb_outputDirectory ?b) (lit ''17'')
      NewCacheReaderHandle = (r', Inr 0) \<and>
    (\<forall>key v. map_of ?kvs key = Some (Put_String v) \<longrightarrow>
       getKey ?H r' (Some key) = returns (let (ptr, size) = convertToPointer v in (ptr, 1, size))) \<and>
    (\<forall>key vs. map_of ?kvs key = Some (Put_List vs) \<longrightarrow>
       reader_getVector ?H r' (Some key) = returns (convertToPointer_list vs)) \<and>
    (\<forall>key. map_of ?kvs key = None \<longrightarrow> getKey ?H r' (Some key) = returns (None, 0, 0))"
    by (rule reader_serves_build [OF data _ c(2) small_entry_ok sp _ _ ext])
      (simp_all add: small_builder_def kMaxCacheNameSize_def dot)
  then obtain b' files' r' where r: "build ?H 0 (replicate 32 0) small_files ?b = Some (b', files', Inr ())"
    "initializeReader ?H True files' (lit ''n.mmap'') (lit ''d'') (lit ''17'') NewCacheReaderHandle = (r', Inr 0)"
    "\<forall>key v. map_of ?kvs key = Some (Put_String v) \<longrightarrow>
       getKey ?H r' (Some key) = returns (let (ptr, size) = convertToPointer v in (ptr, 1, size))"
    by (auto simp: small_builder_def dot(2))
  have "getKey ?H r' (Some (lit ''k'')) = returns (Some (lit ''v'' @ [0]), 1, 1)"
    using r(3) [rule_format, of "lit ''k''" "lit ''v''"] by (simp add: convertToPointer_def) (simp add: lit_def)
  with c(1) r(1,2) show ?thesis by blast
qed

text \<open>C38: one element of a stored vector: an index inside the vector gives a copy of that element, an
  index past the end a null pointer; a negative index passes the only test and reads before the
  vector.\<close>

theorem reader_vector_item:
  assumes "rd_type r = Some LINEAR_PROBE" and "rd_linear r = Some c" and "lp_reads H [] c M"
    and "M key = Some (TStringList, e)" and "encode_list ss = Inr e"
  shows "getVectorKeyItem H r (Some key) index =
    (if sint index < 0 then Some (Inl (Undefined Out_Of_Bounds))
     else if sint index < int (length ss) then returns (convertToPointer (ss ! nat (sint index)))
     else returns (None, 0))"
proof -
  have "length ss \<le> kVectorLength"
    using assms(5) by (auto simp: encode_list_def split: if_splits)
  then have n: "sint (of_nat (length ss) :: u32) = int (length ss)"
    by (simp add: signed_of_nat signed_take_bit_int_eq_self kVectorLength_def)
  have "getVector (linear_lookup H c) key [] = Some (Inr (ss, H key))"
    using linear.getVector_stored [OF assms(3-5), of "[]"] by (cases ss) (simp_all add: found_hash_def)
  then show ?thesis
    using n assms(1,2)
    by (simp add: getVectorKeyItem_def reader_lookup_def select_probe_def from_cache_def nat_less_iff)
qed

theorem reader_vector_item_witness:
  "\<exists>c c' n r. small_cache (\<lambda>key. 0) = Inr c \<and>
     put (hc_putInternal (linear_policy (\<lambda>key. 0))) c (lit ''k'') (Put_List [[7], [8]]) = Some (c', Inr (True, n)) \<and>
     r = NewCacheReaderHandle\<lparr>rd_type := Some LINEAR_PROBE, rd_linear := Some c'\<rparr> \<and>
     getVectorKeyItem (\<lambda>key. 0) r (Some (lit ''k'')) 1 = returns (Some [8, 0], 1) \<and>
     getVectorKeyItem (\<lambda>key. 0) r (Some (lit ''k'')) (- 1) = Some (Inl (Undefined Out_Of_Bounds))"
proof -
  let ?H = "\<lambda>key :: bytes. 0 :: u64"
  obtain c where c: "small_cache ?H = Inr c" "lp_builds ?H [] c Map.empty"
    and acc: "\<And>key v. length key \<le> 100 \<Longrightarrow> length v \<le> 100 \<Longrightarrow> lp_accepts c key v"
    using small_cache by metis
  have "le_bytes 2 n = [of_nat n, of_nat (n div 256)]" for n by (simp add: numeral_2_eq_2)
  then have le16: "le16 1 = [1, 0]" "le16 2 = [2, 0]" by (simp_all add: le16_def)
  have e: "encode_list [[7], [8]] = Inr [2, 0, 1, 0, 7, 0, 1, 0, 8, 0]"
    by (simp add: encode_list_def kVectorLength_def kVectorElementLength_def le16)
  have pe: "put_encode (Put_List [[7], [8]]) = Inr [2, 0, 1, 0, 7, 0, 1, 0, 8, 0]" by (simp add: e)
  obtain c' n where p: "put (hc_putInternal (linear_policy ?H)) c (lit ''k'') (Put_List [[7], [8]]) = Some (c', Inr (True, n))"
    and B: "lp_builds ?H [] c' (Map.empty(lit ''k'' \<mapsto> (TStringList, [2, 0, 1, 0, 7, 0, 1, 0, 8, 0])))"
    using linear.put_then_read [OF c(2) _ pe acc, of "lit ''k''", where fl = undefined] by auto
  let ?r = "NewCacheReaderHandle\<lparr>rd_type := Some LINEAR_PROBE, rd_linear := Some c'\<rparr>"
  have "getVectorKeyItem ?H ?r (Some (lit ''k'')) index =
    (if sint index < 0 then Some (Inl (Undefined Out_Of_Bounds))
     else if sint index < int (length [[7 :: byte], [8]]) then returns (convertToPointer ([[7], [8]] ! nat (sint index)))
     else returns (None, 0))" for index
    by (rule reader_vector_item [OF _ _ lp_builds_reads [OF B] _ e]) simp_all
  with c(1) p show ?thesis by (auto simp: convertToPointer_def)
qed



end
