(* ===== verification/Writer_Api.thy ===== *)
theory Writer_Api
  imports Reader_Api
begin

text \<open>
  The C interface for writers, \<open>capi/CacheWriterCApi.cpp\<close>: a handle that is initialised from
  a settings file, takes keys and frequent values one by one, and writes the cache file.
  An operation returns the new handle with its result.  Codes are numbers; the exceptions
  the code catches become codes, the others leave the call.  Calls that need a builder go
  through a pointer that is null before the initialisation and after the end.

  The members of \<open>CacheInfo\<close> start uninitialised; their first values are an argument.
\<close>

section \<open>Numbers\<close>

text \<open>\<open>static_cast<float>\<close> of a double below \<open>FLT_MAX\<close>: to nearest, ties to even.\<close>

definition round_quotient :: "nat \<Rightarrow> nat \<Rightarrow> nat" where
  "round_quotient n d =
     (let q = n div d; r = n mod d in if 2 * r > d \<or> (2 * r = d \<and> odd q) then Suc q else q)"

definition to_float :: "f64 \<Rightarrow> f32" where
  "to_float d =
     (case decode_double d of
        Finite s m e \<Rightarrow>
          (let sign = (if s then 0x80000000 else 0);
               ulp = max (- 149) (e + int (bit_length m) - 24);
               q = (if ulp \<le> e then m * 2 ^ nat (e - ulp) else round_quotient m (2 ^ nat (ulp - e)))
           in if m = 0 then sign else sign OR of_nat (nat (ulp + 149) * 2 ^ 23 + q))
      | Infinite s \<Rightarrow> (if s then 0xFF800000 else 0x7F800000)
      | NaN \<Rightarrow> 0x7FC00000)"

definition FLT_MAX :: f64 where "FLT_MAX = 0x47EFFFFFE0000000"
definition minus_FLT_MAX :: f64 where "minus_FLT_MAX = 0xC7EFFFFFE0000000"

text \<open>\<open>parseAsFloat\<close>: values outside the range of a float are logged and dropped.\<close>

definition parseAsFloat :: "float_lib \<Rightarrow> bytes \<Rightarrow> byte \<Rightarrow> f32 list" where
  "parseAsFloat fl arrayStr delimiter =
     (let values = map (\<lambda>s. toDouble (fl_double fl) (trim s)) (split delimiter arrayStr)
      in map to_float
           (filter (\<lambda>v. double_gt (decode_double FLT_MAX) (decode_double v) \<and>
                        double_gt (decode_double v) (decode_double minus_FLT_MAX)) values))"

section \<open>The handle\<close>

definition kStringNoNullType :: int where "kStringNoNullType = 127"
definition kValueVectorFlag :: byte where "kValueVectorFlag = 1"
definition kNumHashKeys :: int where "kNumHashKeys = 100000001"
definition kDestinationFolder :: bytes where "kDestinationFolder = lit ''/var/lib/applovin/datamover''"

record cache_info =
  ci_totalKeys :: u64
  ci_uniqueKeys :: u64
  ci_maxCollisionCount :: u64
  ci_minKeyLength :: u64
  ci_minValueLength :: u64

record ccache_options =
  co_destinationFolder :: bytes
  co_mmapName :: bytes
  co_cacheNameNoExt :: bytes
  co_maxNumberOfKeys :: u64
  co_maxLoadFactor :: double
  co_cacheType :: int
  co_offsetBits :: int

record writer =
  wr_info :: cache_info
  wr_collisions :: "(u64 \<times> u64) list"
  wr_builder :: "file_builder option"
  wr_type :: "CacheType option"
  wr_offsetBits :: int
  wr_lastError :: string
  wr_duplicates :: "bytes list"

definition NewCacheWriterHandle :: "cache_info \<Rightarrow> writer" where
  "NewCacheWriterHandle info =
     \<lparr>wr_info = info, wr_collisions = [], wr_builder = None, wr_type = Some LINEAR_PROBE,
      wr_offsetBits = 35, wr_lastError = '''', wr_duplicates = []\<rparr>"

section \<open>Initialisation\<close>

text \<open>\<open>setOptionsFromProperties\<close>, over the settings of the file.\<close>

definition setOptionsFromProperties :: "u64 float_parser \<Rightarrow> settings \<Rightarrow> bytes \<Rightarrow> ccache_options" where
  "setOptionsFromProperties ff s taskName =
     (let mmapName = set_getString s (lit ''ccache.mmap_file'') (c_string taskName) in
      \<lparr>co_destinationFolder = set_getString s (lit ''ccache.destination_folder'') kDestinationFolder,
       co_mmapName = mmapName, co_cacheNameNoExt = strip_extension mmapName,
       co_maxNumberOfKeys = of_int (set_getInt s (lit ''ccache.number_of_hash_keys'') kNumHashKeys),
       co_maxLoadFactor = set_getDouble ff s (lit ''ccache.max_load_factor'') kMaxLoadFactor_default,
       co_cacheType = set_getInt s (lit ''ccache.type'') 5,
       co_offsetBits = set_getInt s (lit ''ccache.offset.bits'') 35\<rparr>)"

definition initializeWriter ::
  "(bytes \<Rightarrow> u64) \<Rightarrow> u64 float_parser \<Rightarrow> (nat \<Rightarrow> nat \<Rightarrow> byte) \<Rightarrow> files \<Rightarrow> bytes \<Rightarrow> bytes \<Rightarrow> u64 \<Rightarrow> writer \<Rightarrow>
   writer \<times> int outcome" where
  "initializeWriter H ff fresh files taskName settingsLocation numberOfKeySlots w =
     (let s = SharedSettingsProvider (case files settingsLocation of None \<Rightarrow> [] | Some content \<Rightarrow> content);
          o' = setOptionsFromProperties ff s taskName;
          info = (if ci_minKeyLength (wr_info w) = 0
                  then (wr_info w)\<lparr>ci_minKeyLength := - 1, ci_minValueLength := - 1\<rparr> else wr_info w);
          w1 = w\<lparr>wr_offsetBits := co_offsetBits o', wr_info := info,
                 wr_type := CacheType_of (co_cacheType o')\<rparr>
      in if co_offsetBits o' < int (unat kMinLinearProbeOffsetBits) \<or>
            int (unat kMaxLinearProbeOffsetBits) < co_offsetBits o'
         then (w1, Inr 3)
         else case and_then (createCache H fresh (of_int (co_offsetBits o')) numberOfKeySlots
                               (co_maxLoadFactor o') (wr_type w1)) (\<lambda>cache.
                     CacheFileBuilder s (co_destinationFolder o') (co_cacheNameNoExt o') [lit ''dummy.dat''] cache) of
                Inr b \<Rightarrow> (w1\<lparr>wr_builder := Some b\<rparr>, Inr 0)
              | Inl (Throw msg) \<Rightarrow> (w1\<lparr>wr_lastError := msg\<rparr>, Inr 1)
              | Inl (Undefined u) \<Rightarrow> (w1, Inl (Undefined u)))"

definition finalizeWriter :: "writer \<Rightarrow> writer" where
  "finalizeWriter w = w\<lparr>wr_builder := None\<rparr>"

section \<open>Inserting keys\<close>

text \<open>\<open>std::string::find\<close> as a test.\<close>

fun contains_text :: "string \<Rightarrow> string \<Rightarrow> bool" where
  "contains_text [] p = (p = [])"
| "contains_text (c # cs) p = (take (length p) (c # cs) = p \<or> contains_text cs p)"

definition isOffsetBitsInsertError :: "writer \<Rightarrow> bool" where
  "isOffsetBitsInsertError w =
     contains_text (wr_lastError w) (''offset bits '' @ show_int (wr_offsetBits w) @ '' too short'')"

definition isKeySpaceIsFullError :: "writer \<Rightarrow> bool" where
  "isKeySpaceIsFullError w = contains_text (wr_lastError w) ''keySpace is full''"

text \<open>\<open>mCollisionsCounter[ n ]++\<close>, the entries in the order of their first appearance.\<close>

fun count_collision :: "u64 \<Rightarrow> (u64 \<times> u64) list \<Rightarrow> (u64 \<times> u64) list" where
  "count_collision n [] = [(n, 1)]"
| "count_collision n ((m, k) # rest) =
     (if m = n then (m, k + 1) # rest else (m, k) # count_collision n rest)"

text \<open>The common end of both insertions: the value is consumed, exceptions become codes.\<close>

definition insert_value ::
  "(bytes \<Rightarrow> u64) \<Rightarrow> writer \<Rightarrow> bytes \<times> cache_value \<Rightarrow> (writer \<times> int outcome) option" where
  "insert_value H w kv =
     (case wr_builder w of
        None \<Rightarrow> Some (w, Inl (Undefined Null_Pointer))
      | Some b \<Rightarrow>
          (case consumeValue (any_put H) (fb_cache b) kv of
             None \<Rightarrow> None
           | Some (c, r) \<Rightarrow>
               (let w1 = w\<lparr>wr_builder := Some (b\<lparr>fb_cache := c\<rparr>)\<rparr> in
                case r of
                  Inr (inserted, collisions) \<Rightarrow>
                    Some (w1\<lparr>wr_collisions := count_collision (ucast collisions) (wr_collisions w)\<rparr>, Inr 0)
                | Inl (Undefined u) \<Rightarrow> Some (w1, Inl (Undefined u))
                | Inl (Throw msg) \<Rightarrow>
                    (let w2 = w1\<lparr>wr_lastError := msg\<rparr>
                     in Some (w2, Inr (if isOffsetBitsInsertError w2 then 2
                                       else if isKeySpaceIsFullError w2 then 3 else 1))))))"

text \<open>
  The value of a scalar key by its type; the conversion of floats throws outside of the
  \<open>try\<close> block.
\<close>

definition scalar_value :: "float_lib \<Rightarrow> bytes \<Rightarrow> int \<Rightarrow> cache_value outcome" where
  "scalar_value fl value type =
     (if type = int (CacheValueType_code TString) then Inr (CacheValue (Put_String value))
      else if type = int (CacheValueType_code TDouble)
      then Inr (CacheValue (Put_Double (toDouble (fl_double fl) value)))
      else if type = int (CacheValueType_code TBool) then Inr (CacheValue (Put_Bool (toBool value)))
      else if type = int (CacheValueType_code TInt64)
      then Inr (CacheValue (Put_Int64 (of_int (toLong value))))
      else if type = int (CacheValueType_code TFloatList)
      then and_then (float_vector fl value) (\<lambda>v. Inr (CacheValue (Put_Floats v)))
      else if type = kStringNoNullType then Inr (CacheValue (Put_String (c_string value)))
      else Inr (CacheValue (Put_String value)))"

definition insertScalarKey ::
  "(bytes \<Rightarrow> u64) \<Rightarrow> float_lib \<Rightarrow> writer \<Rightarrow> bytes \<Rightarrow> bytes \<Rightarrow> int \<Rightarrow> (writer \<times> int outcome) option" where
  "insertScalarKey H fl w key value type =
     (case scalar_value fl value type of
        Inl e \<Rightarrow> Some (w, Inl e)
      | Inr v \<Rightarrow> insert_value H w (key, v))"

definition insertVectorKey ::
  "(bytes \<Rightarrow> u64) \<Rightarrow> writer \<Rightarrow> bytes \<Rightarrow> bytes \<Rightarrow> int \<Rightarrow> (writer \<times> int outcome) option" where
  "insertVectorKey H w key value keyType =
     (let valueVec = sort (splitStringView 124 value);
          vals = (if keyType = kStringNoNullType then map c_string valueVec else valueVec)
      in insert_value H w (drop 1 key, CacheValue (Put_List vals)))"

definition insertKey ::
  "(bytes \<Rightarrow> u64) \<Rightarrow> float_lib \<Rightarrow> writer \<Rightarrow> bytes \<Rightarrow> bytes \<Rightarrow> int \<Rightarrow> (writer \<times> int outcome) option" where
  "insertKey H fl w key value keyType =
     (if key = [] then Some (w, Inl (Undefined Out_Of_Bounds))
      else if hd key \<noteq> kValueVectorFlag then insertScalarKey H fl w key value keyType
      else insertVectorKey H w key value keyType)"

text \<open>The code together with a copy of the message and its size.\<close>

definition insertKeyWithError ::
  "(bytes \<Rightarrow> u64) \<Rightarrow> float_lib \<Rightarrow> writer \<Rightarrow> bytes \<Rightarrow> bytes \<Rightarrow> int \<Rightarrow>
   (writer \<times> (int \<times> string option \<times> nat) outcome) option" where
  "insertKeyWithError H fl w key value keyType =
     (case insertKey H fl w key value keyType of
        None \<Rightarrow> None
      | Some (w', Inl e) \<Rightarrow> Some (w', Inl e)
      | Some (w', Inr errorCode) \<Rightarrow>
          Some (w', Inr (if errorCode \<noteq> 0 \<and> wr_lastError w' \<noteq> ''''
                         then (errorCode, Some (wr_lastError w'), length (wr_lastError w'))
                         else (errorCode, None, 0))))"

section \<open>Frequent values\<close>

definition addDuplicateValue :: "float_lib \<Rightarrow> writer \<Rightarrow> bytes \<Rightarrow> int \<Rightarrow> writer" where
  "addDuplicateValue fl w value queryType =
     (let val = (if queryType = int (CacheValueType_code TString) then value @ [0]
                 else if queryType = int (CacheValueType_code TFloatList)
                 then floats_to_string (parseAsFloat fl value 58)
                 else value)
      in w\<lparr>wr_duplicates := wr_duplicates w @ [val]\<rparr>)"

definition CacheWriter_AddDuplicateValue :: "float_lib \<Rightarrow> writer \<Rightarrow> bytes \<Rightarrow> int \<Rightarrow> writer" where
  "CacheWriter_AddDuplicateValue fl w value keyType = addDuplicateValue fl w (c_string value) keyType"

definition finishAddDuplicateValues ::
  "(nat \<Rightarrow> nat \<Rightarrow> byte) \<Rightarrow> writer \<Rightarrow> writer \<times> int outcome" where
  "finishAddDuplicateValues fresh w =
     (if \<not> dedup_type (wr_type w) then (w, Inr 1)
      else case wr_builder w of
        None \<Rightarrow> (w, Inl (Undefined Null_Pointer))
      | Some b \<Rightarrow>
          (case register_values fresh (wr_duplicates w) (fb_cache b) of
             Inr c \<Rightarrow> (w\<lparr>wr_builder := Some (b\<lparr>fb_cache := c\<rparr>)\<rparr>, Inr 0)
           | Inl (Throw msg) \<Rightarrow> (w, Inr 1)
           | Inl (Undefined u) \<Rightarrow> (w, Inl (Undefined u))))"

section \<open>Finishing\<close>

fun any_numberOfEntries :: "any_cache \<Rightarrow> u64" where
  "any_numberOfEntries (Any_Map c) = mc_numberOfEntries c"
| "any_numberOfEntries (Any_Bucket c) = hdr_numberOfEntries (hc_header c)"
| "any_numberOfEntries (Any_Linear c) = hdr_numberOfEntries (hc_header c)"
| "any_numberOfEntries (Any_Dedup c) = hdr_numberOfEntries (hc_header c)"

fun any_maxCollisions :: "any_cache \<Rightarrow> u32" where
  "any_maxCollisions (Any_Map c) = 0"
| "any_maxCollisions (Any_Bucket c) = hdr_maxCollisions (hc_header c)"
| "any_maxCollisions (Any_Linear c) = hdr_maxCollisions (hc_header c)"
| "any_maxCollisions (Any_Dedup c) = hdr_maxCollisions (hc_header c)"

definition finishCacheCreation ::
  "(bytes \<Rightarrow> u64) \<Rightarrow> u64 \<Rightarrow> bytes \<Rightarrow> files \<Rightarrow> writer \<Rightarrow> writer \<times> files \<times> int outcome" where
  "finishCacheCreation H now junk files w =
     (case wr_builder w of
        None \<Rightarrow> (w, files, Inl (Undefined Null_Pointer))
      | Some b \<Rightarrow>
          (let c = fb_cache b;
               w1 = w\<lparr>wr_info := (wr_info w)\<lparr>ci_totalKeys := any_numberOfEntries c,
                                            ci_maxCollisionCount := ucast (any_maxCollisions c)\<rparr>\<rparr>;
               (files', r) = save H now junk files b
           in case r of
                Inl e \<Rightarrow> (w1, files', Inl e)
              | Inr _ \<Rightarrow> (w1\<lparr>wr_builder := None\<rparr>, files', Inr 0)))"

definition getCacheVersion :: string where "getCacheVersion = ''v2''"
definition getCacheHashFunction :: string where "getCacheHashFunction = ''xxh3''"

definition getCacheUniqueKeys :: "writer \<Rightarrow> u64" where
  "getCacheUniqueKeys w = ci_uniqueKeys (wr_info w)"

definition getCacheMaxCollisions :: "writer \<Rightarrow> u64" where
  "getCacheMaxCollisions w = ci_maxCollisionCount (wr_info w)"

text \<open>The counter as text, by increasing number of collisions: \<open>[[0,5],[1,2]]\<close>.\<close>

definition collision_entry :: "(u64 \<times> u64) list \<Rightarrow> u64 \<Rightarrow> bytes" where
  "collision_entry counter idx =
     lit ''['' @ lit (show_nat (unat idx)) @ lit '','' @
     lit (show_nat (unat (case map_of counter idx of Some n \<Rightarrow> n | None \<Rightarrow> 0))) @ lit '']''"

definition getCollisionsCounter :: "writer \<Rightarrow> bytes" where
  "getCollisionsCounter w =
     (let vec = sort (map fst (wr_collisions w));
          entries = map (collision_entry (wr_collisions w)) vec
      in lit ''['' @ (if entries \<noteq> [] then join 44 entries else []) @ lit '']'')"

definition getLastError :: "writer \<Rightarrow> writer \<times> string" where
  "getLastError w = (w\<lparr>wr_lastError := ''''\<rparr>, wr_lastError w)"

section \<open>The states of a handle\<close>

text \<open>The operations that change a handle, with whatever arguments and surroundings.\<close>

inductive writer_step :: "(bytes \<Rightarrow> u64) \<Rightarrow> float_lib \<Rightarrow> writer \<Rightarrow> writer \<Rightarrow> bool" for H fl where
  initialize: "initializeWriter H ff fresh files taskName location n w = (w', r) \<Longrightarrow> writer_step H fl w w'"
| insert: "insertKey H fl w key v type = Some (w', r) \<Longrightarrow> writer_step H fl w w'"
| insert_error: "insertKeyWithError H fl w key v type = Some (w', r2) \<Longrightarrow> writer_step H fl w w'"
| add: "writer_step H fl w (CacheWriter_AddDuplicateValue fl w v type)"
| finish_add: "finishAddDuplicateValues fresh w = (w', r) \<Longrightarrow> writer_step H fl w w'"
| finish: "finishCacheCreation H now junk files w = (w', files', r) \<Longrightarrow> writer_step H fl w w'"
| last_error: "writer_step H fl w (fst (getLastError w))"
| finalize: "writer_step H fl w (finalizeWriter w)"

lemma insert_value_info: "insert_value H w kv = Some (w', r) \<Longrightarrow> wr_info w' = wr_info w"
  by (auto simp: insert_value_def Let_def split: option.splits sum.splits fault.splits)

lemma insertKey_info: "insertKey H fl w key v type = Some (w', r) \<Longrightarrow> wr_info w' = wr_info w"
  by (auto simp: insertKey_def insertScalarKey_def insertVectorKey_def Let_def
      split: if_splits sum.splits dest: insert_value_info)

lemma insertKeyWithError_info: "insertKeyWithError H fl w key v type = Some (w', r) \<Longrightarrow> wr_info w' = wr_info w"
  by (auto simp: insertKeyWithError_def split: option.splits sum.splits dest: insertKey_info)

lemma finishAdd_info: "finishAddDuplicateValues fresh w = (w', r) \<Longrightarrow> wr_info w' = wr_info w"
  by (auto simp: finishAddDuplicateValues_def split: if_splits option.splits sum.splits fault.splits)

lemma initializeWriter_info:
  "initializeWriter H ff fresh files taskName location n w = (w', r) \<Longrightarrow>
     ci_uniqueKeys (wr_info w') = ci_uniqueKeys (wr_info w)"
  by (auto simp: initializeWriter_def Let_def split: if_splits sum.splits fault.splits)

lemma finishCacheCreation_info:
  "finishCacheCreation H now junk files w = (w', files', r) \<Longrightarrow>
     ci_uniqueKeys (wr_info w') = ci_uniqueKeys (wr_info w)"
  by (auto simp: finishCacheCreation_def Let_def split: option.splits prod.splits sum.splits)

lemma writer_step_unique: "writer_step H fl w w' \<Longrightarrow> ci_uniqueKeys (wr_info w') = ci_uniqueKeys (wr_info w)"
  by (induction rule: writer_step.induct)
    (auto simp: insertKey_info insertKeyWithError_info finishAdd_info CacheWriter_AddDuplicateValue_def
      addDuplicateValue_def getLastError_def finalizeWriter_def
      dest: initializeWriter_info finishCacheCreation_info)

section \<open>The counter of collisions\<close>

lemma count_collision_keys: "set (map fst (count_collision n m)) = insert n (set (map fst m))"
  by (induction n m rule: count_collision.induct) auto

lemma count_collision_distinct: "distinct (map fst m) \<Longrightarrow> distinct (map fst (count_collision n m))"
  using count_collision_keys by (induction n m rule: count_collision.induct) fastforce+

lemma count_collision_map:
  "map_of (count_collision n m) k =
     (if k = n then Some (case map_of m n of None \<Rightarrow> 1 | Some c \<Rightarrow> c + 1) else map_of m k)"
  by (induction n m rule: count_collision.induct) auto

definition count_all :: "u64 list \<Rightarrow> (u64 \<times> u64) list" where
  "count_all ns = fold count_collision ns []"

lemma count_all_snoc: "count_all (ns @ [n]) = count_collision n (count_all ns)"
  by (simp add: count_all_def)

lemma count_all_distinct: "distinct (map fst (count_all ns))"
  by (induction ns rule: rev_induct) (simp_all add: count_all_snoc count_collision_distinct count_all_def [of "[]"])

lemma count_all_map:
  "map_of (count_all ns) k = (if k \<in> set ns then Some (of_nat (count_list ns k)) else None)"
proof (induction ns arbitrary: k rule: rev_induct)
  case Nil
  show ?case by (simp add: count_all_def)
next
  case (snoc n ns)
  have "count_list ns n = 0" if "n \<notin> set ns" using that by (simp add: count_list_0_iff)
  with snoc.IH [of n] snoc.IH [of k] show ?case
    by (auto simp: count_all_snoc count_collision_map add.commute)
qed

section \<open>Insertions\<close>

text \<open>A put that is refused in one of the hashed caches, and one that is taken.\<close>

lemma insert_value_throw:
  assumes "wr_builder w = Some b" and "any_put H (fb_cache b) key v = Some (c, Inl (Throw msg))"
  shows "insert_value H w (key, CacheValue v) =
    (let w2 = w\<lparr>wr_builder := Some (b\<lparr>fb_cache := c\<rparr>), wr_lastError := msg\<rparr>
     in Some (w2, Inr (if isOffsetBitsInsertError w2 then 2 else if isKeySpaceIsFullError w2 then 3 else 1)))"
  using assms by (simp add: insert_value_def consumeValue_CacheValue Let_def)

lemma insert_value_taken:
  assumes "wr_builder w = Some b" and "any_put H (fb_cache b) key v = Some (c, Inr (inserted, n))"
  shows "insert_value H w (key, CacheValue v) =
    Some (w\<lparr>wr_builder := Some (b\<lparr>fb_cache := c\<rparr>),
            wr_collisions := count_collision (ucast n) (wr_collisions w)\<rparr>, Inr 0)"
  using assms by (simp add: insert_value_def consumeValue_CacheValue Let_def)

lemma insert_string:
  assumes "key \<noteq> []" and "hd key \<noteq> kValueVectorFlag"
  shows "insertKey H fl w key v 0 = insert_value H w (key, CacheValue (Put_String v))"
  using assms by (simp add: insertKey_def insertScalarKey_def scalar_value_def)

section \<open>Messages as codes\<close>

lemma contains_text_set: "contains_text s p \<Longrightarrow> set p \<subseteq> set s"
proof (induction s p rule: contains_text.induct)
  case (2 c cs p)
  show ?case
  proof (cases "take (length p) (c # cs) = p")
    case True
    then show ?thesis by (metis set_take_subset)
  qed (use 2 in auto)
qed simp

lemma contains_text_self: "contains_text s s"
  by (cases s) simp_all

lemma contains_text_length: "contains_text s p \<Longrightarrow> length p \<le> length s"
proof (induction s p rule: contains_text.induct)
  case (2 c cs p)
  show ?case
  proof (cases "take (length p) (c # cs) = p")
    case True
    then show ?thesis by (metis length_take min.cobounded1 min.commute)
  qed (use 2 in auto)
qed simp

lemma show_nat_char: "c \<in> set (show_nat n) \<Longrightarrow> \<exists>d < 10. c = digit_char d"
proof (induction n rule: show_nat.induct)
  case (1 n)
  show ?case
  proof (cases "n < 10")
    case True
    with 1(2) show ?thesis by (auto simp: show_nat.simps [of n])
  next
    case False
    have "n mod 10 < 10" by simp
    moreover have "c \<in> set (show_nat (n div 10)) \<or> c = digit_char (n mod 10)"
      using False 1(2) by (auto simp: show_nat.simps [of n])
    ultimately show ?thesis using False 1(1) by blast
  qed
qed

lemma no_digit: "of_char c < (48 :: nat) \<or> 57 < (of_char c :: nat) \<Longrightarrow> c \<notin> set (show_nat n)"
  by (auto dest!: show_nat_char simp: digit_char_def)

lemma full_is_no_offset_error: "\<not> contains_text key_space_full_msg (''offset bits '' @ s @ '' too short'')"
  by (auto simp: key_space_full_msg_def dest: contains_text_length)

lemma size_msg_no_offset_error:
  "\<not> contains_text (key_too_large_msg k) (''offset bits '' @ s @ '' too short'')"
  "\<not> contains_text (value_too_large_msg v) (''offset bits '' @ s @ '' too short'')"
proof -
  have b: "CHR ''b'' \<notin> set (show_nat n)" for n by (rule no_digit) simp
  have "CHR ''b'' \<notin> set (key_too_large_msg k)" "CHR ''b'' \<notin> set (value_too_large_msg v)"
    using b by (simp_all add: key_too_large_msg_def value_too_large_msg_def)
  moreover have "CHR ''b'' \<in> set (''offset bits '' @ s @ '' too short'')" by simp
  ultimately show "\<not> contains_text (key_too_large_msg k) (''offset bits '' @ s @ '' too short'')"
    "\<not> contains_text (value_too_large_msg v) (''offset bits '' @ s @ '' too short'')"
    by (blast dest: contains_text_set)+
qed

lemma size_msg_no_full_error:
  "\<not> contains_text (key_too_large_msg k) ''keySpace is full''"
  "\<not> contains_text (value_too_large_msg v) ''keySpace is full''"
proof -
  have b: "CHR ''S'' \<notin> set (show_nat n)" for n by (rule no_digit) simp
  have "CHR ''S'' \<notin> set (key_too_large_msg k)" "CHR ''S'' \<notin> set (value_too_large_msg v)"
    using b by (simp_all add: key_too_large_msg_def value_too_large_msg_def)
  moreover have "CHR ''S'' \<in> set ''keySpace is full''" by simp
  ultimately show "\<not> contains_text (key_too_large_msg k) ''keySpace is full''"
    "\<not> contains_text (value_too_large_msg v) ''keySpace is full''"
    by (blast dest: contains_text_set)+
qed

section \<open>Properties\<close>


text \<open>A handle over the small cache.\<close>

definition small_info :: cache_info where
  "small_info = \<lparr>ci_totalKeys = 0, ci_uniqueKeys = 7, ci_maxCollisionCount = 0, ci_minKeyLength = 0,
                 ci_minValueLength = 0\<rparr>"

definition small_writer :: "linear_cache \<Rightarrow> writer" where
  "small_writer c =
     (NewCacheWriterHandle small_info)\<lparr>wr_builder := Some (small_builder (Any_Linear c)), wr_offsetBits := 16\<rparr>"


text \<open>Whatever operations a writer handle goes through, in whatever order, the number of unique keys
  it reports is the one it was created with: no operation ever sets it, so the C interface returns
  an uninitialised number.\<close>

theorem writer_unique_keys_never_set:
  assumes "(writer_step H fl)\<^sup>*\<^sup>* (NewCacheWriterHandle info) w"
  shows "getCacheUniqueKeys w = ci_uniqueKeys info"
  using assms
  by (induction rule: rtranclp_induct)
    (auto simp: getCacheUniqueKeys_def NewCacheWriterHandle_def dest: writer_step_unique)

theorem writer_unique_keys_never_set_witness:
  "getCacheUniqueKeys (finalizeWriter (NewCacheWriterHandle small_info)) = 7"
proof -
  have "writer_step (\<lambda>key. 0) undefined (NewCacheWriterHandle small_info) (finalizeWriter (NewCacheWriterHandle small_info))"
    by (rule writer_step.finalize)
  from writer_unique_keys_never_set [OF r_into_rtranclp [where r = "writer_step (\<lambda>key. 0) undefined", OF this]]
  show ?thesis by (simp add: small_info_def)
qed



text \<open>C40: an initialisation that is refused for its offset bits leaves the builder of the previous one
  but has already taken over the new type; registering frequent values then treats a plain
  linear-probe cache as a dedup cache.\<close>

theorem writer_refused_initialize_cast:
  assumes b: "wr_builder w = Some b" "fb_cache b = Any_Linear c"
    and s: "s = SharedSettingsProvider (case files location of None \<Rightarrow> [] | Some content \<Rightarrow> content)"
    and ty: "dedup_type (CacheType_of (set_getInt s (lit ''ccache.type'') 5))"
    and bits: "set_getInt s (lit ''ccache.offset.bits'') 35 < 16 \<or> 38 < set_getInt s (lit ''ccache.offset.bits'') 35"
  shows "\<exists>w'. initializeWriter H ff fresh files taskName location n w = (w', Inr 3) \<and>
    finishAddDuplicateValues fresh' w' = (w', Inl (Undefined Bad_Cast))"
proof -
  have o': "co_cacheType (setOptionsFromProperties ff s taskName) = set_getInt s (lit ''ccache.type'') 5"
    "co_offsetBits (setOptionsFromProperties ff s taskName) = set_getInt s (lit ''ccache.offset.bits'') 35"
    by (simp_all add: setOptionsFromProperties_def Let_def)
  obtain w' where w': "initializeWriter H ff fresh files taskName location n w = (w', Inr 3)"
    "wr_builder w' = Some b" "dedup_type (wr_type w')"
    using bits ty b(1) by (auto simp: initializeWriter_def Let_def o' constant_defs simp flip: s)
  then show ?thesis
    by (auto simp: finishAddDuplicateValues_def register_values_def b(2))
qed

theorem writer_refused_initialize_cast_witness:
  "\<exists>c w'. small_cache (\<lambda>key. 0) = Inr c \<and>
     initializeWriter (\<lambda>key. 0) undefined (\<lambda>b i. 0) [lit ''s'' \<mapsto> lit ''ccache.offset.bits'' @ 61 # lit ''99'' @ [10]]
       (lit ''n'') (lit ''s'') 4 (small_writer c) = (w', Inr 3) \<and>
     finishAddDuplicateValues (\<lambda>b i. 0) w' = (w', Inl (Undefined Bad_Cast))"
proof -
  obtain c where c: "small_cache (\<lambda>key. 0) = Inr c" using small_cache by metis
  let ?k = "lit ''ccache.offset.bits''" and ?content = "lit ''ccache.offset.bits'' @ 61 # lit ''99'' @ [10]"
  have "SharedSettingsProvider (concat (map (\<lambda>(k, v). (k @ 61 # v) @ [10]) [(?k, lit ''99'')])) =
      map_of (rev (map (\<lambda>(k, v). (trim k, trim v)) [(?k, lit ''99'')]))"
    by (rule settings_of_pairs) (simp add: lit_def)
  moreover have "trim ?k = ?k" "trim (lit ''99'') = lit ''99''"
    by (simp_all add: trim_strip strip_def isspace_def lit_def)
  ultimately have s: "SharedSettingsProvider ?content = [?k \<mapsto> lit ''99'']" by simp
  have n: "toInteger (lit ''99'') = 99" by (simp add: toInteger_def from_chars_def is_digit_def lit_def)
  have cs: "c_string ?k = ?k" "c_string (lit ''ccache.type'') \<noteq> ?k" "lit ''99'' \<noteq> []"
    by (simp_all add: c_string_def lit_def)
  have g: "set_getInt (SharedSettingsProvider ?content) (lit ''ccache.type'') 5 = 5"
    "set_getInt (SharedSettingsProvider ?content) ?k 35 = 99"
    unfolding s using cs n by (simp_all add: set_getInt_def set_getString_def Let_def)
  let ?files = "[lit ''s'' \<mapsto> ?content]"
  have f: "SharedSettingsProvider ?content =
      SharedSettingsProvider (case ?files (lit ''s'') of None \<Rightarrow> [] | Some content \<Rightarrow> content)" by simp
  have b: "wr_builder (small_writer c) = Some (small_builder (Any_Linear c))"
    "fb_cache (small_builder (Any_Linear c)) = Any_Linear c"
    by (simp_all add: small_writer_def small_builder_def)
  have "\<exists>w'. initializeWriter (\<lambda>key. 0) undefined (\<lambda>b i. 0) ?files (lit ''n'') (lit ''s'') 4 (small_writer c) = (w', Inr 3) \<and>
      finishAddDuplicateValues (\<lambda>b i. 0) w' = (w', Inl (Undefined Bad_Cast))"
    by (rule writer_refused_initialize_cast [where files = ?files and location = "lit ''s''", OF b f])
      (simp_all only: g, simp_all add: CacheType_of_def dedup_type_def)
  with c show ?thesis by blast
qed

end
