(* ===== verification/Xxh3.thy ===== *)
theory Xxh3
  imports Axon_Base
begin

text \<open>
  The hash function of the caches: \<open>Xxh3Hasher\<close> (\<open>cache/hasher/Xxh3Hasher.cpp\<close>) calls
  \<open>XXH3_64bits\<close> of the bundled \<open>common/xxhash.h\<close>.  Modelled are the one-shot 64-bit
  functions on a little-endian machine, with the portable loops over long keys and those for
  SSE2 and AVX2; a pointer is an offset into the input or the secret, and every read is checked
  against the size of its array.

  \<open>Xxh3_Mixing\<close> holds the lemmas on the arithmetic, \<open>Xxh3_Keys\<close> those on bounds, secrets and
  short keys, \<open>Xxh3_Vector\<close> those on the vector variants, \<open>Xxh3_Hash\<close> the properties.
\<close>

section \<open>Constants\<close>

definition XXH_PRIME32_1 :: u32 where "XXH_PRIME32_1 = 0x9E3779B1"
definition XXH_PRIME32_2 :: u32 where "XXH_PRIME32_2 = 0x85EBCA77"
definition XXH_PRIME32_3 :: u32 where "XXH_PRIME32_3 = 0xC2B2AE3D"
definition XXH_PRIME64_1 :: u64 where "XXH_PRIME64_1 = 0x9E3779B185EBCA87"
definition XXH_PRIME64_2 :: u64 where "XXH_PRIME64_2 = 0xC2B2AE3D27D4EB4F"
definition XXH_PRIME64_3 :: u64 where "XXH_PRIME64_3 = 0x165667B19E3779F9"
definition XXH_PRIME64_4 :: u64 where "XXH_PRIME64_4 = 0x85EBCA77C2B2AE63"
definition XXH_PRIME64_5 :: u64 where "XXH_PRIME64_5 = 0x27D4EB2F165667C5"

definition XXH3_SECRET_SIZE_MIN :: nat where "XXH3_SECRET_SIZE_MIN = 136"
definition XXH3_MIDSIZE_MAX :: nat where "XXH3_MIDSIZE_MAX = 240"
definition XXH3_MIDSIZE_STARTOFFSET :: nat where "XXH3_MIDSIZE_STARTOFFSET = 3"
definition XXH3_MIDSIZE_LASTOFFSET :: nat where "XXH3_MIDSIZE_LASTOFFSET = 17"
definition XXH_STRIPE_LEN :: nat where "XXH_STRIPE_LEN = 64"
definition XXH_SECRET_CONSUME_RATE :: nat where "XXH_SECRET_CONSUME_RATE = 8"
definition XXH_ACC_NB :: nat where "XXH_ACC_NB = 8"
definition XXH_SECRET_LASTACC_START :: nat where "XXH_SECRET_LASTACC_START = 7"
definition XXH_SECRET_MERGEACCS_START :: nat where "XXH_SECRET_MERGEACCS_START = 11"

lemmas xxh_sizes = XXH3_SECRET_SIZE_MIN_def XXH3_MIDSIZE_MAX_def XXH3_MIDSIZE_STARTOFFSET_def
  XXH3_MIDSIZE_LASTOFFSET_def XXH_STRIPE_LEN_def XXH_SECRET_CONSUME_RATE_def XXH_ACC_NB_def
  XXH_SECRET_LASTACC_START_def XXH_SECRET_MERGEACCS_START_def

definition XXH3_kSecret :: bytes where
  "XXH3_kSecret = [
     0xb8, 0xfe, 0x6c, 0x39, 0x23, 0xa4, 0x4b, 0xbe, 0x7c, 0x01, 0x81, 0x2c, 0xf7, 0x21, 0xad, 0x1c,
     0xde, 0xd4, 0x6d, 0xe9, 0x83, 0x90, 0x97, 0xdb, 0x72, 0x40, 0xa4, 0xa4, 0xb7, 0xb3, 0x67, 0x1f,
     0xcb, 0x79, 0xe6, 0x4e, 0xcc, 0xc0, 0xe5, 0x78, 0x82, 0x5a, 0xd0, 0x7d, 0xcc, 0xff, 0x72, 0x21,
     0xb8, 0x08, 0x46, 0x74, 0xf7, 0x43, 0x24, 0x8e, 0xe0, 0x35, 0x90, 0xe6, 0x81, 0x3a, 0x26, 0x4c,
     0x3c, 0x28, 0x52, 0xbb, 0x91, 0xc3, 0x00, 0xcb, 0x88, 0xd0, 0x65, 0x8b, 0x1b, 0x53, 0x2e, 0xa3,
     0x71, 0x64, 0x48, 0x97, 0xa2, 0x0d, 0xf9, 0x4e, 0x38, 0x19, 0xef, 0x46, 0xa9, 0xde, 0xac, 0xd8,
     0xa8, 0xfa, 0x76, 0x3f, 0xe3, 0x9c, 0x34, 0x3f, 0xf9, 0xdc, 0xbb, 0xc7, 0xc7, 0x0b, 0x4f, 0x1d,
     0x8a, 0x51, 0xe0, 0x4b, 0xcd, 0xb4, 0x59, 0x31, 0xc8, 0x9f, 0x7e, 0xc9, 0xd9, 0x78, 0x73, 0x64,
     0xea, 0xc5, 0xac, 0x83, 0x34, 0xd3, 0xeb, 0xc3, 0xc5, 0x81, 0xa0, 0xff, 0xfa, 0x13, 0x63, 0xeb,
     0x17, 0x0d, 0xdd, 0x51, 0xb7, 0xf0, 0xda, 0x49, 0xd3, 0x16, 0x55, 0x26, 0x29, 0xd4, 0x68, 0x9e,
     0x2b, 0x16, 0xbe, 0x58, 0x7d, 0x47, 0xa1, 0xfc, 0x8f, 0xf8, 0xb8, 0xd1, 0x7a, 0xd0, 0x31, 0xce,
     0x45, 0xcb, 0x3a, 0x8f, 0x95, 0x16, 0x04, 0x28, 0xaf, 0xd7, 0xfb, 0xca, 0xbb, 0x4b, 0x40, 0x7e]"

lemma length_XXH3_kSecret: "length XXH3_kSecret = 192"
  by (simp add: XXH3_kSecret_def)

definition XXH3_INIT_ACC :: "u64 list" where
  "XXH3_INIT_ACC =
     [ucast XXH_PRIME32_3, XXH_PRIME64_1, XXH_PRIME64_2, XXH_PRIME64_3,
      XXH_PRIME64_4, ucast XXH_PRIME32_2, XXH_PRIME64_5, ucast XXH_PRIME32_1]"

section \<open>Bits\<close>

text \<open>A byte of an array.\<close>

definition load_u8 :: "bytes \<Rightarrow> nat \<Rightarrow> u8 outcome" where
  "load_u8 m off = (if off < length m then Inr (m ! off) else Inl (Undefined Out_Of_Bounds))"

definition XXH_rotl64 :: "u64 \<Rightarrow> nat \<Rightarrow> u64" where
  "XXH_rotl64 x r = push_bit r x OR drop_bit (64 - r) x"

definition XXH_swap32 :: "u32 \<Rightarrow> u32" where
  "XXH_swap32 x =
     (push_bit 24 x AND 0xff000000) OR (push_bit 8 x AND 0x00ff0000) OR
     (drop_bit 8 x AND 0x0000ff00) OR (drop_bit 24 x AND 0x000000ff)"

definition XXH_swap64 :: "u64 \<Rightarrow> u64" where
  "XXH_swap64 x =
     (push_bit 56 x AND 0xff00000000000000) OR (push_bit 40 x AND 0x00ff000000000000) OR
     (push_bit 24 x AND 0x0000ff0000000000) OR (push_bit 8 x AND 0x000000ff00000000) OR
     (drop_bit 8 x AND 0x00000000ff000000) OR (drop_bit 24 x AND 0x0000000000ff0000) OR
     (drop_bit 40 x AND 0x000000000000ff00) OR (drop_bit 56 x AND 0x00000000000000ff)"

definition XXH_xorshift64 :: "u64 \<Rightarrow> nat \<Rightarrow> u64" where
  "XXH_xorshift64 v64 shift = v64 XOR drop_bit shift v64"

text \<open>The macro casts both operands down to 32 bits.\<close>

definition XXH_mult32to64 :: "u64 \<Rightarrow> u64 \<Rightarrow> u64" where
  "XXH_mult32to64 x y = ucast (ucast x :: u32) * ucast (ucast y :: u32)"

text \<open>
  The 128-bit product as its low and high half: with \<open>__uint128_t\<close>, and with the portable
  multiplication in four parts.
\<close>

definition XXH_mult64to128 :: "u64 \<Rightarrow> u64 \<Rightarrow> u64 \<times> u64" where
  "XXH_mult64to128 lhs rhs =
     (let product = (ucast lhs * ucast rhs :: 128 word) in (ucast product, ucast (drop_bit 64 product)))"

definition XXH_mult64to128_portable :: "u64 \<Rightarrow> u64 \<Rightarrow> u64 \<times> u64" where
  "XXH_mult64to128_portable lhs rhs =
     (let lo_lo = XXH_mult32to64 (lhs AND 0xFFFFFFFF) (rhs AND 0xFFFFFFFF);
          hi_lo = XXH_mult32to64 (drop_bit 32 lhs) (rhs AND 0xFFFFFFFF);
          lo_hi = XXH_mult32to64 (lhs AND 0xFFFFFFFF) (drop_bit 32 rhs);
          hi_hi = XXH_mult32to64 (drop_bit 32 lhs) (drop_bit 32 rhs);
          cross = drop_bit 32 lo_lo + (hi_lo AND 0xFFFFFFFF) + lo_hi;
          upper = drop_bit 32 hi_lo + drop_bit 32 cross + hi_hi;
          lower = push_bit 32 cross OR (lo_lo AND 0xFFFFFFFF)
      in (lower, upper))"

definition XXH3_mul128_fold64 :: "u64 \<Rightarrow> u64 \<Rightarrow> u64" where
  "XXH3_mul128_fold64 lhs rhs = (let (low64, high64) = XXH_mult64to128 lhs rhs in low64 XOR high64)"

definition XXH3_avalanche :: "u64 \<Rightarrow> u64" where
  "XXH3_avalanche h64 = XXH_xorshift64 (XXH_xorshift64 h64 37 * 0x165667919E3779F9) 32"

definition XXH64_avalanche :: "u64 \<Rightarrow> u64" where
  "XXH64_avalanche h0 =
     (let h1 = (h0 XOR drop_bit 33 h0) * XXH_PRIME64_2;
          h2 = (h1 XOR drop_bit 29 h1) * XXH_PRIME64_3
      in h2 XOR drop_bit 32 h2)"

definition XXH3_rrmxmx :: "u64 \<Rightarrow> u64 \<Rightarrow> u64" where
  "XXH3_rrmxmx h0 len =
     (let h1 = (h0 XOR (XXH_rotl64 h0 49 XOR XXH_rotl64 h0 24)) * 0x9FB21C651E98DF25;
          h2 = (h1 XOR (drop_bit 35 h1 + len)) * 0x9FB21C651E98DF25
      in XXH_xorshift64 h2 28)"

section \<open>Short keys\<close>

definition XXH3_len_1to3_64b :: "bytes \<Rightarrow> bytes \<Rightarrow> u64 \<Rightarrow> u64 outcome" where
  "XXH3_len_1to3_64b input secret seed =
     (let len = length input in
      and_then (load_u8 input 0) (\<lambda>c1.
      and_then (load_u8 input (len div 2)) (\<lambda>c2.
      and_then (load_u8 input (len - 1)) (\<lambda>c3.
        let combined = push_bit 16 (ucast c1) OR push_bit 24 (ucast c2) OR ucast c3 OR
                         push_bit 8 (of_nat len) :: u32 in
      and_then (load_u32 secret 0) (\<lambda>s1.
      and_then (load_u32 secret 4) (\<lambda>s2.
        let bitflip = ucast (s1 XOR s2) + seed; keyed = ucast combined XOR bitflip
        in Inr (XXH64_avalanche keyed)))))))"

definition XXH3_len_4to8_64b :: "bytes \<Rightarrow> bytes \<Rightarrow> u64 \<Rightarrow> u64 outcome" where
  "XXH3_len_4to8_64b input secret seed0 =
     (let len = length input; seed = seed0 XOR push_bit 32 (ucast (XXH_swap32 (ucast seed0))) in
      and_then (load_u32 input 0) (\<lambda>input1.
      and_then (load_u32 input (len - 4)) (\<lambda>input2.
      and_then (load_u64 secret 8) (\<lambda>s1.
      and_then (load_u64 secret 16) (\<lambda>s2.
        let bitflip = (s1 XOR s2) - seed; input64 = ucast input2 + push_bit 32 (ucast input1);
            keyed = input64 XOR bitflip
        in Inr (XXH3_rrmxmx keyed (of_nat len)))))))"

definition XXH3_len_9to16_64b :: "bytes \<Rightarrow> bytes \<Rightarrow> u64 \<Rightarrow> u64 outcome" where
  "XXH3_len_9to16_64b input secret seed =
     (let len = length input in
      and_then (load_u64 secret 24) (\<lambda>s1.
      and_then (load_u64 secret 32) (\<lambda>s2.
      and_then (load_u64 secret 40) (\<lambda>s3.
      and_then (load_u64 secret 48) (\<lambda>s4.
      and_then (load_u64 input 0) (\<lambda>i1.
      and_then (load_u64 input (len - 8)) (\<lambda>i2.
        let bitflip1 = (s1 XOR s2) + seed; bitflip2 = (s3 XOR s4) - seed;
            input_lo = i1 XOR bitflip1; input_hi = i2 XOR bitflip2;
            acc = of_nat len + XXH_swap64 input_lo + input_hi + XXH3_mul128_fold64 input_lo input_hi
        in Inr (XXH3_avalanche acc))))))))"

definition XXH3_len_0to16_64b :: "bytes \<Rightarrow> bytes \<Rightarrow> u64 \<Rightarrow> u64 outcome" where
  "XXH3_len_0to16_64b input secret seed =
     (let len = length input in
      if len > 8 then XXH3_len_9to16_64b input secret seed
      else if len \<ge> 4 then XXH3_len_4to8_64b input secret seed
      else if len \<noteq> 0 then XXH3_len_1to3_64b input secret seed
      else and_then (load_u64 secret 56) (\<lambda>s1. and_then (load_u64 secret 64) (\<lambda>s2.
             Inr (XXH64_avalanche (seed XOR (s1 XOR s2))))))"

section \<open>Keys of middle length\<close>

definition XXH3_mix16B :: "bytes \<Rightarrow> nat \<Rightarrow> bytes \<Rightarrow> nat \<Rightarrow> u64 \<Rightarrow> u64 outcome" where
  "XXH3_mix16B input i secret s seed64 =
     and_then (load_u64 input i) (\<lambda>input_lo.
     and_then (load_u64 input (i + 8)) (\<lambda>input_hi.
     and_then (load_u64 secret s) (\<lambda>s1.
     and_then (load_u64 secret (s + 8)) (\<lambda>s2.
       Inr (XXH3_mul128_fold64 (input_lo XOR (s1 + seed64)) (input_hi XOR (s2 - seed64)))))))"

text \<open>\<open>acc += XXH3_mix16B( \<dots> )\<close>, and a loop over indices.\<close>

definition mix_into :: "bytes \<Rightarrow> bytes \<Rightarrow> u64 \<Rightarrow> nat \<Rightarrow> nat \<Rightarrow> u64 \<Rightarrow> u64 outcome" where
  "mix_into input secret seed i s acc =
     and_then (XXH3_mix16B input i secret s seed) (\<lambda>x. Inr (acc + x))"

fun for_each :: "nat list \<Rightarrow> (nat \<Rightarrow> 's \<Rightarrow> 's outcome) \<Rightarrow> 's \<Rightarrow> 's outcome" where
  "for_each [] body s = Inr s"
| "for_each (i # is) body s = and_then (body i s) (for_each is body)"

definition XXH3_len_17to128_64b :: "bytes \<Rightarrow> bytes \<Rightarrow> u64 \<Rightarrow> u64 outcome" where
  "XXH3_len_17to128_64b input secret seed =
     (let len = length input; mix = mix_into input secret seed in
      and_then (if len > 32 then
        and_then (if len > 64 then
          and_then (if len > 96 then
            and_then (mix 48 96 (of_nat len * XXH_PRIME64_1)) (mix (len - 64) 112)
            else Inr (of_nat len * XXH_PRIME64_1)) (\<lambda>acc.
          and_then (mix 32 64 acc) (mix (len - 48) 80))
          else Inr (of_nat len * XXH_PRIME64_1)) (\<lambda>acc.
        and_then (mix 16 32 acc) (mix (len - 32) 48))
        else Inr (of_nat len * XXH_PRIME64_1)) (\<lambda>acc.
      and_then (mix 0 0 acc) (\<lambda>acc.
      and_then (mix (len - 16) 16 acc) (\<lambda>acc.
        Inr (XXH3_avalanche acc)))))"

definition XXH3_len_129to240_64b :: "bytes \<Rightarrow> bytes \<Rightarrow> u64 \<Rightarrow> u64 outcome" where
  "XXH3_len_129to240_64b input secret seed =
     (let len = length input; mix = mix_into input secret seed; nbRounds = len div 16 in
      and_then (for_each [0..<8] (\<lambda>i. mix (16 * i) (16 * i)) (of_nat len * XXH_PRIME64_1)) (\<lambda>acc.
      and_then (for_each [8..<nbRounds]
        (\<lambda>i. mix (16 * i) (16 * (i - 8) + XXH3_MIDSIZE_STARTOFFSET)) (XXH3_avalanche acc)) (\<lambda>acc.
      and_then (mix (len - 16) (XXH3_SECRET_SIZE_MIN - XXH3_MIDSIZE_LASTOFFSET) acc) (\<lambda>acc.
        Inr (XXH3_avalanche acc)))))"

section \<open>Long keys\<close>

definition XXH3_accumulate_512_scalar :: "bytes \<Rightarrow> bytes \<Rightarrow> u64 list \<Rightarrow> nat \<Rightarrow> nat \<Rightarrow> u64 list outcome" where
  "XXH3_accumulate_512_scalar input secret acc xinput xsecret =
     for_each [0..<XXH_ACC_NB] (\<lambda>i xacc.
       and_then (load_u64 input (xinput + 8 * i)) (\<lambda>data_val.
       and_then (load_u64 secret (xsecret + i * 8)) (\<lambda>s.
         let data_key = data_val XOR s;
             xacc1 = xacc[i XOR 1 := xacc ! (i XOR 1) + data_val]
         in Inr (xacc1[i := xacc1 ! i + XXH_mult32to64 (data_key AND 0xFFFFFFFF) (drop_bit 32 data_key)])))) acc"

definition XXH3_scrambleAcc_scalar :: "bytes \<Rightarrow> u64 list \<Rightarrow> nat \<Rightarrow> u64 list outcome" where
  "XXH3_scrambleAcc_scalar secret acc xsecret =
     for_each [0..<XXH_ACC_NB] (\<lambda>i xacc.
       and_then (load_u64 secret (xsecret + 8 * i)) (\<lambda>key64.
         Inr (xacc[i := (XXH_xorshift64 (xacc ! i) 47 XOR key64) * ucast XXH_PRIME32_1]))) acc"

definition XXH3_initCustomSecret_scalar :: "u64 \<Rightarrow> bytes outcome" where
  "XXH3_initCustomSecret_scalar seed64 =
     for_each [0..<12] (\<lambda>i customSecret.
       and_then (load_u64 XXH3_kSecret (16 * i)) (\<lambda>lo.
       and_then (load_u64 XXH3_kSecret (16 * i + 8)) (\<lambda>hi.
       and_then (splice customSecret (16 * i) (le64 (lo + seed64))) (\<lambda>customSecret.
         splice customSecret (16 * i + 8) (le64 (hi - seed64)))))) (replicate 192 0)"

section \<open>Vector variants\<close>

text \<open>
  The instructions of SSE2 and AVX2 that the code uses, as documented for the processor.  A
  vector is the list of its 64-bit lanes, the lowest first: two for \<open>__m128i\<close>, four for
  \<open>__m256i\<close>.  \<open>shuffle_epi32\<close> permutes the four 32-bit lanes of each 128-bit half.
\<close>

type_synonym lanes = "u64 list"

definition lane_of :: "u32 \<Rightarrow> u32 \<Rightarrow> u64" where
  "lane_of lo hi = ucast lo OR push_bit 32 (ucast hi)"

definition lo32 :: "u64 \<Rightarrow> u32" where "lo32 x = ucast x"
definition hi32 :: "u64 \<Rightarrow> u32" where "hi32 x = ucast (drop_bit 32 x)"

definition mm_add_epi64 :: "lanes \<Rightarrow> lanes \<Rightarrow> lanes" where "mm_add_epi64 = map2 (+)"
definition mm_xor :: "lanes \<Rightarrow> lanes \<Rightarrow> lanes" where "mm_xor = map2 (XOR)"
definition mm_srli_epi64 :: "lanes \<Rightarrow> nat \<Rightarrow> lanes" where "mm_srli_epi64 v n = map (drop_bit n) v"
definition mm_slli_epi64 :: "lanes \<Rightarrow> nat \<Rightarrow> lanes" where "mm_slli_epi64 v n = map (push_bit n) v"

definition mm_mul_epu32 :: "lanes \<Rightarrow> lanes \<Rightarrow> lanes" where
  "mm_mul_epu32 = map2 (\<lambda>a b. ucast (lo32 a) * ucast (lo32 b))"

definition mm_set1_epi32 :: "nat \<Rightarrow> u32 \<Rightarrow> lanes" where "mm_set1_epi32 n x = replicate n (lane_of x x)"

fun mm_shuffle_epi32 :: "lanes \<Rightarrow> nat \<times> nat \<times> nat \<times> nat \<Rightarrow> lanes" where
  "mm_shuffle_epi32 (a # b # v) (i3, i2, i1, i0) =
     (let d = [lo32 a, hi32 a, lo32 b, hi32 b]
      in lane_of (d ! i0) (d ! i1) # lane_of (d ! i2) (d ! i3) # mm_shuffle_epi32 v (i3, i2, i1, i0))"
| "mm_shuffle_epi32 v _ = v"

primrec mm_loadu :: "nat \<Rightarrow> bytes \<Rightarrow> nat \<Rightarrow> lanes outcome" where
  "mm_loadu 0 m off = Inr []"
| "mm_loadu (Suc n) m off =
     and_then (load_u64 m off) (\<lambda>x. and_then (mm_loadu n m (off + 8)) (\<lambda>v. Inr (x # v)))"

definition mm_store :: "bytes \<Rightarrow> nat \<Rightarrow> lanes \<Rightarrow> bytes outcome" where
  "mm_store m off v = splice m off (concat (map le64 v))"

text \<open>\<open>xacc[i]\<close> of the accumulators taken as vectors of \<open>n\<close> lanes.\<close>

definition vec_at :: "nat \<Rightarrow> u64 list \<Rightarrow> nat \<Rightarrow> lanes" where
  "vec_at n xacc i = take n (drop (n * i) xacc)"

definition vec_set :: "nat \<Rightarrow> u64 list \<Rightarrow> nat \<Rightarrow> lanes \<Rightarrow> u64 list" where
  "vec_set n xacc i v = take (n * i) xacc @ v @ drop (n * i + n) xacc"

text \<open>The loops are the same for both widths; \<open>n\<close> is the number of lanes.\<close>

definition accumulate_512_lanes ::
  "nat \<Rightarrow> bytes \<Rightarrow> bytes \<Rightarrow> u64 list \<Rightarrow> nat \<Rightarrow> nat \<Rightarrow> u64 list outcome" where
  "accumulate_512_lanes n input secret acc xinput xsecret =
     for_each [0..<XXH_STRIPE_LEN div (8 * n)] (\<lambda>i xacc.
       and_then (mm_loadu n input (xinput + 8 * n * i)) (\<lambda>data_vec.
       and_then (mm_loadu n secret (xsecret + 8 * n * i)) (\<lambda>key_vec.
         let data_key = mm_xor data_vec key_vec;
             data_key_lo = mm_shuffle_epi32 data_key (0, 3, 0, 1);
             product = mm_mul_epu32 data_key data_key_lo;
             data_swap = mm_shuffle_epi32 data_vec (1, 0, 3, 2);
             sum = mm_add_epi64 (vec_at n xacc i) data_swap
         in Inr (vec_set n xacc i (mm_add_epi64 product sum))))) acc"

definition scrambleAcc_lanes :: "nat \<Rightarrow> bytes \<Rightarrow> u64 list \<Rightarrow> nat \<Rightarrow> u64 list outcome" where
  "scrambleAcc_lanes n secret acc xsecret =
     (let prime32 = mm_set1_epi32 n XXH_PRIME32_1 in
      for_each [0..<XXH_STRIPE_LEN div (8 * n)] (\<lambda>i xacc.
        let acc_vec = vec_at n xacc i;
            shifted = mm_srli_epi64 acc_vec 47;
            data_vec = mm_xor acc_vec shifted
        in and_then (mm_loadu n secret (xsecret + 8 * n * i)) (\<lambda>key_vec.
             let data_key = mm_xor data_vec key_vec;
                 data_key_hi = mm_shuffle_epi32 data_key (0, 3, 0, 1);
                 prod_lo = mm_mul_epu32 data_key prime32;
                 prod_hi = mm_mul_epu32 data_key_hi prime32
             in Inr (vec_set n xacc i (mm_add_epi64 prod_lo (mm_slli_epi64 prod_hi 32))))) acc)"

definition initCustomSecret_lanes :: "nat \<Rightarrow> lanes \<Rightarrow> bytes outcome" where
  "initCustomSecret_lanes n seed =
     for_each [0..<192 div (8 * n)] (\<lambda>i dst.
       and_then (mm_loadu n XXH3_kSecret (8 * n * i)) (\<lambda>src.
         mm_store dst (8 * n * i) (mm_add_epi64 src seed))) (replicate 192 0)"

definition XXH3_accumulate_512_avx2 :: "bytes \<Rightarrow> bytes \<Rightarrow> u64 list \<Rightarrow> nat \<Rightarrow> nat \<Rightarrow> u64 list outcome" where
  "XXH3_accumulate_512_avx2 = accumulate_512_lanes 4"

definition XXH3_scrambleAcc_avx2 :: "bytes \<Rightarrow> u64 list \<Rightarrow> nat \<Rightarrow> u64 list outcome" where
  "XXH3_scrambleAcc_avx2 = scrambleAcc_lanes 4"

definition XXH3_initCustomSecret_avx2 :: "u64 \<Rightarrow> bytes outcome" where
  "XXH3_initCustomSecret_avx2 seed64 = initCustomSecret_lanes 4 [seed64, 0 - seed64, seed64, 0 - seed64]"

definition XXH3_accumulate_512_sse2 :: "bytes \<Rightarrow> bytes \<Rightarrow> u64 list \<Rightarrow> nat \<Rightarrow> nat \<Rightarrow> u64 list outcome" where
  "XXH3_accumulate_512_sse2 = accumulate_512_lanes 2"

definition XXH3_scrambleAcc_sse2 :: "bytes \<Rightarrow> u64 list \<Rightarrow> nat \<Rightarrow> u64 list outcome" where
  "XXH3_scrambleAcc_sse2 = scrambleAcc_lanes 2"

definition XXH3_initCustomSecret_sse2 :: "u64 \<Rightarrow> bytes outcome" where
  "XXH3_initCustomSecret_sse2 seed64 = initCustomSecret_lanes 2 [seed64, 0 - seed64]"

section \<open>Long keys, for any variant\<close>

type_synonym f_accumulate_512 = "bytes \<Rightarrow> bytes \<Rightarrow> u64 list \<Rightarrow> nat \<Rightarrow> nat \<Rightarrow> u64 list outcome"
type_synonym f_scrambleAcc = "bytes \<Rightarrow> u64 list \<Rightarrow> nat \<Rightarrow> u64 list outcome"

text \<open>\<open>XXH_VECTOR\<close>, a choice of the build, selects the functions of a variant.\<close>

datatype xxh_vector = XXH_SCALAR | XXH_SSE2 | XXH_AVX2

definition XXH3_accumulate_512 :: "xxh_vector \<Rightarrow> f_accumulate_512" where
  "XXH3_accumulate_512 vector =
     (case vector of XXH_AVX2 \<Rightarrow> XXH3_accumulate_512_avx2 | XXH_SSE2 \<Rightarrow> XXH3_accumulate_512_sse2
      | XXH_SCALAR \<Rightarrow> XXH3_accumulate_512_scalar)"

definition XXH3_scrambleAcc :: "xxh_vector \<Rightarrow> f_scrambleAcc" where
  "XXH3_scrambleAcc vector =
     (case vector of XXH_AVX2 \<Rightarrow> XXH3_scrambleAcc_avx2 | XXH_SSE2 \<Rightarrow> XXH3_scrambleAcc_sse2
      | XXH_SCALAR \<Rightarrow> XXH3_scrambleAcc_scalar)"

definition XXH3_initCustomSecret :: "xxh_vector \<Rightarrow> u64 \<Rightarrow> bytes outcome" where
  "XXH3_initCustomSecret vector =
     (case vector of XXH_AVX2 \<Rightarrow> XXH3_initCustomSecret_avx2 | XXH_SSE2 \<Rightarrow> XXH3_initCustomSecret_sse2
      | XXH_SCALAR \<Rightarrow> XXH3_initCustomSecret_scalar)"

definition XXH3_accumulate ::
  "bytes \<Rightarrow> bytes \<Rightarrow> u64 list \<Rightarrow> nat \<Rightarrow> nat \<Rightarrow> nat \<Rightarrow> f_accumulate_512 \<Rightarrow> u64 list outcome" where
  "XXH3_accumulate input secret acc i s nbStripes f_acc512 =
     for_each [0..<nbStripes] (\<lambda>n acc.
       f_acc512 input secret acc (i + n * XXH_STRIPE_LEN) (s + n * XXH_SECRET_CONSUME_RATE)) acc"

definition XXH3_hashLong_internal_loop ::
  "u64 list \<Rightarrow> bytes \<Rightarrow> bytes \<Rightarrow> f_accumulate_512 \<Rightarrow> f_scrambleAcc \<Rightarrow> u64 list outcome" where
  "XXH3_hashLong_internal_loop acc input secret f_acc512 f_scramble =
     (let len = length input; secretSize = length secret;
          nbStripesPerBlock = (secretSize - XXH_STRIPE_LEN) div XXH_SECRET_CONSUME_RATE;
          block_len = XXH_STRIPE_LEN * nbStripesPerBlock;
          nb_blocks = (len - 1) div block_len;
          nbStripes = (len - 1 - block_len * nb_blocks) div XXH_STRIPE_LEN
      in and_then (for_each [0..<nb_blocks] (\<lambda>n acc.
           and_then (XXH3_accumulate input secret acc (n * block_len) 0 nbStripesPerBlock f_acc512) (\<lambda>acc.
             f_scramble secret acc (secretSize - XXH_STRIPE_LEN))) acc) (\<lambda>acc.
         and_then (XXH3_accumulate input secret acc (nb_blocks * block_len) 0 nbStripes f_acc512) (\<lambda>acc.
           f_acc512 input secret acc (len - XXH_STRIPE_LEN)
             (secretSize - XXH_STRIPE_LEN - XXH_SECRET_LASTACC_START))))"

definition XXH3_mix2Accs :: "u64 list \<Rightarrow> nat \<Rightarrow> bytes \<Rightarrow> nat \<Rightarrow> u64 outcome" where
  "XXH3_mix2Accs acc i secret s =
     and_then (load_u64 secret s) (\<lambda>s1.
     and_then (load_u64 secret (s + 8)) (\<lambda>s2.
       Inr (XXH3_mul128_fold64 (acc ! i XOR s1) (acc ! (i + 1) XOR s2))))"

definition XXH3_mergeAccs :: "u64 list \<Rightarrow> bytes \<Rightarrow> nat \<Rightarrow> u64 \<Rightarrow> u64 outcome" where
  "XXH3_mergeAccs acc secret s start =
     and_then (for_each [0..<4] (\<lambda>i result64.
       and_then (XXH3_mix2Accs acc (2 * i) secret (s + 16 * i)) (\<lambda>x. Inr (result64 + x))) start) (\<lambda>result64.
     Inr (XXH3_avalanche result64))"

definition XXH3_hashLong_64b_internal ::
  "bytes \<Rightarrow> bytes \<Rightarrow> f_accumulate_512 \<Rightarrow> f_scrambleAcc \<Rightarrow> u64 outcome" where
  "XXH3_hashLong_64b_internal input secret f_acc512 f_scramble =
     and_then (XXH3_hashLong_internal_loop XXH3_INIT_ACC input secret f_acc512 f_scramble) (\<lambda>acc.
       XXH3_mergeAccs acc secret XXH_SECRET_MERGEACCS_START (of_nat (length input) * XXH_PRIME64_1))"

section \<open>Entry points\<close>

definition XXH3_hashLong_64b_withSecret :: "xxh_vector \<Rightarrow> bytes \<Rightarrow> u64 \<Rightarrow> bytes \<Rightarrow> u64 outcome" where
  "XXH3_hashLong_64b_withSecret vector input seed64 secret =
     XXH3_hashLong_64b_internal input secret (XXH3_accumulate_512 vector) (XXH3_scrambleAcc vector)"

definition XXH3_hashLong_64b_default :: "xxh_vector \<Rightarrow> bytes \<Rightarrow> u64 \<Rightarrow> bytes \<Rightarrow> u64 outcome" where
  "XXH3_hashLong_64b_default vector input seed64 secret =
     XXH3_hashLong_64b_internal input XXH3_kSecret (XXH3_accumulate_512 vector) (XXH3_scrambleAcc vector)"

definition XXH3_hashLong_64b_withSeed_internal ::
  "bytes \<Rightarrow> u64 \<Rightarrow> f_accumulate_512 \<Rightarrow> f_scrambleAcc \<Rightarrow> (u64 \<Rightarrow> bytes outcome) \<Rightarrow> u64 outcome" where
  "XXH3_hashLong_64b_withSeed_internal input seed f_acc512 f_scramble f_initSec =
     (if seed = 0 then XXH3_hashLong_64b_internal input XXH3_kSecret f_acc512 f_scramble
      else and_then (f_initSec seed) (\<lambda>secret.
        XXH3_hashLong_64b_internal input secret f_acc512 f_scramble))"

definition XXH3_hashLong_64b_withSeed :: "xxh_vector \<Rightarrow> bytes \<Rightarrow> u64 \<Rightarrow> bytes \<Rightarrow> u64 outcome" where
  "XXH3_hashLong_64b_withSeed vector input seed secret =
     XXH3_hashLong_64b_withSeed_internal input seed (XXH3_accumulate_512 vector) (XXH3_scrambleAcc vector)
       (XXH3_initCustomSecret vector)"

definition XXH3_64bits_internal ::
  "bytes \<Rightarrow> u64 \<Rightarrow> bytes \<Rightarrow> (bytes \<Rightarrow> u64 \<Rightarrow> bytes \<Rightarrow> u64 outcome) \<Rightarrow> u64 outcome" where
  "XXH3_64bits_internal input seed64 secret f_hashLong =
     (let len = length input in
      if len \<le> 16 then XXH3_len_0to16_64b input secret seed64
      else if len \<le> 128 then XXH3_len_17to128_64b input secret seed64
      else if len \<le> XXH3_MIDSIZE_MAX then XXH3_len_129to240_64b input secret seed64
      else f_hashLong input seed64 secret)"

definition XXH3_64bits :: "xxh_vector \<Rightarrow> bytes \<Rightarrow> u64 outcome" where
  "XXH3_64bits vector input =
     XXH3_64bits_internal input 0 XXH3_kSecret (XXH3_hashLong_64b_default vector)"

definition XXH3_64bits_withSecret :: "xxh_vector \<Rightarrow> bytes \<Rightarrow> bytes \<Rightarrow> u64 outcome" where
  "XXH3_64bits_withSecret vector input secret =
     XXH3_64bits_internal input 0 secret (XXH3_hashLong_64b_withSecret vector)"

definition XXH3_64bits_withSeed :: "xxh_vector \<Rightarrow> bytes \<Rightarrow> u64 \<Rightarrow> u64 outcome" where
  "XXH3_64bits_withSeed vector input seed =
     XXH3_64bits_internal input seed XXH3_kSecret (XXH3_hashLong_64b_withSeed vector)"

definition XXH3_64bits_withSecretandSeed :: "xxh_vector \<Rightarrow> bytes \<Rightarrow> bytes \<Rightarrow> u64 \<Rightarrow> u64 outcome" where
  "XXH3_64bits_withSecretandSeed vector input secret seed =
     (if length input \<le> XXH3_MIDSIZE_MAX then XXH3_64bits_internal input seed XXH3_kSecret (\<lambda>_ _ _. Inl (Undefined Null_Pointer))
      else XXH3_hashLong_64b_withSecret vector input seed secret)"

definition Xxh3Hasher_hash :: "xxh_vector \<Rightarrow> bytes \<Rightarrow> u64 outcome" where
  "Xxh3Hasher_hash vector val = XXH3_64bits vector val"

end
