(* ===== verification/Xxh3_Mixing.thy ===== *)
theory Xxh3_Mixing
  imports Xxh3
begin

text \<open>
  The arithmetic of the hash function: the portable 64 by 64 bit multiplication computes the full
  product, and the steps that mix one 64-bit word are injective.  A step \<open>x XOR (x >> s)\<close> or a sum
  of rotations becomes the identity when it is squared six times, and a multiplication by an odd
  constant is undone by the inverse constant.
\<close>

section \<open>Words as numbers\<close>

lemma unat_drop_bit: "unat (drop_bit n x) = unat x div 2 ^ n" for x :: "'a::len word"
proof -
  have "unat (drop_bit n x) = drop_bit n (take_bit LENGTH('a) (unat x))" by (rule unsigned_drop_bit_eq)
  also have "\<dots> = unat x div 2 ^ n" by (simp add: drop_bit_eq_div take_bit_nat_eq_self)
  finally show ?thesis .
qed

lemma unat_cast: "unat (ucast x :: 'b::len word) = unat x mod 2 ^ LENGTH('b)" for x :: "'a::len word"
  by (simp add: unsigned_ucast_eq take_bit_eq_mod)

section \<open>The long multiplication\<close>

lemma unat_mult32to64:
  assumes "unat x < 2 ^ 32" and "unat y < 2 ^ 32"
  shows "unat (XXH_mult32to64 x y) = unat x * unat y"
proof -
  have u: "unat (ucast (ucast z :: u32) :: u64) = unat z" if "unat z < 2 ^ 32" for z :: u64
    using that by (simp only: unat_cast) simp
  have "unat x * unat y < 2 ^ 32 * 2 ^ 32" using assms by (rule mult_strict_mono') simp_all
  then show ?thesis by (simp only: XXH_mult32to64_def unat_word_ariths u assms) simp
qed

lemma unat_low32: "unat (x AND 0xFFFFFFFF :: u64) = unat x mod 2 ^ 32"
proof -
  have "x AND 0xFFFFFFFF = take_bit 32 x" by (simp add: take_bit_eq_mask mask_eq_exp_minus_1)
  moreover have "unat (take_bit 32 x) = take_bit 32 (unat x)" by (rule unsigned_take_bit_eq)
  ultimately show ?thesis by (simp only: take_bit_eq_mod)
qed

lemma unat_high32: "unat (drop_bit 32 x :: u64) = unat x div 2 ^ 32"
  by (rule unat_drop_bit)

text \<open>The portable product adds the four parts without an overflow.\<close>

lemma portable_parts:
  fixes a b c d m :: nat
  assumes m: "0 < m" and "a < m" "b < m" "c < m" "d < m"
  defines "x \<equiv> a * c div m + (b * c mod m) + a * d"
  shows "x < m * m" and "b * c div m + x div m + b * d < m * m"
    and "(x mod m) * m + a * c mod m + m * m * (b * c div m + x div m + b * d) = (a + m * b) * (c + m * d)"
proof -
  obtain n where n: "m = Suc n" using m by (cases m) auto
  have le: "a * c \<le> n * n" "b * c \<le> n * n" "a * d \<le> n * n" "b * d \<le> n * n"
    using assms(2-5) n by (auto intro!: mult_le_mono)
  have d: "y div m \<le> n" if "y \<le> n * n" for y
  proof -
    have "y < m * m" using that n by simp
    then have "y div m < m" by (rule less_mult_imp_div_less)
    then show ?thesis using n by simp
  qed
  have r: "b * c mod m \<le> n" using n by (simp add: less_Suc_eq_le [symmetric])
  have x: "x \<le> n + n + n * n" unfolding x_def using d [OF le(1)] r le(3) by simp
  then show "x < m * m" unfolding n by simp
  have "x div m < m" using \<open>x < m * m\<close> by (rule less_mult_imp_div_less)
  then have "x div m \<le> n" using n by simp
  with d [OF le(2)] le(4) show "b * c div m + x div m + b * d < m * m" unfolding n by simp
  have e: "m * (y div m) + y mod m = y" for y by simp
  have "(x mod m) * m + a * c mod m + m * m * (b * c div m + x div m + b * d) =
      m * (m * (x div m) + x mod m) + a * c mod m + m * (m * (b * c div m)) + m * m * (b * d)"
    by (simp only: algebra_simps)
  also have "\<dots> = m * x + a * c mod m + m * (m * (b * c div m)) + m * m * (b * d)" unfolding e ..
  also have "\<dots> = (m * (a * c div m) + a * c mod m) + m * (m * (b * c div m) + b * c mod m) + m * (a * d) + m * m * (b * d)"
    unfolding x_def by (simp only: algebra_simps)
  also have "\<dots> = a * c + m * (b * c) + m * (a * d) + m * m * (b * d)" unfolding e ..
  finally show "(x mod m) * m + a * c mod m + m * m * (b * c div m + x div m + b * d) = (a + m * b) * (c + m * d)"
    by (simp add: algebra_simps)
qed

lemma mult64to128_halves:
  assumes "XXH_mult64to128 lhs rhs = (lo, hi)"
  shows "unat lo + 2 ^ 64 * unat hi = unat lhs * unat rhs"
proof -
  let ?p = "ucast lhs * ucast rhs :: 128 word"
  have "unat lhs * unat rhs < 2 ^ 64 * 2 ^ 64" by (rule mult_strict_mono') simp_all
  moreover have "unat (ucast z :: 128 word) = unat z" for z :: u64
    unfolding unat_cast using unat_u64_bound [of z] by (intro mod_less) (simp del: unat_u64_bound)
  ultimately have p: "unat ?p = unat lhs * unat rhs" by (simp only: unat_word_ariths) simp
  have "unat lo = unat ?p mod 2 ^ 64" "unat hi = unat ?p div 2 ^ 64"
    using assms p \<open>unat lhs * unat rhs < 2 ^ 64 * 2 ^ 64\<close>
    by (auto simp: XXH_mult64to128_def Let_def unat_cast unat_drop_bit less_mult_imp_div_less)
  then show ?thesis unfolding p by simp
qed

lemma unat_add_word: "unat (x + y) = (unat x + unat y) mod 2 ^ 64" for x y :: u64
  by (simp add: unat_word_ariths)

lemma portable_halves:
  assumes "XXH_mult64to128_portable lhs rhs = (lower, upper)"
  shows "unat lower + 2 ^ 64 * unat upper = unat lhs * unat rhs"
proof -
  let ?m = "2 ^ 32 :: nat"
  define a b c d where "a = unat lhs mod ?m" and "b = unat lhs div ?m"
    and "c = unat rhs mod ?m" and "d = unat rhs div ?m"
  have lt: "a < ?m" "b < ?m" "c < ?m" "d < ?m"
    unfolding a_def b_def c_def d_def
    using unat_u64_bound [of lhs] unat_u64_bound [of rhs] by (simp_all del: unat_u64_bound)
  have mm: "?m * ?m = 2 ^ 64" by simp
  note parts = portable_parts [of ?m, OF _ lt, unfolded mm, simplified]
  define lo_lo where "lo_lo = XXH_mult32to64 (lhs AND 0xFFFFFFFF) (rhs AND 0xFFFFFFFF)"
  define hi_lo where "hi_lo = XXH_mult32to64 (drop_bit 32 lhs) (rhs AND 0xFFFFFFFF)"
  define lo_hi where "lo_hi = XXH_mult32to64 (lhs AND 0xFFFFFFFF) (drop_bit 32 rhs)"
  define hi_hi where "hi_hi = XXH_mult32to64 (drop_bit 32 lhs) (drop_bit 32 rhs)"
  have p: "unat lo_lo = a * c" "unat hi_lo = b * c" "unat lo_hi = a * d" "unat hi_hi = b * d"
    unfolding lo_lo_def hi_lo_def lo_hi_def hi_hi_def
    using lt by (simp_all only: unat_mult32to64 unat_low32 unat_high32 a_def b_def c_def d_def)
  define cross where "cross = drop_bit 32 lo_lo + (hi_lo AND 0xFFFFFFFF) + lo_hi"
  have cross: "unat cross = a * c div ?m + b * c mod ?m + a * d" (is "_ = ?x")
  proof -
    have "?x < 2 ^ 64" using portable_parts(1) [of ?m, OF _ lt] by simp
    then show ?thesis
      unfolding cross_def unat_word_ariths unat_low32 unat_high32 p by simp
  qed
  have upper: "unat (drop_bit 32 hi_lo + drop_bit 32 cross + hi_hi) = b * c div ?m + ?x div ?m + b * d"
  proof -
    have "b * c div ?m + ?x div ?m + b * d < 2 ^ 64" using portable_parts(2) [of ?m, OF _ lt] by simp
    then show ?thesis
      unfolding unat_word_ariths unat_high32 p cross by simp
  qed
  have lower: "unat (push_bit 32 cross OR (lo_lo AND 0xFFFFFFFF)) = (?x mod ?m) * ?m + a * c mod ?m"
  proof -
    have "push_bit 32 cross AND take_bit 32 lo_lo = 0"
      by (rule bit_word_eqI) (auto simp: bit_and_iff bit_push_bit_iff bit_take_bit_iff)
    moreover have "take_bit 32 lo_lo = lo_lo AND 0xFFFFFFFF" by (simp add: take_bit_eq_mask mask_eq_exp_minus_1)
    ultimately have or_add: "push_bit 32 cross OR (lo_lo AND 0xFFFFFFFF) = push_bit 32 cross + (lo_lo AND 0xFFFFFFFF)"
      by (metis disjunctive_add_eq_or)
    have "unat (push_bit 32 cross) = (?x mod ?m) * ?m"
    proof -
      have "unat (push_bit 32 cross) = unat cross * ?m mod 2 ^ 64"
        unfolding push_bit_eq_mult unat_word_ariths by simp
      then show ?thesis unfolding cross mm [symmetric] by (simp only: mult_mod_right mult.commute)
    qed
    moreover have "(?x mod ?m) * ?m + a * c mod ?m < 2 ^ 64"
    proof -
      have "?x mod ?m < ?m" "a * c mod ?m < ?m" by simp_all
      then show ?thesis by simp
    qed
    ultimately show ?thesis
      unfolding or_add unat_add_word [of "push_bit 32 cross"] unat_low32 p by simp
  qed
  have "lower = push_bit 32 cross OR (lo_lo AND 0xFFFFFFFF)"
    "upper = drop_bit 32 hi_lo + drop_bit 32 cross + hi_hi"
    using assms unfolding XXH_mult64to128_portable_def Let_def lo_lo_def hi_lo_def lo_hi_def hi_hi_def cross_def
    by (simp_all only: prod.inject)
  then have "unat lower + 2 ^ 64 * unat upper =
      (?x mod ?m) * ?m + a * c mod ?m + ?m * ?m * (b * c div ?m + ?x div ?m + b * d)"
    using lower upper mm by simp
  also have "\<dots> = (a + ?m * b) * (c + ?m * d)" using portable_parts(3) [of ?m, OF _ lt] by simp
  also have "a + ?m * b = unat lhs" unfolding a_def b_def by simp
  also have "c + ?m * d = unat rhs" unfolding c_def d_def by simp
  finally show ?thesis .
qed

lemma halves_unique:
  fixes h h' l l' m :: nat
  assumes "l + m * h = l' + m * h'" and "l < m" and "l' < m"
  shows "h = h' \<and> l = l'"
proof -
  from assms(2,3) have "(l + m * h) div m = h" "(l' + m * h') div m = h'" by simp_all
  with assms(1) show ?thesis by simp
qed

text \<open>C14: the portable multiplication in four parts of 32 bits computes the same two halves as the
  128-bit multiplication that compilers with such a type use, so both builds hash alike, and the
  halves make up the full product.\<close>

theorem mult64to128_portable:
  "XXH_mult64to128_portable lhs rhs = XXH_mult64to128 lhs rhs \<and>
   (case XXH_mult64to128 lhs rhs of (low, high) \<Rightarrow> unat low + 2 ^ 64 * unat high = unat lhs * unat rhs)"
proof -
  obtain l h l' h' where e: "XXH_mult64to128 lhs rhs = (l, h)" "XXH_mult64to128_portable lhs rhs = (l', h')"
    by (metis surj_pair)
  have "unat l + 2 ^ 64 * unat h = unat l' + 2 ^ 64 * unat h'"
    using mult64to128_halves [OF e(1)] portable_halves [OF e(2)] by simp
  moreover have "unat l < 2 ^ 64" "unat l' < 2 ^ 64"
    using unat_u64_bound [of l] unat_u64_bound [of l'] by (simp_all del: unat_u64_bound)
  ultimately have "unat h = unat h' \<and> unat l = unat l'"
    by (intro halves_unique)
  then show ?thesis using e mult64to128_halves [OF e(1)] by (simp add: word_unat_eq_iff)
qed

section \<open>Mixing steps are injective\<close>

lemma XXH_rotl64_rotl: "r < 64 \<Longrightarrow> XXH_rotl64 x r = word_rotl r x"
proof (rule bit_word_eqI)
  fix n assume r: "r < 64" and n: "n < LENGTH(64)"
  show "bit (XXH_rotl64 x r) n = bit (word_rotl r x) n"
  proof (cases "r \<le> n")
    case True
    then obtain k where k: "n = r + k" using le_Suc_ex by blast
    then have "\<not> bit x (64 + k)" "(64 + k) mod 64 = k"
      using n bit_imp_le_length [of x "64 + k"] by auto
    with k r n show ?thesis
      by (simp add: XXH_rotl64_def bit_word_rotl_iff bit_or_iff bit_push_bit_iff bit_drop_bit_eq)
  next
    case False
    then have "n < r" by simp
    then obtain k where "n + k = r" "0 < k" using less_imp_add_positive by blast
    with r n show ?thesis
      by (simp add: XXH_rotl64_def bit_word_rotl_iff bit_or_iff bit_push_bit_iff bit_drop_bit_eq add.commute [of n 64])
  qed
qed

lemma xor_cancel: "(a :: u64) XOR (b XOR (b XOR c)) = a XOR c"
  by (simp flip: xor.assoc)

lemma xorshift_twice: "XXH_xorshift64 (XXH_xorshift64 x s) s = XXH_xorshift64 x (s + s)"
  by (simp add: XXH_xorshift64_def drop_bit_xor drop_bit_drop_bit xor.assoc xor_cancel)

lemma xorshift_inject:
  assumes "XXH_xorshift64 x s = XXH_xorshift64 y s" and "0 < s"
  shows "x = y"
proof -
  have "XXH_xorshift64 x (s * 2 ^ k) = XXH_xorshift64 y (s * 2 ^ k)" for k
  proof (induction k)
    case 0
    from assms(1) show ?case by simp
  next
    case (Suc k)
    have "s * 2 ^ Suc k = s * 2 ^ k + s * 2 ^ k" by simp
    with Suc xorshift_twice show ?case by metis
  qed
  from this [of 6] have "XXH_xorshift64 x (s * 64) = XXH_xorshift64 y (s * 64)" by simp
  moreover have "drop_bit (s * 64) z = 0" for z :: u64
    proof (rule bit_word_eqI)
    fix n show "bit (drop_bit (s * 64) z) n = bit 0 n"
      using assms(2) bit_imp_le_length [of z "s * 64 + n"] by (auto simp: bit_drop_bit_eq)
  qed
  ultimately show ?thesis by (simp add: XXH_xorshift64_def)
qed

lemma mult_inject:
  fixes x y c d :: u64
  assumes "x * c = y * c" and "c * d = 1" shows "x = y"
proof -
  have "x * c * d = y * c * d" by (simp only: assms(1))
  then show ?thesis by (simp only: mult.assoc assms(2) mult_1_right)
qed

lemma XXH3_avalanche_inject: "XXH3_avalanche x = XXH3_avalanche y \<Longrightarrow> x = y"
  unfolding XXH3_avalanche_def
  by (drule xorshift_inject, simp, drule mult_inject [where d = "0x8DA8EE41D6DF849"], simp, drule xorshift_inject, simp)

lemma XXH64_avalanche_inject: "XXH64_avalanche x = XXH64_avalanche y \<Longrightarrow> x = y"
  unfolding XXH64_avalanche_def Let_def XXH_xorshift64_def [symmetric]
  by (drule xorshift_inject, simp, drule mult_inject [where d = "0xE9E9F4C41D6DF849"], simp add: XXH_PRIME64_3_def,
    drule xorshift_inject, simp, drule mult_inject [where d = "0xBA79078168D4BAF"], simp add: XXH_PRIME64_2_def,
    drule xorshift_inject, simp)

text \<open>A sum of rotations: squaring doubles the amounts, and 64 is no rotation at all.\<close>

definition rot_sum :: "nat \<Rightarrow> nat \<Rightarrow> u64 \<Rightarrow> u64" where
  "rot_sum a b x = x XOR (word_rotl a x XOR word_rotl b x)"

lemma word_rotl_add: "word_rotl m (word_rotl n x) = word_rotl (m + n) (x :: u64)"
  unfolding word_rotl_rev by (simp add: word_rotr_word_rotr_eq)

lemma rot_sum_twice: "rot_sum a b (rot_sum a b x) = rot_sum (a + a) (b + b) x"
  by (simp add: rot_sum_def word_rotl_add word_rot_logs ac_simps xor_cancel)

lemma rot_sum_inject:
  assumes "rot_sum a b x = rot_sum a b y" shows "x = y"
proof -
  have "rot_sum (a * 2 ^ k) (b * 2 ^ k) x = rot_sum (a * 2 ^ k) (b * 2 ^ k) y" for k
  proof (induction k)
    case 0
    from assms show ?case by simp
  next
    case (Suc k)
    have "c * 2 ^ Suc k = c * 2 ^ k + c * 2 ^ k" for c :: nat by simp
    with Suc rot_sum_twice show ?case by metis
  qed
  from this [of 6] have "rot_sum (a * 64) (b * 64) x = rot_sum (a * 64) (b * 64) y" by simp
  moreover have "word_rotl (c * 64) z = z" for c and z :: u64
    by (rule bit_word_eqI) (simp add: bit_word_rotl_iff mod_simps)
  ultimately show ?thesis by (simp add: rot_sum_def)
qed

lemma xor_right_inject:
  fixes a b c :: u64
  assumes "a XOR c = b XOR c" shows "a = b"
proof -
  from assms have "(a XOR c) XOR c = (b XOR c) XOR c" by (simp only:)
  then show ?thesis by (simp add: xor.assoc)
qed

lemma add_shift_inject:
  fixes x y len :: u64
  assumes "x XOR (drop_bit 35 x + len) = y XOR (drop_bit 35 y + len)" and "unat len < 2 ^ 34"
  shows "x = y"
proof -
  have "drop_bit 35 (drop_bit 35 z + len) = 0" for z :: u64
  proof -
    have "unat (drop_bit 35 z) < 2 ^ 29"
      by (simp only: unat_drop_bit) (simp add: less_mult_imp_div_less)
    with assms(2) have "unat (drop_bit 35 z + len) < 2 ^ 35"
      by (simp add: unat_word_ariths)
    then show ?thesis
      by (intro word_unat_eq_iff [THEN iffD2]) (simp only: unat_drop_bit, simp)
  qed
  then have "drop_bit 35 (z XOR (drop_bit 35 z + len)) = drop_bit 35 z" for z
    by (simp add: drop_bit_xor)
  with assms(1) have "drop_bit 35 x = drop_bit 35 y" by metis
  with assms(1) have "x XOR k = y XOR k" if "k = drop_bit 35 y + len" for k using that by simp
  then show ?thesis by (blast intro: xor_right_inject)
qed

lemma XXH3_rrmxmx_inject:
  assumes "XXH3_rrmxmx x len = XXH3_rrmxmx y len" and "unat len < 2 ^ 34"
  shows "x = y"
proof -
  let ?c = "0x9FB21C651E98DF25 :: u64"
  have c: "?c * 0x2AB9C720D1024AD = 1" by simp
  have r: "z XOR (XXH_rotl64 z 49 XOR XXH_rotl64 z 24) = rot_sum 49 24 z" for z
    by (simp add: rot_sum_def XXH_rotl64_rotl)
  from assms(1) have "(rot_sum 49 24 x * ?c XOR (drop_bit 35 (rot_sum 49 24 x * ?c) + len)) * ?c =
      (rot_sum 49 24 y * ?c XOR (drop_bit 35 (rot_sum 49 24 y * ?c) + len)) * ?c"
    unfolding XXH3_rrmxmx_def Let_def r by (rule xorshift_inject) simp
  from add_shift_inject [OF mult_inject [OF this c] assms(2)] show ?thesis
    by (rule rot_sum_inject [OF mult_inject [OF _ c]])
qed

end
