(* ===== verification/Xxh3_Keys.thy ===== *)
theory Xxh3_Keys
  imports Xxh3_Mixing
begin

text \<open>
  What the hash function does with whole keys of up to 240 bytes: every read lies inside the key
  and the secret; the hash of a short key determines the key.  And the secret made from a seed.
\<close>

section \<open>Every read is in bounds\<close>

text \<open>A computation that returns a value with a property.\<close>

definition yields :: "'a outcome \<Rightarrow> ('a \<Rightarrow> bool) \<Rightarrow> bool" where
  "yields r P \<longleftrightarrow> (\<exists>x. r = Inr x \<and> P x)"

lemma yields_Inr [simp]: "yields (Inr x) P \<longleftrightarrow> P x"
  by (simp add: yields_def)

lemma yields_and_then:
  "yields r Q \<Longrightarrow> (\<And>x. Q x \<Longrightarrow> yields (f x) P) \<Longrightarrow> yields (and_then r f) P"
  by (auto simp: yields_def)

lemma yields_for_each:
  "P s \<Longrightarrow> (\<And>i s. i \<in> set is \<Longrightarrow> P s \<Longrightarrow> yields (body i s) P) \<Longrightarrow> yields (for_each is body s) P"
proof (induction "is" arbitrary: s)
  case (Cons i "is")
  have "yields (for_each is body t) P" if "P t" for t using Cons that by simp
  with Cons.prems show ?case by (auto intro: yields_and_then)
qed simp

text \<open>A read that lies inside its array.\<close>

definition u32_at :: "bytes \<Rightarrow> nat \<Rightarrow> u32" where "u32_at m off = of_nat (le_val (take 4 (drop off m)))"
definition u64_at :: "bytes \<Rightarrow> nat \<Rightarrow> u64" where "u64_at m off = of_nat (le_val (take 8 (drop off m)))"

lemma load_in [simp]:
  "off < length m \<Longrightarrow> load_u8 m off = Inr (m ! off)"
  "off + 4 \<le> length m \<Longrightarrow> load_u32 m off = Inr (u32_at m off)"
  "off + 8 \<le> length m \<Longrightarrow> load_u64 m off = Inr (u64_at m off)"
  by (simp_all add: load_u8_def load_u32_def load_u64_def load_le_def slice_def u32_at_def u64_at_def)

lemma mix_in [simp]:
  "i + 16 \<le> length input \<Longrightarrow> s + 16 \<le> length secret \<Longrightarrow> mix_into input secret seed i s acc =
     Inr (acc + XXH3_mul128_fold64 (u64_at input i XOR (u64_at secret s + seed))
                  (u64_at input (i + 8) XOR (u64_at secret (s + 8) - seed)))"
  by (simp add: mix_into_def XXH3_mix16B_def)

lemma yields_0to16:
  "length input \<le> 16 \<Longrightarrow> XXH3_SECRET_SIZE_MIN \<le> length secret \<Longrightarrow>
   yields (XXH3_len_0to16_64b input secret seed) (\<lambda>_. True)"
  by (auto simp: XXH3_len_0to16_64b_def XXH3_len_1to3_64b_def XXH3_len_4to8_64b_def XXH3_len_9to16_64b_def
      Let_def xxh_sizes)

lemma yields_17to128:
  "16 < length input \<Longrightarrow> XXH3_SECRET_SIZE_MIN \<le> length secret \<Longrightarrow>
   yields (XXH3_len_17to128_64b input secret seed) (\<lambda>_. True)"
  by (simp add: XXH3_len_17to128_64b_def Let_def xxh_sizes)

lemma yields_129to240:
  assumes "128 < length input" and "length input \<le> XXH3_MIDSIZE_MAX" and "XXH3_SECRET_SIZE_MIN \<le> length secret"
  shows "yields (XXH3_len_129to240_64b input secret seed) (\<lambda>_. True)"
proof -
  have i: "16 * i + 16 \<le> length input" "i < 15" if "i < length input div 16" for i
    using that assms(2) by (simp_all add: xxh_sizes)
  have body: "yields (for_each is (\<lambda>i. mix_into input secret seed (16 * i) (f i)) acc) (\<lambda>_. True)"
    if "\<forall>i \<in> set is. 16 * i + 16 \<le> length input \<and> f i + 16 \<le> length secret" for "is" f acc
    using that by (intro yields_for_each) simp_all
  show ?thesis
    unfolding XXH3_len_129to240_64b_def Let_def
    by (intro yields_and_then [OF body]) (use assms i in \<open>auto simp: xxh_sizes\<close>)
qed

section \<open>The secret of a seed\<close>

lemma splice_over: "length a = off \<Longrightarrow> length b = length c \<Longrightarrow> splice (a @ b @ d) off c = Inr (a @ c @ d)"
  by (simp add: splice_def)

lemma for_each_append:
  "for_each (is @ js) body s = and_then (for_each is body s) (for_each js body)"
proof (induction "is" arbitrary: s)
  case (Cons i "is")
  show ?case by (cases "body i s") (simp_all add: Cons)
qed simp

text \<open>The seeded secret: pairs of words, one shifted up by the seed and one down.\<close>

definition seeded :: "u64 \<Rightarrow> nat \<Rightarrow> bytes" where
  "seeded seed i = le64 (u64_at XXH3_kSecret (16 * i) + seed) @ le64 (u64_at XXH3_kSecret (16 * i + 8) - seed)"

lemma initCustomSecret_loop:
  "n \<le> 12 \<Longrightarrow> for_each [0..<n] (\<lambda>i customSecret.
       and_then (load_u64 XXH3_kSecret (16 * i)) (\<lambda>lo.
       and_then (load_u64 XXH3_kSecret (16 * i + 8)) (\<lambda>hi.
       and_then (splice customSecret (16 * i) (le64 (lo + seed))) (\<lambda>customSecret.
         splice customSecret (16 * i + 8) (le64 (hi - seed)))))) (replicate 192 0) =
     Inr (concat (map (seeded seed) [0..<n]) @ replicate (192 - 16 * n) 0)"
proof (induction n)
  case (Suc n)
  define P where "P = concat (map (seeded seed) [0..<n])"
  define Z where "Z = replicate (192 - 16 * Suc n) (0 :: byte)"
  have c: "length P = 16 * n"
    unfolding P_def by (induction n) (simp_all add: seeded_def)
  have r: "replicate (192 - 16 * n) 0 = replicate 8 0 @ replicate 8 0 @ Z"
    using Suc.prems unfolding Z_def by (simp flip: replicate_add)
  let ?lo = "le64 (u64_at XXH3_kSecret (16 * n) + seed)" and ?hi = "le64 (u64_at XXH3_kSecret (16 * n + 8) - seed)"
  have "splice (P @ replicate 8 0 @ replicate 8 0 @ Z) (16 * n) ?lo = Inr (P @ ?lo @ replicate 8 0 @ Z)"
    by (rule splice_over) (simp_all add: c)
  moreover have "splice ((P @ ?lo) @ replicate 8 0 @ Z) (16 * n + 8) ?hi = Inr ((P @ ?lo) @ ?hi @ Z)"
    by (rule splice_over) (simp_all add: c)
  moreover have "concat (map (seeded seed) [0..<Suc n]) = P @ ?lo @ ?hi"
    by (simp add: P_def seeded_def)
  moreover have "load_u64 XXH3_kSecret (16 * n) = Inr (u64_at XXH3_kSecret (16 * n))"
    "load_u64 XXH3_kSecret (16 * n + 8) = Inr (u64_at XXH3_kSecret (16 * n + 8))"
    using Suc.prems by (simp_all add: length_XXH3_kSecret)
  ultimately show ?case
    using Suc unfolding P_def [symmetric] Z_def [symmetric] by (simp add: for_each_append r)
qed simp

lemma custom_secret:
  "XXH3_initCustomSecret_scalar seed = Inr (concat (map (seeded seed) [0..<12]))"
  using initCustomSecret_loop [of 12 seed] by (simp add: XXH3_initCustomSecret_scalar_def)

lemma le64_u64_at: "off + 8 \<le> length m \<Longrightarrow> le64 (u64_at m off) = take 8 (drop off m)"
proof -
  assume "off + 8 \<le> length m"
  then have l: "length (take 8 (drop off m)) = 8" by simp
  then have "le_val (take 8 (drop off m)) < 2 ^ 64" using le_val_bound [of "take 8 (drop off m)"] by simp
  then have "unat (u64_at m off) = le_val (take 8 (drop off m))" by (simp add: u64_at_def unat_of_nat)
  then show ?thesis using le_bytes_le_val [OF l] by (simp add: le64_def)
qed

lemma concat_chunks:
  "concat (map (\<lambda>i. take w (drop (w * i) m)) [0..<n]) = take (w * n) m"
proof (induction n)
  case (Suc n)
  have "take (w * n + w) m = take (w * n) m @ take w (drop (w * n) m)" by (rule take_add)
  with Suc show ?case by (simp add: add.commute)
qed simp

lemma custom_secret_zero: "XXH3_initCustomSecret_scalar 0 = Inr XXH3_kSecret"
proof -
  have "seeded 0 i = take 16 (drop (16 * i) XXH3_kSecret)" if "i < 12" for i
  proof -
    have "seeded 0 i = take 8 (drop (16 * i) XXH3_kSecret) @ take 8 (drop (16 * i + 8) XXH3_kSecret)"
      using that by (simp add: seeded_def le64_u64_at length_XXH3_kSecret)
    also have "\<dots> = take (8 + 8) (drop (16 * i) XXH3_kSecret)" by (simp only: take_add drop_drop add.commute)
    finally show ?thesis by simp
  qed
  then have "map (seeded 0) [0..<12] = map (\<lambda>i. take 16 (drop (16 * i) XXH3_kSecret)) [0..<12]"
    by (intro map_cong) simp_all
  then show ?thesis by (simp only: custom_secret concat_chunks) (simp add: length_XXH3_kSecret)
qed

section \<open>Keys of at most eight bytes\<close>

lemma u32_at_inject:
  assumes "u32_at m i = u32_at m' i'" and "i + 4 \<le> length m" and "i' + 4 \<le> length m'"
  shows "take 4 (drop i m) = take 4 (drop i' m')"
proof -
  have l: "length (take 4 (drop i m)) = 4" "length (take 4 (drop i' m')) = 4" using assms(2,3) by simp_all
  have "le_val (take 4 (drop i m)) < 2 ^ 32" "le_val (take 4 (drop i' m')) < 2 ^ 32"
    using le_val_bound [of "take 4 (drop i m)"] le_val_bound [of "take 4 (drop i' m')"] l by simp_all
  moreover from assms(1) have "unat (u32_at m i) = unat (u32_at m' i')" by simp
  ultimately have "le_val (take 4 (drop i m)) = le_val (take 4 (drop i' m'))"
    by (simp add: u32_at_def unat_of_nat)
  then have "le_bytes 4 (le_val (take 4 (drop i m))) = le_bytes 4 (le_val (take 4 (drop i' m')))" by (simp only:)
  then show ?thesis by (simp only: le_bytes_le_val [OF l(1)] le_bytes_le_val [OF l(2)])
qed

text \<open>A common prefix.\<close>

lemma take_nth_eq: "take k a = take k b \<Longrightarrow> i < k \<Longrightarrow> a ! i = b ! i"
proof -
  assume t: "take k a = take k b" and i: "i < k"
  have "take k a ! i = a ! i" "take k b ! i = b ! i" using i by simp_all
  with t show ?thesis by simp
qed

text \<open>The first and the last four bytes determine a key of four to eight bytes.\<close>

lemma ends_inject:
  fixes x y :: "'a list"
  assumes "take 4 x = take 4 y" and "take 4 (drop (length x - 4) x) = take 4 (drop (length y - 4) y)"
    and "length x = length y" and "4 \<le> length x" and "length x \<le> 8"
  shows "x = y"
proof (rule nth_equalityI)
  fix i assume i: "i < length x"
  show "x ! i = y ! i"
  proof (cases "i < 4")
    case True
    with assms(1) show ?thesis by (rule take_nth_eq)
  next
    case False
    with i assms(4,5) have j: "i - (length x - 4) < 4" "length x - 4 + (i - (length x - 4)) = i" by simp_all
    from assms(2) j(1) have "drop (length x - 4) x ! (i - (length x - 4)) = drop (length y - 4) y ! (i - (length x - 4))"
      by (rule take_nth_eq)
    with j(2) assms(3) i show ?thesis by simp
  qed
qed (rule assms(3))

lemma unat_u32_u64: "unat (ucast r :: u64) = unat (r :: u32)"
  unfolding unat_cast using unat_u32_bound [of r] by (intro mod_less) (simp del: unat_u32_bound)

lemma two_halves_inject:
  fixes a b c d :: u32
  assumes "(ucast a :: u64) + push_bit 32 (ucast b) = ucast c + push_bit 32 (ucast d)"
  shows "a = c \<and> b = d"
proof -
  have u: "unat ((ucast p :: u64) + push_bit 32 (ucast q)) = unat p + 2 ^ 32 * unat q" for p q :: u32
  proof -
    have "unat p + 2 ^ 32 * unat q < 2 ^ 64"
      using unat_u32_bound [of p] unat_u32_bound [of q] by (simp del: unat_u32_bound)
    then show ?thesis by (simp add: push_bit_eq_mult unat_word_ariths mult.commute unat_u32_u64)
  qed
  from assms have "unat a + 2 ^ 32 * unat b = unat c + 2 ^ 32 * unat d" by (metis u)
  then have "unat b = unat d \<and> unat a = unat c"
    by (rule halves_unique) simp_all
  then show ?thesis by (simp add: word_unat_eq_iff)
qed

lemma len_4to8_inject:
  assumes "XXH3_len_4to8_64b x secret seed = XXH3_len_4to8_64b y secret seed"
    and "length x = length y" and "4 \<le> length x" and "length x \<le> 8" and "24 \<le> length secret"
  shows "x = y"
proof -
  let ?k = "(u64_at secret 8 XOR u64_at secret 16) - (seed XOR push_bit 32 (ucast (XXH_swap32 (ucast seed))))"
  let ?w = "\<lambda>z. ucast (u32_at z (length z - 4)) + push_bit 32 (ucast (u32_at z 0)) :: u64"
  have e: "XXH3_len_4to8_64b z secret seed = Inr (XXH3_rrmxmx (?w z XOR ?k) (of_nat (length z)))"
    if "4 \<le> length z" for z
    using that assms(5) by (simp add: XXH3_len_4to8_64b_def Let_def)
  have "XXH3_rrmxmx (?w x XOR ?k) (of_nat (length x)) = XXH3_rrmxmx (?w y XOR ?k) (of_nat (length x))"
    using assms(1-3) by (simp add: e)
  moreover have "unat (of_nat (length x) :: u64) < 2 ^ 34" using assms(4) by (simp add: unat_of_nat)
  ultimately have "?w x XOR ?k = ?w y XOR ?k" by (rule XXH3_rrmxmx_inject)
  then have "?w x = ?w y" by (rule xor_right_inject)
  then have "u32_at x (length x - 4) = u32_at y (length y - 4) \<and> u32_at x 0 = u32_at y 0"
    by (rule two_halves_inject)
  then have "u32_at x (length x - 4) = u32_at y (length y - 4)" "u32_at x 0 = u32_at y 0"
    by blast+
  from this [THEN u32_at_inject] assms(2,3)
  have "take 4 x = take 4 y" "take 4 (drop (length x - 4) x) = take 4 (drop (length y - 4) y)"
    by simp_all
  from this assms(2-4) show ?thesis by (rule ends_inject)
qed

section \<open>Keys of one to three bytes\<close>

text \<open>The word that packs the three bytes and the length.\<close>

definition packed :: "u8 \<Rightarrow> u8 \<Rightarrow> u8 \<Rightarrow> u8 \<Rightarrow> u32" where
  "packed c1 c2 c3 l = push_bit 16 (ucast c1) OR push_bit 24 (ucast c2) OR ucast c3 OR push_bit 8 (ucast l)"

lemma packed_bytes:
  "(ucast (drop_bit 16 (packed c1 c2 c3 l)) :: u8) = c1"
  "(ucast (drop_bit 24 (packed c1 c2 c3 l)) :: u8) = c2"
  "(ucast (packed c1 c2 c3 l) :: u8) = c3"
  "(ucast (drop_bit 8 (packed c1 c2 c3 l)) :: u8) = l"
  by (auto simp: packed_def bit_eq_iff bit_simps dest: bit_imp_le_length)

lemma packed_inject: "packed a b c l = packed a' b' c' l' \<Longrightarrow> a = a' \<and> b = b' \<and> c = c' \<and> l = l'"
  by (metis packed_bytes)

lemma len_1to3_value:
  assumes "1 \<le> length x" and "length x \<le> 3" and "8 \<le> length secret"
  shows "XXH3_len_1to3_64b x secret seed = Inr (XXH64_avalanche
    (ucast (packed (x ! 0) (x ! (length x div 2)) (x ! (length x - 1)) (of_nat (length x)))
       XOR (ucast (u32_at secret 0 XOR u32_at secret 4) + seed)))"
proof -
  from assms(1,2) consider "length x = 1" | "length x = 2" | "length x = 3" by linarith
  then have l: "(of_nat (length x) :: u32) = ucast (of_nat (length x) :: u8)" by cases simp_all
  show ?thesis
    using assms load_in(1) [of 0 x]
    by (simp add: XXH3_len_1to3_64b_def Let_def packed_def l Suc_le_eq del: push_bit_of_nat)
qed

lemma len_1to3_inject:
  assumes "XXH3_len_1to3_64b x secret seed = XXH3_len_1to3_64b y secret seed"
    and x: "1 \<le> length x" "length x \<le> 3" and y: "1 \<le> length y" "length y \<le> 3" and "8 \<le> length secret"
  shows "x = y"
proof -
  let ?p = "\<lambda>z :: bytes. packed (z ! 0) (z ! (length z div 2)) (z ! (length z - 1)) (of_nat (length z))"
  have "ucast (?p x) = (ucast (?p y) :: u64)"
    using assms(1) unfolding len_1to3_value [OF x assms(6)] len_1to3_value [OF y assms(6)] sum.inject
    by (rule xor_right_inject [OF XXH64_avalanche_inject])
  then have "?p x = ?p y" by (simp add: word_unat_eq_iff unat_u32_u64)
  then have e: "x ! 0 = y ! 0" "x ! (length x div 2) = y ! (length y div 2)" "x ! (length x - 1) = y ! (length y - 1)"
    and "(of_nat (length x) :: u8) = of_nat (length y)"
    by (auto dest: packed_inject)
  then have "unat (of_nat (length x) :: u8) = unat (of_nat (length y) :: u8)" by simp
  with x y have l: "length x = length y" by (simp add: unat_of_nat)
  have middle: "Suc (Suc (Suc 0)) div Suc (Suc 0) = 1"
  proof -
    have "(3 :: nat) div 2 = 1" by simp
    then show ?thesis by (simp only: numeral_3_eq_3 numeral_2_eq_2)
  qed
  from x consider "length x = 1" | "length x = 2" | "length x = 3" by linarith
  then show ?thesis
    using e l [symmetric] by cases (auto simp: length_Suc_conv numeral_2_eq_2 numeral_3_eq_3 middle)
qed

end
