(* ===== verification/Xxh3_Vector.thy ===== *)
theory Xxh3_Vector
  imports Xxh3_Keys
begin

text \<open>
  The loops over long keys that are written with vector instructions compute what the portable
  loops compute, lane by lane.
\<close>

section \<open>Lanes\<close>

lemma lo32_and: "(ucast (k AND 0xFFFFFFFF :: u64) :: u32) = lo32 k"
proof -
  have m: "(0xFFFFFFFF :: u64) = mask 32" by (simp add: mask_eq_exp_minus_1)
  have "(ucast (k AND mask 32) :: u32) = lo32 k"
    unfolding lo32_def by (rule bit_word_eqI, auto simp only: bit_simps possible_bit_word, simp_all)
  then show ?thesis by (simp only: m)
qed

lemma mult32to64_halves:
  "XXH_mult32to64 (k AND 0xFFFFFFFF) (drop_bit 32 k) = ucast (lo32 k) * ucast (hi32 k)"
  unfolding XXH_mult32to64_def by (simp only: lo32_and hi32_def)

lemma lo32_lane_of [simp]: "lo32 (lane_of a b) = a"
  by (auto simp: lo32_def lane_of_def bit_eq_iff bit_simps)

lemma hi32_lane_of [simp]: "hi32 (lane_of a b) = b"
  by (auto simp: hi32_def lane_of_def bit_eq_iff bit_simps dest: bit_imp_le_length)

lemma lane_of_halves [simp]: "lane_of (lo32 x) (hi32 x) = x"
  by (auto simp: lo32_def hi32_def lane_of_def bit_eq_iff bit_simps)

lemma mult_halves: "ucast (lo32 k) * ucast p + push_bit 32 (ucast (hi32 k) * ucast p) = k * (ucast (p :: u32) :: u64)"
proof -
  have "ucast (lo32 k) + push_bit 32 (ucast (hi32 k)) = (lane_of (lo32 k) (hi32 k) :: u64)"
    unfolding lane_of_def by (rule disjunctive_add) (auto simp: bit_simps dest: bit_imp_le_length)
  then have "k = ucast (lo32 k) + ucast (hi32 k) * 2 ^ 32" by (simp add: push_bit_eq_mult)
  then have "k * ucast p = (ucast (lo32 k) + ucast (hi32 k) * 2 ^ 32) * ucast p" by (rule arg_cong)
  then show ?thesis by (simp only: push_bit_eq_mult distrib_right mult.assoc mult.commute [of "2 ^ 32"])
qed

section \<open>The accumulating loops\<close>

lemma upt_8: "[0..<8] = [0, 1, 2, 3, 4, 5, 6, 7]" and upt_4: "[0..<4] = [0, 1, 2, 3]" and upt_2: "[0..<2] = [0, 1]"
  by (simp_all add: upt_rec)

lemma mm_loadu_in:
  "off + 8 * n \<le> length m \<Longrightarrow> mm_loadu n m off = Inr (map (\<lambda>j. u64_at m (off + 8 * j)) [0..<n])"
proof (induction n arbitrary: off)
  case (Suc n)
  have "map (\<lambda>j. u64_at m (off + 8 * j)) [0..<Suc n] =
      u64_at m off # map (\<lambda>j. u64_at m (off + 8 + 8 * j)) [0..<n]"
    by (simp add: upt_conv_Cons map_Suc_upt [symmetric] comp_def add.assoc del: upt_Suc)
  with Suc show ?case by simp
qed simp

text \<open>The product of lane \<open>i\<close> of a stripe.\<close>

definition stripe_product :: "bytes \<Rightarrow> nat \<Rightarrow> bytes \<Rightarrow> nat \<Rightarrow> nat \<Rightarrow> u64" where
  "stripe_product input x secret s i =
     (let k = u64_at input (x + 8 * i) XOR u64_at secret (s + 8 * i) in ucast (lo32 k) * ucast (hi32 k))"

definition stripe_sum :: "bytes \<Rightarrow> nat \<Rightarrow> bytes \<Rightarrow> nat \<Rightarrow> u64 list \<Rightarrow> u64 list" where
  "stripe_sum input x secret s acc =
     map (\<lambda>i. stripe_product input x secret s i +
       (acc ! i + u64_at input (x + 8 * (if even i then i + 1 else i - 1)))) [0..<8]"

lemma accumulate_scalar:
  assumes "x + 64 \<le> length input" and "s + 64 \<le> length secret"
  shows "XXH3_accumulate_512_scalar input secret [a0, a1, a2, a3, a4, a5, a6, a7] x s =
         Inr (stripe_sum input x secret s [a0, a1, a2, a3, a4, a5, a6, a7])"
proof -
  have "XXH3_accumulate_512_scalar input secret [a0, a1, a2, a3, a4, a5, a6, a7] x s =
    for_each [0..<8] (\<lambda>i xacc. let xacc1 = xacc[i XOR 1 := xacc ! (i XOR 1) + u64_at input (x + 8 * i)]
      in Inr (xacc1[i := xacc1 ! i + stripe_product input x secret s i])) [a0, a1, a2, a3, a4, a5, a6, a7]"
    using assms by (simp add: XXH3_accumulate_512_scalar_def xxh_sizes upt_8 mult32to64_halves stripe_product_def Let_def)
  also have "\<dots> = Inr (stripe_sum input x secret s [a0, a1, a2, a3, a4, a5, a6, a7])"
    by (simp add: upt_8 stripe_sum_def Let_def add_ac)
  finally show ?thesis .
qed

lemma accumulate_sse2:
  assumes "x + 64 \<le> length input" and "s + 64 \<le> length secret"
  shows "XXH3_accumulate_512_sse2 input secret [a0, a1, a2, a3, a4, a5, a6, a7] x s =
         Inr (stripe_sum input x secret s [a0, a1, a2, a3, a4, a5, a6, a7])"
  using assms
  by (simp add: XXH3_accumulate_512_sse2_def accumulate_512_lanes_def xxh_sizes upt_8 upt_4 upt_2 mm_loadu_in
      mm_xor_def mm_add_epi64_def mm_mul_epu32_def vec_at_def vec_set_def Let_def stripe_sum_def stripe_product_def
      add.commute [of x] add.commute [of s])

lemma accumulate_avx2:
  assumes "x + 64 \<le> length input" and "s + 64 \<le> length secret"
  shows "XXH3_accumulate_512_avx2 input secret [a0, a1, a2, a3, a4, a5, a6, a7] x s =
         Inr (stripe_sum input x secret s [a0, a1, a2, a3, a4, a5, a6, a7])"
  using assms
  by (simp add: XXH3_accumulate_512_avx2_def accumulate_512_lanes_def xxh_sizes upt_8 upt_4 upt_2 mm_loadu_in
      mm_xor_def mm_add_epi64_def mm_mul_epu32_def vec_at_def vec_set_def Let_def stripe_sum_def stripe_product_def
      add.commute [of x] add.commute [of s])

text \<open>Scrambling.\<close>

definition scrambled :: "bytes \<Rightarrow> nat \<Rightarrow> u64 list \<Rightarrow> u64 list" where
  "scrambled secret s acc =
     map (\<lambda>i. (XXH_xorshift64 (acc ! i) 47 XOR u64_at secret (s + 8 * i)) * ucast XXH_PRIME32_1) [0..<8]"

lemmas scramble_simps = xxh_sizes upt_8 upt_4 upt_2 mm_loadu_in scrambled_def Let_def

lemma scramble_scalar:
  "s + 64 \<le> length secret \<Longrightarrow> XXH3_scrambleAcc_scalar secret [a0, a1, a2, a3, a4, a5, a6, a7] s =
     Inr (scrambled secret s [a0, a1, a2, a3, a4, a5, a6, a7])"
  by (simp add: scramble_simps XXH3_scrambleAcc_scalar_def)

lemma replicate_2: "replicate 2 x = [x, x]" and replicate_4: "replicate 4 x = [x, x, x, x]"
  unfolding numeral_2_eq_2 by (simp, simp add: eval_nat_numeral)

text \<open>The two 32-bit products of a lane add up to the 64-bit product.\<close>

lemma all_less_two: "(\<forall>j < 2. P j) \<longleftrightarrow> P (0 :: nat) \<and> P 1"
  by (auto simp: less_2_cases_iff)

lemma mul_prime32:
  "mm_add_epi64 (mm_mul_epu32 [a, b] (mm_set1_epi32 2 p))
     (mm_slli_epi64 (mm_mul_epu32 (mm_shuffle_epi32 [a, b] (0, 3, 0, Suc 0)) (mm_set1_epi32 2 p)) 32) =
   [a * ucast p, b * ucast p]"
  "mm_add_epi64 (mm_mul_epu32 [a, b, c, d] (mm_set1_epi32 4 p))
     (mm_slli_epi64 (mm_mul_epu32 (mm_shuffle_epi32 [a, b, c, d] (0, 3, 0, Suc 0)) (mm_set1_epi32 4 p)) 32) =
   [a * ucast p, b * ucast p, c * ucast p, d * ucast p]"
  unfolding mm_add_epi64_def mm_mul_epu32_def mm_slli_epi64_def mm_set1_epi32_def
  by (simp_all add: replicate_2 replicate_4 Let_def mult_halves)

lemmas scramble_lanes_simps = scrambleAcc_lanes_def mm_xor_def mm_srli_epi64_def vec_at_def vec_set_def
  mul_prime32 XXH_xorshift64_def

lemma scramble_sse2_step:
  assumes "s + 64 \<le> length secret" and "i < 4" and "length xacc = 8"
  shows "and_then (mm_loadu 2 secret (s + 8 * 2 * i)) (\<lambda>key_vec.
      let acc_vec = vec_at 2 xacc i; key = mm_xor (mm_xor acc_vec (mm_srli_epi64 acc_vec 47)) key_vec
      in Inr (vec_set 2 xacc i (mm_add_epi64 (mm_mul_epu32 key (mm_set1_epi32 2 p))
           (mm_slli_epi64 (mm_mul_epu32 (mm_shuffle_epi32 key (0, 3, 0, 1)) (mm_set1_epi32 2 p)) 32)))) =
    Inr (vec_set 2 xacc i (map (\<lambda>j. (XXH_xorshift64 (xacc ! j) 47 XOR u64_at secret (s + 8 * j)) * ucast p)
           [2 * i, 2 * i + 1]))"
proof -
  have v: "vec_at 2 xacc i = [xacc ! (2 * i), xacc ! (2 * i + 1)]"
    using assms(2,3) by (simp add: vec_at_def list_eq_iff_nth_eq all_less_two)
  show ?thesis
    using assms unfolding v
    by (simp add: mm_loadu_in upt_2 mm_xor_def mm_srli_epi64_def mul_prime32 XXH_xorshift64_def Let_def
        algebra_simps del: mm_shuffle_epi32.simps)
qed

lemma for_each_cong:
  "(\<And>i s. i \<in> set is \<Longrightarrow> P s \<Longrightarrow> body i s = Inr (next' i s) \<and> P (next' i s)) \<Longrightarrow> P s \<Longrightarrow>
   for_each is body s = Inr (fold next' is s)"
  by (induction "is" arbitrary: s) auto

lemma scramble_sse2:
  assumes "s + 64 \<le> length secret"
  shows "XXH3_scrambleAcc_sse2 secret [a0, a1, a2, a3, a4, a5, a6, a7] s =
     Inr (scrambled secret s [a0, a1, a2, a3, a4, a5, a6, a7])"
proof -
  let ?x = "\<lambda>xacc j. (XXH_xorshift64 (xacc ! j) 47 XOR u64_at secret (s + 8 * j)) * ucast XXH_PRIME32_1"
  have rounds: "XXH_STRIPE_LEN div (8 * 2) = 4" by (simp add: xxh_sizes)
  have "XXH3_scrambleAcc_sse2 secret [a0, a1, a2, a3, a4, a5, a6, a7] s =
    Inr (fold (\<lambda>i xacc. vec_set 2 xacc i (map (?x xacc) [2 * i, 2 * i + 1])) [0..<4] [a0, a1, a2, a3, a4, a5, a6, a7])"
    unfolding XXH3_scrambleAcc_sse2_def scrambleAcc_lanes_def Let_def rounds
    by (rule for_each_cong [where P = "\<lambda>acc. length acc = 8"], rule conjI, rule scramble_sse2_step [unfolded Let_def])
      (use assms in \<open>auto simp: vec_set_def\<close>)
  then show ?thesis by (simp add: scrambled_def upt_4 upt_8 vec_set_def)
qed

lemma scramble_avx2:
  "s + 64 \<le> length secret \<Longrightarrow> XXH3_scrambleAcc_avx2 secret [a0, a1, a2, a3, a4, a5, a6, a7] s =
     Inr (scrambled secret s [a0, a1, a2, a3, a4, a5, a6, a7])"
  by (simp add: XXH3_scrambleAcc_avx2_def scramble_simps scramble_lanes_simps add.commute [of s]
      del: mm_shuffle_epi32.simps)

section \<open>The secret of a seed\<close>

lemma for_each_splice:
  assumes "\<And>i. length (chunk i) = c"
  shows "k \<le> n \<Longrightarrow> for_each [0..<k] (\<lambda>i m. splice m (c * i) (chunk i)) (replicate (c * n) z) =
    Inr (concat (map chunk [0..<k]) @ replicate (c * (n - k)) z)"
proof (induction k)
  case (Suc k)
  have l: "length (concat (map chunk [0..<k])) = c * k"
    using assms by (simp add: length_concat comp_def sum_list_triv)
  have "n - k = Suc (n - Suc k)" using Suc.prems by simp
  then have "c * (n - k) = c + c * (n - Suc k)" by (simp only: mult_Suc_right)
  then have r: "replicate (c * (n - k)) z = replicate c z @ replicate (c * (n - Suc k)) z"
    by (simp only: replicate_add)
  show ?case
    using Suc splice_over [OF l, of "replicate c z" "chunk k" "replicate (c * (n - Suc k)) z"] assms
    by (simp add: for_each_append r)
qed simp

lemma for_each_eq:
  "(\<And>i s. i \<in> set is \<Longrightarrow> body i s = body' i s) \<Longrightarrow> for_each is body s = for_each is body' s"
proof (induction "is" arbitrary: s)
  case (Cons i "is")
  then show ?case by (cases "body' i s") simp_all
qed simp

lemma initCustomSecret_splice:
  assumes "length seed = n" and "8 * n * k = 192" and "192 div (8 * n) = k"
  shows "initCustomSecret_lanes n seed =
    Inr (concat (map (\<lambda>i. concat (map le64 (map2 (+) (map (\<lambda>j. u64_at XXH3_kSecret (8 * n * i + 8 * j)) [0..<n]) seed)))
      [0..<k]))"
    (is "_ = Inr (concat (map ?chunk _))")
proof -
  have len: "length (?chunk i) = 8 * n" for i
    using assms(1) by (simp add: length_concat comp_def sum_list_triv)
  have "initCustomSecret_lanes n seed =
      for_each [0..<k] (\<lambda>i m. splice m (8 * n * i) (?chunk i)) (replicate (8 * n * k) 0)"
    unfolding initCustomSecret_lanes_def assms(2,3)
  proof (rule for_each_eq)
    fix i and m :: bytes assume "i \<in> set [0..<k]"
    then have "8 * n * Suc i \<le> 8 * n * k" by (intro mult_le_mono2) simp
    then have "8 * n * i + 8 * n \<le> length XXH3_kSecret" using assms(2) by (simp add: length_XXH3_kSecret)
    then show "and_then (mm_loadu n XXH3_kSecret (8 * n * i)) (\<lambda>src.
        mm_store m (8 * n * i) (mm_add_epi64 src seed)) = splice m (8 * n * i) (?chunk i)"
      by (simp add: mm_loadu_in mm_store_def mm_add_epi64_def)
  qed
  then show ?thesis using for_each_splice [OF len, of k k] by simp
qed

lemma upt_12: "[0..<12] = [0, 1, 2, 3, 4, 5, 6, 7, 8, 9, 10, 11]" and upt_6: "[0..<6] = [0, 1, 2, 3, 4, 5]"
  by (simp_all add: upt_rec)

lemma initCustomSecret_sse2: "XXH3_initCustomSecret_sse2 seed = Inr (concat (map (seeded seed) [0..<12]))"
  by (simp add: XXH3_initCustomSecret_sse2_def initCustomSecret_splice [of _ 2 12] upt_2 seeded_def [abs_def] comp_def)

lemma initCustomSecret_avx2: "XXH3_initCustomSecret_avx2 seed = Inr (concat (map (seeded seed) [0..<12]))"
  by (simp add: XXH3_initCustomSecret_avx2_def initCustomSecret_splice [of _ 4 6] upt_4 upt_6 upt_12 seeded_def comp_def)

section \<open>All variants agree\<close>

lemma eight:
  assumes "length acc = 8"
  obtains a0 a1 a2 a3 a4 a5 a6 a7 where "acc = [a0, a1, a2, a3, a4, a5, a6, a7]"
  using assms by (auto simp: length_Suc_conv eval_nat_numeral)

lemma accumulate_512_variants:
  assumes "length acc = 8" and "x + 64 \<le> length input" and "s + 64 \<le> length secret"
  shows "XXH3_accumulate_512 vector input secret acc x s = XXH3_accumulate_512_scalar input secret acc x s"
proof -
  from assms(1) obtain a0 a1 a2 a3 a4 a5 a6 a7 where "acc = [a0, a1, a2, a3, a4, a5, a6, a7]" by (rule eight)
  then show ?thesis
    by (cases vector) (simp_all add: XXH3_accumulate_512_def accumulate_scalar [OF assms(2,3)]
        accumulate_sse2 [OF assms(2,3)] accumulate_avx2 [OF assms(2,3)])
qed

lemma scrambleAcc_variants:
  assumes "length acc = 8" and "s + 64 \<le> length secret"
  shows "XXH3_scrambleAcc vector secret acc s = XXH3_scrambleAcc_scalar secret acc s"
proof -
  from assms(1) obtain a0 a1 a2 a3 a4 a5 a6 a7 where "acc = [a0, a1, a2, a3, a4, a5, a6, a7]" by (rule eight)
  then show ?thesis
    by (cases vector) (simp_all add: XXH3_scrambleAcc_def scramble_scalar [OF assms(2)]
        scramble_sse2 [OF assms(2)] scramble_avx2 [OF assms(2)])
qed

lemma initCustomSecret_variants:
  "XXH3_initCustomSecret vector seed = XXH3_initCustomSecret_scalar seed"
  by (cases vector) (simp_all add: XXH3_initCustomSecret_def custom_secret initCustomSecret_sse2 initCustomSecret_avx2)

end
