(* ===== verification/Xxh3_Hash.thy ===== *)
theory Xxh3_Hash
  imports Xxh3_Vector
begin

text \<open>
  The hash of keys of any length: it exists, does not depend on the vector variant, and the
  shortcut for the seed 0 agrees with the general way.
\<close>

section \<open>Long keys\<close>

text \<open>Two computations that return the same value, with a property.\<close>

definition agree :: "'a outcome \<Rightarrow> 'a outcome \<Rightarrow> ('a \<Rightarrow> bool) \<Rightarrow> bool" where
  "agree r r' P \<longleftrightarrow> (\<exists>x. r = Inr x \<and> r' = Inr x \<and> P x)"

lemma agree_iff: "agree r r' P \<longleftrightarrow> r = r' \<and> yields r P"
  by (auto simp: agree_def yields_def)

lemma agree_and_then:
  "agree r r' Q \<Longrightarrow> (\<And>x. Q x \<Longrightarrow> agree (f x) (f' x) P) \<Longrightarrow> agree (and_then r f) (and_then r' f') P"
  by (auto simp: agree_def)

lemma agree_for_each:
  "P s \<Longrightarrow> (\<And>i s. i \<in> set is \<Longrightarrow> P s \<Longrightarrow> agree (body i s) (body' i s) P) \<Longrightarrow>
   agree (for_each is body s) (for_each is body' s) P"
proof (induction "is" arbitrary: s)
  case Nil
  then show ?case by (simp add: agree_iff)
next
  case (Cons i "is")
  have "agree (for_each is body t) (for_each is body' t) P" if "P t" for t using Cons that by simp
  with Cons.prems show ?case by (auto intro: agree_and_then)
qed

text \<open>The accumulators are eight words all along.\<close>

lemma yields_accumulate_512_scalar:
  assumes "length acc = 8" and "i + 64 \<le> length input" and "s + 64 \<le> length secret"
  shows "yields (XXH3_accumulate_512_scalar input secret acc i s) (\<lambda>acc. length acc = 8)"
  unfolding XXH3_accumulate_512_scalar_def
  using assms by (intro yields_for_each) (auto simp: xxh_sizes Let_def)

lemma agree_accumulate_512:
  assumes "length acc = 8" and "i + 64 \<le> length input" and "s + 64 \<le> length secret"
  shows "agree (XXH3_accumulate_512 vector input secret acc i s) (XXH3_accumulate_512_scalar input secret acc i s)
    (\<lambda>acc. length acc = 8)"
  unfolding agree_iff accumulate_512_variants [OF assms]
  by (simp add: yields_accumulate_512_scalar [OF assms])

lemma agree_scrambleAcc:
  assumes "length acc = 8" and "s + 64 \<le> length secret"
  shows "agree (XXH3_scrambleAcc vector secret acc s) (XXH3_scrambleAcc_scalar secret acc s) (\<lambda>acc. length acc = 8)"
proof -
  have "yields (XXH3_scrambleAcc_scalar secret acc s) (\<lambda>acc. length acc = 8)"
    unfolding XXH3_scrambleAcc_scalar_def
    using assms by (intro yields_for_each) (auto simp: xxh_sizes)
  then show ?thesis unfolding agree_iff scrambleAcc_variants [OF assms] by simp
qed

lemma agree_accumulate:
  assumes "length acc = 8" and "i + n * 64 \<le> length input" and "s + n * 8 + 56 \<le> length secret"
  shows "agree (XXH3_accumulate input secret acc i s n (XXH3_accumulate_512 vector))
    (XXH3_accumulate input secret acc i s n XXH3_accumulate_512_scalar) (\<lambda>acc. length acc = 8)"
  unfolding XXH3_accumulate_def
  using assms by (intro agree_for_each agree_accumulate_512) (auto simp: xxh_sizes)

lemma agree_hashLong_loop:
  assumes "length acc = 8" and "XXH3_MIDSIZE_MAX < length input" and "XXH3_SECRET_SIZE_MIN \<le> length secret"
  shows "agree (XXH3_hashLong_internal_loop acc input secret (XXH3_accumulate_512 vector) (XXH3_scrambleAcc vector))
    (XXH3_hashLong_internal_loop acc input secret XXH3_accumulate_512_scalar XXH3_scrambleAcc_scalar)
    (\<lambda>acc. length acc = 8)"
proof -
  define n where "n = (length secret - 64) div 8"
  define k where "k = (length input - 1) div (64 * n)"
  have n: "n * 8 + 64 \<le> length secret" "0 < n" using assms(3) by (simp_all add: n_def xxh_sizes)
  have k: "k * (64 * n) \<le> length input - 1" unfolding k_def by (rule div_times_less_eq_dividend)
  have r: "length input - 1 - 64 * n * k < 64 * n"
    using n(2) by (simp add: k_def minus_mult_div_eq_mod)
  then have m: "(length input - 1 - 64 * n * k) div 64 < n" by (simp add: less_mult_imp_div_less mult.commute)
  have m64: "(length input - 1 - 64 * n * k) div 64 * 64 \<le> length input - 1 - 64 * n * k"
    by (rule div_times_less_eq_dividend)
  have blk: "j * (64 * n) + n * 64 \<le> length input" if "j < k" for j
  proof -
    have "(j + 1) * (64 * n) \<le> k * (64 * n)" using that by (intro mult_le_mono1) simp
    with k show ?thesis by (simp add: algebra_simps)
  qed
  have blocks: "agree
      (for_each [0..<k] (\<lambda>j acc. and_then (XXH3_accumulate input secret acc (j * (64 * n)) 0 n (XXH3_accumulate_512 vector))
        (\<lambda>acc. XXH3_scrambleAcc vector secret acc (length secret - 64))) acc)
      (for_each [0..<k] (\<lambda>j acc. and_then (XXH3_accumulate input secret acc (j * (64 * n)) 0 n XXH3_accumulate_512_scalar)
        (\<lambda>acc. XXH3_scrambleAcc_scalar secret acc (length secret - 64))) acc) (\<lambda>acc. length acc = 8)"
  proof (intro agree_for_each agree_and_then assms(1))
    fix j and acc :: "u64 list" assume "j \<in> set [0..<k]" and acc: "length acc = 8"
    then have "j * (64 * n) + n * 64 \<le> length input" using blk by simp
    then show "agree (XXH3_accumulate input secret acc (j * (64 * n)) 0 n (XXH3_accumulate_512 vector))
        (XXH3_accumulate input secret acc (j * (64 * n)) 0 n XXH3_accumulate_512_scalar) (\<lambda>acc. length acc = 8)"
      using n by (intro agree_accumulate [OF acc]) simp_all
  next
    fix acc :: "u64 list" assume "length acc = 8"
    then show "agree (XXH3_scrambleAcc vector secret acc (length secret - 64))
        (XXH3_scrambleAcc_scalar secret acc (length secret - 64)) (\<lambda>acc. length acc = 8)"
      by (rule agree_scrambleAcc) (use n in simp)
  qed
  show ?thesis
    unfolding XXH3_hashLong_internal_loop_def Let_def xxh_sizes n_def [symmetric] k_def [symmetric]
  proof (rule agree_and_then [OF blocks], rule agree_and_then)
    fix acc :: "u64 list" assume "length acc = 8"
    then show "agree (XXH3_accumulate input secret acc (k * (64 * n)) 0
        ((length input - 1 - 64 * n * k) div 64) (XXH3_accumulate_512 vector))
      (XXH3_accumulate input secret acc (k * (64 * n)) 0
        ((length input - 1 - 64 * n * k) div 64) XXH3_accumulate_512_scalar) (\<lambda>acc. length acc = 8)"
      using m m64 n k by (intro agree_accumulate) (auto simp: mult.commute)
  next
    fix acc :: "u64 list" assume "length acc = 8"
    then show "agree (XXH3_accumulate_512 vector input secret acc (length input - 64) (length secret - 64 - 7))
      (XXH3_accumulate_512_scalar input secret acc (length input - 64) (length secret - 64 - 7)) (\<lambda>acc. length acc = 8)"
      using assms(2,3) by (intro agree_accumulate_512) (auto simp: xxh_sizes)
  qed
qed

lemma agree_hashLong:
  assumes "XXH3_MIDSIZE_MAX < length input" and "XXH3_SECRET_SIZE_MIN \<le> length secret"
  shows "agree (XXH3_hashLong_64b_internal input secret (XXH3_accumulate_512 vector) (XXH3_scrambleAcc vector))
    (XXH3_hashLong_64b_internal input secret XXH3_accumulate_512_scalar XXH3_scrambleAcc_scalar) (\<lambda>_. True)"
proof -
  have "yields (XXH3_mergeAccs acc secret 11 start) (\<lambda>_. True)" for acc start
    unfolding XXH3_mergeAccs_def XXH3_mix2Accs_def
    using assms(2) by (intro yields_and_then [OF yields_for_each]) (auto simp: xxh_sizes)
  then show ?thesis
    unfolding XXH3_hashLong_64b_internal_def XXH_SECRET_MERGEACCS_START_def
    by (intro agree_and_then [OF agree_hashLong_loop [OF _ assms]]) (simp_all add: XXH3_INIT_ACC_def agree_iff)
qed

section \<open>Properties of the hash\<close>

lemma internal_agree:
  assumes "XXH3_SECRET_SIZE_MIN \<le> length secret"
    and "XXH3_MIDSIZE_MAX < length input \<Longrightarrow> agree (f input seed secret) (f' input seed secret) (\<lambda>_. True)"
  shows "agree (XXH3_64bits_internal input seed secret f) (XXH3_64bits_internal input seed secret f') (\<lambda>_. True)"
proof -
  consider "length input \<le> 16" | "16 < length input" "length input \<le> 128"
    | "128 < length input" "length input \<le> XXH3_MIDSIZE_MAX" | "XXH3_MIDSIZE_MAX < length input"
    by linarith
  then show ?thesis
    by cases (use assms in \<open>auto simp: XXH3_64bits_internal_def Let_def agree_iff xxh_sizes
        yields_0to16 yields_17to128 yields_129to240\<close>)
qed

lemma length_kSecret_min: "XXH3_SECRET_SIZE_MIN \<le> length XXH3_kSecret"
  by (simp add: length_XXH3_kSecret xxh_sizes)

lemma agree_default:
  "agree (XXH3_64bits vector input) (XXH3_64bits XXH_SCALAR input) (\<lambda>_. True)"
  unfolding XXH3_64bits_def
  by (rule internal_agree [OF length_kSecret_min])
    (simp add: XXH3_hashLong_64b_default_def agree_hashLong [OF _ length_kSecret_min]
      XXH3_accumulate_512_def [of XXH_SCALAR] XXH3_scrambleAcc_def [of XXH_SCALAR])

lemma agree_withSecret:
  assumes "XXH3_SECRET_SIZE_MIN \<le> length secret"
  shows "agree (XXH3_64bits_withSecret vector input secret) (XXH3_64bits_withSecret XXH_SCALAR input secret) (\<lambda>_. True)"
  unfolding XXH3_64bits_withSecret_def
  by (rule internal_agree [OF assms])
    (simp add: XXH3_hashLong_64b_withSecret_def agree_hashLong [OF _ assms]
      XXH3_accumulate_512_def [of XXH_SCALAR] XXH3_scrambleAcc_def [of XXH_SCALAR])

lemma agree_withSeed:
  "agree (XXH3_64bits_withSeed vector input seed) (XXH3_64bits_withSeed XXH_SCALAR input seed) (\<lambda>_. True)"
  unfolding XXH3_64bits_withSeed_def
proof (rule internal_agree [OF length_kSecret_min])
  assume long: "XXH3_MIDSIZE_MAX < length input"
  obtain s where s: "XXH3_initCustomSecret_scalar seed = Inr s" "length s = 192"
    using custom_secret [of seed] by (auto simp: length_concat comp_def seeded_def upt_rec)
  have "XXH3_SECRET_SIZE_MIN \<le> length s" using s(2) by (simp add: xxh_sizes)
  then show "agree (XXH3_hashLong_64b_withSeed vector input seed XXH3_kSecret)
      (XXH3_hashLong_64b_withSeed XXH_SCALAR input seed XXH3_kSecret) (\<lambda>_. True)"
    using long s(1) by (simp add: XXH3_hashLong_64b_withSeed_def XXH3_hashLong_64b_withSeed_internal_def
        initCustomSecret_variants agree_hashLong length_kSecret_min
        XXH3_accumulate_512_def [of XXH_SCALAR] XXH3_scrambleAcc_def [of XXH_SCALAR])
qed

lemma withSeed_zero: "XXH3_64bits_withSeed vector input 0 = XXH3_64bits vector input"
  by (simp add: XXH3_64bits_withSeed_def XXH3_64bits_def XXH3_64bits_internal_def Let_def
      XXH3_hashLong_64b_withSeed_def XXH3_hashLong_64b_withSeed_internal_def XXH3_hashLong_64b_default_def)

text \<open>C9: the hash does not depend on the processor, is total and stays in bounds.  The loops with
  SSE2 and with AVX2 instructions compute the same hash as the portable ones, for every key and
  every seed, and for every secret of at least \<open>XXH3_SECRET_SIZE_MIN\<close> bytes; each read lies
  inside its array, so there is a hash.  A cache file is therefore read by any build.\<close>

theorem xxh3_variants_agree:
  "(\<exists>h. Xxh3Hasher_hash vector input = Inr h \<and> Xxh3Hasher_hash XXH_SCALAR input = Inr h) \<and>
   (\<exists>h. XXH3_64bits_withSeed vector input seed = Inr h \<and> XXH3_64bits_withSeed XXH_SCALAR input seed = Inr h) \<and>
   (XXH3_SECRET_SIZE_MIN \<le> length secret \<longrightarrow>
     (\<exists>h. XXH3_64bits_withSecret vector input secret = Inr h \<and> XXH3_64bits_withSecret XXH_SCALAR input secret = Inr h))"
  using agree_default [of vector input] agree_withSeed [of vector input seed] agree_withSecret [of secret vector input]
  by (auto simp: agree_def Xxh3Hasher_hash_def)

theorem xxh3_variants_agree_witness:
  "\<exists>h. XXH3_64bits_withSecret XXH_SSE2 (replicate 300 7) (replicate 136 1) = Inr h \<and>
       XXH3_64bits_withSecret XXH_SCALAR (replicate 300 7) (replicate 136 1) = Inr h"
  using xxh3_variants_agree [of XXH_SSE2 "replicate 300 7" 0 "replicate 136 1"] by (simp add: xxh_sizes)

text \<open>The seed 0 means no seed.  \<open>XXH3_64bits_withSeed\<close> treats it apart; the general way, a secret made
  from the seed, would use the same bytes, in every variant.\<close>

theorem xxh3_seed_zero:
  "XXH3_64bits_withSeed vector input 0 = XXH3_64bits vector input \<and>
   XXH3_initCustomSecret vector 0 = Inr XXH3_kSecret"
  by (simp add: withSeed_zero initCustomSecret_variants custom_secret_zero)

section \<open>Short keys\<close>

text \<open>Every step of the mixing of a short key can be undone.\<close>

lemma short_keys_inject:
  assumes "XXH3_64bits_withSeed vector x seed = XXH3_64bits_withSeed vector y seed"
    and "length x = length y \<and> length x \<le> 8 \<or> length x \<in> {1..3} \<and> length y \<in> {1..3}"
  shows "x = y"
proof -
  have secret: "24 \<le> length XXH3_kSecret" "8 \<le> length XXH3_kSecret" by (simp_all add: length_XXH3_kSecret)
  have short: "XXH3_64bits_withSeed vector z seed = XXH3_len_0to16_64b z XXH3_kSecret seed" if "length z \<le> 8" for z
    using that by (simp add: XXH3_64bits_withSeed_def XXH3_64bits_internal_def Let_def)
  from assms(2) have l: "length x \<le> 8" "length y \<le> 8" by auto
  from assms(2) consider "x = []" "y = []" | "length x \<in> {1..3}" "length y \<in> {1..3}"
    | "length x = length y" "4 \<le> length x" "length x \<le> 8"
    by (cases x; cases y; fastforce)
  then show ?thesis
  proof cases
    case 2
    then have "XXH3_len_0to16_64b z XXH3_kSecret seed = XXH3_len_1to3_64b z XXH3_kSecret seed"
      if "z \<in> {x, y}" for z using that by (auto simp: XXH3_len_0to16_64b_def Let_def)
    with assms(1) l have "XXH3_len_1to3_64b x XXH3_kSecret seed = XXH3_len_1to3_64b y XXH3_kSecret seed"
      by (simp add: short)
    then show ?thesis by (rule len_1to3_inject) (use 2 secret in auto)
  next
    case 3
    then have "XXH3_len_0to16_64b z XXH3_kSecret seed = XXH3_len_4to8_64b z XXH3_kSecret seed"
      if "z \<in> {x, y}" for z using that by (auto simp: XXH3_len_0to16_64b_def Let_def)
    with assms(1) l have "XXH3_len_4to8_64b x XXH3_kSecret seed = XXH3_len_4to8_64b y XXH3_kSecret seed"
      by (simp add: short)
    then show ?thesis by (rule len_4to8_inject) (use 3 secret in auto)
  qed simp
qed

text \<open>C10: two short keys never share a hash.  For any seed, the hash is injective on the keys of one
  length up to eight bytes, and on all keys of one to three bytes together: the mixing of a short
  key loses nothing, because every step of it can be undone.\<close>

theorem xxh3_short_keys:
  assumes "XXH3_64bits_withSeed vector x seed = XXH3_64bits_withSeed vector y seed"
    and "length x = length y \<and> length x \<le> 8 \<or> length x \<in> {1..3} \<and> length y \<in> {1..3}"
  shows "x = y"
  using assms by (rule short_keys_inject)

theorem xxh3_short_keys_witness:
  "XXH3_64bits_withSeed XXH_SCALAR [107, 49] 5 \<noteq> XXH3_64bits_withSeed XXH_SCALAR [107, 50] 5 \<and>
   XXH3_64bits_withSeed XXH_SCALAR [1, 2, 3, 4, 5] 0 \<noteq> XXH3_64bits_withSeed XXH_SCALAR [1, 2, 3, 4, 6] 0"
  using xxh3_short_keys [of XXH_SCALAR "[107, 49]" 5 "[107, 50]"] xxh3_short_keys [of XXH_SCALAR "[1, 2, 3, 4, 5]" 0 "[1, 2, 3, 4, 6]"]
  by auto


end
