(* ===== verification/Hash_Cache.thy ===== *)
theory Hash_Cache
  imports Linear_Store Xxh3_Hash
begin

text \<open>
  The linear-probe cache with the hash of the code (\<open>cache/LinearProbeCache.h\<close> instantiates
  \<open>HashedCacheBase\<close> with \<open>Xxh3Hasher\<close>): what a caller learns from \<open>*foundHash\<close>, which
  \<open>setFoundHash\<close> of \<open>cache/base/HashedCacheBase.h\<close> writes as 0 for an absent key.
\<close>

definition code_hash :: "xxh_vector \<Rightarrow> bytes \<Rightarrow> u64" where
  "code_hash vector key = (case Xxh3Hasher_hash vector key of Inl _ \<Rightarrow> 0 | Inr h \<Rightarrow> h)"

lemma code_hash: "Xxh3Hasher_hash vector key = Inr (code_hash vector key)"
  using agree_default [of vector key] by (auto simp: agree_def Xxh3Hasher_hash_def code_hash_def)

lemma code_hash_withSeed: "XXH3_64bits_withSeed vector key 0 = Inr (code_hash vector key)"
  using code_hash [of vector key] by (simp add: Xxh3Hasher_hash_def withSeed_zero)

text \<open>The key of eight bytes that the hash sends to 0.\<close>

definition zero_key :: bytes where
  "zero_key = [0x42, 0xD5, 0x68, 0xE1, 0x38, 0xD7, 0x27, 0xFF]"

lemma length_zero_key: "length zero_key = 8"
  by (simp add: zero_key_def)

lemma code_hash_zero_key: "code_hash vector zero_key = 0"
  by (simp add: code_hash_def Xxh3Hasher_hash_def XXH3_64bits_def XXH3_64bits_internal_def
      XXH3_len_0to16_64b_def XXH3_len_4to8_64b_def zero_key_def Let_def XXH3_kSecret_def
      load_u32_def load_u64_def load_le_def slice_def XXH3_rrmxmx_def XXH_swap32_def XXH_rotl64_def
      XXH_xorshift64_def)

lemma code_hash_zero_iff:
  assumes "length key = 8"
  shows "code_hash vector key = 0 \<longleftrightarrow> key = zero_key"
proof
  assume "code_hash vector key = 0"
  then have "XXH3_64bits_withSeed vector key 0 = XXH3_64bits_withSeed vector zero_key 0"
    by (simp add: code_hash_withSeed code_hash_zero_key)
  then show "key = zero_key" by (rule short_keys_inject) (simp add: assms zero_key_def)
qed (simp add: code_hash_zero_key)

text \<open>C11: the hash that a lookup reports does not tell presence.  In a linear-probe cache with the
  code's hash, \<open>contains\<close> reports for a key of eight bytes the hash 0 when the key is absent, as
  documented, but also for one key that may be present: the only key of eight bytes that the
  hash sends to 0.\<close>

theorem found_hash_of_eight_bytes:
  assumes "lp_reads (code_hash vector) fv c M" and "length key = 8"
  shows "\<exists>h. hc_contains (linear_policy (code_hash vector)) c key = Some (Inr (M key \<noteq> None, h)) \<and>
           (h = 0 \<longleftrightarrow> M key = None \<or> key = zero_key)"
  using linear_contains [OF assms(1)] code_hash_zero_iff [OF assms(2)] by auto

theorem found_hash_of_eight_bytes_witness:
  "\<exists>c c' n. small_cache (code_hash XXH_SSE2) = Inr c \<and>
     put (hc_putInternal (linear_policy (code_hash XXH_SSE2))) c zero_key (Put_Int64 5) = Some (c', Inr (True, n)) \<and>
     hc_contains (linear_policy (code_hash XXH_SSE2)) c' zero_key = Some (Inr (True, 0))"
proof -
  obtain c where c: "small_cache (code_hash XXH_SSE2) = Inr c" "lp_builds (code_hash XXH_SSE2) [] c Map.empty"
    and acc: "\<And>key v. length key \<le> 100 \<Longrightarrow> length v \<le> 100 \<Longrightarrow> lp_accepts c key v"
    using small_cache by metis
  have room: "lp_accepts c zero_key (int64_to_string 5)" by (rule acc) (simp_all add: zero_key_def)
  obtain c' n where c': "put (hc_putInternal (linear_policy (code_hash XXH_SSE2))) c zero_key (Put_Int64 5) = Some (c', Inr (True, n))"
    "lp_builds (code_hash XXH_SSE2) [] c' (Map.empty(zero_key \<mapsto> (put_type (Put_Int64 5), int64_to_string 5)))"
    using linear.put_then_read [OF c(2) _ _ room, of "Put_Int64 5" undefined] by auto
  show ?thesis
    using found_hash_of_eight_bytes [OF lp_builds_reads [OF c'(2)], of zero_key] c(1) c'(1)
    by (auto simp: length_zero_key)
qed

end
