(* ===== verification/Command_Line.thy ===== *)
theory Command_Line
  imports Cache_Build
begin

text \<open>
  The command line tool, \<open>main/src/main.cpp\<close>: it builds caches from settings, creates a typed
  dedup cache from a text file, or loads a cache and answers the commands of its input.

  What a function writes to the standard output is a list of bytes, together with how it ends;
  the messages and timings on the error stream are left out.  \<open>std::istringstream\<close> is the
  rest of its text.  How \<open>std::cout\<close> writes floating-point numbers is a parameter, as are the
  option parser (cxxopts), whose result is the record \<open>cli_options\<close>, and the benchmarks.
\<close>

section \<open>Commands\<close>

datatype command =
    GET | GETFLOATVECTOR | GETFLOATSPAN | GETFLOATATINDEX | GETBOOL | GETVECTOR | GETINTEGER
  | GETLONG | GETINT64 | GETDOUBLE

text \<open>\<open>iss >> token\<close> for a string: blanks are skipped, and the token ends at the next blank.\<close>

definition next_token :: "bytes \<Rightarrow> bytes \<times> bytes" where
  "next_token iss =
     (let s = dropWhile isspace iss
      in (takeWhile (\<lambda>c. \<not> isspace c) s, dropWhile (\<lambda>c. \<not> isspace c) s))"

text \<open>
  \<open>iss >> index\<close> for an \<open>int\<close>: the variable keeps its value at the end of the text, becomes 0
  where no number stands, and is clamped to the range of the type.
\<close>

definition next_int :: "bytes \<Rightarrow> int \<Rightarrow> int" where
  "next_int iss index =
     (let s = dropWhile isspace iss;
          ds = takeWhile is_digit (if s \<noteq> [] \<and> hd s \<in> {43, 45} then tl s else s);
          v = (if s \<noteq> [] \<and> hd s = 45 then - digits_val 0 ds else digits_val 0 ds)
      in if s = [] then index else if ds = [] then 0 else max (- (2 ^ 31)) (min (2 ^ 31 - 1) v))"

text \<open>The branches of \<open>parseLine\<close> that take a key only.\<close>

definition key_argument :: "bytes \<Rightarrow> command \<Rightarrow> (command \<times> bytes) option" where
  "key_argument iss command =
     (let (key, iss) = next_token iss in if key \<noteq> [] then Some (command, key) else None)"

definition parseLine :: "bytes \<Rightarrow> (command \<times> bytes) option" where
  "parseLine line =
     (let (command, iss) = next_token line
      in if command = lit ''GET'' then key_argument iss GET
         else if command = lit ''GETBOOL'' then key_argument iss GETBOOL
         else if command = lit ''GETVECTOR'' then key_argument iss GETVECTOR
         else if command = lit ''GETFLOATVECTOR'' then key_argument iss GETFLOATVECTOR
         else if command = lit ''GETFLOATSPAN'' then key_argument iss GETFLOATSPAN
         else if command = lit ''GETINTEGER'' then key_argument iss GETINTEGER
         else if command = lit ''GETLONG'' then key_argument iss GETLONG
         else if command = lit ''GETINT64'' then key_argument iss GETINT64
         else if command = lit ''GETDOUBLE'' then key_argument iss GETDOUBLE
         else if command = lit ''GETFLOATATINDEX''
         then (let (key, iss) = next_token iss; index = next_int iss (- 1)
               in if key \<noteq> [] \<and> index \<ge> 0 then Some (GETFLOATATINDEX, key) else None)
         else None)"

section \<open>Answers\<close>

type_synonym printed = "(bytes \<times> unit outcome) option"

record formats =
  fmt_float :: "f32 \<Rightarrow> bytes"
  fmt_double :: "f64 \<Rightarrow> bytes"

text \<open>Print the value of a lookup, unless \<open>quiet\<close>.\<close>

definition answer :: "bool \<Rightarrow> ('a \<Rightarrow> bytes) \<Rightarrow> 'a outcome option \<Rightarrow> printed" where
  "answer quiet text r =
     map_option (\<lambda>r. case r of Inl e \<Rightarrow> ([], Inl e) | Inr v \<Rightarrow> (if quiet then [] else text v, Inr ())) r"

definition line_of :: "bytes \<Rightarrow> bytes" where "line_of text = text @ [10]"

definition list_line :: "('a \<Rightarrow> bytes) \<Rightarrow> 'a list \<Rightarrow> bytes" where
  "list_line text vec = concat (map (\<lambda>val. text val @ [32]) vec) @ [10]"

definition handleGet :: "lookup \<Rightarrow> bytes \<Rightarrow> bool \<Rightarrow> printed" where
  "handleGet cache key quiet = answer quiet (\<lambda>(value, _). line_of value) (get cache key [])"

definition handleGetBool :: "lookup \<Rightarrow> bytes \<Rightarrow> bool \<Rightarrow> printed" where
  "handleGetBool cache key quiet =
     answer quiet (\<lambda>(value, _). line_of (if value then lit ''1'' else lit ''0'')) (getBool cache key False)"

definition handleGetInteger :: "lookup \<Rightarrow> bytes \<Rightarrow> bool \<Rightarrow> printed" where
  "handleGetInteger cache key quiet =
     answer quiet (\<lambda>(value, _). line_of (lit (show_int (sint (ucast value :: u32))))) (getInt64 cache key 0)"

definition handleGetLong :: "lookup \<Rightarrow> bytes \<Rightarrow> bool \<Rightarrow> printed" where
  "handleGetLong cache key quiet =
     answer quiet (\<lambda>(value, _). line_of (lit (show_int (sint value)))) (getInt64 cache key 0)"

definition handleGetInt64 :: "lookup \<Rightarrow> bytes \<Rightarrow> bool \<Rightarrow> printed" where
  "handleGetInt64 cache key quiet =
     answer quiet (\<lambda>(value, _). line_of (lit (show_int (sint value)))) (getInt64 cache key 0)"

definition handleGetDouble :: "float_lib \<Rightarrow> formats \<Rightarrow> lookup \<Rightarrow> bytes \<Rightarrow> bool \<Rightarrow> printed" where
  "handleGetDouble fl fmt cache key quiet =
     answer quiet (\<lambda>(value, _). line_of (fmt_double fmt value)) (getDouble fl cache key 0)"

definition handleGetVector :: "lookup \<Rightarrow> bytes \<Rightarrow> bool \<Rightarrow> printed" where
  "handleGetVector cache key quiet =
     answer quiet (\<lambda>(vec, _). list_line id vec) (getVector cache key [])"

definition handleGetFloatVector :: "float_lib \<Rightarrow> formats \<Rightarrow> lookup \<Rightarrow> bytes \<Rightarrow> bool \<Rightarrow> printed" where
  "handleGetFloatVector fl fmt cache key quiet =
     answer quiet (\<lambda>(vec, _). list_line (fmt_float fmt) vec) (getFloatVector fl cache key)"

definition handleGetFloatSpan :: "formats \<Rightarrow> lookup \<Rightarrow> bytes \<Rightarrow> bool \<Rightarrow> printed" where
  "handleGetFloatSpan fmt cache key quiet =
     answer quiet (\<lambda>(vec, _). list_line (fmt_float fmt) vec) (getFloatSpan cache key)"

definition handleGetFloatAtIndex ::
  "float_lib \<Rightarrow> formats \<Rightarrow> lookup \<Rightarrow> bytes \<Rightarrow> u32 \<Rightarrow> bool \<Rightarrow> printed" where
  "handleGetFloatAtIndex fl fmt cache key index quiet =
     answer quiet (\<lambda>(value, _). line_of (fmt_float fmt value)) (getFloatAtIndex fl cache key index)"

text \<open>The chain tests for \<open>GET\<close> twice, as the code does.\<close>

definition executeCommand ::
  "float_lib \<Rightarrow> formats \<Rightarrow> lookup \<Rightarrow> command \<Rightarrow> bytes \<Rightarrow> bool \<Rightarrow> bool \<Rightarrow> printed" where
  "executeCommand fl fmt cache command key quiet printKey =
     map_option (\<lambda>(b, r). ((if printKey then key @ [32] else []) @ b, r))
      (if command = GET then handleGet cache key quiet
       else if command = GET then handleGetBool cache key quiet
       else if command = GETVECTOR then handleGetVector cache key quiet
       else if command = GETINTEGER then handleGetInteger cache key quiet
       else if command = GETLONG then handleGetLong cache key quiet
       else if command = GETINT64 then handleGetInt64 cache key quiet
       else if command = GETDOUBLE then handleGetDouble fl fmt cache key quiet
       else if command = GETFLOATVECTOR then handleGetFloatVector fl fmt cache key quiet
       else if command = GETFLOATSPAN then handleGetFloatSpan fmt cache key quiet
       else if command = GETFLOATATINDEX then (let index = 0 in handleGetFloatAtIndex fl fmt cache key index quiet)
       else Some ([], Inr ()))"

text \<open>One step after the other, until one does not end or throws.\<close>

fun print_all :: "('a \<Rightarrow> printed) \<Rightarrow> 'a list \<Rightarrow> printed" where
  "print_all f [] = Some ([], Inr ())"
| "print_all f (x # xs) =
     (case f x of
        None \<Rightarrow> None
      | Some (b, Inl e) \<Rightarrow> Some (b, Inl e)
      | Some (b, Inr _) \<Rightarrow> map_option (\<lambda>(b', r). (b @ b', r)) (print_all f xs))"

definition parseInputFromStdin ::
  "float_lib \<Rightarrow> formats \<Rightarrow> lookup \<Rightarrow> bool \<Rightarrow> int \<Rightarrow> bool \<Rightarrow> bytes \<Rightarrow> printed" where
  "parseInputFromStdin fl fmt cache quiet repeat printKey stdin =
     (let commands = List.map_filter parseLine (getlines 10 stdin)
      in print_all (\<lambda>idx. print_all (\<lambda>(command, key). executeCommand fl fmt cache command key quiet printKey)
           commands) [0..<nat repeat])"

section \<open>Reading and writing modes\<close>

text \<open>
  The options after parsing; \<open>o_count\<close> is \<open>count()\<close>, how often an option was given.
\<close>

record cli_options =
  o_abspath :: bytes
  o_input :: bytes
  o_load :: bytes
  o_latest :: bool
  o_name :: bytes
  o_output_dir :: bytes
  o_load_dir :: bytes
  o_type :: bytes
  o_repeat :: int
  o_quiet :: bool
  o_print_key :: bool
  o_create :: bytes
  o_slot :: int
  o_help :: bool
  o_version :: bool
  o_count :: "string \<Rightarrow> nat"

text \<open>\<open>loadCache\<close>: whatever its type, the file is loaded as a dedup cache.\<close>

definition loadCache ::
  "(bytes \<Rightarrow> u64) \<Rightarrow> float_lib \<Rightarrow> formats \<Rightarrow> bool \<Rightarrow> files \<Rightarrow> bytes \<Rightarrow> settings \<Rightarrow> bytes \<Rightarrow> cli_options \<Rightarrow>
   printed" where
  "loadCache H fl fmt os_ok files stdin s cacheName result =
     (case and_then (if o_abspath result = []
                     then if o_latest result then getLatestTimestampFullCacheFileName files s cacheName
                          else Inr (getFullCacheFileName s cacheName)
                     else Inr (o_abspath result)) (load_dedup H os_ok files) of
        Inl e \<Rightarrow> Some ([], Inl e)
      | Inr (cache, _) \<Rightarrow>
          parseInputFromStdin fl fmt (dedup_lookup H cache) (o_quiet result) (o_repeat result)
            (o_print_key result) stdin)"

definition set_default :: "bytes \<Rightarrow> bytes \<Rightarrow> settings \<Rightarrow> settings" where
  "set_default key value s = fst (setIfNotSet s key value)"

definition readMode ::
  "(bytes \<Rightarrow> u64) \<Rightarrow> float_lib \<Rightarrow> formats \<Rightarrow> bool \<Rightarrow> files \<Rightarrow> bytes \<Rightarrow> settings \<Rightarrow> cli_options \<Rightarrow> printed" where
  "readMode H fl fmt os_ok files stdin s result =
     (let cacheName = o_load result;
          s = set_default (kCacheType @ lit ''.'' @ cacheName) (o_type result) s;
          s = set_default (kLoadDir @ lit ''.'' @ cacheName) (o_load_dir result) s
      in loadCache H fl fmt os_ok files stdin s cacheName result)"

definition writeMode ::
  "(bytes \<Rightarrow> u64) \<Rightarrow> float_lib \<Rightarrow> (nat \<Rightarrow> surroundings) \<Rightarrow> files \<Rightarrow> settings \<Rightarrow> cli_options \<Rightarrow>
   (files \<times> unit outcome) option" where
  "writeMode H fl env files s result =
     (let cacheName = o_name result;
          s = set_default kCacheNames cacheName s;
          s = set_default (kCacheType @ lit ''.'' @ cacheName) (o_type result) s;
          s = set_default (kInputFiles @ lit ''.'' @ cacheName) (o_input result) s;
          s = set_default (kOutputDir @ lit ''.'' @ cacheName) (o_output_dir result) s
      in generator_start H (fl_double fl) s env [] files)"

section \<open>Creating a cache from a text file\<close>

text \<open>
  The first line names types, \<open>992=Bool|267=String\<close> (124 is \<open>|\<close>, 61 is \<open>=\<close>); \<open>None\<close> is the
  return on a wrong format.
\<close>

fun header_types :: "(bytes \<Rightarrow> bytes option) \<Rightarrow> bytes list \<Rightarrow> (bytes \<Rightarrow> bytes option) option" where
  "header_types queryIdToType [] = Some queryIdToType"
| "header_types queryIdToType (item # items) =
     (let subitems = split 61 item
      in if length subitems \<noteq> 2 then None
         else header_types (queryIdToType(trim (subitems ! 0) \<mapsto> trim (subitems ! 1))) items)"

text \<open>The value of a line by its type; \<open>None\<close> for an unknown type, which is skipped.\<close>

definition typed_value :: "float_lib \<Rightarrow> bytes \<Rightarrow> bytes \<Rightarrow> put_value outcome option" where
  "typed_value fl type value =
     (if type = lit ''String'' then Some (Inr (Put_String value))
      else if type = lit ''StringList'' then Some (Inr (Put_List (splitStringView 124 value)))
      else if type = lit ''Bool'' then Some (Inr (Put_Bool (toBool value)))
      else if type = lit ''Int64'' then Some (Inr (Put_Int64 (of_int (toLong value))))
      else if type = lit ''Double'' then Some (Inr (Put_Double (toDouble (fl_double fl) value)))
      else if type = lit ''FloatList''
      then Some (and_then (float_vector fl value) (\<lambda>values. Inr (Put_Floats values)))
      else None)"

text \<open>46 is the dot between the query id and the rest of the key.\<close>

definition type_of_key :: "(bytes \<Rightarrow> bytes option) \<Rightarrow> bytes \<Rightarrow> bytes" where
  "type_of_key queryIdToType key =
     (let queryId = takeWhile (\<lambda>c. c \<noteq> 46) key
      in case queryIdToType queryId of Some type \<Rightarrow> type | None \<Rightarrow> lit ''String'')"

text \<open>
  The loop over the lines.  \<open>False\<close> is the return on a wrong format.  What \<open>put\<close> returns is
  dropped, what it throws is not caught.
\<close>

fun create_lines ::
  "(bytes \<Rightarrow> u64) \<Rightarrow> float_lib \<Rightarrow> nat \<Rightarrow> (bytes \<Rightarrow> bytes option) \<Rightarrow> dedup_cache \<Rightarrow> bytes list \<Rightarrow>
   (dedup_cache \<times> bool outcome) option" where
  "create_lines H fl lineNumber queryIdToType cache [] = Some (cache, Inr True)"
| "create_lines H fl lineNumber queryIdToType cache (line # rest) =
     (if line = [] then create_lines H fl (lineNumber + 1) queryIdToType cache rest
      else if lineNumber + 1 = 1
      then (case header_types queryIdToType (split 124 line) of
              None \<Rightarrow> Some (cache, Inr False)
            | Some types \<Rightarrow> create_lines H fl (lineNumber + 1) types cache rest)
      else let items = split 61 line
           in if length items \<noteq> 2 then Some (cache, Inr False)
              else let key = trim (items ! 0); value = trim (items ! 1)
                   in case typed_value fl (type_of_key queryIdToType key) value of
                        None \<Rightarrow> create_lines H fl (lineNumber + 1) queryIdToType cache rest
                      | Some (Inl e) \<Rightarrow> Some (cache, Inl e)
                      | Some (Inr v) \<Rightarrow>
                          (case put (dd_putInternal H) cache key v of
                             None \<Rightarrow> None
                           | Some (cache', Inl e) \<Rightarrow> Some (cache', Inl e)
                           | Some (cache', Inr _) \<Rightarrow>
                               create_lines H fl (lineNumber + 1) queryIdToType cache' rest))"

text \<open>0x3FE0000000000000 is the double 0.5.\<close>

definition createMode ::
  "(bytes \<Rightarrow> u64) \<Rightarrow> float_lib \<Rightarrow> surroundings \<Rightarrow> files \<Rightarrow> cli_options \<Rightarrow> (files \<times> unit outcome) option" where
  "createMode H fl env files result =
     (let fileName = o_create result; cacheName = o_name result; outputDir = o_output_dir result
      in if cacheName = [] \<or> fileName = [] \<or> outputDir = [] then Some (files, Inr ())
         else case LinearProbeDedupCache H 35 (of_int (o_slot result)) 0x3FE0000000000000
                     (MallocMemoryHandler (sr_fresh env) (of_int (o_slot result) * 8)) LINEAR_PROBE_DEDUP_TYPED of
           Inl e \<Rightarrow> Some (files, Inl e)
         | Inr cache \<Rightarrow>
             (case files fileName of
                None \<Rightarrow> Some (files, Inr ())
              | Some content \<Rightarrow>
                  (case create_lines H fl 0 Map.empty cache (getlines 10 content) of
                     None \<Rightarrow> None
                   | Some (cache', Inl e) \<Rightarrow> Some (files, Inl e)
                   | Some (cache', Inr False) \<Rightarrow> Some (files, Inr ())
                   | Some (cache', Inr True) \<Rightarrow>
                       Some (CacheFileWriter_write files outputDir cacheName
                               (hc_access (linear_policy H) (the (dd_cacheType cache')) cache')
                               (dd_output cache') (sr_now env) (sr_junk env)))))"

section \<open>The program\<close>

definition kConfigLocation :: bytes where
  "kConfigLocation = lit ''/etc/applovin/axoncache/axoncache.properties''"

definition AXONCACHE_VERSION :: bytes where "AXONCACHE_VERSION = lit ''2.5''"

text \<open>What the program takes from outside, and what a run leaves behind.\<close>

record cli_world =
  w_files :: files
  w_stdin :: bytes
  w_os_ok :: bool
  w_env :: "nat \<Rightarrow> surroundings"
  w_help :: bytes
  w_bench :: printed

type_synonym run = "(files \<times> bytes \<times> int outcome) option"

text \<open>
  \<open>main\<close>: only the exceptions of the option parser are caught, so any other ends the program.
  \<open>parsed\<close> is what the parser gives, \<open>Inl\<close> its exception.
\<close>

definition cli_main ::
  "(bytes \<Rightarrow> u64) \<Rightarrow> float_lib \<Rightarrow> formats \<Rightarrow> cli_world \<Rightarrow> string + cli_options \<Rightarrow> run" where
  "cli_main H fl fmt w parsed =
     (let files = w_files w;
          printing = map_option (\<lambda>(b, r). (files, b, and_then r (\<lambda>_. Inr 0)));
          writing = map_option (\<lambda>(files', r). (files', [], and_then r (\<lambda>_. Inr 0)))
      in case parsed of
           Inl e \<Rightarrow> Some (files, [], Inr 1)
         | Inr result \<Rightarrow>
             if o_help result then Some (files, line_of (w_help w), Inr 0)
             else if o_version result
             then Some (files, line_of (lit ''AxonCache, version '' @ AXONCACHE_VERSION), Inr 0)
             else if o_count result ''input'' = 0 \<and> o_count result ''load'' = 0 \<and> o_count result ''abspath'' = 0 \<and>
                     o_count result ''create'' = 0 \<and> o_count result ''bench'' = 0
             then Some (files, line_of (w_help w), Inr 1)
             else let s = SharedSettingsProvider (case files kConfigLocation of Some content \<Rightarrow> content | None \<Rightarrow> [])
                  in if o_count result ''input'' > 0
                     then writing (writeMode H fl (w_env w) files s result)
                     else if o_count result ''create'' > 0
                     then writing (createMode H fl (w_env w 0) files result)
                     else if o_count result ''bench'' > 0 then printing (w_bench w)
                     else printing (readMode H fl fmt (w_os_ok w) files (w_stdin w) s result))"

section \<open>Parsing commands\<close>

definition word_like :: "bytes \<Rightarrow> bool" where
  "word_like w \<longleftrightarrow> w \<noteq> [] \<and> (\<forall>c \<in> set w. \<not> isspace c)"

lemma isspace_blank [simp]: "isspace 32"
  by (simp add: isspace_def)

lemma next_token_blank [simp]: "next_token (32 # s) = next_token s"
  by (simp add: next_token_def)

lemma word_like_drop: "word_like w \<Longrightarrow> dropWhile isspace (w @ s) = w @ s"
  by (cases w) (auto simp: word_like_def)

lemma next_token_word: "word_like w \<Longrightarrow> next_token w = (w, [])"
  using word_like_drop [of w "[]"]
  by (auto simp: next_token_def word_like_def takeWhile_eq_all_conv dropWhile_eq_Nil_conv)

lemma next_token_word_blank: "word_like w \<Longrightarrow> next_token (w @ 32 # s) = (w, 32 # s)"
  using word_like_drop [of w "32 # s"]
  by (auto simp: next_token_def word_like_def takeWhile_append2 dropWhile_append2)

lemma next_token_sound:
  "next_token s = (w, rest) \<Longrightarrow> w \<noteq> [] \<Longrightarrow> word_like w"
  by (auto simp: next_token_def word_like_def Let_def dest: set_takeWhileD)

text \<open>The commands that take a key.\<close>

definition key_commands :: "(bytes \<times> command) list" where
  "key_commands =
     [(lit ''GET'', GET), (lit ''GETBOOL'', GETBOOL), (lit ''GETVECTOR'', GETVECTOR),
      (lit ''GETFLOATVECTOR'', GETFLOATVECTOR), (lit ''GETFLOATSPAN'', GETFLOATSPAN),
      (lit ''GETINTEGER'', GETINTEGER), (lit ''GETLONG'', GETLONG), (lit ''GETINT64'', GETINT64),
      (lit ''GETDOUBLE'', GETDOUBLE)]"

lemma parseLine_table:
  "parseLine line =
     (let (name, iss) = next_token line
      in case map_of key_commands name of
           Some command \<Rightarrow> key_argument iss command
         | None \<Rightarrow> (if name = lit ''GETFLOATATINDEX''
                    then let (key, iss) = next_token iss; index = next_int iss (- 1)
                         in if key \<noteq> [] \<and> index \<ge> 0 then Some (GETFLOATATINDEX, key) else None
                    else None))"
  by (auto simp: parseLine_def key_commands_def Let_def split: prod.splits)

lemma word_like_commands: "(name, command) \<in> set key_commands \<Longrightarrow> word_like name"
  by (auto simp: key_commands_def word_like_def lit_def isspace_def)

lemma map_of_key_commands: "(name, command) \<in> set key_commands \<Longrightarrow> map_of key_commands name = Some command"
  by (auto simp: key_commands_def lit_def)

lemma parseLine_key_command:
  "(name, command) \<in> set key_commands \<Longrightarrow> word_like key \<Longrightarrow>
     parseLine (name @ 32 # key) = Some (command, key)"
  by (simp add: parseLine_table next_token_word_blank word_like_commands map_of_key_commands
      key_argument_def next_token_word) (simp add: word_like_def)

lemma digit_not_space: "is_digit c \<Longrightarrow> \<not> isspace c \<and> c \<noteq> 43 \<and> c \<noteq> 45"
  unfolding is_digit_def isspace_def word_le_nat_alt word_unat_eq_iff by auto

lemma next_int_show_nat:
  "next_int (32 # lit (show_nat n)) index = min (2 ^ 31 - 1) (int n)"
proof -
  let ?s = "lit (show_nat n)"
  have d: "?s \<noteq> []" "\<forall>c \<in> set ?s. is_digit c" "digits_val 0 ?s = int n" using show_nat_digits [of n] by blast+
  then have h: "is_digit (hd ?s)" by simp
  have "dropWhile isspace ?s = ?s" using h d(1) by (cases ?s) (auto dest: digit_not_space)
  moreover have tw: "takeWhile is_digit ?s = ?s" using d(2) by (auto simp: takeWhile_eq_all_conv)
  ultimately show ?thesis using d(1,3) digit_not_space [OF h] by (simp add: next_int_def tw Let_def)
qed

lemma next_int_no_number:
  assumes "word_like w" and "\<not> is_digit (hd w)" and "hd w \<noteq> 43" and "hd w \<noteq> 45"
  shows "next_int (32 # w) index = 0"
  using assms word_like_drop [OF assms(1), of "[]"]
  by (cases w) (auto simp: next_int_def word_like_def)

lemma parseLine_at_index:
  "word_like key \<Longrightarrow> parseLine (lit ''GETFLOATATINDEX'' @ 32 # key @ 32 # s) =
     (if next_int (32 # s) (- 1) \<ge> 0 then Some (GETFLOATATINDEX, key) else None)"
proof -
  assume k: "word_like key"
  have n: "word_like (lit ''GETFLOATATINDEX'')" by (simp add: word_like_def lit_def isspace_def)
  have m: "map_of key_commands (lit ''GETFLOATATINDEX'') = None" by (simp add: key_commands_def lit_def)
  show ?thesis
    unfolding parseLine_table next_token_word_blank [OF n] prod.case Let_def m option.case next_token_blank
      next_token_word_blank [OF k]
    using k by (simp add: word_like_def)
qed

lemma parseLine_sound:
  "parseLine line = Some (command, key) \<Longrightarrow> word_like key"
  by (auto simp: parseLine_table key_argument_def Let_def dest: next_token_sound
      split: prod.splits option.splits if_splits)

section \<open>Answering commands\<close>

lemma executeCommand_simps [simp]:
  "executeCommand fl fmt vt GET key q p = map_option (\<lambda>(b, r). ((if p then key @ [32] else []) @ b, r)) (handleGet vt key q)"
  "executeCommand fl fmt vt GETVECTOR key q p = map_option (\<lambda>(b, r). ((if p then key @ [32] else []) @ b, r)) (handleGetVector vt key q)"
  "executeCommand fl fmt vt GETINTEGER key q p = map_option (\<lambda>(b, r). ((if p then key @ [32] else []) @ b, r)) (handleGetInteger vt key q)"
  "executeCommand fl fmt vt GETLONG key q p = map_option (\<lambda>(b, r). ((if p then key @ [32] else []) @ b, r)) (handleGetLong vt key q)"
  "executeCommand fl fmt vt GETINT64 key q p = map_option (\<lambda>(b, r). ((if p then key @ [32] else []) @ b, r)) (handleGetInt64 vt key q)"
  "executeCommand fl fmt vt GETDOUBLE key q p = map_option (\<lambda>(b, r). ((if p then key @ [32] else []) @ b, r)) (handleGetDouble fl fmt vt key q)"
  "executeCommand fl fmt vt GETFLOATVECTOR key q p = map_option (\<lambda>(b, r). ((if p then key @ [32] else []) @ b, r)) (handleGetFloatVector fl fmt vt key q)"
  "executeCommand fl fmt vt GETFLOATSPAN key q p = map_option (\<lambda>(b, r). ((if p then key @ [32] else []) @ b, r)) (handleGetFloatSpan fmt vt key q)"
  "executeCommand fl fmt vt GETFLOATATINDEX key q p = map_option (\<lambda>(b, r). ((if p then key @ [32] else []) @ b, r)) (handleGetFloatAtIndex fl fmt vt key 0 q)"
  "executeCommand fl fmt vt GETBOOL key q p = Some (if p then key @ [32] else [], Inr ())"
  by (simp_all add: executeCommand_def)

lemmas handler_defs = handleGet_def handleGetVector_def handleGetInteger_def handleGetLong_def handleGetInt64_def
  handleGetDouble_def handleGetFloatVector_def handleGetFloatSpan_def handleGetFloatAtIndex_def answer_def

text \<open>What a command prints about a value of its type.\<close>

definition printed_value :: "formats \<Rightarrow> put_value \<Rightarrow> (command \<times> bytes) list" where
  "printed_value fmt value =
     (case value of
        Put_String s \<Rightarrow> [(GET, line_of s)]
      | Put_List ss \<Rightarrow> [(GETVECTOR, list_line id ss)]
      | Put_Bool b \<Rightarrow> [(GETBOOL, [])]
      | Put_Int64 x \<Rightarrow> [(GETINT64, line_of (lit (show_int (sint x)))), (GETLONG, line_of (lit (show_int (sint x)))),
                       (GETINTEGER, line_of (lit (show_int (sint (ucast x :: u32)))))]
      | Put_Double x \<Rightarrow> [(GETDOUBLE, line_of (fmt_double fmt x))]
      | Put_Floats xs \<Rightarrow> [(GETFLOATVECTOR, list_line (fmt_float fmt) xs), (GETFLOATSPAN, list_line (fmt_float fmt) xs)])"

lemma answers_of_reader:
  assumes "reads_back fl vt h key value" and "(command, text) \<in> set (printed_value fmt value)"
    and "\<And>s. value = Put_String s \<Longrightarrow> get vt key [] = Some (Inr (s, h))"
  shows "executeCommand fl fmt vt command key False False = Some (text, Inr ())"
  using assms
  by (cases "value") (auto simp: printed_value_def reads_back_def handler_defs)

lemma dedup_answers:
  assumes "dedup_reads H c M" and "holds_value M key value" and "(command, text) \<in> set (printed_value fmt value)"
  shows "executeCommand fl fmt (dedup_lookup H c) command key False False = Some (text, Inr ())"
proof (rule answers_of_reader [OF dedup.holds_reads_back [OF assms(1,2)] assms(3)])
  fix s assume "value = Put_String s"
  then have "M key = Some (TString, nul_terminate s)" using assms(2) by (auto simp: holds_value_def)
  then show "get (dedup_lookup H c) key [] = Some (Inr (s, found_hash H key True))"
    using dedup.get_stored [OF assms(1)] by (cases "s = []") simp_all
qed

text \<open>A key that is absent.\<close>

lemma show_int_zero: "show_int 0 = ''0''"
  by (simp add: show_int_def show_nat.simps digit_char_def char_of_def bit_0)

lemma dedup_answers_absent:
  assumes "dedup_reads H c M" and "M key = None"
  shows "executeCommand fl fmt (dedup_lookup H c) GET key False False = Some ([10], Inr ())"
    and "executeCommand fl fmt (dedup_lookup H c) GETVECTOR key False False = Some ([10], Inr ())"
    and "executeCommand fl fmt (dedup_lookup H c) GETINT64 key False False = Some (line_of (lit ''0''), Inr ())"
  using dedup.get_other [OF assms(1), of key] dedup.getVector_absent [OF assms] dedup.typed_absent [OF assms]
  by (simp_all add: handler_defs assms(2) line_of_def list_line_def show_int_zero)

text \<open>A whole input: the lines that parse are answered in their order.\<close>

lemma print_all_replies:
  "(\<And>x. x \<in> set xs \<Longrightarrow> f x = Some (g x, Inr ())) \<Longrightarrow> print_all f xs = Some (concat (map g xs), Inr ())"
  by (induction xs) simp_all

lemma parseInputFromStdin_replies:
  assumes "list_all2 (\<lambda>l cmd. parseLine l = Some cmd) lines cmds" and "\<forall>l \<in> set lines. 10 \<notin> set l"
    and "\<And>command key. (command, key) \<in> set cmds \<Longrightarrow>
      executeCommand fl fmt vt command key quiet printKey = Some (g command key, Inr ())"
  shows "parseInputFromStdin fl fmt vt quiet repeat printKey (concat (map (\<lambda>l. l @ [10]) lines)) =
    Some (concat (replicate (nat repeat) (concat (map (\<lambda>(command, key). g command key) cmds))), Inr ())"
proof -
  have "List.map_filter parseLine lines = cmds"
    using assms(1) by (induction rule: list_all2_induct) (simp_all add: List.map_filter_simps)
  moreover have "print_all (\<lambda>(command, key). executeCommand fl fmt vt command key quiet printKey) cmds =
      Some (concat (map (\<lambda>(command, key). g command key) cmds), Inr ())"
    by (rule print_all_replies) (use assms(3) in auto)
  ultimately show ?thesis
    using print_all_replies [of "[0..<nat repeat]" "\<lambda>_. print_all (\<lambda>(command, key).
        executeCommand fl fmt vt command key quiet printKey) cmds" "\<lambda>_. concat (map (\<lambda>(command, key). g command key) cmds)"]
    by (simp add: parseInputFromStdin_def getlines_concat [OF assms(2)] map_replicate_const)
qed

section \<open>A cache of any number of slots\<close>

text \<open>With a load factor of 0.5, half of the slots can be filled.\<close>

lemma excess_bits_bound: "m < 2 ^ (53 + k) \<Longrightarrow> excess_bits m \<le> k"
proof (induction k arbitrary: m)
  case (Suc k)
  have "m div 2 < 2 ^ (53 + k)" using Suc.prems by (intro less_mult_imp_div_less) (simp add: power_add)
  then have "excess_bits (m div 2) \<le> k" by (rule Suc.IH)
  then show ?case by (subst excess_bits.simps) simp
qed (simp add: excess_bits.simps)

lemma round53_exact: "2 ^ excess_bits m dvd m \<Longrightarrow> round53 m = m"
  by (auto simp: round53_def Let_def)

lemma max_entries_of_half:
  assumes "unat n < 2 ^ 31"
  shows "max_entries n half = Inr (of_nat (unat n div 2))"
proof -
  have r: "round53 (unat n) = unat n"
    using assms by (simp add: round53_def excess_bits.simps)
  have "unat n * 2 ^ 52 < 2 ^ (53 + 30)" using assms by simp
  then have "excess_bits (unat n * 2 ^ 52) \<le> 30" by (rule excess_bits_bound)
  then have "(2 :: nat) ^ excess_bits (unat n * 2 ^ 52) dvd 2 ^ 52" by (intro le_imp_power_dvd) simp
  then have p: "round53 (unat n * 2 ^ 52) = unat n * 2 ^ 52" by (intro round53_exact dvd_mult)
  have q: "unat n * 2 ^ 52 div 2 ^ 53 = unat n div 2" by (simp add: div_mult_mult1)
  have "unat n div 2 < 2 ^ 64" using assms by simp
  then show ?thesis
    using r p q by (simp add: max_entries_def decode_half)
qed

lemma typed_dedup_new:
  assumes "0 < k" and "k < 2 ^ 31"
  obtains c where "LinearProbeDedupCache H 35 (of_int k) half (MallocMemoryHandler fresh cap) LINEAR_PROBE_DEDUP_TYPED = Inr c"
    and "dedup_builds H c Map.empty" and "values_kept c" and "dd_values c = []"
    and "dd_cacheType c = Some LINEAR_PROBE_DEDUP_TYPED"
    and "\<And>e s. e \<le> nat k div 2 \<Longrightarrow> s + 8 \<le> 2 ^ 35 \<Longrightarrow> lp_space c e s"
proof -
  define n :: u64 where "n = of_int k"
  have un: "unat n = nat k"
    using assms by (simp add: n_def unat_eq_nat_uint uint_word_of_int)
  have n: "0 < unat n" "8 * unat n \<le> mem_limit" "unat n < 2 ^ 31"
    using assms un by (simp_all add: mem_limit_def)
  have "\<exists>c. LinearProbeDedupCache H 35 n half (MallocMemoryHandler fresh cap) LINEAR_PROBE_DEDUP_TYPED = Inr c"
    by (simp add: LinearProbeDedupCache_def HashedCacheBase_def max_entries_of_half [OF n(3)] load_factor_half
        linear_policy_def LinearProbe_def constant_defs MallocMemoryHandler_def mem_allocate_def)
  then obtain c where c: "LinearProbeDedupCache H 35 n half (MallocMemoryHandler fresh cap) LINEAR_PROBE_DEDUP_TYPED = Inr c"
    by blast
  note N = LinearProbeDedupCache_new [OF c n(1,2)]
  have mx: "unat (hc_maxNumberOfEntries c) = nat k div 2"
  proof -
    have "hc_maxNumberOfEntries c = of_nat (nat k div 2)" using N(10) un by (simp add: max_entries_of_half [OF n(3)])
    then show ?thesis using n(3) un by (simp add: unat_of_nat)
  qed
  have ks: "keyspace_bytes (hc_probe c) = 8 * nat k" using N(11) un by simp
  show ?thesis
  proof (rule that [OF c [unfolded n_def]])
    show "dedup_builds H c Map.empty" using N(1,2,3) by (simp add: dedup_builds_def index_ok_def find_index_def)
    show "values_kept c" using N(2,4,5) by (simp add: values_kept_def)
    show "dd_values c = []" "dd_cacheType c = Some LINEAR_PROBE_DEDUP_TYPED" by (rule N(2), rule N(6))
    show "lp_space c e s" if "e \<le> nat k div 2" "s + 8 \<le> 2 ^ 35" for e s
      using that N(7-9) mx ks un n by (simp add: lp_space_def mem_limit_def)
  qed
qed

section \<open>Text files of the format\<close>

text \<open>A field: no separator, no end of line, and no blanks around it.\<close>

definition plain :: "bytes \<Rightarrow> bool" where
  "plain s \<longleftrightarrow> s \<noteq> [] \<and> trim s = s \<and> 10 \<notin> set s \<and> 61 \<notin> set s"

definition pair_line :: "bytes \<times> bytes \<Rightarrow> bytes" where "pair_line kt = fst kt @ 61 # snd kt"

definition table_lines :: "(bytes \<times> bytes) list \<Rightarrow> (bytes \<times> bytes) list \<Rightarrow> bytes list" where
  "table_lines types rows = join 124 (map pair_line types) # map pair_line rows"

definition table_text :: "(bytes \<times> bytes) list \<Rightarrow> (bytes \<times> bytes) list \<Rightarrow> bytes" where
  "table_text types rows = concat (map (\<lambda>l. l @ [10]) (table_lines types rows))"

definition plain_pair :: "bytes \<times> bytes \<Rightarrow> bool" where "plain_pair kt \<longleftrightarrow> plain (fst kt) \<and> plain (snd kt)"

definition plain_type :: "bytes \<times> bytes \<Rightarrow> bool" where
  "plain_type qt \<longleftrightarrow> plain_pair qt \<and> 124 \<notin> set (fst qt) \<and> 124 \<notin> set (snd qt)"

lemma split_pair_line: "plain_pair kt \<Longrightarrow> split 61 (pair_line kt) = [fst kt, snd kt]"
  by (simp add: split_def pair_line_def plain_pair_def plain_def split_loop_part split_loop_last)

lemma pair_line_nonempty [simp]: "pair_line kt \<noteq> []"
  by (simp add: pair_line_def)

lemma header_types_pairs:
  "\<forall>qt \<in> set types. plain_pair qt \<Longrightarrow> header_types m (map pair_line types) = Some (m ++ map_of (rev types))"
proof (induction types arbitrary: m)
  case (Cons qt types)
  obtain q t where qt: "qt = (q, t)" by (cases qt)
  have p: "plain_pair qt" using Cons.prems by simp
  then have "trim q = q" "trim t = t" by (simp_all add: qt plain_pair_def plain_def)
  then show ?case
    using Cons split_pair_line [OF p] by (simp add: qt Let_def)
qed simp

lemma split_header:
  assumes "types \<noteq> []" and "\<forall>qt \<in> set types. plain_type qt"
  shows "split 124 (join 124 (map pair_line types)) = map pair_line types"
proof (rule split_join_loop)
  show "\<forall>p \<in> set (map pair_line types). 124 \<notin> set p"
    using assms(2) by (auto simp: pair_line_def plain_type_def)
  show "last (map pair_line types) \<noteq> []" using assms(1) by (simp add: last_map)
qed (use assms(1) in simp)

text \<open>The rows of a table are the fold of the puts of their values.\<close>

definition row_values ::
  "float_lib \<Rightarrow> (bytes \<times> bytes) list \<Rightarrow> (bytes \<times> bytes) list \<Rightarrow> (bytes \<times> put_value) list \<Rightarrow> bool" where
  "row_values fl types rows kvs \<longleftrightarrow>
     list_all2 (\<lambda>(key, text) (key', v). key' = key \<and>
       typed_value fl (type_of_key (map_of (rev types)) key) text = Some (Inr v)) rows kvs"

lemma create_rows:
  assumes "list_all2 (\<lambda>(key, text) (key', v). key' = key \<and> typed_value fl (type_of_key m key) text = Some (Inr v)) rows kvs"
    and "\<forall>kt \<in> set rows. plain_pair kt" and "0 < n"
  shows "create_lines H fl n m c (map pair_line rows) =
    map_option (\<lambda>(c', r). (c', and_then r (\<lambda>_. Inr True))) (put_all (put (dd_putInternal H)) c kvs)"
  using assms
proof (induction rows kvs arbitrary: c n rule: list_all2_induct)
  case (Cons kt rows kv kvs)
  obtain key cell v where kt: "kt = (key, cell)" "kv = (key, v)"
    and v: "typed_value fl (type_of_key m key) cell = Some (Inr v)"
    using Cons.hyps(1) by (cases kt; cases kv) auto
  have p: "plain_pair kt" using Cons.prems by simp
  then have t: "trim key = key" "trim cell = cell" by (simp_all add: kt plain_pair_def plain_def)
  show ?case
    using Cons.IH [where n = "n + 1"] Cons.prems(1,2) split_pair_line [OF p]
    by (simp add: kt t v split: option.split sum.split)
qed simp

lemma table_lines_clean: "\<forall>qt \<in> set types. plain_type qt \<Longrightarrow> \<forall>kt \<in> set rows. plain_pair kt \<Longrightarrow>
    \<forall>l \<in> set (table_lines types rows). 10 \<notin> set l"
proof -
  assume a: "\<forall>qt \<in> set types. plain_type qt" "\<forall>kt \<in> set rows. plain_pair kt"
  have "set (join 124 ls) \<subseteq> insert 124 (\<Union> (set ` set ls))" for ls :: "bytes list"
    by (auto simp: join_def split: list.splits)
  from this [of "map pair_line types"] have "10 \<notin> set (join 124 (map pair_line types))"
    using a(1) by (fastforce simp: pair_line_def plain_type_def plain_pair_def plain_def split: if_splits)
  then show ?thesis
    using a(2) by (auto simp: table_lines_def pair_line_def plain_pair_def plain_def)
qed

lemma getlines_lines:
  assumes "\<forall>l \<in> set ls. d \<notin> set l"
  shows "getlines d (concat (map (\<lambda>l. l @ [d]) ls) @ s) = ls @ getlines d s"
  using assms
proof (induction ls)
  case (Cons l ls)
  then have "getlines_loop d [] (l @ d # concat (map (\<lambda>l. l @ [d]) ls) @ s) = l # ls @ getlines d s"
    by (subst getlines_loop_token) (simp_all add: getlines_def)
  then show ?case by (simp add: getlines_def)
qed simp

lemma create_table:
  assumes types: "types \<noteq> []" "\<forall>qt \<in> set types. plain_type qt" and rows: "\<forall>kt \<in> set rows. plain_pair kt"
    and kvs: "row_values fl types rows kvs"
  shows "create_lines H fl 0 Map.empty c (getlines 10 (table_text types rows)) =
    map_option (\<lambda>(c', r). (c', and_then r (\<lambda>_. Inr True))) (put_all (put (dd_putInternal H)) c kvs)"
proof -
  have ne: "join 124 (map pair_line types) \<noteq> []"
    using types(1) by (cases types) (simp_all add: join_def)
  have h: "header_types Map.empty (map pair_line types) = Some (map_of (rev types))"
    using header_types_pairs [of types Map.empty] types(2) by (simp add: plain_type_def)
  show ?thesis
    using create_rows [OF kvs [unfolded row_values_def] rows, of 1]
    by (simp add: table_text_def getlines_concat [OF table_lines_clean [OF types(2) rows]])
      (simp add: table_lines_def ne split_header [OF types] h)
qed

section \<open>Creating a cache and asking it\<close>

text \<open>What has to hold of the options, the file and its data.\<close>

definition creates :: "float_lib \<Rightarrow> files \<Rightarrow> cli_options \<Rightarrow> (bytes \<times> put_value) list \<Rightarrow> bool" where
  "creates fl files result kvs \<longleftrightarrow>
     o_name result \<noteq> [] \<and> o_create result \<noteq> [] \<and> o_output_dir result \<noteq> [] \<and>
     0 < o_slot result \<and> o_slot result < 2 ^ 31 \<and>
     (\<exists>types rows. files (o_create result) = Some (table_text types rows) \<and> types \<noteq> [] \<and>
        (\<forall>qt \<in> set types. plain_type qt) \<and> (\<forall>kt \<in> set rows. plain_pair kt) \<and> row_values fl types rows kvs) \<and>
     (\<forall>kv \<in> set kvs. entry_ok kv) \<and> length kvs \<le> nat (o_slot result) div 2 \<and> total_cost kvs + 16 \<le> 2 ^ 35"

lemma new_cache_takes:
  assumes "0 < o_slot result" and "o_slot result < 2 ^ 31" and ok: "\<forall>kv \<in> set kvs. entry_ok kv"
    and sz: "length kvs \<le> nat (o_slot result) div 2" "total_cost kvs + 16 \<le> 2 ^ 35"
  obtains c0 c where "LinearProbeDedupCache H 35 (of_int (o_slot result)) half
      (MallocMemoryHandler (sr_fresh env) (of_int (o_slot result) * 8)) LINEAR_PROBE_DEDUP_TYPED = Inr c0"
    and "put_all (put (dd_putInternal H)) c0 kvs = Some (c, Inr ())"
    and "dedup_builds H c (add_all Map.empty kvs)"
    and "dedup_space [] (Some LINEAR_PROBE_DEDUP_TYPED) c 0 8"
proof -
  obtain c0 where c0: "LinearProbeDedupCache H 35 (of_int (o_slot result)) half
      (MallocMemoryHandler (sr_fresh env) (of_int (o_slot result) * 8)) LINEAR_PROBE_DEDUP_TYPED = Inr c0"
    and B0: "dedup_builds H c0 Map.empty" "values_kept c0" "dd_values c0 = []"
      "dd_cacheType c0 = Some LINEAR_PROBE_DEDUP_TYPED"
    and sp: "\<And>e s. e \<le> nat (o_slot result) div 2 \<Longrightarrow> s + 8 \<le> 2 ^ 35 \<Longrightarrow> lp_space c0 e s"
    by (rule typed_dedup_new [OF assms(1,2), of H "sr_fresh env" "of_int (o_slot result) * 8"], rule that) assumption+
  have "dedup_space [] (Some LINEAR_PROBE_DEDUP_TYPED) c0 (0 + length kvs) (8 + total_cost kvs)"
    using B0 sz by (simp add: dedup_space_def sp)
  from dedup_sized.put_all_ok [OF B0(1) ok this] show ?thesis using that c0 by blast
qed

lemma createMode_ok:
  assumes "creates fl files result kvs" and junk: "length (sr_junk env) = kMaxCacheNameSize"
  shows "\<exists>files' c. createMode H fl env files result = Some (files', Inr ()) \<and>
    load_dedup H True files' (fullCacheFileName (o_output_dir result) (o_name result)) =
      Inr (c, file_timestamp (fullCacheFileName (o_output_dir result) (o_name result))) \<and>
    dedup_reads H c (add_all Map.empty kvs)"
proof -
  obtain types rows where f: "files (o_create result) = Some (table_text types rows)"
    and types: "types \<noteq> []" "\<forall>qt \<in> set types. plain_type qt" and rows: "\<forall>kt \<in> set rows. plain_pair kt"
    and kvs: "row_values fl types rows kvs"
    using assms(1) by (auto simp: creates_def)
  have o: "o_name result \<noteq> []" "o_create result \<noteq> []" "o_output_dir result \<noteq> []"
    "0 < o_slot result" "o_slot result < 2 ^ 31" and ok: "\<forall>kv \<in> set kvs. entry_ok kv"
    and sz: "length kvs \<le> nat (o_slot result) div 2" "total_cost kvs + 16 \<le> 2 ^ 35"
    using assms(1) by (simp_all add: creates_def)
  obtain c0 c where c0: "LinearProbeDedupCache H 35 (of_int (o_slot result)) half
      (MallocMemoryHandler (sr_fresh env) (of_int (o_slot result) * 8)) LINEAR_PROBE_DEDUP_TYPED = Inr c0"
    and p: "put_all (put (dd_putInternal H)) c0 kvs = Some (c, Inr ())"
    and B: "dedup_builds H c (add_all Map.empty kvs)"
    and s: "dedup_space [] (Some LINEAR_PROBE_DEDUP_TYPED) c 0 8"
    by (rule new_cache_takes [OF o(4,5) ok sz, of H env])
  have k: "values_kept c" "dd_values c = []" "dd_cacheType c = Some LINEAR_PROBE_DEDUP_TYPED" and "data_end c + 8 \<le> mem_limit"
    using s by (auto simp: dedup_space_def lp_space_def)
  then have lim: "data_end c + length (values_block (dd_values c)) \<le> mem_limit" by (simp add: values_block_def)
  obtain files' r where w: "CacheFileWriter_write files (o_output_dir result) (o_name result)
      (hc_access (linear_policy H) LINEAR_PROBE_DEDUP_TYPED c) (dd_output c) (sr_now env) (sr_junk env) = (files', r)"
    by (cases "CacheFileWriter_write files (o_output_dir result) (o_name result)
      (hc_access (linear_policy H) LINEAR_PROBE_DEDUP_TYPED c) (dd_output c) (sr_now env) (sr_junk env)")
  note rt = dedup_file_round_trip [OF B junk k(3) _ k(1) _ _ lim w]
  have "create_lines H fl 0 Map.empty c0 (getlines 10 (table_text types rows)) = Some (c, Inr True)"
    by (simp add: create_table [OF types rows kvs] p)
  then have "createMode H fl env files result = Some (files', r)"
    using o c0 f w k(3) by (simp add: createMode_def half_def [symmetric])
  with rt k(2) show ?thesis by auto
qed

text \<open>A query: the name of a command, the command, a key, and the answer expected for a value.\<close>

definition query_ok ::
  "formats \<Rightarrow> (bytes \<times> put_value) list \<Rightarrow> bytes \<times> command \<times> bytes \<times> bytes \<Rightarrow> bool" where
  "query_ok fmt kvs q \<longleftrightarrow>
     (case q of (name, command, key, reply) \<Rightarrow>
        (name, command) \<in> set key_commands \<and> word_like key \<and>
        (\<exists>v. map_of kvs key = Some v \<and> (command, reply) \<in> set (printed_value fmt v)))"

definition query_text :: "(bytes \<times> command \<times> bytes \<times> bytes) list \<Rightarrow> bytes" where
  "query_text qs = concat (map (\<lambda>l. l @ [10]) (map (\<lambda>(name, command, key, reply). name @ 32 # key) qs))"

lemma queries_answered:
  assumes R: "dedup_reads H c (add_all Map.empty kvs)" and ok: "\<forall>kv \<in> set kvs. entry_ok kv"
    and q: "\<forall>q \<in> set qs. query_ok fmt kvs q"
  shows "parseInputFromStdin fl fmt (dedup_lookup H c) False 1 False (query_text qs) =
    Some (concat (map (\<lambda>(name, command, key, reply). reply) qs), Inr ())"
proof -
  define run where "run = (\<lambda>command key. executeCommand fl fmt (dedup_lookup H c) command key False False)"
  define reply where "reply = (\<lambda>command key. fst (the (run command key)))"
  let ?cmds = "map (\<lambda>(name, command, key, reply). (command, key)) qs"
  have a: "run command key = Some (r, Inr ())" if "(name, command, key, r) \<in> set qs" for name command key r
  proof -
    from that q obtain v where "map_of kvs key = Some v" "(command, r) \<in> set (printed_value fmt v)"
      by (fastforce simp: query_ok_def)
    then show ?thesis
      using dedup_answers [OF R add_all_holds [OF ok]] by (simp add: run_def)
  qed
  have ps: "list_all2 (\<lambda>l cmd. parseLine l = Some cmd)
      (map (\<lambda>(name, command, key, reply). name @ 32 # key) qs) ?cmds"
    using q by (auto simp: list_all2_conv_all_nth query_ok_def parseLine_key_command split: prod.splits dest!: nth_mem)
  have cl: "\<forall>l \<in> set (map (\<lambda>(name, command, key, reply). name @ 32 # key) qs). 10 \<notin> set l"
    using q by (fastforce simp: query_ok_def word_like_def isspace_def dest: word_like_commands)
  have "parseInputFromStdin fl fmt (dedup_lookup H c) False 1 False (query_text qs) =
      Some (concat (replicate (nat 1) (concat (map (\<lambda>(command, key). reply command key) ?cmds))), Inr ())"
    unfolding query_text_def
  proof (rule parseInputFromStdin_replies [OF ps cl])
    fix command key assume "(command, key) \<in> set ?cmds"
    then show "executeCommand fl fmt (dedup_lookup H c) command key False False = Some (reply command key, Inr ())"
      using a by (force simp: reply_def run_def)
  qed
  moreover have "map (\<lambda>(command, key). reply command key) ?cmds = map (\<lambda>(name, command, key, reply). reply) qs"
    using a by (auto simp: reply_def)
  ultimately show ?thesis by (simp only:) simp
qed

section \<open>Properties\<close>




text \<open>\<open>GETBOOL\<close> is never answered.  For every cache and key, whether it holds a truth value or
  not, the command prints nothing but the key where keys are printed: its branch tests for \<open>GET\<close>
  a second time.\<close>

theorem cli_getbool_silent:
  "executeCommand fl fmt vt GETBOOL key quiet printKey = Some (if printKey then key @ [32] else [], Inr ()) \<and>
   (word_like key \<longrightarrow> parseLine (lit ''GETBOOL '' @ key) = Some (GETBOOL, key))"
proof -
  have n: "(lit ''GETBOOL'', GETBOOL) \<in> set key_commands" by (simp add: key_commands_def)
  have s: "lit ''GETBOOL '' @ key = lit ''GETBOOL'' @ 32 # key" by (simp add: lit_def)
  show ?thesis unfolding s using parseLine_key_command [OF n, of key] by simp
qed

theorem cli_getbool_silent_witness: "parseLine (lit ''GETBOOL k'') = Some (GETBOOL, lit ''k'')"
proof -
  have k: "word_like (lit ''k'')" by (simp add: word_like_def lit_def isspace_def)
  have s: "lit ''GETBOOL '' @ lit ''k'' = lit ''GETBOOL k''" by (simp add: lit_def)
  show ?thesis using cli_getbool_silent [of undefined undefined undefined "lit ''k''"] k by (simp only: s simp_thms)
qed

lemma create_lines_bad:
  assumes "list_all2 (\<lambda>(key, text) (key', v). key' = key \<and> typed_value fl (type_of_key m key) text = Some (Inr v)) rows kvs"
    and "\<forall>kt \<in> set rows. plain_pair kt" and "0 < n" and "bad \<noteq> []" and "length (split 61 bad) \<noteq> 2"
    and "put_all (put (dd_putInternal H)) c kvs = Some (c', Inr ())"
  shows "create_lines H fl n m c (map pair_line rows @ bad # rest) = Some (c', Inr False)"
  using assms
proof (induction rows kvs arbitrary: c n rule: list_all2_induct)
  case (Cons kt rows kv kvs)
  obtain key cell v where kt: "kt = (key, cell)" "kv = (key, v)"
    and v: "typed_value fl (type_of_key m key) cell = Some (Inr v)"
    using Cons.hyps(1) by (cases kt; cases kv) auto
  have p: "plain_pair kt" using Cons.prems by simp
  then have t: "trim key = key" "trim cell = cell" by (simp_all add: kt plain_pair_def plain_def)
  show ?case
    using Cons.IH [where n = "n + 1"] Cons.prems split_pair_line [OF p]
    by (auto simp: kt t v split: option.split_asm sum.split_asm)
qed (simp add: Let_def)

text \<open>C23: one line that does not hold exactly one \<open>=\<close> discards the whole file.  After a header and
  any rows that the tool has taken, such a line makes it return: it writes no cache, leaves all
  files as they were, and still ends with code 0.\<close>

theorem create_rejects_line:
  assumes "creates fl files result kvs" and "files (o_create result) = Some (table_text types rows)"
    and "row_values fl types rows kvs"
    and "types \<noteq> []" and "\<forall>qt \<in> set types. plain_type qt" and "\<forall>kt \<in> set rows. plain_pair kt"
    and "bad \<noteq> []" and "10 \<notin> set bad" and "length (split 61 bad) \<noteq> 2"
  shows "createMode H fl env (files(o_create result \<mapsto> table_text types rows @ bad @ [10] @ rest)) result =
    Some (files(o_create result \<mapsto> table_text types rows @ bad @ [10] @ rest), Inr ())"
proof -
  have o: "o_name result \<noteq> []" "o_create result \<noteq> []" "o_output_dir result \<noteq> []"
    "0 < o_slot result" "o_slot result < 2 ^ 31" and ok: "\<forall>kv \<in> set kvs. entry_ok kv"
    and sz: "length kvs \<le> nat (o_slot result) div 2" "total_cost kvs + 16 \<le> 2 ^ 35"
    using assms(1) by (simp_all add: creates_def)
  obtain c0 c where c0: "LinearProbeDedupCache H 35 (of_int (o_slot result)) half
      (MallocMemoryHandler (sr_fresh env) (of_int (o_slot result) * 8)) LINEAR_PROBE_DEDUP_TYPED = Inr c0"
    and p: "put_all (put (dd_putInternal H)) c0 kvs = Some (c, Inr ())"
    by (rule new_cache_takes [OF o(4,5) ok sz, of H env])
  have lines: "getlines 10 (table_text types rows @ bad @ [10] @ rest) = table_lines types rows @ bad # getlines 10 rest"
    using getlines_lines [of "table_lines types rows @ [bad]" 10 rest] table_lines_clean [OF assms(5,6)] assms(8)
    by (simp add: table_text_def)
  have ne: "join 124 (map pair_line types) \<noteq> []"
    using assms(4) by (cases types) (simp_all add: join_def)
  have h: "header_types Map.empty (map pair_line types) = Some (map_of (rev types))"
    using header_types_pairs [of types Map.empty] assms(5) by (simp add: plain_type_def)
  have "create_lines H fl 0 Map.empty c0 (table_lines types rows @ bad # getlines 10 rest) = Some (c, Inr False)"
    using create_lines_bad [OF assms(3) [unfolded row_values_def] assms(6) _ assms(7,9) p, of 1]
    by (simp add: table_lines_def ne split_header [OF assms(4,5)] h)
  then show ?thesis
    using o c0 lines by (simp add: createMode_def half_def [symmetric])
qed

text \<open>A small example: \<open>5=Int64\<close> and \<open>5.k=7\<close>.\<close>

definition small_create :: cli_options where
  "small_create =
     \<lparr>o_abspath = [], o_input = [], o_load = [], o_latest = False, o_name = lit ''n'', o_output_dir = lit ''d'',
      o_load_dir = lit ''d'', o_type = lit ''1'', o_repeat = 1, o_quiet = False, o_print_key = False,
      o_create = lit ''t'', o_slot = 10, o_help = False, o_version = False,
      o_count = (\<lambda>opt. if opt = ''create'' then 1 else 0)\<rparr>"

definition small_query :: cli_options where
  "small_query = small_create\<lparr>o_abspath := lit ''d/n.cache'', o_count := (\<lambda>opt. if opt = ''abspath'' then 1 else 0)\<rparr>"

definition small_table :: bytes where "small_table = lit ''5=Int64'' @ [10] @ lit ''5.k=7'' @ [10]"

lemma small_table_text: "small_table = table_text [(lit ''5'', lit ''Int64'')] [(lit ''5.k'', lit ''7'')]"
  by (simp add: small_table_def table_text_def table_lines_def pair_line_def join_def lit_def)

lemma small_plain: "plain_type (lit ''5'', lit ''Int64'')" "plain_pair (lit ''5.k'', lit ''7'')"
  by (simp_all add: plain_type_def plain_pair_def plain_def lit_def trim_def kWhitespaces_def Let_def
      find_first_not_of_def find_last_not_of_def)

lemma small_values:
  "row_values fl [(lit ''5'', lit ''Int64'')] [(lit ''5.k'', lit ''7'')] [(lit ''5.k'', Put_Int64 7)]"
  by (simp add: row_values_def type_of_key_def typed_value_def lit_def toLong_def from_chars_def is_digit_def)

lemma small_creates: "creates fl [lit ''t'' \<mapsto> small_table] small_create [(lit ''5.k'', Put_Int64 7)]"
proof -
  have "entry_ok (lit ''5.k'', Put_Int64 7)" "total_cost [(lit ''5.k'', Put_Int64 7)] + 16 \<le> 2 ^ 35"
    using scalar_lengths(2) [of 7]
    by (simp_all add: entry_ok_def entry_cost_def kKeyLength_def kValueLength_def)
  moreover have "\<exists>types rows. small_table = table_text types rows \<and> types \<noteq> [] \<and>
      (\<forall>qt \<in> set types. plain_type qt) \<and> (\<forall>kt \<in> set rows. plain_pair kt) \<and>
      row_values fl types rows [(lit ''5.k'', Put_Int64 7)]"
    by (rule exI [of _ "[(lit ''5'', lit ''Int64'')]"], rule exI [of _ "[(lit ''5.k'', lit ''7'')]"])
      (simp add: small_table_text small_plain small_values)
  moreover have "lit s \<noteq> []" if "s \<noteq> []" for s using that by (simp add: lit_def)
  ultimately show ?thesis by (simp add: creates_def small_create_def)
qed


theorem create_rejects_line_witness:
  "\<forall>H fl env. createMode H fl env [lit ''t'' \<mapsto> small_table @ lit ''5.l=a=b'' @ [10]] small_create =
     Some ([lit ''t'' \<mapsto> small_table @ lit ''5.l=a=b'' @ [10]], Inr ())"
proof (intro allI)
  fix H fl env
  have t: "o_create small_create = lit ''t''" by (simp add: small_create_def)
  have bad: "lit ''5.l=a=b'' \<noteq> []" "10 \<notin> set (lit ''5.l=a=b'')" "length (split 61 (lit ''5.l=a=b'')) \<noteq> 2"
    by (simp_all add: lit_def split_def)
  show "createMode H fl env [lit ''t'' \<mapsto> small_table @ lit ''5.l=a=b'' @ [10]] small_create =
     Some ([lit ''t'' \<mapsto> small_table @ lit ''5.l=a=b'' @ [10]], Inr ())"
    using create_rejects_line [OF small_creates [of fl] _ small_values [of fl] _ _ _ bad, of H env "[]"]
    by (simp add: t small_table_text small_plain)
qed

end
