(* ===== verification/Api_Round_Trip.thy ===== *)
theory Api_Round_Trip
  imports Writer_Api Command_Line
begin

text \<open>
  The two C interfaces together: what a writer handle is given and saves, a reader handle
  answers.  The bindings for other languages rest on these lemmas.
\<close>

section \<open>Answers of a handle over a dedup cache\<close>

definition serves_dedup :: "reader \<Rightarrow> dedup_cache \<Rightarrow> bool" where
  "serves_dedup h c \<longleftrightarrow> dedup_type (rd_type h) \<and> rd_dedup h = Some c"

text \<open>The results for a key that holds a value, and for a key that is absent.\<close>

definition handle_gives :: "float_lib \<Rightarrow> (bytes \<Rightarrow> u64) \<Rightarrow> reader \<Rightarrow> bytes \<Rightarrow> put_value \<Rightarrow> bool" where
  "handle_gives fl H h key value \<longleftrightarrow>
     containsKey H h (Some key) = returns 1 \<and>
     (case value of
        Put_String s \<Rightarrow> getKey H h (Some key) = returns (let (p, n) = convertToPointer s in (p, 1, n))
      | Put_List ss \<Rightarrow> reader_getVector H h (Some key) = returns (convertToPointer_list ss)
      | Put_Bool b \<Rightarrow> (\<forall>d. reader_getBool H h (Some key) d = returns (flag b, 1))
      | Put_Int64 x \<Rightarrow> (\<forall>d. getLong H h (Some key) d = returns (x, 1)) \<and>
                       (\<forall>d. getInteger H h (Some key) d = returns (ucast x, 1))
      | Put_Double x \<Rightarrow> (\<forall>d. reader_getDouble fl H h (Some key) d = returns (x, 1))
      | Put_Floats xs \<Rightarrow> reader_getFloatVector H h (Some key) = returns (convertToPointer_floats xs))"

definition handle_gives_nothing :: "float_lib \<Rightarrow> (bytes \<Rightarrow> u64) \<Rightarrow> reader \<Rightarrow> bytes \<Rightarrow> bool" where
  "handle_gives_nothing fl H h key \<longleftrightarrow>
     containsKey H h (Some key) = returns 0 \<and> getKey H h (Some key) = returns (None, 0, 0) \<and>
     reader_getKeyType H h (Some key) = returns (None, 0) \<and>
     (\<forall>d. reader_getBool H h (Some key) d = returns (flag (d \<noteq> 0), 0)) \<and>
     (\<forall>d. getInteger H h (Some key) d = returns (d, 0)) \<and> (\<forall>d. getLong H h (Some key) d = returns (d, 0)) \<and>
     (\<forall>d. reader_getDouble fl H h (Some key) d = returns (d, 0)) \<and>
     reader_getVector H h (Some key) = returns (None, 0, None) \<and>
     reader_getFloatVector H h (Some key) = returns (None, 0) \<and>
     getVectorKeySize H h (Some key) = returns 0 \<and> (\<forall>i. 0 \<le> sint i \<longrightarrow> getVectorKeyItem H h (Some key) i = returns (None, 0))"

lemma serves_dedup_calls:
  assumes "serves_dedup h c"
  shows "reader_lookup H h = Selected (dedup_lookup H c)" and "select_cache f g k h = Selected (g c)"
  using assms by (auto simp: serves_dedup_def dedup_type_def reader_lookup_def select_probe_def select_cache_def from_cache_def)

lemma dedup_contains:
  assumes "dedup_reads H c M"
  shows "hc_contains (linear_policy H) c key = Some (Inr (M key \<noteq> None, found_hash H key (M key \<noteq> None)))"
  using linear_contains [OF assms [unfolded dedup_reads_def]] by (auto simp: found_hash_def)

lemma dedup_span_absent:
  "dedup_reads H c M \<Longrightarrow> M key = None \<Longrightarrow> getFloatSpan (dedup_lookup H c) key = Some (Inr ([], found_hash H key False))"
  by (simp add: getFloatSpan_def dedup.typed_law)

lemmas reader_call_defs = containsKey_def getKey_def reader_getVector_def reader_getBool_def getLong_def getInteger_def
  reader_getDouble_def reader_getFloatVector_def reader_getKeyType_def getVectorKeySize_def getVectorKeyItem_def

lemma scast_ucast_int [simp]: "(ucast (scast (d :: u32) :: u64) :: u32) = d"
  by (rule bit_word_eqI) (simp add: bit_ucast_iff bit_signed_iff)

lemma handle_gives_ok:
  assumes h: "serves_dedup h c" and R: "dedup_reads H c M" and v: "holds_value M key value"
  shows "handle_gives fl H h key value"
proof -
  have "M key \<noteq> None" using v by (auto simp: holds_value_def)
  then show ?thesis
    using dedup.holds_reads_back [OF R v, unfolded reads_back_def, of fl] dedup_contains [OF R, of key]
    by (cases "value")
      (auto simp: handle_gives_def reader_call_defs serves_dedup_calls [OF h] dd_getString_eq returns_def flag_def
        split: prod.split)
qed

lemma handle_gives_nothing_ok:
  assumes h: "serves_dedup h c" and R: "dedup_reads H c M" and m: "M key = None"
  shows "handle_gives_nothing fl H h key"
  using dedup.typed_absent [OF R m] dedup.getString_absent [OF R m] dedup.getVector_absent [OF R m]
    dedup_contains [OF R, of key] dedup_span_absent [OF R m]
  by (simp add: handle_gives_nothing_def reader_call_defs serves_dedup_calls [OF h] dd_getString_eq returns_def flag_def
      m convertToPointer_def convertToPointer_list_def convertToPointer_floats_def lit_def)


text \<open>Sizes of values within the limits fit the results.\<close>

lemma entry_sizes:
  assumes "entry_ok (key, value)"
  shows "case value of
      Put_String s \<Rightarrow> length s < 2 ^ 31
    | Put_List ss \<Rightarrow> length ss < 2 ^ 31 \<and> (\<forall>s \<in> set ss. length s < 2 ^ 31)
    | Put_Floats xs \<Rightarrow> length xs < 2 ^ 31
    | _ \<Rightarrow> True"
proof (cases "value")
  case (Put_List ss)
  with assms have "\<exists>e. encode_list ss = Inr e" by (auto simp: entry_ok_def)
  then have "length ss \<le> kVectorLength" "\<forall>s \<in> set ss. length s \<le> kVectorElementLength"
    using encode_list_total [of ss] by auto
  then show ?thesis by (auto simp: Put_List kVectorLength_def kVectorElementLength_def)
next
  case (Put_Floats xs)
  have "length (floats_to_string xs) = 4 * length xs"
    by (induction xs) (simp_all add: floats_to_string_def float_to_string_def)
  with assms show ?thesis by (simp add: Put_Floats entry_ok_def kValueLength_def)
qed (use assms in \<open>auto simp: entry_ok_def kValueLength_def nul_terminate_def\<close>)

section \<open>A writer handle that fills a dedup cache\<close>

text \<open>
  What an insertion means: a key that starts with the vector flag holds the sorted parts of its
  value, any other key the value of its type.
\<close>

definition inserted_as :: "float_lib \<Rightarrow> bytes \<times> bytes \<times> int \<Rightarrow> bytes \<times> put_value \<Rightarrow> bool" where
  "inserted_as fl i kv \<longleftrightarrow>
     (case i of (key, val, type) \<Rightarrow>
        if key \<noteq> [] \<and> hd key = kValueVectorFlag
        then kv = (drop 1 key, Put_List (let vs = sort (splitStringView 124 val)
                                         in if type = kStringNoNullType then map c_string vs else vs))
        else fst kv = key \<and> scalar_value fl val type = Inr (CacheValue (snd kv)))"

definition fills :: "writer \<Rightarrow> bytes \<Rightarrow> bytes \<Rightarrow> dedup_cache \<Rightarrow> bool" where
  "fills h dir name c \<longleftrightarrow>
     (\<exists>b. wr_builder h = Some b \<and> fb_cache b = Any_Dedup c \<and> fb_outputDirectory b = dir \<and> fb_cacheName b = name)"

text \<open>\<open>insertKey\<close> of a key, and \<open>insertScalarKey\<close> of an empty one, which some callers reach.\<close>

lemma insert_ok:
  assumes f: "fills h dir name c" and i: "inserted_as fl (key, val, type) (key', v)"
    and p: "put (dd_putInternal H) c key' v = Some (c', Inr (inserted, n))"
  shows "\<exists>h'. (if key = [] then insertScalarKey H fl h key val type else insertKey H fl h key val type) =
      Some (h', Inr 0) \<and> fills h' dir name c'"
proof -
  obtain b where h: "wr_builder h = Some b" "fb_cache b = Any_Dedup c"
    and b: "fb_outputDirectory b = dir" "fb_cacheName b = name"
    using f by (auto simp: fills_def)
  have "any_put H (fb_cache b) key' v = Some (Any_Dedup c', Inr (inserted, n))" by (simp add: h p)
  note t = insert_value_taken [OF h(1) this]
  let ?h = "h\<lparr>wr_builder := Some (b\<lparr>fb_cache := Any_Dedup c'\<rparr>), wr_collisions := count_collision (ucast n) (wr_collisions h)\<rparr>"
  have "(if key = [] then insertScalarKey H fl h key val type else insertKey H fl h key val type) = Some (?h, Inr 0)"
    using i t by (auto simp: inserted_as_def insertKey_def insertScalarKey_def insertVectorKey_def Let_def split: if_splits)
  then show ?thesis using b by (simp add: fills_def)
qed

text \<open>A program that inserts one key after the other, by a method of a binding or of the interface.\<close>

fun insert_all :: "('w \<Rightarrow> 'i \<Rightarrow> ('w \<times> ('e + 'r)) option) \<Rightarrow> 'w \<Rightarrow> 'i list \<Rightarrow> ('w \<times> ('e + unit)) option" where
  "insert_all ins w [] = Some (w, Inr ())"
| "insert_all ins w (i # rest) =
     (case ins w i of
        None \<Rightarrow> None
      | Some (w', Inl e) \<Rightarrow> Some (w', Inl e)
      | Some (w', Inr _) \<Rightarrow> insert_all ins w' rest)"

text \<open>
  \<open>put_all\<close> lifted to a program of insertions: \<open>R w c\<close> holds between the object and the cache,
  and \<open>as i kv\<close> between an insertion and its meaning.
\<close>

lemma insert_all_ok:
  assumes step: "\<And>w c i key v c' inserted n. R w c \<Longrightarrow> as i (key, v) \<Longrightarrow>
      put (dd_putInternal H) c key v = Some (c', Inr (inserted, n)) \<Longrightarrow>
      \<exists>w' r. ins w i = Some (w', Inr r) \<and> R w' c'"
    and "list_all2 as is kvs" and "R w c" and "put_all (put (dd_putInternal H)) c kvs = Some (c', Inr ())"
  shows "\<exists>w'. insert_all ins w is = Some (w', Inr ()) \<and> R w' c'"
  using assms(2-4)
proof (induction "is" kvs arbitrary: w c rule: list_all2_induct)
  case (Cons i is' kv kvs)
  obtain key v where s: "kv = (key, v)" by (cases kv)
  obtain c1 inserted n where p: "put (dd_putInternal H) c key v = Some (c1, Inr (inserted, n))"
    and rest: "put_all (put (dd_putInternal H)) c1 kvs = Some (c', Inr ())"
    using Cons.prems(2) by (auto simp: s split: option.splits sum.splits)
  from step [OF Cons.prems(1) Cons.hyps(1) [unfolded s] p] obtain w1 r where
    "ins w i = Some (w1, Inr r)" "R w1 c1" by blast
  with Cons.IH [OF _ rest] show ?case by simp
qed simp

section \<open>From settings to a file\<close>

text \<open>Settings under which a new writer fills a dedup cache, half of whose slots can be used.\<close>

definition dedup_settings :: "u64 float_parser \<Rightarrow> files \<Rightarrow> bytes \<Rightarrow> bytes \<Rightarrow> bytes \<Rightarrow> bytes \<Rightarrow> bool" where
  "dedup_settings ff files settings_location task dir name \<longleftrightarrow>
     (let o' = setOptionsFromProperties ff (SharedSettingsProvider
                 (case files settings_location of None \<Rightarrow> [] | Some content \<Rightarrow> content)) task
      in co_offsetBits o' = 35 \<and> co_cacheType o' = 5 \<and> co_maxLoadFactor o' = half \<and>
         co_destinationFolder o' = dir \<and> co_cacheNameNoExt o' = name)"

text \<open>The data a writer with \<open>k\<close> slots takes.\<close>

definition fits :: "u64 \<Rightarrow> (bytes \<times> put_value) list \<Rightarrow> bool" where
  "fits k kvs \<longleftrightarrow> 0 < unat k \<and> unat k < 2 ^ 31 \<and> (\<forall>kv \<in> set kvs. entry_ok kv) \<and>
     length kvs \<le> unat k div 2 \<and> total_cost kvs + 16 \<le> 2 ^ 35"

lemma initializeWriter_ok:
  assumes st: "dedup_settings ff files settings_location task dir name" and fit: "fits k kvs"
  obtains h c c' where
    "initializeWriter H ff fresh files task settings_location k (NewCacheWriterHandle info) = (h, Inr 0)"
    and "fills h dir name c" and "put_all (put (dd_putInternal H)) c kvs = Some (c', Inr ())"
    and "dedup_builds H c' (add_all Map.empty kvs)"
    and "dedup_space [] (Some LINEAR_PROBE_DEDUP_TYPED) c' 0 8"
proof -
  have k: "0 < unat k" "unat k < 2 ^ 31" and ok: "\<forall>kv \<in> set kvs. entry_ok kv"
    and sz: "length kvs \<le> unat k div 2" "total_cost kvs + 16 \<le> 2 ^ 35"
    using fit by (simp_all add: fits_def)
  have "unat k < nat (2 ^ 31)" using k(2) by simp
  then have ki: "0 < int (unat k)" "int (unat k) < 2 ^ 31" and kk: "of_int (int (unat k)) = k"
    using k(1) by (simp only: of_nat_0_less_iff, simp only: zless_nat_conj zless_nat_eq_int_zless, simp)
  obtain c where c: "LinearProbeDedupCache H 35 k half (MallocMemoryHandler fresh kMemoryCapcityBytes)
      LINEAR_PROBE_DEDUP_TYPED = Inr c"
    and B: "dedup_builds H c Map.empty" "values_kept c" "dd_values c = []"
      "dd_cacheType c = Some LINEAR_PROBE_DEDUP_TYPED"
    and sp: "\<And>e s. e \<le> unat k div 2 \<Longrightarrow> s + 8 \<le> 2 ^ 35 \<Longrightarrow> lp_space c e s"
    using typed_dedup_new [OF ki, of H fresh kMemoryCapcityBytes] unfolding kk nat_int by metis
  have "dedup_space [] (Some LINEAR_PROBE_DEDUP_TYPED) c (0 + length kvs) (8 + total_cost kvs)"
    using B sz by (simp add: dedup_space_def sp)
  from dedup_sized.put_all_ok [OF B(1) ok this] obtain c' where
    p: "put_all (put (dd_putInternal H)) c kvs = Some (c', Inr ())"
    "dedup_builds H c' (add_all Map.empty kvs)" "dedup_space [] (Some LINEAR_PROBE_DEDUP_TYPED) c' 0 8" by blast
  obtain h where i: "initializeWriter H ff fresh files task settings_location k (NewCacheWriterHandle info) = (h, Inr 0)"
    and h: "\<exists>b. wr_builder h = Some b \<and> fb_cache b = Any_Dedup c \<and> fb_outputDirectory b = dir \<and> fb_cacheName b = name"
    using st c by (auto simp: initializeWriter_def dedup_settings_def Let_def createCache_def CacheType_of_def
        CacheFileBuilder_def constant_defs)
  then have "fills h dir name c" by (simp add: fills_def)
  from that [OF i this p] show ?thesis .
qed

lemma finishCacheCreation_ok:
  assumes f: "fills h dir name c" and B: "dedup_builds H c M"
    and s: "dedup_space [] (Some LINEAR_PROBE_DEDUP_TYPED) c 0 8" and junk: "length junk = kMaxCacheNameSize"
  obtains h' files' c' where "finishCacheCreation H now junk files h = (h', files', Inr 0)"
    and "\<And>p. p \<noteq> fullCacheFileName dir name \<Longrightarrow> files' p = files p"
    and "load_dedup H True files' (fullCacheFileName dir name) = Inr (c', file_timestamp (fullCacheFileName dir name))"
    and "dedup_reads H c' M" and "has_type files' (fullCacheFileName dir name) LINEAR_PROBE_DEDUP_TYPED"
proof -
  obtain b where h: "wr_builder h = Some b" "fb_cache b = Any_Dedup c"
    and b: "fb_outputDirectory b = dir" "fb_cacheName b = name"
    using f by (auto simp: fills_def)
  have k: "values_kept c" "dd_values c = []" "dd_cacheType c = Some LINEAR_PROBE_DEDUP_TYPED" and "data_end c + 8 \<le> mem_limit"
    using s by (auto simp: dedup_space_def lp_space_def)
  then have lim: "data_end c + length (values_block (dd_values c)) \<le> mem_limit" by (simp add: values_block_def)
  obtain files' r where wr: "CacheFileWriter_write files dir name
      (hc_access (linear_policy H) LINEAR_PROBE_DEDUP_TYPED c) (dd_output c) now junk = (files', r)"
    by (cases "CacheFileWriter_write files dir name
      (hc_access (linear_policy H) LINEAR_PROBE_DEDUP_TYPED c) (dd_output c) now junk")
  note rt = dedup_file_round_trip [OF B junk k(3) _ k(1) _ _ lim wr]
  have r: "r = Inr ()" using rt(1) k(2) by simp
  obtain c' where c': "load_dedup H True files' (fullCacheFileName dir name) = Inr (c', file_timestamp (fullCacheFileName dir name))"
    "dedup_reads H c' M"
    using rt(2) k(2) by auto
  have ty: "has_type files' (fullCacheFileName dir name) LINEAR_PROBE_DEDUP_TYPED"
    using written_has_type [OF junk wr] by (simp add: hc_access_def)
  have o: "files' p = files p" if "p \<noteq> fullCacheFileName dir name" for p
    using wr that by (auto simp: CacheFileWriter_write_def Let_def split: prod.splits)
  have "save H now junk files b = (files', Inr ())"
    using wr r by (simp add: save_def h b k(3))
  then obtain h' where "finishCacheCreation H now junk files h = (h', files', Inr 0)"
    by (auto simp: finishCacheCreation_def h Let_def)
  from that [OF this o c' ty] show ?thesis .
qed

section \<open>From a file to a handle\<close>

lemma initializeReader_dedup:
  assumes "has_type files (reader_path task folder timestamp) LINEAR_PROBE_DEDUP_TYPED"
    and "load_dedup H os_ok files (reader_path task folder timestamp) = Inr (c, ts)"
  shows "\<exists>h'. initializeReader H os_ok files task folder timestamp h = (h', Inr 0) \<and> serves_dedup h' c"
  using assms by (auto simp: has_type_def initializeReader_def store_loaded_def Let_def serves_dedup_def dedup_type_def)

text \<open>A file that is renamed keeps its type and its content.\<close>

lemma load_dedup_moved:
  "load_dedup H os_ok files path = Inr (c, ts) \<Longrightarrow> files' path' = files path \<Longrightarrow>
     load_dedup H os_ok files' path' = Inr (c, file_timestamp path')"
  by (auto simp: load_dedup_def loadAbsolutePath_def loadHeader_def and_then_Inr_iff split: option.splits if_splits)

lemma has_type_moved: "has_type files path ty \<Longrightarrow> files' path' = files path \<Longrightarrow> has_type files' path' ty"
  by (simp add: has_type_def)

lemma timestamp_clean: "0 \<le> n \<Longrightarrow> 0 \<notin> set (lit (show_int n))"
  using show_nat_digits [of "nat n"] by (auto simp: show_int_def is_digit_def)

lemma c_string_clean: "0 \<notin> set s \<Longrightarrow> c_string s = s"
  by (auto simp: c_string_def takeWhile_eq_all_conv)

lemma map_of_answers:
  assumes h: "serves_dedup h c" and R: "dedup_reads H c (add_all Map.empty kvs)" and ok: "\<forall>kv \<in> set kvs. entry_ok kv"
  shows "map_of kvs key = Some v \<Longrightarrow> handle_gives fl H h key v \<and> entry_ok (key, v)"
    and "map_of kvs key = None \<Longrightarrow> handle_gives_nothing fl H h key"
proof -
  show "handle_gives fl H h key v \<and> entry_ok (key, v)" if m: "map_of kvs key = Some v"
    using handle_gives_ok [OF h R add_all_holds [OF ok _ m]] m ok by (auto dest: map_of_SomeD)
  show "handle_gives_nothing fl H h key" if "map_of kvs key = None"
    by (rule handle_gives_nothing_ok [OF h R add_all_other [OF _ that]]) simp
qed


section \<open>The interfaces together\<close>

text \<open>A caller of the C interface that stops at the first code other than 0.\<close>

definition checked_insert ::
  "(bytes \<Rightarrow> u64) \<Rightarrow> float_lib \<Rightarrow> writer \<Rightarrow> bytes \<times> bytes \<times> int \<Rightarrow> (writer \<times> unit outcome) option" where
  "checked_insert H fl h i =
     (case i of (key, val, type) \<Rightarrow>
        map_option (map_prod id (\<lambda>r. and_then r (\<lambda>code. if code = 0 then Inr () else Inl (Throw ''refused''))))
          (insertKey H fl h key val type))"

lemma checked_insert_ok:
  assumes "fills h dir name c" and "fst i \<noteq> [] \<and> inserted_as fl i (key, v)"
    and "put (dd_putInternal H) c key v = Some (c', Inr (inserted, n))"
  shows "\<exists>h' r. checked_insert H fl h i = Some (h', Inr r) \<and> fills h' dir name c'"
proof -
  obtain k w t where i: "i = (k, w, t)" by (cases i)
  from insert_ok [OF assms(1) _ assms(3), of fl k w t] assms(2) show ?thesis
    by (auto simp: i checked_insert_def)
qed

text \<open>C8: from one C interface to the other.  With settings for a dedup cache, a new writer handle takes
  any sequence of keys and typed values that fits its slots, with code 0 for each, and writes the
  cache file with code 0.  A reader handle initialised for that file, whatever it held before,
  answers every inserted key with its first value by the call for its type, and every other key
  as absent in every call.\<close>

theorem capi_write_then_read:
  assumes "dedup_settings ff files settings_location task dir name" and "fits k kvs"
    and "list_all2 (\<lambda>i kv. fst i \<noteq> [] \<and> inserted_as fl i kv) ins kvs"
    and "length junk = kMaxCacheNameSize"
    and "reader_path task' dir' timestamp = fullCacheFileName dir name"
  shows "\<exists>h h' h'' files' r'.
    initializeWriter H ff fresh files task settings_location k (NewCacheWriterHandle info) = (h, Inr 0) \<and>
    insert_all (checked_insert H fl) h ins = Some (h', Inr ()) \<and>
    finishCacheCreation H now junk files h' = (h'', files', Inr 0) \<and>
    initializeReader H True files' task' dir' timestamp r = (r', Inr 0) \<and>
    (\<forall>key v. map_of kvs key = Some v \<longrightarrow> handle_gives fl H r' key v) \<and>
    (\<forall>key. map_of kvs key = None \<longrightarrow> handle_gives_nothing fl H r' key)"
proof -
  obtain h c c1 where h: "initializeWriter H ff fresh files task settings_location k (NewCacheWriterHandle info) = (h, Inr 0)"
    "fills h dir name c" and p: "put_all (put (dd_putInternal H)) c kvs = Some (c1, Inr ())"
    "dedup_builds H c1 (add_all Map.empty kvs)" "dedup_space [] (Some LINEAR_PROBE_DEDUP_TYPED) c1 0 8"
    by (rule initializeWriter_ok [OF assms(1,2), where H = H and fresh = fresh and info = info], rule that) assumption+
  obtain h' where h': "insert_all (checked_insert H fl) h ins = Some (h', Inr ())" "fills h' dir name c1"
  proof -
    have "\<exists>h'. insert_all (checked_insert H fl) h ins = Some (h', Inr ()) \<and> fills h' dir name c1"
      by (rule insert_all_ok [where R = "\<lambda>h c. fills h dir name c", OF _ assms(3) h(2) p(1)]) (rule checked_insert_ok)
    then show ?thesis using that by blast
  qed
  obtain h'' files' c' where f: "finishCacheCreation H now junk files h' = (h'', files', Inr 0)"
    and "\<And>p. p \<noteq> fullCacheFileName dir name \<Longrightarrow> files' p = files p"
    and ld: "load_dedup H True files' (fullCacheFileName dir name) = Inr (c', file_timestamp (fullCacheFileName dir name))"
    and R: "dedup_reads H c' (add_all Map.empty kvs)"
    and ty: "has_type files' (fullCacheFileName dir name) LINEAR_PROBE_DEDUP_TYPED"
    by (rule finishCacheCreation_ok [OF h'(2) p(2,3) assms(4), where now = now and files = files], rule that) assumption+
  obtain r' where r: "initializeReader H True files' task' dir' timestamp r = (r', Inr 0)" "serves_dedup r' c'"
    using initializeReader_dedup [of files' task' dir' timestamp, unfolded assms(5), OF ty ld] by blast
  have "\<forall>kv \<in> set kvs. entry_ok kv" using assms(2) by (simp add: fits_def)
  note a = map_of_answers [OF r(2) R this]
  show ?thesis using h(1) h'(1) f r(1) a by blast
qed

section \<open>A small program\<close>

definition small_settings :: files where
  "small_settings = [lit ''s'' \<mapsto> lit ''ccache.destination_folder=.'' @ [10],
                     lit ''s2'' \<mapsto> lit ''ccache.destination_folder=d'' @ [10]]"

lemma small_provider:
  assumes "dir = lit ''.'' \<or> dir = lit ''d''"
  shows "SharedSettingsProvider (lit ''ccache.destination_folder='' @ dir @ [10]) = [lit ''ccache.destination_folder'' \<mapsto> dir]"
proof -
  let ?l = "lit ''ccache.destination_folder'' @ 61 # dir"
  have "getlines 10 (concat (map (\<lambda>l. l @ [10]) [?l])) = [?l]"
    by (rule getlines_concat) (use assms in \<open>auto simp: lit_def\<close>)
  moreover have "settings_line Map.empty ?l = Map.empty(trim (lit ''ccache.destination_folder'') \<mapsto> trim dir)"
    by (rule settings_line_pair) (auto simp: lit_def)
  moreover have "trim (lit ''ccache.destination_folder'') = lit ''ccache.destination_folder''" "trim dir = dir"
    using assms by (auto simp: trim_strip strip_def lit_def isspace_def)
  ultimately show ?thesis by (simp add: SharedSettingsProvider_def lit_def)
qed

lemma small_dedup_settings:
  assumes "(task, name) \<in> {(''t'', ''t''), (''n.17.e'', ''n.17'')}"
  shows "dedup_settings ff small_settings (lit ''s'') (lit task) (lit ''.'') (lit name)"
    and "dedup_settings ff small_settings (lit ''s2'') (lit task) (lit ''d'') (lit name)"
proof -
  have d: "dedup_settings ff small_settings (lit s) (lit task) (lit dir) (lit name)"
    if "(s, dir) \<in> {(''s'', ''.''), (''s2'', ''d'')}" for s dir
  proof -
    have f: "small_settings (lit s) = Some (lit ''ccache.destination_folder='' @ lit dir @ [10])"
      using that by (auto simp: small_settings_def lit_def)
    have p: "SharedSettingsProvider (lit ''ccache.destination_folder='' @ lit dir @ [10]) =
        [lit ''ccache.destination_folder'' \<mapsto> lit dir]"
      by (rule small_provider) (use that in auto)
    have n: "strip_extension (c_string (lit task)) = lit name"
      using assms by (auto simp: strip_extension_def c_string_def lit_def)
    have k: "c_string (lit ''ccache.destination_folder'') = lit ''ccache.destination_folder''"
      "c_string (lit ''ccache.mmap_file'') \<noteq> lit ''ccache.destination_folder''"
      "c_string (lit ''ccache.max_load_factor'') \<noteq> lit ''ccache.destination_folder''"
      "c_string (lit ''ccache.type'') \<noteq> lit ''ccache.destination_folder''"
      "c_string (lit ''ccache.offset.bits'') \<noteq> lit ''ccache.destination_folder''"
      by (simp_all add: lit_def c_string_def)
    show ?thesis
      by (simp add: dedup_settings_def f p setOptionsFromProperties_def Let_def set_getString_def set_getInt_def
          set_getDouble_def kMaxLoadFactor_default_def half_def n k)
  qed
  show "dedup_settings ff small_settings (lit ''s'') (lit task) (lit ''.'') (lit name)"
    "dedup_settings ff small_settings (lit ''s2'') (lit task) (lit ''d'') (lit name)"
    by (rule d, simp)+
qed

lemma small_fits: "fits 8 [(lit ''k'', Put_String (lit ''v''))]"
  using small_entry_ok small_cost by (simp add: fits_def)

lemma small_inserted:
  "list_all2 (inserted_as fl) [(lit ''k'', lit ''v'', 0)] [(lit ''k'', Put_String (lit ''v''))]"
  by (simp add: inserted_as_def scalar_value_def kValueVectorFlag_def lit_def)

lemma small_junk: "length (replicate 32 (0 :: byte)) = kMaxCacheNameSize"
  by (simp add: kMaxCacheNameSize_def)

theorem capi_write_then_read_witness:
  "\<forall>H fl ff fresh info. \<exists>h h' h'' files' r'.
    initializeWriter H ff fresh small_settings (lit ''n.17.e'') (lit ''s2'') 8 (NewCacheWriterHandle info) = (h, Inr 0) \<and>
    insert_all (checked_insert H fl) h [(lit ''k'', lit ''v'', 0)] = Some (h', Inr ()) \<and>
    finishCacheCreation H 0 (replicate 32 0) small_settings h' = (h'', files', Inr 0) \<and>
    initializeReader H True files' (lit ''n.x'') (lit ''d'') (lit ''17'') NewCacheReaderHandle = (r', Inr 0) \<and>
    getKey H r' (Some (lit ''k'')) = returns (Some [118, 0], 1, 1) \<and>
    getKey H r' (Some (lit ''x'')) = returns (None, 0, 0)"
proof (intro allI)
  fix H :: "bytes \<Rightarrow> u64" and fl :: float_lib and ff :: "u64 float_parser" and fresh :: "nat \<Rightarrow> nat \<Rightarrow> byte" and info :: cache_info
  let ?kvs = "[(lit ''k'', Put_String (lit ''v''))]" and ?ins = "[(lit ''k'', lit ''v'', 0)]"
  have path: "reader_path (lit ''n.x'') (lit ''d'') (lit ''17'') = fullCacheFileName (lit ''d'') (lit ''n.17'')"
    by (simp add: reader_path_def strip_extension_def fullCacheFileName_def kCacheFileNameSuffix_def lit_def)
  have ins: "list_all2 (\<lambda>i kv. fst i \<noteq> [] \<and> inserted_as fl i kv) ?ins ?kvs"
    using small_inserted [of fl] by (simp add: lit_def)
  have s: "dedup_settings ff small_settings (lit ''s2'') (lit ''n.17.e'') (lit ''d'') (lit ''n.17'')"
    by (rule small_dedup_settings) simp
  from capi_write_then_read [OF s small_fits ins small_junk path,
      where H = H and fresh = fresh and info = info and now = 0 and r = NewCacheReaderHandle]
  obtain h h' h'' files' r' where r:
    "initializeWriter H ff fresh small_settings (lit ''n.17.e'') (lit ''s2'') 8 (NewCacheWriterHandle info) = (h, Inr 0)"
    "insert_all (checked_insert H fl) h ?ins = Some (h', Inr ())"
    "finishCacheCreation H 0 (replicate 32 0) small_settings h' = (h'', files', Inr 0)"
    "initializeReader H True files' (lit ''n.x'') (lit ''d'') (lit ''17'') NewCacheReaderHandle = (r', Inr 0)"
    and g: "\<forall>key v. map_of ?kvs key = Some v \<longrightarrow> handle_gives fl H r' key v"
    and n: "\<forall>key. map_of ?kvs key = None \<longrightarrow> handle_gives_nothing fl H r' key" by blast
  have "getKey H r' (Some (lit ''k'')) = returns (Some [118, 0], 1, 1)"
    using g [rule_format, of "lit ''k''"] by (simp add: handle_gives_def convertToPointer_def lit_def)
  moreover have "getKey H r' (Some (lit ''x'')) = returns (None, 0, 0)"
    using n [rule_format, of "lit ''x''"] by (simp add: handle_gives_nothing_def lit_def)
  ultimately show "\<exists>h h' h'' files' r'.
    initializeWriter H ff fresh small_settings (lit ''n.17.e'') (lit ''s2'') 8 (NewCacheWriterHandle info) = (h, Inr 0) \<and>
    insert_all (checked_insert H fl) h ?ins = Some (h', Inr ()) \<and>
    finishCacheCreation H 0 (replicate 32 0) small_settings h' = (h'', files', Inr 0) \<and>
    initializeReader H True files' (lit ''n.x'') (lit ''d'') (lit ''17'') NewCacheReaderHandle = (r', Inr 0) \<and>
    getKey H r' (Some (lit ''k'')) = returns (Some [118, 0], 1, 1) \<and>
    getKey H r' (Some (lit ''x'')) = returns (None, 0, 0)"
    using r by blast
qed

end
