(* ===== verification/Python_Binding.thy ===== *)
theory Python_Binding
  imports Api_Round_Trip
begin

text \<open>
  The Python module \<open>axoncache/axoncache.cpp\<close>: its classes \<open>Reader\<close> and \<open>Writer\<close>, each over
  a handle of the C interface.  An object is a record of its members; a handle that was deleted
  is \<open>None\<close>.  A method returns its result or raises one of the exceptions of the module; an
  exception of the library, or undefined behaviour below the C interface, is \<open>Propagated\<close>.
  As elsewhere, the outer \<open>option\<close> of a method is \<open>None\<close> for a call that does not end.

  The conversions between Python's objects and the arguments, which \<open>pybind11\<close> makes, are left
  out: keys, values and results are the bytes of the C++ side.  Failed allocations are left out,
  so \<open>NewCacheReaderHandle\<close> and \<open>NewCacheWriterHandle\<close> do not return null.
\<close>

section \<open>Exceptions\<close>

datatype py_error =
    RuntimeError string
  | NotFoundError string
  | UninitializedError string
  | Propagated fault

type_synonym 'a py = "py_error + 'a"

definition key_not_found :: py_error where "key_not_found = NotFoundError ''key not found''"
definition invalid_handle :: py_error where "invalid_handle = RuntimeError ''Invalid handle''"

text \<open>A method call through a null handle.\<close>

definition null_handle :: py_error where "null_handle = Propagated (Undefined Null_Pointer)"

section \<open>The reader\<close>

record py_reader =
  pr_handle :: "reader option"
  pr_initialized :: bool

definition Py_Reader :: py_reader where
  "Py_Reader = \<lparr>pr_handle = Some NewCacheReaderHandle, pr_initialized = False\<rparr>"

text \<open>\<open>update\<close>; the arguments pass through \<open>c_str()\<close>.\<close>

definition py_update ::
  "(bytes \<Rightarrow> u64) \<Rightarrow> bool \<Rightarrow> files \<Rightarrow> bytes \<Rightarrow> bytes \<Rightarrow> bytes \<Rightarrow> py_reader \<Rightarrow> py_reader \<times> unit py" where
  "py_update H os_ok files task_name destination_folder timestamp self =
     (case pr_handle self of
        None \<Rightarrow> (self, Inl null_handle)
      | Some handle \<Rightarrow>
          (let (handle', result) = initializeReader H os_ok files (c_string task_name)
                 (c_string destination_folder) (c_string timestamp) handle;
               self' = self\<lparr>pr_handle := Some handle'\<rparr>
           in case result of
                Inl e \<Rightarrow> (self', Inl (Propagated e))
              | Inr ret \<Rightarrow>
                  (if ret \<noteq> 0
                   then (self', Inl (RuntimeError (''CacheReader_Initialize failed with code '' @ show_int ret)))
                   else (self'\<lparr>pr_initialized := True\<rparr>, Inr ()))))"

definition ensure_init :: "py_reader \<Rightarrow> unit py" where
  "ensure_init self =
     (if \<not> pr_initialized self
      then Inl (UninitializedError ''CacheReader not initialized; call update()'') else Inr ())"

text \<open>The frame of every getter: \<open>ensure_init\<close>, the call through the handle, and the rest on its result.\<close>

definition getter ::
  "py_reader \<Rightarrow> (reader \<Rightarrow> 'a outcome option) \<Rightarrow> ('a \<Rightarrow> 'b py) \<Rightarrow> 'b py option" where
  "getter self call rest =
     (case ensure_init self of
        Inl e \<Rightarrow> Some (Inl e)
      | Inr _ \<Rightarrow>
          (case pr_handle self of
             None \<Rightarrow> Some (Inl null_handle)
           | Some handle \<Rightarrow>
               (case call handle of
                  None \<Rightarrow> None
                | Some (Inl e) \<Rightarrow> Some (Inl (Propagated e))
                | Some (Inr x) \<Rightarrow> Some (rest x))))"

definition contains_key :: "(bytes \<Rightarrow> u64) \<Rightarrow> py_reader \<Rightarrow> bytes \<Rightarrow> bool py option" where
  "contains_key H self key = getter self (\<lambda>handle. containsKey H handle (Some key)) (\<lambda>has. Inr (has \<noteq> 0))"

definition get_key :: "(bytes \<Rightarrow> u64) \<Rightarrow> py_reader \<Rightarrow> bytes \<Rightarrow> bytes py option" where
  "get_key H self key =
     getter self (\<lambda>handle. getKey H handle (Some key)) (\<lambda>(buf, exists, size).
       if exists = 0 then Inl key_not_found
       else case buf of
              None \<Rightarrow> (if sint size > 0 then Inl (RuntimeError ''nil buffer with positive size'') else Inr [])
            | Some b \<Rightarrow> Inr (take (unat size) b))"

definition get_key_type :: "(bytes \<Rightarrow> u64) \<Rightarrow> py_reader \<Rightarrow> bytes \<Rightarrow> bytes py option" where
  "get_key_type H self key =
     getter self (\<lambda>handle. reader_getKeyType H handle (Some key)) (\<lambda>(buf, size).
       case buf of None \<Rightarrow> Inl key_not_found | Some b \<Rightarrow> Inr (take (unat size) b))"

definition get_bool :: "(bytes \<Rightarrow> u64) \<Rightarrow> py_reader \<Rightarrow> bytes \<Rightarrow> bool py option" where
  "get_bool H self key =
     getter self (\<lambda>handle. reader_getBool H handle (Some key) 0) (\<lambda>(v, exists).
       if exists = 0 then Inl key_not_found else Inr (v \<noteq> 0))"

definition get_int :: "(bytes \<Rightarrow> u64) \<Rightarrow> py_reader \<Rightarrow> bytes \<Rightarrow> u32 py option" where
  "get_int H self key =
     getter self (\<lambda>handle. getInteger H handle (Some key) 0) (\<lambda>(v, exists).
       if exists = 0 then Inl key_not_found else Inr v)"

definition get_long :: "(bytes \<Rightarrow> u64) \<Rightarrow> py_reader \<Rightarrow> bytes \<Rightarrow> i64 py option" where
  "get_long H self key =
     getter self (\<lambda>handle. getLong H handle (Some key) 0) (\<lambda>(v, exists).
       if exists = 0 then Inl key_not_found else Inr v)"

definition get_double :: "float_lib \<Rightarrow> (bytes \<Rightarrow> u64) \<Rightarrow> py_reader \<Rightarrow> bytes \<Rightarrow> f64 py option" where
  "get_double fl H self key =
     getter self (\<lambda>handle. reader_getDouble fl H handle (Some key) 0) (\<lambda>(v, exists).
       if exists = 0 then Inl key_not_found else Inr v)"

text \<open>The sizes come with the elements; a null array means that there is no list.\<close>

definition get_vector :: "(bytes \<Rightarrow> u64) \<Rightarrow> py_reader \<Rightarrow> bytes \<Rightarrow> bytes list py option" where
  "get_vector H self key =
     getter self (\<lambda>handle. reader_getVector H handle (Some key)) (\<lambda>(arr, count, sizes).
       case (arr, sizes) of
         (Some vs, Some ns) \<Rightarrow> Inr (take (unat count) (map2 (\<lambda>v n. take (unat n) v) vs ns))
       | _ \<Rightarrow> Inl key_not_found)"

definition get_vector_float :: "(bytes \<Rightarrow> u64) \<Rightarrow> py_reader \<Rightarrow> bytes \<Rightarrow> f32 list py option" where
  "get_vector_float H self key =
     getter self (\<lambda>handle. reader_getFloatVector H handle (Some key)) (\<lambda>(arr, count).
       case arr of None \<Rightarrow> Inl key_not_found | Some vs \<Rightarrow> Inr (take (unat count) vs))"

definition py_close :: "py_reader \<Rightarrow> py_reader" where
  "py_close self = self\<lparr>pr_handle := None, pr_initialized := False\<rparr>"

section \<open>The writer\<close>

record py_writer =
  pw_handle :: "writer option"
  pw_destinationFolder :: bytes
  pw_taskName :: bytes

text \<open>The constructor; when it raises there is no object.\<close>

definition Py_Writer ::
  "(bytes \<Rightarrow> u64) \<Rightarrow> u64 float_parser \<Rightarrow> (nat \<Rightarrow> nat \<Rightarrow> byte) \<Rightarrow> cache_info \<Rightarrow> files \<Rightarrow>
   bytes \<Rightarrow> bytes \<Rightarrow> u64 \<Rightarrow> py_writer py" where
  "Py_Writer H ff fresh info files task_name settings_location number_of_key_slots =
     (let (handle, result) = initializeWriter H ff fresh files (c_string task_name)
            (c_string settings_location) number_of_key_slots (NewCacheWriterHandle info)
      in case result of
           Inl e \<Rightarrow> Inl (Propagated e)
         | Inr ret \<Rightarrow>
             (if ret \<noteq> 0
              then Inl (RuntimeError (''CacheWriter_Initialize failed with code '' @ show_int ret))
              else Inr \<lparr>pw_handle = Some handle, pw_destinationFolder = lit ''.'', pw_taskName = task_name\<rparr>))"

text \<open>
  An empty key is the empty \<open>std::string\<close>, whose \<open>data()\<close> points to a NUL: the test for a
  vector key finds it and takes the key as a scalar one.  An empty value is passed as a null
  pointer of size 0, which every conversion takes as empty.
\<close>

definition insert_key ::
  "(bytes \<Rightarrow> u64) \<Rightarrow> float_lib \<Rightarrow> py_writer \<Rightarrow> bytes \<Rightarrow> bytes \<Rightarrow> int \<Rightarrow> (py_writer \<times> unit py) option" where
  "insert_key H fl self key val key_type =
     (case pw_handle self of
        None \<Rightarrow> Some (self, Inl invalid_handle)
      | Some handle \<Rightarrow>
          (case (if key = [] then insertScalarKey H fl handle key val key_type
                 else insertKey H fl handle key val key_type) of
             None \<Rightarrow> None
           | Some (handle', result) \<Rightarrow>
               Some (self\<lparr>pw_handle := Some handle'\<rparr>,
                     case result of
                       Inl e \<Rightarrow> Inl (Propagated e)
                     | Inr ret \<Rightarrow>
                         (if ret \<noteq> 0 then Inl (RuntimeError (''InsertKey failed with code '' @ show_int ret))
                          else Inr ()))))"

definition add_duplicate_value :: "float_lib \<Rightarrow> py_writer \<Rightarrow> bytes \<Rightarrow> int \<Rightarrow> py_writer \<times> unit py" where
  "add_duplicate_value fl self value query_type =
     (case pw_handle self of
        None \<Rightarrow> (self, Inl invalid_handle)
      | Some handle \<Rightarrow>
          (self\<lparr>pw_handle := Some (CacheWriter_AddDuplicateValue fl handle (c_string value) query_type)\<rparr>, Inr ()))"

text \<open>The one method of the writer that does not test its handle.\<close>

definition finish_add_duplicate_values :: "(nat \<Rightarrow> nat \<Rightarrow> byte) \<Rightarrow> py_writer \<Rightarrow> py_writer \<times> unit py" where
  "finish_add_duplicate_values fresh self =
     (case pw_handle self of
        None \<Rightarrow> (self, Inl null_handle)
      | Some handle \<Rightarrow>
          (let (handle', result) = finishAddDuplicateValues fresh handle
           in (self\<lparr>pw_handle := Some handle'\<rparr>,
               case result of
                 Inl e \<Rightarrow> Inl (Propagated e)
               | Inr ret \<Rightarrow> (if ret \<noteq> 0 then Inl (RuntimeError ''FinishAddDuplicateValues failed'') else Inr ()))))"

text \<open>\<open>::rename\<close>: the file under its new name, and nothing without one (\<open>renames\<close>: it is permitted).\<close>

definition rename_file :: "bool \<Rightarrow> bytes \<Rightarrow> bytes \<Rightarrow> files \<Rightarrow> files" where
  "rename_file renames old new files =
     (case files old of
        Some content \<Rightarrow> if renames then (files(old := None))(new \<mapsto> content) else files
      | None \<Rightarrow> files)"

text \<open>
  \<open>finish_cache_creation\<close>; \<open>seconds\<close> is the result of \<open>time\<close>, \<open>now\<close> and \<open>junk\<close> belong to
  the header.  The file is looked for in the folder of the object, which is always \<open>.\<close>, and
  the result of the renaming is not tested.
\<close>

definition finish_cache_creation ::
  "(bytes \<Rightarrow> u64) \<Rightarrow> u64 \<Rightarrow> bytes \<Rightarrow> bool \<Rightarrow> int \<Rightarrow> files \<Rightarrow> py_writer \<Rightarrow> py_writer \<times> files \<times> bytes py" where
  "finish_cache_creation H now junk renames seconds files self =
     (case pw_handle self of
        None \<Rightarrow> (self, files, Inl invalid_handle)
      | Some handle \<Rightarrow>
          (let (handle', files', result) = finishCacheCreation H now junk files handle;
               self' = self\<lparr>pw_handle := Some handle'\<rparr>
           in case result of
                Inl e \<Rightarrow> (self', files', Inl (Propagated e))
              | Inr ret \<Rightarrow>
                  (if ret \<noteq> 0
                   then (self', files', Inl (RuntimeError (''FinishCacheCreation failed with code '' @ show_int ret)))
                   else let ms = seconds * 1000; timestamp = lit (show_int ms);
                            cacheWithoutTimestamp =
                              pw_destinationFolder self @ lit ''/'' @ pw_taskName self @ lit ''.cache'';
                            cacheWithTimestamp =
                              pw_destinationFolder self @ lit ''/'' @ pw_taskName self @ lit ''.'' @
                              timestamp @ lit ''.cache''
                        in (self', rename_file renames (c_string cacheWithoutTimestamp)
                                     (c_string cacheWithTimestamp) files', Inr timestamp))))"

definition pw_close :: "py_writer \<Rightarrow> py_writer" where
  "pw_close self = self\<lparr>pw_handle := None\<rparr>"


section \<open>The states of a reader\<close>

text \<open>All a reader can be after any calls of \<open>update\<close> and \<open>close\<close>, with whatever files.\<close>

inductive py_reachable :: "(bytes \<Rightarrow> u64) \<Rightarrow> py_reader \<Rightarrow> bool" for H where
  new: "py_reachable H Py_Reader"
| update: "py_reachable H r \<Longrightarrow> py_update H os_ok files task folder timestamp r = (r', result) \<Longrightarrow>
    py_reachable H r'"
| close: "py_reachable H r \<Longrightarrow> py_reachable H (py_close r)"

lemma py_update_cases:
  assumes "py_update H os_ok files task folder timestamp r = (r', result)"
  shows "(pr_handle r = None \<and> r' = r \<and> result = Inl null_handle) \<or>
    (\<exists>h h' code. pr_handle r = Some h \<and>
       initializeReader H os_ok files (c_string task) (c_string folder) (c_string timestamp) h = (h', code) \<and>
       pr_handle r' = Some h' \<and> (result = Inr () \<longleftrightarrow> code = Inr 0) \<and>
       pr_initialized r' = (code = Inr 0 \<or> pr_initialized r))"
  using assms by (auto simp: py_update_def Let_def split: option.splits prod.splits sum.splits if_splits)

lemma py_reachable_handle:
  assumes "py_reachable H r"
  shows "(pr_initialized r \<longrightarrow> pr_handle r \<noteq> None) \<and> (\<forall>h. pr_handle r = Some h \<longrightarrow> reader_reachable H h)"
  using assms
proof (induction rule: py_reachable.induct)
  case new
  show ?case by (simp add: Py_Reader_def reader_reachable.new)
next
  case (update r os_ok files task folder timestamp r' result)
  from py_update_cases [OF update.hyps(2)] update.IH show ?case
    by (auto intro: reader_reachable.initialize)
next
  case (close r)
  show ?case by (simp add: py_close_def)
qed

lemma getter_uninitialized:
  "\<not> pr_initialized r \<Longrightarrow>
     getter r call rest = Some (Inl (UninitializedError ''CacheReader not initialized; call update()''))"
  by (simp add: getter_def ensure_init_def)

lemma getter_initialized:
  "pr_initialized r \<Longrightarrow> pr_handle r = Some h \<Longrightarrow> call h = Some (Inr x) \<Longrightarrow> getter r call rest = Some (rest x)"
  by (simp add: getter_def ensure_init_def)

lemmas getter_defs = contains_key_def get_key_def get_key_type_def get_bool_def get_int_def get_long_def
  get_double_def get_vector_def get_vector_float_def

section \<open>Answers of a reader\<close>

text \<open>What the getters give for a value, and for a key that is absent.\<close>

definition py_gives :: "float_lib \<Rightarrow> (bytes \<Rightarrow> u64) \<Rightarrow> py_reader \<Rightarrow> bytes \<Rightarrow> put_value \<Rightarrow> bool" where
  "py_gives fl H r key value \<longleftrightarrow>
     contains_key H r key = Some (Inr True) \<and>
     (case value of
        Put_String s \<Rightarrow> get_key H r key = Some (Inr s)
      | Put_List ss \<Rightarrow> get_vector H r key = Some (if ss = [] then Inl key_not_found else Inr ss)
      | Put_Bool b \<Rightarrow> get_bool H r key = Some (Inr b)
      | Put_Int64 x \<Rightarrow> get_long H r key = Some (Inr x) \<and> get_int H r key = Some (Inr (ucast x))
      | Put_Double x \<Rightarrow> get_double fl H r key = Some (Inr x)
      | Put_Floats xs \<Rightarrow> get_vector_float H r key = Some (if xs = [] then Inl key_not_found else Inr xs))"

definition py_gives_nothing :: "float_lib \<Rightarrow> (bytes \<Rightarrow> u64) \<Rightarrow> py_reader \<Rightarrow> bytes \<Rightarrow> bool" where
  "py_gives_nothing fl H r key \<longleftrightarrow>
     contains_key H r key = Some (Inr False) \<and> get_key H r key = Some (Inl key_not_found) \<and>
     get_key_type H r key = Some (Inl key_not_found) \<and> get_bool H r key = Some (Inl key_not_found) \<and>
     get_int H r key = Some (Inl key_not_found) \<and> get_long H r key = Some (Inl key_not_found) \<and>
     get_double fl H r key = Some (Inl key_not_found) \<and> get_vector H r key = Some (Inl key_not_found) \<and>
     get_vector_float H r key = Some (Inl key_not_found)"

text \<open>The elements of a list are cut out of their copies at their sizes.\<close>

lemma cut_copies:
  "\<forall>v \<in> set vs. length v < 2 ^ 31 \<Longrightarrow>
     map2 (\<lambda>v n. take (unat n) v) (map (\<lambda>v. v @ [0]) vs) (map (\<lambda>v. of_nat (length v) :: u32) vs) = vs"
  by (induction vs) (simp_all add: unat_of_nat)

lemma getter_of_handle:
  assumes "pr_initialized r" and "pr_handle r = Some h" and "call h = returns x"
  shows "getter r call rest = Some (rest x)"
  using assms by (simp add: getter_def ensure_init_def returns_def)

lemma py_gives_of_handle:
  assumes r: "pr_initialized r" "pr_handle r = Some h" and g: "handle_gives fl H h key value" and ok: "entry_ok (key, value)"
  shows "py_gives fl H r key value"
proof -
  note call = getter_of_handle [OF r] and sz = entry_sizes [OF ok]
  show ?thesis
    using g sz
    by (cases "value")
      (auto simp: py_gives_def handle_gives_def getter_defs call convertToPointer_def convertToPointer_list_def
        convertToPointer_floats_def cut_copies unat_of_nat flag_def)
qed

lemma py_gives_nothing_of_handle:
  assumes r: "pr_initialized r" "pr_handle r = Some h" and g: "handle_gives_nothing fl H h key"
  shows "py_gives_nothing fl H r key"
  using g unfolding handle_gives_nothing_def
  by (simp add: py_gives_nothing_def getter_defs getter_of_handle [OF r])

section \<open>From a writer to a reader\<close>

definition py_fills :: "bytes \<Rightarrow> bytes \<Rightarrow> bytes \<Rightarrow> py_writer \<Rightarrow> dedup_cache \<Rightarrow> bool" where
  "py_fills dir name task w c \<longleftrightarrow>
     (\<exists>h. pw_handle w = Some h \<and> fills h dir name c) \<and> pw_destinationFolder w = lit ''.'' \<and> pw_taskName w = task"

definition py_insert ::
  "(bytes \<Rightarrow> u64) \<Rightarrow> float_lib \<Rightarrow> py_writer \<Rightarrow> bytes \<times> bytes \<times> int \<Rightarrow> (py_writer \<times> unit py) option" where
  "py_insert H fl w i = (case i of (key, val, type) \<Rightarrow> insert_key H fl w key val type)"

lemma py_insert_ok:
  assumes "py_fills dir name task w c" and "inserted_as fl i (key, v)"
    and "put (dd_putInternal H) c key v = Some (c', Inr (inserted, n))"
  shows "\<exists>w' r. py_insert H fl w i = Some (w', Inr r) \<and> py_fills dir name task w' c'"
proof -
  obtain k t ty where i: "i = (k, t, ty)" by (cases i)
  obtain h where h: "pw_handle w = Some h" "fills h dir name c"
    and w: "pw_destinationFolder w = lit ''.''" "pw_taskName w = task"
    using assms(1) by (auto simp: py_fills_def)
  from insert_ok [OF h(2) assms(2) [unfolded i] assms(3)] obtain h' where
    h': "(if k = [] then insertScalarKey H fl h k t ty else insertKey H fl h k t ty) = Some (h', Inr 0)"
      "fills h' dir name c'" by blast
  have "insert_key H fl w k t ty = Some (w\<lparr>pw_handle := Some h'\<rparr>, Inr ())"
    unfolding insert_key_def h(1) option.case h'(1) by simp
  then show ?thesis using h'(2) w by (simp add: py_insert_def i py_fills_def)
qed

text \<open>What the calls of a program of a writer leave, up to the renaming.\<close>

lemma py_program_ok:
  assumes st: "dedup_settings ff files (c_string settings_location) task dir task" and fit: "fits k kvs"
    and ins: "list_all2 (inserted_as fl) ins kvs" and task: "0 \<notin> set task"
    and junk: "length junk = kMaxCacheNameSize" and secs: "0 \<le> seconds"
  obtains w w' w'' files1 c where "Py_Writer H ff fresh info files task settings_location k = Inr w"
    and "insert_all (py_insert H fl) w ins = Some (w', Inr ())"
    and "finish_cache_creation H now junk renames seconds files w' =
       (w'', rename_file renames (fullCacheFileName (lit ''.'') task)
              (lit ''.'' @ lit ''/'' @ task @ lit ''.'' @ lit (show_int (seconds * 1000)) @ lit ''.cache'') files1,
        Inr (lit (show_int (seconds * 1000))))"
    and "\<And>p. p \<noteq> fullCacheFileName dir task \<Longrightarrow> files1 p = files p"
    and "load_dedup H True files1 (fullCacheFileName dir task) = Inr (c, file_timestamp (fullCacheFileName dir task))"
    and "dedup_reads H c (add_all Map.empty kvs)"
    and "has_type files1 (fullCacheFileName dir task) LINEAR_PROBE_DEDUP_TYPED"
proof -
  obtain h c0 c1 where h: "initializeWriter H ff fresh files task (c_string settings_location) k (NewCacheWriterHandle info) = (h, Inr 0)"
    "fills h dir task c0" and p: "put_all (put (dd_putInternal H)) c0 kvs = Some (c1, Inr ())"
    "dedup_builds H c1 (add_all Map.empty kvs)" "dedup_space [] (Some LINEAR_PROBE_DEDUP_TYPED) c1 0 8"
    by (rule initializeWriter_ok [OF st fit, where H = H and fresh = fresh and info = info], rule that) assumption+
  let ?w = "\<lparr>pw_handle = Some h, pw_destinationFolder = lit ''.'', pw_taskName = task\<rparr>"
  have w: "Py_Writer H ff fresh info files task settings_location k = Inr ?w"
    by (simp add: Py_Writer_def c_string_clean [OF task] h(1))
  have f: "py_fills dir task task ?w c0" by (simp add: py_fills_def h(2))
  have "\<exists>w'. insert_all (py_insert H fl) ?w ins = Some (w', Inr ()) \<and> py_fills dir task task w' c1"
    by (rule insert_all_ok [where R = "py_fills dir task task", OF _ ins f p(1)]) (rule py_insert_ok)
  then obtain w' h' where w': "insert_all (py_insert H fl) ?w ins = Some (w', Inr ())" "pw_handle w' = Some h'"
    "fills h' dir task c1" "pw_destinationFolder w' = lit ''.''" "pw_taskName w' = task"
    by (auto simp: py_fills_def)
  obtain h'' files1 c where f: "finishCacheCreation H now junk files h' = (h'', files1, Inr 0)"
    and o: "\<And>p. p \<noteq> fullCacheFileName dir task \<Longrightarrow> files1 p = files p"
    and ld: "load_dedup H True files1 (fullCacheFileName dir task) = Inr (c, file_timestamp (fullCacheFileName dir task))"
    and R: "dedup_reads H c (add_all Map.empty kvs)"
    and ty: "has_type files1 (fullCacheFileName dir task) LINEAR_PROBE_DEDUP_TYPED"
    by (rule finishCacheCreation_ok [OF w'(3) p(2,3) junk, where now = now and files = files], rule that) assumption+
  have cs: "c_string (lit ''.'' @ lit ''/'' @ task @ lit ''.cache'') = fullCacheFileName (lit ''.'') task"
    using task by (subst c_string_clean) (auto simp: fullCacheFileName_def kCacheFileNameSuffix_def lit_def)
  have ct: "c_string (lit ''.'' @ lit ''/'' @ task @ lit ''.'' @ lit (show_int (seconds * 1000)) @ lit ''.cache'') =
      lit ''.'' @ lit ''/'' @ task @ lit ''.'' @ lit (show_int (seconds * 1000)) @ lit ''.cache''"
    by (rule c_string_clean) (use task timestamp_clean [of "seconds * 1000"] secs in \<open>auto simp: lit_def\<close>)
  have "finish_cache_creation H now junk renames seconds files w' =
      (w'\<lparr>pw_handle := Some h''\<rparr>, rename_file renames (fullCacheFileName (lit ''.'') task)
         (lit ''.'' @ lit ''/'' @ task @ lit ''.'' @ lit (show_int (seconds * 1000)) @ lit ''.cache'') files1,
       Inr (lit (show_int (seconds * 1000))))"
    by (simp add: finish_cache_creation_def w' f cs ct Let_def)
  from that [OF w w'(1) this o ld R ty] show ?thesis .
qed


section \<open>Properties\<close>

text \<open>C24: from a Python writer to a Python reader.  With settings whose destination is the folder
  \<open>.\<close>, a writer takes any sequence of keys and typed values within the limits, writes the
  cache file and returns a timestamp.  A reader that is updated with this task, folder and
  timestamp, whatever it served before, gives for each inserted key its first value by the
  getter of the type, and raises \<open>NotFoundError\<close> in every getter for any other key.\<close>

theorem python_write_then_read:
  assumes "dedup_settings ff files (c_string settings_location) task (lit ''.'') task"
    and "0 \<notin> set task" and "46 \<notin> set task" and "fits k kvs" and "list_all2 (inserted_as fl) ins kvs"
    and "length junk = kMaxCacheNameSize" and "0 \<le> seconds" and "pr_handle r = Some h"
  shows "\<exists>w w' w'' files' timestamp r'.
    Py_Writer H ff fresh info files task settings_location k = Inr w \<and>
    insert_all (py_insert H fl) w ins = Some (w', Inr ()) \<and>
    finish_cache_creation H now junk True seconds files w' = (w'', files', Inr timestamp) \<and>
    py_update H True files' task (lit ''.'') timestamp r = (r', Inr ()) \<and>
    (\<forall>key v. map_of kvs key = Some v \<longrightarrow> py_gives fl H r' key v) \<and>
    (\<forall>key. map_of kvs key = None \<longrightarrow> py_gives_nothing fl H r' key)"
proof -
  let ?ts = "lit (show_int (seconds * 1000))"
  let ?old = "fullCacheFileName (lit ''.'') task" and ?new = "lit ''.'' @ lit ''/'' @ task @ lit ''.'' @ ?ts @ lit ''.cache''"
  obtain w w' w'' files1 c where w: "Py_Writer H ff fresh info files task settings_location k = Inr w"
    and w': "insert_all (py_insert H fl) w ins = Some (w', Inr ())"
    and fin: "finish_cache_creation H now junk True seconds files w' = (w'', rename_file True ?old ?new files1, Inr ?ts)"
    and "\<And>p. p \<noteq> ?old \<Longrightarrow> files1 p = files p"
    and ld: "load_dedup H True files1 ?old = Inr (c, file_timestamp ?old)"
    and R: "dedup_reads H c (add_all Map.empty kvs)" and ty: "has_type files1 ?old LINEAR_PROBE_DEDUP_TYPED"
    by (rule py_program_ok [OF assms(1,4,5,2,6,7), where H = H and fresh = fresh and info = info and now = now
          and renames = True], rule that) assumption+
  let ?files = "rename_file True ?old ?new files1"
  have same: "?files ?new = files1 ?old"
    using ty by (auto simp: rename_file_def has_type_def)
  have path: "reader_path (c_string task) (c_string (lit ''.'')) (c_string ?ts) = ?new"
    using timestamp_clean [of "seconds * 1000"] assms(2,3,7)
    by (simp add: reader_path_def c_string_clean strip_extension_plain) (simp add: c_string_def lit_def)
  have "has_type ?files ?new LINEAR_PROBE_DEDUP_TYPED" "load_dedup H True ?files ?new = Inr (c, file_timestamp ?new)"
    by (rule has_type_moved [where path = ?old], rule ty, rule same)
      (rule load_dedup_moved [where path = ?old], rule ld, rule same)
  then obtain h' where h': "initializeReader H True ?files (c_string task) (c_string (lit ''.'')) (c_string ?ts) h = (h', Inr 0)"
    "serves_dedup h' c"
    using initializeReader_dedup [of ?files "c_string task" "c_string (lit ''.'')" "c_string ?ts", unfolded path] by blast
  let ?r = "r\<lparr>pr_handle := Some h', pr_initialized := True\<rparr>"
  have up: "py_update H True ?files task (lit ''.'') ?ts r = (?r, Inr ())"
    by (simp add: py_update_def assms(8) h'(1))
  have r: "pr_initialized ?r" "pr_handle ?r = Some h'" by simp_all
  have "\<forall>kv \<in> set kvs. entry_ok kv" using assms(4) by (simp add: fits_def)
  note a = map_of_answers [OF h'(2) R this]
  show ?thesis
    using w w' fin up py_gives_of_handle [OF r] py_gives_nothing_of_handle [OF r] a by blast
qed

text \<open>C26: the folder of the settings.  When the settings send the cache file to a folder other than \<open>.\<close>,
  \<open>finish_cache_creation\<close> still returns a timestamp and raises nothing, but it looks for the file in
  \<open>.\<close>: the cache stays under its name without the timestamp, and where no file had the name with it,
  updating a reader with that folder and the returned timestamp raises \<open>RuntimeError\<close>.\<close>

theorem python_finish_elsewhere:
  assumes "dedup_settings ff files (c_string settings_location) task dir task" and "dir \<noteq> lit ''.''" and "0 \<notin> set dir"
    and "0 \<notin> set task" and "46 \<notin> set task" and "fits k kvs" and "list_all2 (inserted_as fl) ins kvs"
    and "length junk = kMaxCacheNameSize" and "0 \<le> seconds" and "pr_handle r = Some h"
    and "files (fullCacheFileName (lit ''.'') task) = None"
    and "files (reader_path task dir (lit (show_int (seconds * 1000)))) = None"
  shows "\<exists>w w' w'' files' timestamp r'.
    Py_Writer H ff fresh info files task settings_location k = Inr w \<and>
    insert_all (py_insert H fl) w ins = Some (w', Inr ()) \<and>
    finish_cache_creation H now junk True seconds files w' = (w'', files', Inr timestamp) \<and>
    has_type files' (fullCacheFileName dir task) LINEAR_PROBE_DEDUP_TYPED \<and>
    py_update H True files' task dir timestamp r =
      (r', Inl (RuntimeError ''CacheReader_Initialize failed with code 1''))"
proof -
  let ?ts = "lit (show_int (seconds * 1000))" and ?path = "fullCacheFileName dir task"
  obtain w w' w'' files1 c where w: "Py_Writer H ff fresh info files task settings_location k = Inr w"
    and w': "insert_all (py_insert H fl) w ins = Some (w', Inr ())"
    and fin: "finish_cache_creation H now junk True seconds files w' =
      (w'', rename_file True (fullCacheFileName (lit ''.'') task)
         (lit ''.'' @ lit ''/'' @ task @ lit ''.'' @ ?ts @ lit ''.cache'') files1, Inr ?ts)"
    and o: "\<And>p. p \<noteq> ?path \<Longrightarrow> files1 p = files p"
    and "load_dedup H True files1 ?path = Inr (c, file_timestamp ?path)" "dedup_reads H c (add_all Map.empty kvs)"
    and ty: "has_type files1 ?path LINEAR_PROBE_DEDUP_TYPED"
    by (rule py_program_ok [OF assms(1,6,7,4,8,9), where H = H and fresh = fresh and info = info and now = now
          and renames = True], rule that) assumption+
  have "fullCacheFileName (lit ''.'') task \<noteq> ?path"
    using assms(2) by (simp add: fullCacheFileName_def)
  then have "rename_file True (fullCacheFileName (lit ''.'') task) new files1 = files1" for new
    using o assms(11) by (simp add: rename_file_def)
  with fin have fin': "finish_cache_creation H now junk True seconds files w' = (w'', files1, Inr ?ts)" by simp
  have "reader_path task dir ?ts \<noteq> ?path"
    by (auto simp: reader_path_def fullCacheFileName_def kCacheFileNameSuffix_def strip_extension_plain [OF assms(5)] lit_def
        dest!: arg_cong [of _ _ length])
  then have "files1 (reader_path task dir ?ts) = None" using o assms(12) by simp
  then have "initializeReader H True files1 (c_string task) (c_string dir) (c_string ?ts) h = (h, Inr 1)"
    using timestamp_clean [of "seconds * 1000"] assms(3,4,9) by (simp add: c_string_clean initializeReader_def)
  then have "\<exists>r'. py_update H True files1 task dir ?ts r =
      (r', Inl (RuntimeError ''CacheReader_Initialize failed with code 1''))"
    by (simp add: py_update_def assms(10) show_int_def show_nat.simps digit_char_def char_of_def bit_0)
  then show ?thesis using w w' fin' ty by blast
qed

text \<open>C25: the states of a reader object.  After any calls of \<open>update\<close> and \<open>close\<close>, a reader that is
  initialised has a handle, whose caches all came out of a successful load; one that is not raises
  \<open>UninitializedError\<close> in every getter.  So no getter ever goes through a null handle, while
  \<open>update\<close> does after \<open>close\<close>; an \<open>update\<close> that fails leaves the object as initialised as it was.\<close>

theorem python_reader_states:
  assumes "py_reachable H r"
  shows "(pr_initialized r \<longrightarrow> (\<exists>h. pr_handle r = Some h \<and> holds_loaded H h)) \<and>
    (\<not> pr_initialized r \<longrightarrow>
       (let e = UninitializedError ''CacheReader not initialized; call update()'' in
        contains_key H r key = Some (Inl e) \<and> get_key H r key = Some (Inl e) \<and> get_key_type H r key = Some (Inl e) \<and>
        get_bool H r key = Some (Inl e) \<and> get_int H r key = Some (Inl e) \<and> get_long H r key = Some (Inl e) \<and>
        get_double fl H r key = Some (Inl e) \<and> get_vector H r key = Some (Inl e) \<and>
        get_vector_float H r key = Some (Inl e))) \<and>
    (py_update H os_ok files task folder timestamp r = (r', Inl error) \<longrightarrow> pr_initialized r' = pr_initialized r) \<and>
    py_update H os_ok files task folder timestamp (py_close r) = (py_close r, Inl null_handle)"
proof -
  have "pr_initialized r \<longrightarrow> (\<exists>h. pr_handle r = Some h \<and> holds_loaded H h)"
    using py_reachable_handle [OF assms] reachable_holds_loaded by blast
  moreover have "py_update H os_ok files task folder timestamp r = (r', Inl error) \<longrightarrow> pr_initialized r' = pr_initialized r"
    by (auto dest!: py_update_cases)
  moreover have "py_update H os_ok files task folder timestamp (py_close r) = (py_close r, Inl null_handle)"
    by (simp add: py_update_def py_close_def)
  ultimately show ?thesis by (simp add: getter_defs getter_uninitialized Let_def)
qed

theorem python_reader_states_witness:
  "py_update (\<lambda>key. 0) True Map.empty [] [] [] (py_close Py_Reader) = (py_close Py_Reader, Inl null_handle) \<and>
   get_key (\<lambda>key. 0) Py_Reader (lit ''k'') =
     Some (Inl (UninitializedError ''CacheReader not initialized; call update()''))"
  using python_reader_states [OF py_reachable.new [of "\<lambda>key. 0"]] by (simp add: Py_Reader_def Let_def)

text \<open>A closed writer.  Every method of a writer that was closed raises \<open>RuntimeError\<close> and leaves the
  files as they are, except \<open>finish_add_duplicate_values\<close>, which does not test its handle and goes
  through a null pointer.\<close>

theorem python_writer_closed:
  "insert_key H fl (pw_close w) key val type = Some (pw_close w, Inl invalid_handle) \<and>
   add_duplicate_value fl (pw_close w) val type = (pw_close w, Inl invalid_handle) \<and>
   finish_cache_creation H now junk renames seconds files (pw_close w) = (pw_close w, files, Inl invalid_handle) \<and>
   finish_add_duplicate_values fresh (pw_close w) = (pw_close w, Inl (Propagated (Undefined Null_Pointer)))"
  by (simp add: insert_key_def add_duplicate_value_def finish_cache_creation_def finish_add_duplicate_values_def
      pw_close_def null_handle_def)

section \<open>A small program\<close>

lemma small_locations: "c_string (lit ''s'') = lit ''s''" "c_string (lit ''s2'') = lit ''s2''"
  by (simp_all add: c_string_def lit_def)

lemma small_task: "0 \<notin> set (lit ''t'')" "46 \<notin> set (lit ''t'')" "(0 :: int) \<le> 17"
  "pr_handle Py_Reader = Some NewCacheReaderHandle"
  by (simp_all add: lit_def Py_Reader_def)

theorem python_write_then_read_witness:
  "\<forall>H fl ff fresh info. \<exists>w w' w'' files' timestamp r'.
    Py_Writer H ff fresh info small_settings (lit ''t'') (lit ''s'') 8 = Inr w \<and>
    insert_all (py_insert H fl) w [(lit ''k'', lit ''v'', 0)] = Some (w', Inr ()) \<and>
    finish_cache_creation H 0 (replicate 32 0) True 17 small_settings w' = (w'', files', Inr timestamp) \<and>
    py_update H True files' (lit ''t'') (lit ''.'') timestamp Py_Reader = (r', Inr ()) \<and>
    get_key H r' (lit ''k'') = Some (Inr (lit ''v'')) \<and> get_key H r' (lit ''x'') = Some (Inl key_not_found)"
proof (intro allI)
  fix H :: "bytes \<Rightarrow> u64" and fl :: float_lib and ff :: "u64 float_parser" and fresh :: "nat \<Rightarrow> nat \<Rightarrow> byte" and info :: cache_info
  let ?kvs = "[(lit ''k'', Put_String (lit ''v''))]" and ?ins = "[(lit ''k'', lit ''v'', 0)]"
  have s: "dedup_settings ff small_settings (c_string (lit ''s'')) (lit ''t'') (lit ''.'') (lit ''t'')"
    unfolding small_locations by (rule small_dedup_settings) simp
  from python_write_then_read [OF s small_task(1,2) small_fits small_inserted small_junk small_task(3,4),
      where H = H and fresh = fresh and info = info and now = 0 and fl = fl]
  obtain w w' w'' files' timestamp r' where r: "Py_Writer H ff fresh info small_settings (lit ''t'') (lit ''s'') 8 = Inr w"
    "insert_all (py_insert H fl) w ?ins = Some (w', Inr ())"
    "finish_cache_creation H 0 (replicate 32 0) True 17 small_settings w' = (w'', files', Inr timestamp)"
    "py_update H True files' (lit ''t'') (lit ''.'') timestamp Py_Reader = (r', Inr ())"
    and g: "\<forall>key v. map_of ?kvs key = Some v \<longrightarrow> py_gives fl H r' key v"
    and n: "\<forall>key. map_of ?kvs key = None \<longrightarrow> py_gives_nothing fl H r' key" by blast
  have "get_key H r' (lit ''k'') = Some (Inr (lit ''v''))"
    using g [rule_format, of "lit ''k''"] by (simp add: py_gives_def)
  moreover have "get_key H r' (lit ''x'') = Some (Inl key_not_found)"
    using n [rule_format, of "lit ''x''"] by (simp add: py_gives_nothing_def lit_def)
  ultimately show "\<exists>w w' w'' files' timestamp r'.
    Py_Writer H ff fresh info small_settings (lit ''t'') (lit ''s'') 8 = Inr w \<and>
    insert_all (py_insert H fl) w ?ins = Some (w', Inr ()) \<and>
    finish_cache_creation H 0 (replicate 32 0) True 17 small_settings w' = (w'', files', Inr timestamp) \<and>
    py_update H True files' (lit ''t'') (lit ''.'') timestamp Py_Reader = (r', Inr ()) \<and>
    get_key H r' (lit ''k'') = Some (Inr (lit ''v'')) \<and> get_key H r' (lit ''x'') = Some (Inl key_not_found)"
    using r by blast
qed

theorem python_finish_elsewhere_witness:
  "\<forall>H fl ff fresh info. \<exists>w w' w'' files' timestamp r'.
    Py_Writer H ff fresh info small_settings (lit ''t'') (lit ''s2'') 8 = Inr w \<and>
    insert_all (py_insert H fl) w [(lit ''k'', lit ''v'', 0)] = Some (w', Inr ()) \<and>
    finish_cache_creation H 0 (replicate 32 0) True 17 small_settings w' = (w'', files', Inr timestamp) \<and>
    py_update H True files' (lit ''t'') (lit ''d'') timestamp Py_Reader =
      (r', Inl (RuntimeError ''CacheReader_Initialize failed with code 1''))"
proof (intro allI)
  fix H :: "bytes \<Rightarrow> u64" and fl :: float_lib and ff :: "u64 float_parser" and fresh :: "nat \<Rightarrow> nat \<Rightarrow> byte" and info :: cache_info
  have s: "dedup_settings ff small_settings (c_string (lit ''s2'')) (lit ''t'') (lit ''d'') (lit ''t'')"
    unfolding small_locations by (rule small_dedup_settings) simp
  have d: "lit ''d'' \<noteq> lit ''.''" "0 \<notin> set (lit ''d'')" by (simp_all add: lit_def)
  have f: "small_settings (fullCacheFileName (lit ''.'') (lit ''t'')) = None"
    "small_settings (reader_path (lit ''t'') (lit ''d'') (lit (show_int (17 * 1000)))) = None"
    by (simp_all add: small_settings_def fullCacheFileName_def kCacheFileNameSuffix_def reader_path_def lit_def)
  from python_finish_elsewhere [OF s d small_task(1,2) small_fits small_inserted small_junk small_task(3,4) f,
      where H = H and fresh = fresh and info = info and now = 0 and fl = fl]
  show "\<exists>w w' w'' files' timestamp r'.
    Py_Writer H ff fresh info small_settings (lit ''t'') (lit ''s2'') 8 = Inr w \<and>
    insert_all (py_insert H fl) w [(lit ''k'', lit ''v'', 0)] = Some (w', Inr ()) \<and>
    finish_cache_creation H 0 (replicate 32 0) True 17 small_settings w' = (w'', files', Inr timestamp) \<and>
    py_update H True files' (lit ''t'') (lit ''d'') timestamp Py_Reader =
      (r', Inl (RuntimeError ''CacheReader_Initialize failed with code 1''))"
    by blast
qed

end
