(* ===== verification/Utf8_Text.thy ===== *)
theory Utf8_Text
  imports Axon_Base
begin

text \<open>
  Text in UTF-16 and in UTF-8: the encoder of Java's \<open>String\<close>, which the writer of the Java classes
  uses for keys and values, and a decoder that inverts it on text.
\<close>

section \<open>Encoding\<close>

text \<open>
  \<open>getBytes(StandardCharsets.UTF_8)\<close> of Java: one to four bytes for a character, and \<open>?\<close> for a
  surrogate without its partner.
\<close>

definition high_surrogate :: "u16 \<Rightarrow> bool" where "high_surrogate u \<longleftrightarrow> 0xD800 \<le> u \<and> u < 0xDC00"
definition low_surrogate :: "u16 \<Rightarrow> bool" where "low_surrogate u \<longleftrightarrow> 0xDC00 \<le> u \<and> u < 0xE000"

definition continuation :: "u32 \<Rightarrow> byte" where "continuation c = 0x80 OR ucast (c AND 0x3F)"

fun getBytes_utf8 :: "u16 list \<Rightarrow> bytes" where
  "getBytes_utf8 [] = []"
| "getBytes_utf8 [u] =
     (if u < 0x80 then [ucast u]
      else if u < 0x800 then [0xC0 OR ucast (drop_bit 6 u), continuation (ucast u)]
      else if high_surrogate u \<or> low_surrogate u then [63]
      else [0xE0 OR ucast (drop_bit 12 u), continuation (ucast (drop_bit 6 u)), continuation (ucast u)])"
| "getBytes_utf8 (u # v # rest) =
     (if high_surrogate u \<and> low_surrogate v
      then let c = 0x10000 + push_bit 10 (ucast u - 0xD800) + (ucast v - 0xDC00) :: u32
           in (0xF0 OR ucast (drop_bit 18 c)) # continuation (drop_bit 12 c) # continuation (drop_bit 6 c) #
              continuation c # getBytes_utf8 rest
      else getBytes_utf8 [u] @ getBytes_utf8 (v # rest))"

text \<open>Every surrogate has its partner.\<close>

fun paired :: "u16 list \<Rightarrow> bool" where
  "paired [] = True"
| "paired [u] = (\<not> high_surrogate u \<and> \<not> low_surrogate u)"
| "paired (u # v # rest) =
     (if high_surrogate u \<and> low_surrogate v then paired rest
      else \<not> high_surrogate u \<and> \<not> low_surrogate u \<and> paired (v # rest))"

lemma getBytes_utf8_empty [simp]: "getBytes_utf8 text = [] \<longleftrightarrow> text = []"
  by (cases "text" rule: getBytes_utf8.cases) (simp_all add: Let_def)

section \<open>Decoding\<close>

definition payload :: "byte \<Rightarrow> nat" where "payload b = unat b mod 64"

fun decode_utf8 :: "bytes \<Rightarrow> u16 list" where
  "decode_utf8 [] = []"
| "decode_utf8 (a # rest) =
     (if unat a < 0x80 then of_nat (unat a) # decode_utf8 rest
      else if unat a < 0xE0 then
        (case rest of b # rest' \<Rightarrow> of_nat ((unat a - 0xC0) * 64 + payload b) # decode_utf8 rest' | _ \<Rightarrow> [])
      else if unat a < 0xF0 then
        (case rest of b # c # rest' \<Rightarrow>
           of_nat ((unat a - 0xE0) * 4096 + payload b * 64 + payload c) # decode_utf8 rest' | _ \<Rightarrow> [])
      else
        (case rest of b # c # d # rest' \<Rightarrow>
           let n = (unat a - 0xF0) * 262144 + payload b * 4096 + payload c * 64 + payload d - 0x10000
           in of_nat (0xD800 + n div 1024) # of_nat (0xDC00 + n mod 1024) # decode_utf8 rest' | _ \<Rightarrow> []))"

section \<open>Bytes as numbers\<close>

lemma unat_or_lead:
  fixes m x :: byte
  assumes "take_bit k m = 0" and "unat x < 2 ^ k" and "unat m + 2 ^ k \<le> 256"
  shows "unat (m OR x) = unat m + unat x"
proof -
  have x: "take_bit k x = x"
    using assms(2) by (intro word_unat_eq_iff [THEN iffD2]) (simp add: unsigned_take_bit_eq take_bit_nat_eq_self)
  have "m AND x = 0"
  proof (rule bit_word_eqI)
    fix n
    show "bit (m AND x) n = bit 0 n"
      using arg_cong [OF assms(1), of "\<lambda>w. bit w n"] arg_cong [OF x, of "\<lambda>w. bit w n"]
      by (auto simp: bit_take_bit_iff bit_and_iff)
  qed
  then have "m OR x = m + x" by (simp add: disjunctive_add_eq_or)
  then show ?thesis using assms(2,3) by (simp add: unat_word_ariths)
qed

lemma unat_small_ucast: "unat u < 256 \<Longrightarrow> unat (ucast (u :: 'a::len word) :: byte) = unat u"
  by (simp add: unsigned_ucast_eq take_bit_nat_eq_self)

lemma unat_continuation: "unat (continuation c) = 128 + unat c mod 64"
proof -
  have c: "c AND 0x3F = take_bit 6 c" by (simp add: take_bit_eq_mask mask_eq_exp_minus_1)
  have t: "unat (take_bit 6 c) = unat c mod 64" by (simp only: unsigned_take_bit_eq) (simp add: take_bit_eq_mod)
  have u: "unat (ucast (take_bit 6 c) :: byte) = unat c mod 64"
    by (subst unat_small_ucast) (simp_all add: t order.strict_trans [OF mod_less_divisor])
  show ?thesis
    unfolding continuation_def c by (subst unat_or_lead [where k = 6]) (simp_all add: u)
qed

lemma payload_continuation [simp]: "payload (continuation c) = unat c mod 64"
  by (simp add: payload_def unat_continuation mod_add_eq [symmetric])

lemma unat_or_drop:
  fixes w :: "'a::len word"
  assumes "take_bit k m = 0" and "unat m + 2 ^ k \<le> 256" and "unat w < 2 ^ (n + k)"
  shows "unat (m OR ucast (drop_bit n w) :: byte) = unat m + unat w div 2 ^ n"
proof -
  have d: "unat (drop_bit n w) < 2 ^ k" using assms(3) by (simp add: unat_drop div_less_iff_less_mult power_add mult.commute)
  then have "unat (drop_bit n w) < 256" using assms(2) by linarith
  from unat_small_ucast [OF this] have u: "unat (ucast (drop_bit n w) :: byte) = unat (drop_bit n w)" .
  show ?thesis using unat_or_lead [OF assms(1) _ assms(2), of "ucast (drop_bit n w)"] d by (simp only: u) (simp add: unat_drop)
qed

lemma unat_two_byte: "unat u < 2048 \<Longrightarrow> unat (0xC0 OR ucast (drop_bit 6 (u :: u16)) :: byte) = 0xC0 + unat u div 64"
  using unat_or_drop [of 5 "0xC0" u 6] by simp

lemma unat_three_byte: "unat (0xE0 OR ucast (drop_bit 12 (u :: u16)) :: byte) = 0xE0 + unat u div 4096"
  using unat_or_drop [of 4 "0xE0" u 12] unsigned_less [of u] by simp

lemma unat_four_byte: "unat c < 2097152 \<Longrightarrow> unat (0xF0 OR ucast (drop_bit 18 (c :: u32)) :: byte) = 0xF0 + unat c div 262144"
  using unat_or_drop [of 3 "0xF0" c 18] by simp


lemmas byte_values = unat_two_byte unat_three_byte unat_four_byte unat_continuation

lemma unat_up: "unat (ucast (u :: u16) :: u32) = unat u"
proof -
  have u: "unat u < 2 ^ LENGTH(16)" by (rule unsigned_less)
  have "take_bit 32 (unat u) = unat u" by (rule take_bit_nat_eq_self, rule less_trans [OF u]) simp
  then show ?thesis by (simp add: unsigned_ucast_eq)
qed

lemma split_64: "n div 64 * 64 + n mod 64 = (n :: nat)"
  by simp

lemma split_4096: "n div 4096 * 4096 + n div 64 mod 64 * 64 + n mod 64 = (n :: nat)"
proof -
  have "n div 4096 = n div 64 div 64" by (simp add: div_mult2_eq [of n 64 64, simplified])
  with split_64 [of "n div 64"] split_64 [of n] show ?thesis by linarith
qed

lemma split_262144: "n div 262144 * 262144 + n div 4096 mod 64 * 4096 + n div 64 mod 64 * 64 + n mod 64 = (n :: nat)"
proof -
  have "n div 262144 = n div 4096 div 64" by (simp add: div_mult2_eq [of n 4096 64, simplified])
  with split_64 [of "n div 4096"] split_4096 [of n] show ?thesis by linarith
qed

lemma decode_unit:
  assumes "\<not> high_surrogate u" "\<not> low_surrogate u"
  shows "decode_utf8 (getBytes_utf8 [u] @ rest) = u # decode_utf8 rest"
proof -
  consider "unat u < 128" | "128 \<le> unat u" "unat u < 2048" | "2048 \<le> unat u" by linarith
  then show ?thesis
  proof cases
    case 1
    then show ?thesis by (simp add: word_less_nat_alt unat_small_ucast)
  next
    case 2
    have "192 \<le> 192 + unat u div 64" "192 + unat u div 64 < 224" using 2 by auto
    then show ?thesis
      using 2 by (simp add: word_less_nat_alt unat_two_byte unat_up split_64)
  next
    case 3
    have l: "unat u div 4096 < 16" using unsigned_less [of u] by (simp add: div_less_iff_less_mult)
    have d: "unat (ucast (drop_bit 6 u) :: u32) = unat u div 64" by (simp only: unat_up unat_drop) simp
    have "getBytes_utf8 [u] @ rest =
        (0xE0 OR ucast (drop_bit 12 u)) # continuation (ucast (drop_bit 6 u)) # continuation (ucast u) # rest"
      using 3 assms by (simp add: word_less_nat_alt)
    moreover have "decode_utf8 ((0xE0 OR ucast (drop_bit 12 u)) # continuation (ucast (drop_bit 6 u)) # continuation (ucast u) # rest) =
       u # decode_utf8 rest"
      using l by (simp only: decode_utf8.simps unat_three_byte list.case payload_continuation d unat_up [of u] add_diff_cancel_left' split_4096) simp
    ultimately show ?thesis by simp
  qed
qed

lemma unat_code_point:
  fixes a b :: u32
  assumes "unat a < 1024" "unat b < 1024"
  shows "unat (0x10000 + push_bit 10 a + b) = 65536 + unat a * 1024 + unat b"
  using assms by (simp add: push_bit_eq_mult unat_word_ariths)

lemma unat_pair:
  assumes "high_surrogate u" "low_surrogate v"
  shows "unat (0x10000 + push_bit 10 (ucast u - 0xD800) + (ucast v - 0xDC00) :: u32) =
    65536 + (unat u - 0xD800) * 1024 + (unat v - 0xDC00)"
    and "0xD800 \<le> unat u" "unat u < 0xDC00" "0xDC00 \<le> unat v" "unat v < 0xE000"
proof -
  show b: "0xD800 \<le> unat u" "unat u < 0xDC00" "0xDC00 \<le> unat v" "unat v < 0xE000"
    using assms by (simp_all add: high_surrogate_def low_surrogate_def word_less_nat_alt word_le_nat_alt)
  have "unat (ucast u - 0xD800 :: u32) = unat u - 0xD800" "unat (ucast v - 0xDC00 :: u32) = unat v - 0xDC00"
    using b by (simp_all add: unat_sub word_le_nat_alt unat_up)
  with b unat_code_point [of "ucast u - 0xD800" "ucast v - 0xDC00"]
  show "unat (0x10000 + push_bit 10 (ucast u - 0xD800) + (ucast v - 0xDC00) :: u32) =
    65536 + (unat u - 0xD800) * 1024 + (unat v - 0xDC00)" by simp
qed

lemma decode_pair:
  assumes "high_surrogate u" "low_surrogate v"
  shows "decode_utf8 (getBytes_utf8 (u # v # rest)) = u # v # decode_utf8 (getBytes_utf8 rest)"
proof -
  let ?c = "0x10000 + push_bit 10 (ucast u - 0xD800) + (ucast v - 0xDC00) :: u32"
  note p = unat_pair [OF assms]
  have n: "65536 \<le> unat ?c" "unat ?c < 2097152" using p by auto
  have l: "unat ?c div 262144 < 8" using n by (simp add: div_less_iff_less_mult)
  have d: "unat (drop_bit 12 ?c) = unat ?c div 4096" "unat (drop_bit 6 ?c) = unat ?c div 64" by (simp_all only: unat_drop) simp_all
  have "unat ?c - 65536 = (unat u - 0xD800) * 1024 + (unat v - 0xDC00)" using p(1) by linarith
  moreover have "unat v - 0xDC00 < 1024" using p(2-) by linarith
  ultimately have q: "(unat ?c - 65536) div 1024 = unat u - 0xD800" "(unat ?c - 65536) mod 1024 = unat v - 0xDC00"
    by simp_all
  have r: "(of_nat (0xD800 + (unat u - 0xD800)) :: u16) = u" "(of_nat (0xDC00 + (unat v - 0xDC00)) :: u16) = v"
    using p(2-) by simp_all
  have "getBytes_utf8 (u # v # rest) = (0xF0 OR ucast (drop_bit 18 ?c)) # continuation (drop_bit 12 ?c) #
      continuation (drop_bit 6 ?c) # continuation ?c # getBytes_utf8 rest"
    using assms by (simp add: Let_def)
  moreover have "decode_utf8 ((0xF0 OR ucast (drop_bit 18 ?c)) # continuation (drop_bit 12 ?c) #
      continuation (drop_bit 6 ?c) # continuation ?c # getBytes_utf8 rest) = u # v # decode_utf8 (getBytes_utf8 rest)"
    using l by (simp only: decode_utf8.simps unat_four_byte [OF n(2)] list.case payload_continuation d Let_def
        add_diff_cancel_left' split_262144 q r) simp
  ultimately show ?thesis by simp
qed

lemma decode_getBytes: "paired chars \<Longrightarrow> decode_utf8 (getBytes_utf8 chars) = chars"
proof (induction chars rule: paired.induct)
  case (2 u)
  then show ?case using decode_unit [of u "[]"] by simp
next
  case (3 u v rest)
  show ?case
  proof (cases "high_surrogate u \<and> low_surrogate v")
    case True
    with 3 show ?thesis by (simp add: decode_pair del: getBytes_utf8.simps)
  next
    case False
    then have "getBytes_utf8 (u # v # rest) = getBytes_utf8 [u] @ getBytes_utf8 (v # rest)"
      by (simp only: getBytes_utf8.simps) simp
    moreover have "\<not> high_surrogate u" "\<not> low_surrogate u" "paired (v # rest)"
      using False 3(3) by (auto split: if_splits)
    ultimately show ?thesis using decode_unit 3(2) [OF False] by (simp del: getBytes_utf8.simps)
  qed
qed simp

section \<open>ASCII\<close>

lemma getBytes_ascii: "\<forall>u \<in> set chars. u < 0x80 \<Longrightarrow> getBytes_utf8 chars = map ucast chars \<and> paired chars"
proof (induction chars rule: getBytes_utf8.induct)
  case (2 u)
  then show ?case by (auto simp: high_surrogate_def low_surrogate_def word_less_nat_alt word_le_nat_alt)
next
  case (3 u v rest)
  then have "\<not> high_surrogate u" "\<not> low_surrogate u"
    by (auto simp: high_surrogate_def low_surrogate_def word_less_nat_alt word_le_nat_alt)
  with 3 show ?case by simp
qed simp

end
