(* ===== verification/Java_Binding.thy ===== *)
theory Java_Binding
  imports Api_Round_Trip Utf8_Text
begin

text \<open>
  The Java classes \<open>CacheReader\<close> and \<open>CacheWriter\<close> (\<open>java/src/main/java\<close>) with the native
  functions behind them (\<open>java/jni\<close>).  An object is its \<open>nativeHandle\<close>: the handle of the C
  interface, or \<open>None\<close> for 0.  A \<open>String\<close> is its UTF-16 units, a null reference \<open>None\<close>.

  The conversions between UTF-8 and UTF-16 that the native side calls belong to the \<open>utfcpp\<close>
  library, which is not part of the repository: they are parameters, as is \<open>NewStringUTF\<close> of
  the virtual machine.  Allocation and class lookups do not fail; the methods are not called
  with a null array or, where Java itself encodes it, a null string.
\<close>

section \<open>Strings\<close>

type_synonym jstring = "u16 list option"

record jni_lib =
  utf16to8 :: "u16 list \<Rightarrow> bytes option"
  utf8to16 :: "bytes \<Rightarrow> u16 list option"
  newStringUTF :: "bytes \<Rightarrow> u16 list"

text \<open>\<open>JniHelpers.h\<close>; an exception of the library makes an empty string or a null reference.\<close>

definition convertToUtf8 :: "jni_lib \<Rightarrow> jstring \<Rightarrow> bytes" where
  "convertToUtf8 L jstr =
     (case jstr of
        None \<Rightarrow> []
      | Some chars \<Rightarrow> (case utf16to8 L chars of None \<Rightarrow> [] | Some utf8result \<Rightarrow> utf8result))"

definition convertToUtf16 :: "jni_lib \<Rightarrow> bytes \<Rightarrow> jstring" where
  "convertToUtf16 L s = (if s = [] then Some [] else utf8to16 L s)"

definition convertToUtf16_len :: "jni_lib \<Rightarrow> bytes option \<Rightarrow> u32 \<Rightarrow> jstring" where
  "convertToUtf16_len L chars len =
     (case chars of
        None \<Rightarrow> None
      | Some s \<Rightarrow> (if sint len \<le> 0 then None else convertToUtf16 L (take (unat len) s)))"

definition convertToUtf16_chars :: "jni_lib \<Rightarrow> bytes option \<Rightarrow> jstring" where
  "convertToUtf16_chars L chars = (case chars of None \<Rightarrow> None | Some s \<Rightarrow> convertToUtf16 L (c_string s))"

section \<open>Native functions of the reader\<close>

definition nativeInitialize ::
  "jni_lib \<Rightarrow> (bytes \<Rightarrow> u64) \<Rightarrow> bool \<Rightarrow> files \<Rightarrow> jstring \<Rightarrow> jstring \<Rightarrow> jstring \<Rightarrow> reader \<Rightarrow> reader \<times> int outcome" where
  "nativeInitialize L H os_ok files taskName destinationFolder timestamp handle =
     initializeReader H os_ok files (c_string (convertToUtf8 L taskName))
       (c_string (convertToUtf8 L destinationFolder)) (c_string (convertToUtf8 L timestamp)) handle"

definition nativeContainsKey :: "jni_lib \<Rightarrow> (bytes \<Rightarrow> u64) \<Rightarrow> reader \<Rightarrow> jstring \<Rightarrow> bool outcome option" where
  "nativeContainsKey L H handle key =
     run_then (containsKey H handle (Some (convertToUtf8 L key))) (\<lambda>hasKey. returns (hasKey \<noteq> 0))"

definition nativeGetKey :: "jni_lib \<Rightarrow> (bytes \<Rightarrow> u64) \<Rightarrow> reader \<Rightarrow> jstring \<Rightarrow> jstring outcome option" where
  "nativeGetKey L H handle key =
     run_then (getKey H handle (Some (convertToUtf8 L key))) (\<lambda>(value, isExist, valueSize).
       returns (if isExist = 0 then None
                else if isExist = 1 \<and> value = None then Some []
                else convertToUtf16_len L value valueSize))"

definition nativeGetLong :: "jni_lib \<Rightarrow> (bytes \<Rightarrow> u64) \<Rightarrow> reader \<Rightarrow> jstring \<Rightarrow> i64 option outcome option" where
  "nativeGetLong L H handle key =
     run_then (getLong H handle (Some (convertToUtf8 L key)) 0) (\<lambda>(result, isExist).
       returns (if isExist = 0 then None else Some result))"

definition nativeGetInteger :: "jni_lib \<Rightarrow> (bytes \<Rightarrow> u64) \<Rightarrow> reader \<Rightarrow> jstring \<Rightarrow> u32 option outcome option" where
  "nativeGetInteger L H handle key =
     run_then (getInteger H handle (Some (convertToUtf8 L key)) 0) (\<lambda>(result, isExist).
       returns (if isExist = 0 then None else Some result))"

definition nativeGetDouble ::
  "jni_lib \<Rightarrow> float_lib \<Rightarrow> (bytes \<Rightarrow> u64) \<Rightarrow> reader \<Rightarrow> jstring \<Rightarrow> f64 option outcome option" where
  "nativeGetDouble L fl H handle key =
     run_then (reader_getDouble fl H handle (Some (convertToUtf8 L key)) 0) (\<lambda>(result, isExist).
       returns (if isExist = 0 then None else Some result))"

definition nativeGetBool :: "jni_lib \<Rightarrow> (bytes \<Rightarrow> u64) \<Rightarrow> reader \<Rightarrow> jstring \<Rightarrow> bool option outcome option" where
  "nativeGetBool L H handle key =
     run_then (reader_getBool H handle (Some (convertToUtf8 L key)) 0) (\<lambda>(result, isExist).
       returns (if isExist = 0 then None else Some (result \<noteq> 0)))"

text \<open>The elements are converted with their sizes, so an empty one stays a null reference.\<close>

definition nativeGetVector ::
  "jni_lib \<Rightarrow> (bytes \<Rightarrow> u64) \<Rightarrow> reader \<Rightarrow> jstring \<Rightarrow> jstring list option outcome option" where
  "nativeGetVector L H handle key =
     run_then (reader_getVector H handle (Some (convertToUtf8 L key))) (\<lambda>(values, vectorSize, valueSizes).
       returns (case (values, valueSizes) of
          (Some vs, Some ns) \<Rightarrow>
            (if sint vectorSize > 0
             then Some (take (unat vectorSize) (map2 (\<lambda>v n. convertToUtf16_len L (Some v) n) vs ns)) else None)
        | _ \<Rightarrow> None))"

definition nativeGetFloatVector ::
  "jni_lib \<Rightarrow> (bytes \<Rightarrow> u64) \<Rightarrow> reader \<Rightarrow> jstring \<Rightarrow> f32 list option outcome option" where
  "nativeGetFloatVector L H handle key =
     run_then (reader_getFloatVector H handle (Some (convertToUtf8 L key))) (\<lambda>(values, vectorSize).
       returns (case values of
          Some vs \<Rightarrow> (if sint vectorSize > 0 then Some (take (unat vectorSize) vs) else None)
        | None \<Rightarrow> None))"

definition nativeGetVectorKeySize :: "jni_lib \<Rightarrow> (bytes \<Rightarrow> u64) \<Rightarrow> reader \<Rightarrow> jstring \<Rightarrow> u32 outcome option" where
  "nativeGetVectorKeySize L H handle key = CacheReader_GetVectorKeySize H handle (Some (convertToUtf8 L key))"

definition nativeGetVectorKey ::
  "jni_lib \<Rightarrow> (bytes \<Rightarrow> u64) \<Rightarrow> reader \<Rightarrow> jstring \<Rightarrow> u32 \<Rightarrow> jstring outcome option" where
  "nativeGetVectorKey L H handle key index =
     run_then (getVectorKeyItem H handle (Some (convertToUtf8 L key)) index) (\<lambda>(value, valueSize).
       returns (case value of None \<Rightarrow> None | Some v \<Rightarrow> convertToUtf16_len L (Some v) valueSize))"

definition nativeGetKeyType :: "jni_lib \<Rightarrow> (bytes \<Rightarrow> u64) \<Rightarrow> reader \<Rightarrow> jstring \<Rightarrow> jstring outcome option" where
  "nativeGetKeyType L H handle key =
     run_then (reader_getKeyType H handle (Some (convertToUtf8 L key))) (\<lambda>(value, valueSize).
       returns (case value of None \<Rightarrow> None | Some v \<Rightarrow> convertToUtf16_len L (Some v) valueSize))"

section \<open>Native functions of the writer\<close>

definition nativeInitialize_writer ::
  "jni_lib \<Rightarrow> (bytes \<Rightarrow> u64) \<Rightarrow> u64 float_parser \<Rightarrow> (nat \<Rightarrow> nat \<Rightarrow> byte) \<Rightarrow> files \<Rightarrow> jstring \<Rightarrow> jstring \<Rightarrow> u64 \<Rightarrow>
   writer \<Rightarrow> writer \<times> int outcome" where
  "nativeInitialize_writer L H ff fresh files taskName settingsLocation numberOfKeySlots handle =
     initializeWriter H ff fresh files (c_string (convertToUtf8 L taskName))
       (c_string (convertToUtf8 L settingsLocation)) numberOfKeySlots handle"

text \<open>The sizes are those of the arrays, as the Java side passes them.\<close>

definition nativeInsertKey ::
  "(bytes \<Rightarrow> u64) \<Rightarrow> float_lib \<Rightarrow> writer \<Rightarrow> bytes \<Rightarrow> bytes \<Rightarrow> int \<Rightarrow> (writer \<times> int outcome) option" where
  "nativeInsertKey H fl handle key value keyType = insertKey H fl handle key value keyType"

definition nativeAddDuplicateValue :: "jni_lib \<Rightarrow> float_lib \<Rightarrow> writer \<Rightarrow> jstring \<Rightarrow> int \<Rightarrow> writer" where
  "nativeAddDuplicateValue L fl handle value keyType =
     CacheWriter_AddDuplicateValue fl handle (convertToUtf8 L value) keyType"

definition nativeGetVersion :: "jni_lib \<Rightarrow> jstring" where
  "nativeGetVersion L = Some (newStringUTF L (lit getCacheVersion))"

definition nativeGetHashFunction :: "jni_lib \<Rightarrow> jstring" where
  "nativeGetHashFunction L = Some (newStringUTF L (lit getCacheHashFunction))"

definition nativeGetCollisionsCounter :: "jni_lib \<Rightarrow> writer \<Rightarrow> jstring" where
  "nativeGetCollisionsCounter L handle = Some (newStringUTF L (getCollisionsCounter handle))"

definition nativeGetLastError :: "jni_lib \<Rightarrow> writer \<Rightarrow> writer \<times> jstring" where
  "nativeGetLastError L handle =
     (let (handle', error) = getLastError handle
      in (handle', if length error > 0 then Some (newStringUTF L (lit error)) else None))"


section \<open>The classes\<close>

text \<open>
  A call raises \<open>IllegalStateException\<close> on a closed object and \<open>UnsatisfiedLinkError\<close> for a
  native function that no library defines.  An exception that leaves the C++ code, or undefined
  behaviour there, takes the process with it: \<open>Native_Fault\<close>.
\<close>

datatype java_error = IllegalStateException string | UnsatisfiedLinkError string | Native_Fault fault

type_synonym 'a java = "java_error + 'a"

definition reader_closed :: java_error where "reader_closed = IllegalStateException ''CacheReader has been closed''"
definition writer_closed :: java_error where "writer_closed = IllegalStateException ''CacheWriter has been closed''"

fun java_result :: "'a outcome \<Rightarrow> 'a java" where
  "java_result (Inl e) = Inl (Native_Fault e)"
| "java_result (Inr x) = Inr x"

subsection \<open>\<open>CacheReader\<close>\<close>

type_synonym java_reader = "reader option"

definition Java_CacheReader :: java_reader where "Java_CacheReader = Some NewCacheReaderHandle"

definition reader_initialize ::
  "jni_lib \<Rightarrow> (bytes \<Rightarrow> u64) \<Rightarrow> bool \<Rightarrow> files \<Rightarrow> jstring \<Rightarrow> jstring \<Rightarrow> jstring \<Rightarrow> java_reader \<Rightarrow> java_reader \<times> int java" where
  "reader_initialize L H os_ok files taskName destinationFolder timestamp self =
     (case self of
        None \<Rightarrow> (self, Inl reader_closed)
      | Some handle \<Rightarrow>
          (let (handle', result) = nativeInitialize L H os_ok files taskName destinationFolder timestamp handle
           in (Some handle', java_result result)))"

definition reader_call :: "java_reader \<Rightarrow> (reader \<Rightarrow> 'a outcome option) \<Rightarrow> 'a java option" where
  "reader_call self native =
     (case self of None \<Rightarrow> Some (Inl reader_closed) | Some handle \<Rightarrow> map_option java_result (native handle))"

definition java_containsKey :: "jni_lib \<Rightarrow> (bytes \<Rightarrow> u64) \<Rightarrow> java_reader \<Rightarrow> jstring \<Rightarrow> bool java option" where
  "java_containsKey L H self key = reader_call self (\<lambda>h. nativeContainsKey L H h key)"

definition java_getString :: "jni_lib \<Rightarrow> (bytes \<Rightarrow> u64) \<Rightarrow> java_reader \<Rightarrow> jstring \<Rightarrow> jstring java option" where
  "java_getString L H self key = reader_call self (\<lambda>h. nativeGetKey L H h key)"

definition java_getLong :: "jni_lib \<Rightarrow> (bytes \<Rightarrow> u64) \<Rightarrow> java_reader \<Rightarrow> jstring \<Rightarrow> i64 option java option" where
  "java_getLong L H self key = reader_call self (\<lambda>h. nativeGetLong L H h key)"

definition java_getInteger :: "jni_lib \<Rightarrow> (bytes \<Rightarrow> u64) \<Rightarrow> java_reader \<Rightarrow> jstring \<Rightarrow> u32 option java option" where
  "java_getInteger L H self key = reader_call self (\<lambda>h. nativeGetInteger L H h key)"

definition java_getDouble :: "jni_lib \<Rightarrow> float_lib \<Rightarrow> (bytes \<Rightarrow> u64) \<Rightarrow> java_reader \<Rightarrow> jstring \<Rightarrow> f64 option java option" where
  "java_getDouble L fl H self key = reader_call self (\<lambda>h. nativeGetDouble L fl H h key)"

definition java_getBoolean :: "jni_lib \<Rightarrow> (bytes \<Rightarrow> u64) \<Rightarrow> java_reader \<Rightarrow> jstring \<Rightarrow> bool option java option" where
  "java_getBoolean L H self key = reader_call self (\<lambda>h. nativeGetBool L H h key)"

definition java_getVector :: "jni_lib \<Rightarrow> (bytes \<Rightarrow> u64) \<Rightarrow> java_reader \<Rightarrow> jstring \<Rightarrow> jstring list option java option" where
  "java_getVector L H self key = reader_call self (\<lambda>h. nativeGetVector L H h key)"

definition java_getFloatVector :: "jni_lib \<Rightarrow> (bytes \<Rightarrow> u64) \<Rightarrow> java_reader \<Rightarrow> jstring \<Rightarrow> f32 list option java option" where
  "java_getFloatVector L H self key = reader_call self (\<lambda>h. nativeGetFloatVector L H h key)"

definition java_getVectorSize :: "jni_lib \<Rightarrow> (bytes \<Rightarrow> u64) \<Rightarrow> java_reader \<Rightarrow> jstring \<Rightarrow> u32 java option" where
  "java_getVectorSize L H self key = reader_call self (\<lambda>h. nativeGetVectorKeySize L H h key)"

definition java_getVectorItem :: "jni_lib \<Rightarrow> (bytes \<Rightarrow> u64) \<Rightarrow> java_reader \<Rightarrow> jstring \<Rightarrow> u32 \<Rightarrow> jstring java option" where
  "java_getVectorItem L H self key index = reader_call self (\<lambda>h. nativeGetVectorKey L H h key index)"

definition java_getKeyType :: "jni_lib \<Rightarrow> (bytes \<Rightarrow> u64) \<Rightarrow> java_reader \<Rightarrow> jstring \<Rightarrow> jstring java option" where
  "java_getKeyType L H self key = reader_call self (\<lambda>h. nativeGetKeyType L H h key)"

text \<open>\<open>close\<close>, here and below: finalised, deleted, and 0 from then on.\<close>

definition reader_close :: "java_reader \<Rightarrow> java_reader" where "reader_close self = None"

subsection \<open>\<open>CacheWriter\<close>\<close>

type_synonym java_writer = "writer option"

definition Java_CacheWriter :: "cache_info \<Rightarrow> java_writer" where
  "Java_CacheWriter info = Some (NewCacheWriterHandle info)"

definition writer_call :: "java_writer \<Rightarrow> (writer \<Rightarrow> writer \<times> 'a outcome) \<Rightarrow> java_writer \<times> 'a java" where
  "writer_call self native =
     (case self of
        None \<Rightarrow> (self, Inl writer_closed)
      | Some handle \<Rightarrow> (let (handle', result) = native handle in (Some handle', java_result result)))"

definition writer_initialize ::
  "jni_lib \<Rightarrow> (bytes \<Rightarrow> u64) \<Rightarrow> u64 float_parser \<Rightarrow> (nat \<Rightarrow> nat \<Rightarrow> byte) \<Rightarrow> files \<Rightarrow> jstring \<Rightarrow> jstring \<Rightarrow> u64 \<Rightarrow>
   java_writer \<Rightarrow> java_writer \<times> int java" where
  "writer_initialize L H ff fresh files taskName settingsLocation numberOfKeySlots self =
     writer_call self (nativeInitialize_writer L H ff fresh files taskName settingsLocation numberOfKeySlots)"

text \<open>\<open>insertKey\<close> with byte arrays, and with strings.\<close>

definition java_insertKey_bytes ::
  "(bytes \<Rightarrow> u64) \<Rightarrow> float_lib \<Rightarrow> java_writer \<Rightarrow> bytes \<Rightarrow> bytes \<Rightarrow> int \<Rightarrow> (java_writer \<times> int java) option" where
  "java_insertKey_bytes H fl self key value keyType =
     (case self of
        None \<Rightarrow> Some (self, Inl writer_closed)
      | Some handle \<Rightarrow>
          map_option (\<lambda>(handle', result). (Some handle', java_result result))
            (nativeInsertKey H fl handle key value keyType))"

definition java_insertKey ::
  "(bytes \<Rightarrow> u64) \<Rightarrow> float_lib \<Rightarrow> java_writer \<Rightarrow> u16 list \<Rightarrow> u16 list \<Rightarrow> int \<Rightarrow> (java_writer \<times> int java) option" where
  "java_insertKey H fl self key value keyType =
     java_insertKey_bytes H fl self (getBytes_utf8 key) (getBytes_utf8 value) keyType"

definition java_addDuplicateValue ::
  "jni_lib \<Rightarrow> float_lib \<Rightarrow> java_writer \<Rightarrow> jstring \<Rightarrow> int \<Rightarrow> java_writer \<times> unit java" where
  "java_addDuplicateValue L fl self value keyType =
     writer_call self (\<lambda>h. (nativeAddDuplicateValue L fl h value keyType, Inr ()))"

definition java_finishAddDuplicateValues :: "(nat \<Rightarrow> nat \<Rightarrow> byte) \<Rightarrow> java_writer \<Rightarrow> java_writer \<times> int java" where
  "java_finishAddDuplicateValues fresh self = writer_call self (finishAddDuplicateValues fresh)"

definition java_getVersion :: "jni_lib \<Rightarrow> java_writer \<Rightarrow> java_writer \<times> jstring java" where
  "java_getVersion L self = writer_call self (\<lambda>h. (h, Inr (nativeGetVersion L)))"

definition java_getHashFunction :: "jni_lib \<Rightarrow> java_writer \<Rightarrow> java_writer \<times> jstring java" where
  "java_getHashFunction L self = writer_call self (\<lambda>h. (h, Inr (nativeGetHashFunction L)))"

definition java_getUniqueKeys :: "java_writer \<Rightarrow> java_writer \<times> u64 java" where
  "java_getUniqueKeys self = writer_call self (\<lambda>h. (h, Inr (getCacheUniqueKeys h)))"

definition java_getMaxCollisions :: "java_writer \<Rightarrow> java_writer \<times> u64 java" where
  "java_getMaxCollisions self = writer_call self (\<lambda>h. (h, Inr (getCacheMaxCollisions h)))"

definition java_getCollisionsCounter :: "jni_lib \<Rightarrow> java_writer \<Rightarrow> java_writer \<times> jstring java" where
  "java_getCollisionsCounter L self = writer_call self (\<lambda>h. (h, Inr (nativeGetCollisionsCounter L h)))"

definition java_finishCacheCreation ::
  "(bytes \<Rightarrow> u64) \<Rightarrow> u64 \<Rightarrow> bytes \<Rightarrow> files \<Rightarrow> java_writer \<Rightarrow> java_writer \<times> files \<times> int java" where
  "java_finishCacheCreation H now junk files self =
     (case self of
        None \<Rightarrow> (self, files, Inl writer_closed)
      | Some handle \<Rightarrow>
          (let (handle', files', result) = finishCacheCreation H now junk files handle
           in (Some handle', files', java_result result)))"

definition java_getLastError :: "jni_lib \<Rightarrow> java_writer \<Rightarrow> java_writer \<times> jstring java" where
  "java_getLastError L self =
     writer_call self (\<lambda>h. let (h', error) = nativeGetLastError L h in (h', Inr error))"

text \<open>Two native methods are declared, but \<open>CacheWriterJNI.cpp\<close> does not define them.\<close>

definition java_setCacheType :: "java_writer \<Rightarrow> int \<Rightarrow> java_writer \<times> unit java" where
  "java_setCacheType self cacheType =
     (self, Inl (if self = None then writer_closed else UnsatisfiedLinkError ''nativeSetCacheType''))"

definition java_setOffsetBits :: "java_writer \<Rightarrow> int \<Rightarrow> java_writer \<times> unit java" where
  "java_setOffsetBits self offsetBits =
     (self, Inl (if self = None then writer_closed else UnsatisfiedLinkError ''nativeSetOffsetBits''))"

definition writer_close :: "java_writer \<Rightarrow> java_writer" where "writer_close self = None"


section \<open>Text\<close>

text \<open>
  What \<open>utfcpp\<close> promises: text is converted, there and back, and UTF-16 that is not text makes
  \<open>utf16to8\<close> raise an exception.
\<close>

definition converts_text :: "jni_lib \<Rightarrow> bool" where
  "converts_text L \<longleftrightarrow>
     (\<forall>text. utf16to8 L text = (if paired text then Some (getBytes_utf8 text) else None)) \<and>
     (\<forall>text. paired text \<longrightarrow> utf8to16 L (getBytes_utf8 text) = Some text)"

lemma convertToUtf8_text:
  assumes "converts_text L"
  shows "paired text \<Longrightarrow> convertToUtf8 L (Some text) = getBytes_utf8 text"
    and "\<not> paired text \<Longrightarrow> convertToUtf8 L (Some text) = []"
  using assms by (simp_all add: convertToUtf8_def converts_text_def)

lemma sint_length: "n < 2 ^ 31 \<Longrightarrow> sint (of_nat n :: u32) = int n"
  by (simp add: signed_of_nat signed_take_bit_int_eq_self)

lemma convertToUtf16_text:
  assumes "converts_text L" and "paired text"
  shows "convertToUtf16 L (getBytes_utf8 text) = Some text"
  using assms by (simp add: convertToUtf16_def converts_text_def)

text \<open>A piece of text out of its copy, at its size; nothing when it is empty.\<close>

lemma convertToUtf16_copy:
  assumes "converts_text L" and "paired text" and "length (getBytes_utf8 text) < 2 ^ 31"
  shows "convertToUtf16_len L (Some (getBytes_utf8 text @ [0])) (of_nat (length (getBytes_utf8 text))) =
     (if text = [] then None else Some text)"
proof -
  let ?s = "getBytes_utf8 text"
  have n: "unat (of_nat (length ?s) :: u32) = length ?s" using assms(3) by (simp add: unat_of_nat)
  have "sint (of_nat (length ?s) :: u32) = int (length ?s)"
    using assms(3) by (simp add: sint_length)
  then show ?thesis using convertToUtf16_text [OF assms(1,2)] by (simp add: convertToUtf16_len_def n)
qed


section \<open>Answers of a reader\<close>

lemmas java_getter_defs = reader_call_def java_containsKey_def java_getString_def java_getLong_def java_getInteger_def
  java_getDouble_def java_getBoolean_def java_getVector_def java_getFloatVector_def java_getVectorSize_def
  java_getVectorItem_def java_getKeyType_def
lemmas native_getter_defs = nativeContainsKey_def nativeGetKey_def nativeGetLong_def nativeGetInteger_def
  nativeGetDouble_def nativeGetBool_def nativeGetVector_def nativeGetFloatVector_def nativeGetVectorKeySize_def
  nativeGetVectorKey_def nativeGetKeyType_def

text \<open>
  What the getters give for a value that was text, and for a key that is absent.  An empty string
  is given as such, but an empty element of a list is a null reference.
\<close>

definition java_gives :: "jni_lib \<Rightarrow> float_lib \<Rightarrow> (bytes \<Rightarrow> u64) \<Rightarrow> java_reader \<Rightarrow> u16 list \<Rightarrow> put_value \<Rightarrow> bool" where
  "java_gives L fl H r key value \<longleftrightarrow>
     java_containsKey L H r (Some key) = Some (Inr True) \<and>
     (case value of
        Put_String s \<Rightarrow> (\<forall>chars. paired chars \<and> s = getBytes_utf8 chars \<longrightarrow>
          java_getString L H r (Some key) = Some (Inr (Some chars)))
      | Put_List ss \<Rightarrow> (\<forall>items. (\<forall>t \<in> set items. paired t) \<and> ss = map getBytes_utf8 items \<longrightarrow>
          java_getVector L H r (Some key) =
            Some (Inr (if items = [] then None else Some (map (\<lambda>t. if t = [] then None else Some t) items))))
      | Put_Bool b \<Rightarrow> java_getBoolean L H r (Some key) = Some (Inr (Some b))
      | Put_Int64 x \<Rightarrow> java_getLong L H r (Some key) = Some (Inr (Some x)) \<and>
                       java_getInteger L H r (Some key) = Some (Inr (Some (ucast x)))
      | Put_Double x \<Rightarrow> java_getDouble L fl H r (Some key) = Some (Inr (Some x))
      | Put_Floats xs \<Rightarrow> java_getFloatVector L H r (Some key) = Some (Inr (if xs = [] then None else Some xs)))"

definition java_gives_nothing :: "jni_lib \<Rightarrow> float_lib \<Rightarrow> (bytes \<Rightarrow> u64) \<Rightarrow> java_reader \<Rightarrow> jstring \<Rightarrow> bool" where
  "java_gives_nothing L fl H r key \<longleftrightarrow>
     java_containsKey L H r key = Some (Inr False) \<and> java_getString L H r key = Some (Inr None) \<and>
     java_getKeyType L H r key = Some (Inr None) \<and> java_getBoolean L H r key = Some (Inr None) \<and>
     java_getInteger L H r key = Some (Inr None) \<and> java_getLong L H r key = Some (Inr None) \<and>
     java_getDouble L fl H r key = Some (Inr None) \<and> java_getVector L H r key = Some (Inr None) \<and>
     java_getFloatVector L H r key = Some (Inr None) \<and> java_getVectorSize L H r key = Some (Inr 0)"

lemma run_then_returns: "run_then (returns x) g = g x"
  by (simp add: returns_def)

lemma convert_copies:
  assumes "converts_text L"
  shows "\<forall>t \<in> set items. paired t \<and> length (getBytes_utf8 t) < 2 ^ 31 \<Longrightarrow>
    map2 (\<lambda>v n. convertToUtf16_len L (Some v) n) (map (\<lambda>v. v @ [0]) (map getBytes_utf8 items))
      (map (\<lambda>v. of_nat (length v)) (map getBytes_utf8 items)) = map (\<lambda>t. if t = [] then None else Some t) items"
  by (induction items) (simp_all add: convertToUtf16_copy [OF assms])

lemma java_gives_string:
  assumes L: "converts_text L" and key: "paired key" and s: "paired chars" "length (getBytes_utf8 chars) < 2 ^ 31"
    and g: "getKey H h (Some (getBytes_utf8 key)) = returns (let (p, n) = convertToPointer (getBytes_utf8 chars) in (p, 1, n))"
  shows "java_getString L H (Some h) (Some key) = Some (Inr (Some chars))"
  using g convertToUtf16_copy [OF L s]
  by (simp add: java_getter_defs nativeGetKey_def convertToUtf8_text(1) [OF L key] convertToPointer_def returns_def
      split: if_splits)

lemma java_gives_vector:
  assumes L: "converts_text L" and key: "paired key" and s: "\<forall>t \<in> set items. paired t \<and> length (getBytes_utf8 t) < 2 ^ 31"
    and n: "length items < 2 ^ 31"
    and g: "reader_getVector H h (Some (getBytes_utf8 key)) = returns (convertToPointer_list (map getBytes_utf8 items))"
  shows "java_getVector L H (Some h) (Some key) =
    Some (Inr (if items = [] then None else Some (map (\<lambda>t. if t = [] then None else Some t) items)))"
proof (cases "items = []")
  case False
  then have "0 < sint (of_nat (length items) :: u32)" "unat (of_nat (length items) :: u32) = length items"
    using n by (simp_all add: sint_length unat_of_nat)
  then show ?thesis
    using False g convert_copies [OF L s]
    by (simp add: java_getter_defs nativeGetVector_def convertToUtf8_text(1) [OF L key] convertToPointer_list_def
        returns_def)
qed (use g in \<open>simp add: java_getter_defs nativeGetVector_def convertToUtf8_text(1) [OF L key]
        convertToPointer_list_def returns_def\<close>)

lemma java_gives_floats:
  assumes L: "converts_text L" and key: "paired key" and n: "length xs < 2 ^ 31"
    and g: "reader_getFloatVector H h (Some (getBytes_utf8 key)) = returns (convertToPointer_floats xs)"
  shows "java_getFloatVector L H (Some h) (Some key) = Some (Inr (if xs = [] then None else Some xs))"
  using g n by (cases "xs = []") (simp_all add: java_getter_defs nativeGetFloatVector_def convertToUtf8_text(1) [OF L key]
      convertToPointer_floats_def returns_def sint_length unat_of_nat)

lemma java_gives_of_handle:
  assumes L: "converts_text L" and key: "paired key"
    and g: "handle_gives fl H h (getBytes_utf8 key) value" and ok: "entry_ok (getBytes_utf8 key, value)"
  shows "java_gives L fl H (Some h) key value"
proof -
  note sz = entry_sizes [OF ok]
  have c: "java_containsKey L H (Some h) (Some key) = Some (Inr True)"
    using g by (simp add: java_getter_defs nativeContainsKey_def convertToUtf8_text(1) [OF L key] handle_gives_def returns_def)
  show ?thesis
  proof (cases "value")
    case (Put_String s)
    with g sz c java_gives_string [OF L key] show ?thesis by (auto simp: java_gives_def handle_gives_def)
  next
    case (Put_List ss)
    have "java_getVector L H (Some h) (Some key) =
        Some (Inr (if items = [] then None else Some (map (\<lambda>t. if t = [] then None else Some t) items)))"
      if "\<forall>t \<in> set items. paired t" "ss = map getBytes_utf8 items" for items
      by (rule java_gives_vector [OF L key]) (use that g sz in \<open>auto simp: Put_List handle_gives_def\<close>)
    with c show ?thesis by (auto simp: java_gives_def Put_List)
  next
    case (Put_Floats xs)
    with g sz c java_gives_floats [OF L key] show ?thesis by (simp add: java_gives_def handle_gives_def)
  qed (use g c in \<open>simp_all add: java_gives_def handle_gives_def java_getter_defs native_getter_defs
        convertToUtf8_text(1) [OF L key] returns_def flag_def\<close>)
qed

lemma java_gives_nothing_of_handle:
  assumes "handle_gives_nothing fl H h (convertToUtf8 L key)"
  shows "java_gives_nothing L fl H (Some h) key"
  using assms
  by (simp add: handle_gives_nothing_def java_gives_nothing_def java_getter_defs native_getter_defs returns_def
      CacheReader_GetVectorKeySize_def)


section \<open>From a writer to a reader\<close>

text \<open>A caller of \<open>insertKey\<close> that stops at the first code other than 0.\<close>

definition java_insert ::
  "(bytes \<Rightarrow> u64) \<Rightarrow> float_lib \<Rightarrow> java_writer \<Rightarrow> u16 list \<times> u16 list \<times> int \<Rightarrow> (java_writer \<times> unit java) option" where
  "java_insert H fl w i =
     (case i of (key, val, type) \<Rightarrow>
        map_option (map_prod id (\<lambda>r. case r of Inl e \<Rightarrow> Inl e
            | Inr code \<Rightarrow> if code = 0 then Inr () else Inl (Native_Fault (Throw ''refused''))))
          (java_insertKey H fl w key val type))"

definition java_inserted_as :: "float_lib \<Rightarrow> u16 list \<times> u16 list \<times> int \<Rightarrow> bytes \<times> put_value \<Rightarrow> bool" where
  "java_inserted_as fl i kv \<longleftrightarrow>
     (case i of (key, val, type) \<Rightarrow> key \<noteq> [] \<and> inserted_as fl (getBytes_utf8 key, getBytes_utf8 val, type) kv)"

definition java_fills :: "java_writer \<Rightarrow> bytes \<Rightarrow> bytes \<Rightarrow> dedup_cache \<Rightarrow> bool" where
  "java_fills w dir name c \<longleftrightarrow> (\<exists>h. w = Some h \<and> fills h dir name c)"

lemma java_insert_ok:
  assumes "java_fills w dir name c" and "java_inserted_as fl i (key, v)"
    and "put (dd_putInternal H) c key v = Some (c', Inr (inserted, n))"
  shows "\<exists>w' r. java_insert H fl w i = Some (w', Inr r) \<and> java_fills w' dir name c'"
proof -
  obtain k t ty where i: "i = (k, t, ty)" by (cases i)
  obtain h where h: "w = Some h" "fills h dir name c" using assms(1) by (auto simp: java_fills_def)
  have as: "k \<noteq> []" "inserted_as fl (getBytes_utf8 k, getBytes_utf8 t, ty) (key, v)"
    using assms(2) by (simp_all add: java_inserted_as_def i)
  from insert_ok [OF h(2) as(2) assms(3)] as(1) obtain h' where
    "insertKey H fl h (getBytes_utf8 k) (getBytes_utf8 t) ty = Some (h', Inr 0)" "fills h' dir name c'" by auto
  then show ?thesis
    by (simp add: java_insert_def i java_insertKey_def java_insertKey_bytes_def h(1) nativeInsertKey_def java_fills_def)
qed

text \<open>A program from a new writer to an open reader of its file.\<close>

lemma java_program_ok:
  assumes "dedup_settings ff files (c_string (convertToUtf8 L settingsLocation)) (c_string (convertToUtf8 L task)) dir name"
    and "fits k kvs" and "list_all2 (java_inserted_as fl) ins kvs" and "length junk = kMaxCacheNameSize"
    and "reader_path (c_string (convertToUtf8 L task')) (c_string (convertToUtf8 L folder)) (c_string (convertToUtf8 L timestamp)) =
      fullCacheFileName dir name"
    and "r \<noteq> None"
  obtains w w1 w2 files' h c where
    "writer_initialize L H ff fresh files task settingsLocation k (Java_CacheWriter info) = (w, Inr 0)"
    and "insert_all (java_insert H fl) w ins = Some (w1, Inr ())"
    and "java_finishCacheCreation H now junk files w1 = (w2, files', Inr 0)"
    and "reader_initialize L H True files' task' folder timestamp r = (Some h, Inr 0)"
    and "serves_dedup h c" and "dedup_reads H c (add_all Map.empty kvs)"
proof -
  obtain h c c1 where h: "initializeWriter H ff fresh files (c_string (convertToUtf8 L task))
      (c_string (convertToUtf8 L settingsLocation)) k (NewCacheWriterHandle info) = (h, Inr 0)"
    "fills h dir name c" and p: "put_all (put (dd_putInternal H)) c kvs = Some (c1, Inr ())"
    "dedup_builds H c1 (add_all Map.empty kvs)" "dedup_space [] (Some LINEAR_PROBE_DEDUP_TYPED) c1 0 8"
    by (rule initializeWriter_ok [OF assms(1,2), where H = H and fresh = fresh and info = info], rule that) assumption+
  have w: "writer_initialize L H ff fresh files task settingsLocation k (Java_CacheWriter info) = (Some h, Inr 0)"
    by (simp add: writer_initialize_def writer_call_def Java_CacheWriter_def nativeInitialize_writer_def h(1))
  have f: "java_fills (Some h) dir name c" by (simp add: java_fills_def h(2))
  have "\<exists>w1. insert_all (java_insert H fl) (Some h) ins = Some (w1, Inr ()) \<and> java_fills w1 dir name c1"
    by (rule insert_all_ok [where R = "\<lambda>w c. java_fills w dir name c", OF _ assms(3) f p(1)]) (rule java_insert_ok)
  then obtain h1 where w1: "insert_all (java_insert H fl) (Some h) ins = Some (Some h1, Inr ())" "fills h1 dir name c1"
    by (auto simp: java_fills_def)
  obtain h2 files' c' where fin: "finishCacheCreation H now junk files h1 = (h2, files', Inr 0)"
    and "\<And>p. p \<noteq> fullCacheFileName dir name \<Longrightarrow> files' p = files p"
    and ld: "load_dedup H True files' (fullCacheFileName dir name) = Inr (c', file_timestamp (fullCacheFileName dir name))"
    and R: "dedup_reads H c' (add_all Map.empty kvs)"
    and ty: "has_type files' (fullCacheFileName dir name) LINEAR_PROBE_DEDUP_TYPED"
    by (rule finishCacheCreation_ok [OF w1(2) p(2,3) assms(4), where now = now and files = files], rule that) assumption+
  have w2: "java_finishCacheCreation H now junk files (Some h1) = (Some h2, files', Inr 0)"
    by (simp add: java_finishCacheCreation_def fin)
  obtain r0 where r0: "r = Some r0" using assms(6) by auto
  obtain h' where "initializeReader H True files' (c_string (convertToUtf8 L task')) (c_string (convertToUtf8 L folder))
      (c_string (convertToUtf8 L timestamp)) r0 = (h', Inr 0)" and s: "serves_dedup h' c'"
    using initializeReader_dedup [of files' "c_string (convertToUtf8 L task')" "c_string (convertToUtf8 L folder)"
        "c_string (convertToUtf8 L timestamp)", unfolded assms(5), OF ty ld] by blast
  then have "reader_initialize L H True files' task' folder timestamp r = (Some h', Inr 0)"
    by (simp add: reader_initialize_def nativeInitialize_def r0)
  from that [OF w w1(1) w2 this s R] show ?thesis .
qed

section \<open>Properties\<close>

text \<open>C27: from a Java writer to a Java reader.  With settings for a dedup cache, a new \<open>CacheWriter\<close> takes
  any sequence of keys and values that fits its slots, each with code 0, and writes the file with
  code 0.  An open \<open>CacheReader\<close> initialised for that file gives, for each key that is text, the
  first value inserted for it by the method of its type: text as it was, an empty string as an
  empty string, an empty element of a vector as a null reference, an empty vector as a null
  reference; and \<open>false\<close>, null or 0 in every method for any other key that is text.\<close>

theorem java_write_then_read:
  assumes "converts_text L"
    and "dedup_settings ff files (c_string (convertToUtf8 L settingsLocation)) (c_string (convertToUtf8 L task)) dir name"
    and "fits k kvs" and "list_all2 (java_inserted_as fl) ins kvs" and "length junk = kMaxCacheNameSize"
    and "reader_path (c_string (convertToUtf8 L task')) (c_string (convertToUtf8 L folder)) (c_string (convertToUtf8 L timestamp)) =
      fullCacheFileName dir name"
    and "r \<noteq> None"
  shows "\<exists>w w1 w2 files' r'.
    writer_initialize L H ff fresh files task settingsLocation k (Java_CacheWriter info) = (w, Inr 0) \<and>
    insert_all (java_insert H fl) w ins = Some (w1, Inr ()) \<and>
    java_finishCacheCreation H now junk files w1 = (w2, files', Inr 0) \<and>
    reader_initialize L H True files' task' folder timestamp r = (r', Inr 0) \<and>
    (\<forall>key v. paired key \<and> map_of kvs (getBytes_utf8 key) = Some v \<longrightarrow> java_gives L fl H r' key v) \<and>
    (\<forall>key. paired key \<and> map_of kvs (getBytes_utf8 key) = None \<longrightarrow> java_gives_nothing L fl H r' (Some key))"
proof -
  obtain w w1 w2 files' h c where p:
    "writer_initialize L H ff fresh files task settingsLocation k (Java_CacheWriter info) = (w, Inr 0)"
    "insert_all (java_insert H fl) w ins = Some (w1, Inr ())"
    "java_finishCacheCreation H now junk files w1 = (w2, files', Inr 0)"
    "reader_initialize L H True files' task' folder timestamp r = (Some h, Inr 0)"
    and s: "serves_dedup h c" "dedup_reads H c (add_all Map.empty kvs)"
    by (rule java_program_ok [OF assms(2-7), where H = H and fresh = fresh and info = info and now = now],
        rule that) assumption+
  have "\<forall>kv \<in> set kvs. entry_ok kv" using assms(3) by (simp add: fits_def)
  note a = map_of_answers [OF s this]
  have "java_gives L fl H (Some h) key v" if "paired key \<and> map_of kvs (getBytes_utf8 key) = Some v" for key v
    using a(1) java_gives_of_handle [OF assms(1)] that by blast
  moreover have "java_gives_nothing L fl H (Some h) (Some key)" if "paired key \<and> map_of kvs (getBytes_utf8 key) = None" for key
    by (rule java_gives_nothing_of_handle) (use a(2) that in \<open>simp add: convertToUtf8_text(1) [OF assms(1)]\<close>)
  ultimately show ?thesis using p by blast
qed

text \<open>C28: keys that are not text.  A key with a surrogate without its partner is inserted with code 0, but
  no reader method finds it afterwards: the writer encodes it with \<open>?\<close> for the surrogate, while the
  reader, whose conversion raises an exception, looks for the empty key.  A null key does the same.\<close>

theorem java_malformed_key:
  assumes "converts_text L"
    and "dedup_settings ff files (c_string (convertToUtf8 L settingsLocation)) (c_string (convertToUtf8 L task)) dir name"
    and "fits k kvs" and "list_all2 (java_inserted_as fl) ins kvs" and "length junk = kMaxCacheNameSize"
    and "reader_path (c_string (convertToUtf8 L task')) (c_string (convertToUtf8 L folder)) (c_string (convertToUtf8 L timestamp)) =
      fullCacheFileName dir name"
    and "r \<noteq> None" and "(key, val, type) \<in> set ins" and "\<not> paired key" and "map_of kvs [] = None"
  shows "\<exists>w w1 w2 files' r'.
    writer_initialize L H ff fresh files task settingsLocation k (Java_CacheWriter info) = (w, Inr 0) \<and>
    insert_all (java_insert H fl) w ins = Some (w1, Inr ()) \<and>
    java_finishCacheCreation H now junk files w1 = (w2, files', Inr 0) \<and>
    reader_initialize L H True files' task' folder timestamp r = (r', Inr 0) \<and>
    java_gives_nothing L fl H r' (Some key) \<and> java_gives_nothing L fl H r' None"
proof -
  obtain w w1 w2 files' h c where p:
    "writer_initialize L H ff fresh files task settingsLocation k (Java_CacheWriter info) = (w, Inr 0)"
    "insert_all (java_insert H fl) w ins = Some (w1, Inr ())"
    "java_finishCacheCreation H now junk files w1 = (w2, files', Inr 0)"
    "reader_initialize L H True files' task' folder timestamp r = (Some h, Inr 0)"
    and s: "serves_dedup h c" "dedup_reads H c (add_all Map.empty kvs)"
    by (rule java_program_ok [OF assms(2-7), where H = H and fresh = fresh and info = info and now = now],
        rule that) assumption+
  have "\<forall>kv \<in> set kvs. entry_ok kv" using assms(3) by (simp add: fits_def)
  from map_of_answers(2) [OF s this assms(10)]
  have n: "handle_gives_nothing fl H h []" .
  have "java_gives_nothing L fl H (Some h) (Some key)"
    by (rule java_gives_nothing_of_handle) (simp add: convertToUtf8_text(2) [OF assms(1,9)] n)
  moreover have "java_gives_nothing L fl H (Some h) None"
    by (rule java_gives_nothing_of_handle) (simp add: convertToUtf8_def n)
  ultimately show ?thesis using p by blast
qed


section \<open>A small program\<close>

definition small_jni :: jni_lib where
  "small_jni = \<lparr>utf16to8 = (\<lambda>chars. if paired chars then Some (getBytes_utf8 chars) else None),
                utf8to16 = (\<lambda>s. Some (decode_utf8 s)), newStringUTF = decode_utf8\<rparr>"

lemma small_jni_converts: "converts_text small_jni"
  by (simp add: converts_text_def small_jni_def decode_getBytes)

definition jchars :: "string \<Rightarrow> u16 list" where "jchars s = map (\<lambda>c. of_char c) s"

lemma small_text:
  "getBytes_utf8 (jchars ''k'') = lit ''k''" "getBytes_utf8 (jchars ''v'') = lit ''v''"
  "getBytes_utf8 (jchars ''x'') = lit ''x''" "getBytes_utf8 [0xD800] = [63]"
  "paired (jchars ''k'')" "paired (jchars ''v'')" "paired (jchars ''x'')" "\<not> paired [0xD800]"
  by (simp_all add: jchars_def lit_def high_surrogate_def low_surrogate_def)

lemma small_names:
  "c_string (convertToUtf8 small_jni (Some (jchars ''s2''))) = lit ''s2''"
  "c_string (convertToUtf8 small_jni (Some (jchars ''n.17.e''))) = lit ''n.17.e''"
  "c_string (convertToUtf8 small_jni (Some (jchars ''n.x''))) = lit ''n.x''"
  "c_string (convertToUtf8 small_jni (Some (jchars ''d''))) = lit ''d''"
  "c_string (convertToUtf8 small_jni (Some (jchars ''17''))) = lit ''17''"
  by (simp_all add: convertToUtf8_def small_jni_def jchars_def lit_def high_surrogate_def low_surrogate_def c_string_def)

lemma small_java_settings:
  "dedup_settings ff small_settings (c_string (convertToUtf8 small_jni (Some (jchars ''s2''))))
     (c_string (convertToUtf8 small_jni (Some (jchars ''n.17.e'')))) (lit ''d'') (lit ''n.17'')"
  unfolding small_names by (rule small_dedup_settings) simp

lemma small_java_path:
  "reader_path (c_string (convertToUtf8 small_jni (Some (jchars ''n.x'')))) (c_string (convertToUtf8 small_jni (Some (jchars ''d''))))
     (c_string (convertToUtf8 small_jni (Some (jchars ''17'')))) = fullCacheFileName (lit ''d'') (lit ''n.17'')"
  unfolding small_names by (simp add: reader_path_def strip_extension_def fullCacheFileName_def kCacheFileNameSuffix_def lit_def)

theorem java_write_then_read_witness:
  "\<forall>H fl ff fresh info. \<exists>w w1 w2 files' r'.
    writer_initialize small_jni H ff fresh small_settings (Some (jchars ''n.17.e'')) (Some (jchars ''s2'')) 8
      (Java_CacheWriter info) = (w, Inr 0) \<and>
    insert_all (java_insert H fl) w [(jchars ''k'', jchars ''v'', 0)] = Some (w1, Inr ()) \<and>
    java_finishCacheCreation H 0 (replicate 32 0) small_settings w1 = (w2, files', Inr 0) \<and>
    reader_initialize small_jni H True files' (Some (jchars ''n.x'')) (Some (jchars ''d'')) (Some (jchars ''17''))
      Java_CacheReader = (r', Inr 0) \<and>
    java_getString small_jni H r' (Some (jchars ''k'')) = Some (Inr (Some (jchars ''v''))) \<and>
    java_getString small_jni H r' (Some (jchars ''x'')) = Some (Inr None)"
proof (intro allI)
  fix H :: "bytes \<Rightarrow> u64" and fl :: float_lib and ff :: "u64 float_parser" and fresh :: "nat \<Rightarrow> nat \<Rightarrow> byte" and info :: cache_info
  let ?kvs = "[(lit ''k'', Put_String (lit ''v''))]" and ?ins = "[(jchars ''k'', jchars ''v'', 0)]"
  have ins: "list_all2 (java_inserted_as fl) ?ins ?kvs"
    using small_inserted [of fl] by (simp add: java_inserted_as_def small_text) (simp add: jchars_def)
  have r: "Java_CacheReader \<noteq> None" by (simp add: Java_CacheReader_def)
  from java_write_then_read [OF small_jni_converts small_java_settings small_fits ins small_junk small_java_path r,
      where H = H and fresh = fresh and info = info and now = 0]
  obtain w w1 w2 files' r' where p:
    "writer_initialize small_jni H ff fresh small_settings (Some (jchars ''n.17.e'')) (Some (jchars ''s2'')) 8
      (Java_CacheWriter info) = (w, Inr 0)"
    "insert_all (java_insert H fl) w ?ins = Some (w1, Inr ())"
    "java_finishCacheCreation H 0 (replicate 32 0) small_settings w1 = (w2, files', Inr 0)"
    "reader_initialize small_jni H True files' (Some (jchars ''n.x'')) (Some (jchars ''d'')) (Some (jchars ''17''))
      Java_CacheReader = (r', Inr 0)"
    and g: "\<forall>key v. paired key \<and> map_of ?kvs (getBytes_utf8 key) = Some v \<longrightarrow> java_gives small_jni fl H r' key v"
    and n: "\<forall>key. paired key \<and> map_of ?kvs (getBytes_utf8 key) = None \<longrightarrow> java_gives_nothing small_jni fl H r' (Some key)"
    by blast
  have "java_getString small_jni H r' (Some (jchars ''k'')) = Some (Inr (Some (jchars ''v'')))"
    using g [rule_format, of "jchars ''k''" "Put_String (lit ''v'')"] by (simp add: small_text java_gives_def)
  moreover have "java_getString small_jni H r' (Some (jchars ''x'')) = Some (Inr None)"
    using n [rule_format, of "jchars ''x''"] by (simp add: small_text java_gives_nothing_def lit_def)
  ultimately show "\<exists>w w1 w2 files' r'.
    writer_initialize small_jni H ff fresh small_settings (Some (jchars ''n.17.e'')) (Some (jchars ''s2'')) 8
      (Java_CacheWriter info) = (w, Inr 0) \<and>
    insert_all (java_insert H fl) w ?ins = Some (w1, Inr ()) \<and>
    java_finishCacheCreation H 0 (replicate 32 0) small_settings w1 = (w2, files', Inr 0) \<and>
    reader_initialize small_jni H True files' (Some (jchars ''n.x'')) (Some (jchars ''d'')) (Some (jchars ''17''))
      Java_CacheReader = (r', Inr 0) \<and>
    java_getString small_jni H r' (Some (jchars ''k'')) = Some (Inr (Some (jchars ''v''))) \<and>
    java_getString small_jni H r' (Some (jchars ''x'')) = Some (Inr None)"
    using p by blast
qed

lemma small_malformed_fits: "fits 8 [([63], Put_String (lit ''v''))]"
  by (simp add: fits_def entry_ok_def kKeyLength_def kValueLength_def entry_cost_def)

theorem java_malformed_key_witness:
  "\<forall>H fl ff fresh info. \<exists>w w1 w2 files' r'.
    writer_initialize small_jni H ff fresh small_settings (Some (jchars ''n.17.e'')) (Some (jchars ''s2'')) 8
      (Java_CacheWriter info) = (w, Inr 0) \<and>
    insert_all (java_insert H fl) w [([0xD800], jchars ''v'', 0)] = Some (w1, Inr ()) \<and>
    java_finishCacheCreation H 0 (replicate 32 0) small_settings w1 = (w2, files', Inr 0) \<and>
    reader_initialize small_jni H True files' (Some (jchars ''n.x'')) (Some (jchars ''d'')) (Some (jchars ''17''))
      Java_CacheReader = (r', Inr 0) \<and>
    java_getString small_jni H r' (Some [0xD800]) = Some (Inr None)"
proof (intro allI)
  fix H :: "bytes \<Rightarrow> u64" and fl :: float_lib and ff :: "u64 float_parser" and fresh :: "nat \<Rightarrow> nat \<Rightarrow> byte" and info :: cache_info
  have ins: "list_all2 (java_inserted_as fl) [([0xD800], jchars ''v'', 0)] [([63], Put_String (lit ''v''))]"
    by (simp add: java_inserted_as_def small_text inserted_as_def scalar_value_def kValueVectorFlag_def del: getBytes_utf8.simps)
  have r: "Java_CacheReader \<noteq> None" by (simp add: Java_CacheReader_def)
  have k: "([0xD800], jchars ''v'', 0) \<in> set [([0xD800], jchars ''v'', 0)]" "map_of [([63], Put_String (lit ''v''))] [] = None"
    by simp_all
  from java_malformed_key [OF small_jni_converts small_java_settings small_malformed_fits ins small_junk small_java_path r
      k(1) small_text(8) k(2), where H = H and fresh = fresh and info = info and now = 0]
  show "\<exists>w w1 w2 files' r'.
    writer_initialize small_jni H ff fresh small_settings (Some (jchars ''n.17.e'')) (Some (jchars ''s2'')) 8
      (Java_CacheWriter info) = (w, Inr 0) \<and>
    insert_all (java_insert H fl) w [([0xD800], jchars ''v'', 0)] = Some (w1, Inr ()) \<and>
    java_finishCacheCreation H 0 (replicate 32 0) small_settings w1 = (w2, files', Inr 0) \<and>
    reader_initialize small_jni H True files' (Some (jchars ''n.x'')) (Some (jchars ''d'')) (Some (jchars ''17''))
      Java_CacheReader = (r', Inr 0) \<and>
    java_getString small_jni H r' (Some [0xD800]) = Some (Inr None)"
    unfolding java_gives_nothing_def by blast
qed

end
