(* ===== verification/Fast_Float_Parser.thy ===== *)
theory Fast_Float_Parser
  imports String_Utils
begin

text \<open>
  How \<open>common/fast_float.h\<close> reads the text of a decimal number: \<open>parse_number_string\<close>, with the
  loops over single digits and over blocks of eight.  A pointer into the text is the text from
  there on, so \<open>p != pend\<close> is \<open>p \<noteq> []\<close>; the functions are called with at least one character.
\<close>

section \<open>Blocks of eight digits\<close>

definition read8_to_u64 :: "bytes \<Rightarrow> u64" where
  "read8_to_u64 chars = of_nat (le_val (take 8 chars))"

definition parse_eight_digits_unrolled :: "u64 \<Rightarrow> u32" where
  "parse_eight_digits_unrolled val0 =
     (let mask = 0x000000FF000000FF;
          mul1 = 0x000F424000000064;
          mul2 = 0x0000271000000001;
          val1 = val0 - 0x3030303030303030;
          val2 = val1 * 10 + drop_bit 8 val1;
          val3 = drop_bit 32 ((val2 AND mask) * mul1 + (drop_bit 16 val2 AND mask) * mul2)
      in ucast val3)"

definition is_made_of_eight_digits_fast :: "u64 \<Rightarrow> bool" where
  "is_made_of_eight_digits_fast val \<longleftrightarrow>
     ((val + 0x4646464646464646) OR (val - 0x3030303030303030)) AND 0x8080808080808080 = 0"

definition digit_of :: "byte \<Rightarrow> u64" where "digit_of c = of_int (int (unat c) - 48)"

text \<open>In rare cases, the products overflow here.\<close>

function loop_parse_if_eight_digits :: "bytes \<Rightarrow> u64 \<Rightarrow> bytes \<times> u64" where
  "loop_parse_if_eight_digits p i =
     (if 8 \<le> length p \<and> is_made_of_eight_digits_fast (read8_to_u64 p)
      then loop_parse_if_eight_digits (drop 8 p)
             (i * 100000000 + ucast (parse_eight_digits_unrolled (read8_to_u64 p)))
      else (p, i))"
  by pat_completeness auto
termination by (relation "measure (\<lambda>(p, i). length p)") auto

declare loop_parse_if_eight_digits.simps [simp del]

section \<open>Parsing a number\<close>

text \<open>\<open>chars_format\<close>: flags.\<close>

definition fmt_scientific :: u32 where "fmt_scientific = 1"
definition fmt_fixed :: u32 where "fmt_fixed = 4"
definition fmt_no_infnan :: u32 where "fmt_no_infnan = 16"
definition FASTFLOAT_JSONFMT :: u32 where "FASTFLOAT_JSONFMT = 32"
definition FASTFLOAT_FORTRANFMT :: u32 where "FASTFLOAT_FORTRANFMT = 64"
definition fmt_general :: u32 where "fmt_general = fmt_fixed OR fmt_scientific"

definition has_flag :: "u32 \<Rightarrow> u32 \<Rightarrow> bool" where "has_flag fmt flag \<longleftrightarrow> fmt AND flag \<noteq> 0"

record parse_options =
  po_format :: u32
  po_decimal_point :: byte

text \<open>The default of \<open>from_chars\<close>: general, with a dot.\<close>

definition parse_options_default :: parse_options where
  "parse_options_default = \<lparr>po_format = fmt_general, po_decimal_point = 46\<rparr>"

record parsed_number =
  pn_exponent :: int
  pn_mantissa :: u64
  pn_lastmatch :: bytes
  pn_negative :: bool
  pn_valid :: bool
  pn_too_many_digits :: bool
  pn_integer :: bytes
  pn_fraction :: "bytes option"

definition starts :: "(byte \<Rightarrow> bool) \<Rightarrow> bytes \<Rightarrow> bool" where
  "starts P p \<longleftrightarrow> (case p of [] \<Rightarrow> False | c # rest \<Rightarrow> P c)"

text \<open>The loops over the digits of the significand, of the exponent, and of the first nineteen digits.\<close>

fun parse_digits :: "bytes \<Rightarrow> u64 \<Rightarrow> bytes \<times> u64" where
  "parse_digits [] i = ([], i)"
| "parse_digits (c # p) i = (if is_digit c then parse_digits p (10 * i + digit_of c) else (c # p, i))"

fun exponent_digits :: "bytes \<Rightarrow> int \<Rightarrow> bytes \<times> int" where
  "exponent_digits [] exp_number = ([], exp_number)"
| "exponent_digits (c # p) exp_number =
     (if is_digit c
      then exponent_digits p
             (if exp_number < 0x10000000 then 10 * exp_number + (int (unat c) - 48) else exp_number)
      else (c # p, exp_number))"

definition minimal_nineteen_digit_integer :: u64 where
  "minimal_nineteen_digit_integer = 1000000000000000000"

fun nineteen_digits :: "bytes \<Rightarrow> u64 \<Rightarrow> bytes \<times> u64" where
  "nineteen_digits [] i = ([], i)"
| "nineteen_digits (c # p) i =
     (if i < minimal_nineteen_digit_integer then nineteen_digits p (i * 10 + digit_of c) else (c # p, i))"

text \<open>The explicit exponent, and the text behind it; \<open>None\<close> for the early return.\<close>

definition parse_exponent :: "u32 \<Rightarrow> bytes \<Rightarrow> (int \<times> bytes) option" where
  "parse_exponent fmt p =
     (if (has_flag fmt fmt_scientific \<and> starts (\<lambda>c. c \<in> {101, 69}) p) \<or>
         (has_flag fmt FASTFLOAT_FORTRANFMT \<and> starts (\<lambda>c. c \<in> {43, 45, 100, 68}) p)
      then let location_of_e = p;
               p1 = (if starts (\<lambda>c. c \<in> {101, 69, 100, 68}) p then drop 1 p else p);
               neg_exp = starts (\<lambda>c. c = 45) p1;
               p2 = (if neg_exp \<or> starts (\<lambda>c. c = 43) p1 then drop 1 p1 else p1)
           in if \<not> starts is_digit p2
              then (if \<not> has_flag fmt fmt_fixed then None else Some (0, location_of_e))
              else let (p3, exp_number) = exponent_digits p2 0
                   in Some (if neg_exp then - exp_number else exp_number, p3)
      else if has_flag fmt fmt_scientific \<and> \<not> has_flag fmt fmt_fixed then None else Some (0, p))"

text \<open>
  More than nineteen digits, leading zeros apart: the first nineteen again, with the exponent
  that belongs to them.
\<close>

definition truncate_digits :: "bytes \<Rightarrow> bytes option \<Rightarrow> int \<Rightarrow> int \<times> u64" where
  "truncate_digits integer fraction exp_number =
     (let (p, i) = nineteen_digits integer 0
      in if minimal_nineteen_digit_integer \<le> i then (int (length p) + exp_number, i)
         else let frac = (case fraction of None \<Rightarrow> [] | Some s \<Rightarrow> s);
                  (q, j) = nineteen_digits frac i
              in (int (length q) - int (length frac) + exp_number, j))"

text \<open>The digits behind a decimal point; the text behind them, the mantissa so far and the span of the digits.\<close>

definition parse_fraction :: "byte \<Rightarrow> bytes \<Rightarrow> u64 \<Rightarrow> bytes \<times> u64 \<times> bytes option" where
  "parse_fraction decimal_point p i =
     (if starts (\<lambda>c. c = decimal_point) p
      then let start = drop 1 p;
               (q, j) = loop_parse_if_eight_digits start i;
               (q', j') = parse_digits q j
           in (q', j', Some (take (length start - length q') start))
      else (p, i, None))"

text \<open>\<open>before - p\<close>, which is 0 without a decimal point.\<close>

definition fraction_exponent :: "bytes option \<Rightarrow> int" where
  "fraction_exponent fraction = (case fraction of None \<Rightarrow> 0 | Some s \<Rightarrow> - int (length s))"

text \<open>The end of the parse, from the exponent on.\<close>

definition finish_number :: "parse_options \<Rightarrow> bytes \<Rightarrow> int \<Rightarrow> u64 \<Rightarrow> bytes \<Rightarrow> parsed_number \<Rightarrow> parsed_number" where
  "finish_number options start_digits digit_count i p answer =
     (let exponent = fraction_exponent (pn_fraction answer)
      in case parse_exponent (po_format options) p of
           None \<Rightarrow> answer
         | Some (exp_number, rest) \<Rightarrow>
             (let significant = digit_count - int (length (filter (\<lambda>c. c = 48)
                    (takeWhile (\<lambda>c. c = 48 \<or> c = po_decimal_point options) start_digits)));
                  many = (digit_count > 19 \<and> significant > 19);
                  (e, m) = (if many then truncate_digits (pn_integer answer) (pn_fraction answer) exp_number
                            else (exponent + exp_number, i))
              in answer\<lparr>pn_exponent := e, pn_mantissa := m, pn_lastmatch := rest, pn_valid := True,
                        pn_too_many_digits := many\<rparr>))"

definition parse_number_string :: "bytes \<Rightarrow> parse_options \<Rightarrow> parsed_number" where
  "parse_number_string text0 options =
     (let fmt = po_format options; decimal_point = po_decimal_point options;
          negative = starts (\<lambda>c. c = 45) text0;
          answer = \<lparr>pn_exponent = 0, pn_mantissa = 0, pn_lastmatch = [], pn_negative = negative, pn_valid = False,
                    pn_too_many_digits = False, pn_integer = [], pn_fraction = None\<rparr>;
          start_digits = (if negative then drop 1 text0 else text0)
      in if negative \<and>
            (if has_flag fmt FASTFLOAT_JSONFMT then \<not> starts is_digit start_digits
             else \<not> starts (\<lambda>c. is_digit c \<or> c = decimal_point) start_digits)
         then answer
         else
         let (p, i) = parse_digits start_digits 0;
             digit_count = int (length start_digits) - int (length p);
             answer1 = answer\<lparr>pn_integer := take (nat digit_count) start_digits\<rparr>
         in if has_flag fmt FASTFLOAT_JSONFMT \<and> (digit_count = 0 \<or> (starts (\<lambda>c. c = 48) start_digits \<and> digit_count > 1))
         then answer1
         else
         let (q, j, fraction) = parse_fraction decimal_point p i;
             exponent = fraction_exponent fraction;
             answer2 = answer1\<lparr>pn_fraction := fraction\<rparr>
         in if (if has_flag fmt FASTFLOAT_JSONFMT then fraction \<noteq> None \<and> exponent = 0 else digit_count - exponent = 0)
         then answer2
         else finish_number options start_digits (digit_count - exponent) j q answer2)"

section \<open>The block test and the block value\<close>

lemma add_mod_bytes: "x < 256 \<Longrightarrow> (x + 256 * y) mod (256 * 256 ^ n) = x + 256 * (y mod 256 ^ n)" for x y :: nat
  by (simp add: mod_mult2_eq)

definition bytes_below :: "nat \<Rightarrow> nat \<Rightarrow> bool" where
  "bytes_below n v \<longleftrightarrow> (\<forall>i<n. v div 256 ^ i mod 256 < 128)"

lemma bytes_below_Suc: "x < 256 \<Longrightarrow> bytes_below (Suc n) (x + 256 * y) \<longleftrightarrow> x < 128 \<and> bytes_below n y"
  by (auto simp: bytes_below_def less_Suc_eq_0_disj div_mult2_eq)

lemma is_digit_nat: "is_digit c \<longleftrightarrow> 48 \<le> unat c \<and> unat c \<le> 57"
  by (simp add: is_digit_def word_le_nat_alt)

lemma eight_digits_bytes:
  "bytes_below (length bs) ((le_val bs + le_val (replicate (length bs) 0x46)) mod 256 ^ length bs) \<and>
   bytes_below (length bs) ((le_val bs + (256 ^ length bs - le_val (replicate (length bs) 0x30))) mod 256 ^ length bs) \<longleftrightarrow>
   (\<forall>b \<in> set bs. is_digit b)"
proof (induction bs)
  case (Cons b bs)
  let ?n = "length bs" and ?v = "le_val bs"
  let ?p = "le_val (replicate ?n 0x46)" and ?z = "le_val (replicate ?n 0x30)"
  have zb: "?z < 256 ^ ?n" using le_val_bound [of "replicate ?n 0x30"] by simp
  show ?case
  proof (cases "is_digit b")
    case True
    then have b: "48 \<le> unat b" "unat b \<le> 57" by (simp_all add: is_digit_nat)
    define c where "c = unat b - 48"
    then have c: "unat b = 48 + c" "c < 10" using b by auto
    have e: "le_val (b # bs) + le_val (replicate (Suc ?n) 0x46) = (unat b + 70) + 256 * (?v + ?p)" by simp
    have e1: "(le_val (b # bs) + le_val (replicate (Suc ?n) 0x46)) mod 256 ^ Suc ?n =
        (unat b + 70) + 256 * ((?v + ?p) mod 256 ^ ?n)"
      unfolding e power_Suc by (rule add_mod_bytes) (use b in simp)
    have "le_val (b # bs) + (256 ^ Suc ?n - le_val (replicate (Suc ?n) 0x30)) =
        c + 256 * (?v + (256 ^ ?n - ?z))"
      using c zb by simp
    then have "(le_val (b # bs) + (256 ^ Suc ?n - le_val (replicate (Suc ?n) 0x30))) mod 256 ^ Suc ?n =
        (c + 256 * (?v + (256 ^ ?n - ?z))) mod (256 * 256 ^ ?n)"
      by (simp only: power_Suc)
    also have "\<dots> = c + 256 * ((?v + (256 ^ ?n - ?z)) mod 256 ^ ?n)"
      by (rule add_mod_bytes) (use c in simp)
    finally have "(le_val (b # bs) + (256 ^ Suc ?n - le_val (replicate (Suc ?n) 0x30))) mod 256 ^ Suc ?n =
        c + 256 * ((?v + (256 ^ ?n - ?z)) mod 256 ^ ?n)" .
    then show ?thesis
      using e1 Cons.IH b c True by (simp add: bytes_below_Suc del: le_val.simps replicate.simps power_Suc)
  next
    case False
    have "\<not> (bytes_below (Suc ?n) ((le_val (b # bs) + le_val (replicate (Suc ?n) 0x46)) mod 256 ^ Suc ?n) \<and>
       bytes_below (Suc ?n) ((le_val (b # bs) + (256 ^ Suc ?n - le_val (replicate (Suc ?n) 0x30))) mod 256 ^ Suc ?n))"
    proof
      assume a: "bytes_below (Suc ?n) ((le_val (b # bs) + le_val (replicate (Suc ?n) 0x46)) mod 256 ^ Suc ?n) \<and>
       bytes_below (Suc ?n) ((le_val (b # bs) + (256 ^ Suc ?n - le_val (replicate (Suc ?n) 0x30))) mod 256 ^ Suc ?n)"
      have m: "x mod 256 ^ Suc ?n mod 256 = x mod 256" for x :: nat
        by (metis dvd_triv_left mod_mod_cancel power_Suc)
      have "(le_val (b # bs) + le_val (replicate (Suc ?n) 0x46)) mod 256 < 128"
        using a unfolding bytes_below_def by (metis m div_by_1 power_0 zero_less_Suc)
      moreover have "(le_val (b # bs) + (256 ^ Suc ?n - le_val (replicate (Suc ?n) 0x30))) mod 256 < 128"
        using a unfolding bytes_below_def by (metis m div_by_1 power_0 zero_less_Suc)
      moreover have "le_val (b # bs) + le_val (replicate (Suc ?n) 0x46) = (unat b + 70) + 256 * (?v + ?p)" by simp
      moreover have "le_val (b # bs) + (256 ^ Suc ?n - le_val (replicate (Suc ?n) 0x30)) =
          (unat b + 208) + 256 * (?v + (256 ^ ?n - ?z - 1))" using zb by simp
      ultimately have "(unat b + 70) mod 256 < 128" "(unat b + 208) mod 256 < 128" by (simp_all only: mod_mult_self2)
      moreover have "unat b < 256" by (rule unat_byte_bound)
      ultimately have "48 \<le> unat b \<and> unat b \<le> 57"
        by (cases "unat b < 186"; cases "unat b < 48") (auto simp: mod_if split: if_splits)
      then show False using False by (simp add: is_digit_nat)
    qed
    then show ?thesis using False by simp
  qed
qed (simp add: bytes_below_def)


lemma unat_read8: "8 \<le> length p \<Longrightarrow> unat (read8_to_u64 p) = le_val (take 8 p)"
  using le_val_bound [of "take 8 p"] by (simp add: read8_to_u64_def unat_of_nat)

lemma high_bits:
  "(0x8080808080808080 :: u64) = 2 ^ 7 OR (2 ^ 15 OR (2 ^ 23 OR (2 ^ 31 OR (2 ^ 39 OR (2 ^ 47 OR (2 ^ 55 OR 2 ^ 63))))))"
  by simp

lemma and_high_bits:
  "v AND (2 ^ 7 OR (2 ^ 15 OR (2 ^ 23 OR (2 ^ 31 OR (2 ^ 39 OR (2 ^ 47 OR (2 ^ 55 OR 2 ^ 63))))))) = (0 :: u64) \<longleftrightarrow>
   \<not> bit v 7 \<and> \<not> bit v 15 \<and> \<not> bit v 23 \<and> \<not> bit v 31 \<and> \<not> bit v 39 \<and> \<not> bit v 47 \<and> \<not> bit v 55 \<and> \<not> bit v 63"
  unfolding bit.conj_disj_distrib or_eq_0_iff and_exp_eq_0_iff_not_bit ..

lemma high_bits_clear: "(v AND 0x8080808080808080 = (0 :: u64)) \<longleftrightarrow> bytes_below 8 (unat v)"
proof -
  have b: "bit v (8 * i + 7) \<longleftrightarrow> \<not> unat v div 256 ^ i mod 256 < 128" for i
  proof -
    have "bit v (8 * i + 7) \<longleftrightarrow> odd (unat v div 2 ^ (8 * i + 7))" unfolding bit_iff_odd [of "unat v", symmetric] by (simp add: bit_unsigned_iff)
    also have "unat v div 2 ^ (8 * i + 7) = unat v div 256 ^ i div 128"
      by (simp add: power_add power_mult div_mult2_eq)
    also have "odd (x div 128) \<longleftrightarrow> \<not> x mod 256 < 128" for x :: nat
      using mod_mult2_eq [of x 128 2] by (cases "even (x div 128)") (auto simp: even_iff_mod_2_eq_zero odd_iff_mod_2_eq_one)
    finally show ?thesis .
  qed
  have "(v AND 0x8080808080808080 = 0) \<longleftrightarrow> \<not> bit v 7 \<and> \<not> bit v 15 \<and> \<not> bit v 23 \<and> \<not> bit v 31 \<and>
      \<not> bit v 39 \<and> \<not> bit v 47 \<and> \<not> bit v 55 \<and> \<not> bit v 63"
    by (rule and_high_bits [folded high_bits])
  also have "\<dots> \<longleftrightarrow> (\<forall>i \<in> {0,1,2,3,4,5,6,7}. \<not> bit v (8 * i + 7))"
    by simp
  also have "\<dots> \<longleftrightarrow> bytes_below 8 (unat v)"
  proof -
    have "i < 8 \<longleftrightarrow> i \<in> {0, 1, 2, 3, 4, 5, 6, 7}" for i :: nat by auto
    then show ?thesis unfolding b bytes_below_def by blast
  qed
  finally show ?thesis .
qed

lemma is_made_of_eight_digits_fast_read:
  assumes "8 \<le> length p"
  shows "is_made_of_eight_digits_fast (read8_to_u64 p) \<longleftrightarrow> (\<forall>c \<in> set (take 8 p). is_digit c)"
proof -
  let ?v = "read8_to_u64 p" and ?n = "le_val (take 8 p)"
  have l: "length (take 8 p) = 8" using assms by simp
  have "replicate 8 x = [x, x, x, x, x, x, x, x]" for x :: byte by (simp add: numeral_eq_Suc)
  then have r: "le_val (replicate 8 0x46) = 0x4646464646464646" "le_val (replicate 8 0x30) = 0x3030303030303030"
    by simp_all
  have a: "unat (?v + 0x4646464646464646) = (?n + le_val (replicate 8 0x46)) mod 256 ^ 8"
    unfolding r by (simp add: unat_word_ariths unat_read8 [OF assms])
  have "?v - 0x3030303030303030 = ?v + 0xCFCFCFCFCFCFCFD0" unfolding diff_eq_eq add.assoc by simp
  then have "unat (?v - 0x3030303030303030) = unat (?v + 0xCFCFCFCFCFCFCFD0)" by (rule arg_cong)
  also have "\<dots> = (?n + (256 ^ 8 - le_val (replicate 8 0x30))) mod 256 ^ 8"
    unfolding r unat_word_ariths unat_read8 [OF assms] by simp
  finally have b: "unat (?v - 0x3030303030303030) = (?n + (256 ^ 8 - le_val (replicate 8 0x30))) mod 256 ^ 8" .
  have "is_made_of_eight_digits_fast ?v \<longleftrightarrow>
      (?v + 0x4646464646464646) AND 0x8080808080808080 = 0 \<and> (?v - 0x3030303030303030) AND 0x8080808080808080 = 0"
    unfolding is_made_of_eight_digits_fast_def bit.conj_disj_distrib2 or_eq_0_iff ..
  also have "\<dots> \<longleftrightarrow> (\<forall>c \<in> set (take 8 p). is_digit c)"
    unfolding high_bits_clear a b using eight_digits_bytes [of "take 8 p"] unfolding l .
  finally show ?thesis .
qed


lemma two_byte_mask: "(0x000000FF000000FF :: u64) = mask 8 OR push_bit 32 (mask 8)"
  by (simp add: mask_eq_exp_minus_1)

lemma unat_two_byte_mask: "unat (x AND 0x000000FF000000FF) = unat x mod 256 + 4294967296 * (unat x div 4294967296 mod 256)" for x :: u64
proof -
  let ?lo = "take_bit 8 x" and ?hi = "push_bit 32 (take_bit 8 (drop_bit 32 x))"
  have "x AND (mask 8 OR push_bit 32 (mask 8)) = ?lo OR ?hi"
    by (rule bit_word_eqI) (auto simp: bit_simps)
  moreover have "?lo AND ?hi = 0"
    by (rule bit_word_eqI) (auto simp: bit_simps)
  ultimately have e: "x AND 0x000000FF000000FF = ?lo + ?hi"
    unfolding two_byte_mask by (simp only: disjunctive_add_eq_or)
  have lo: "unat ?lo = unat x mod 256" by (simp only: unsigned_take_bit_eq) (simp add: take_bit_eq_mod)
  have t: "unat (take_bit 8 (drop_bit 32 x)) = unat x div 4294967296 mod 256"
    by (simp only: unsigned_take_bit_eq unsigned_drop_bit_eq) (simp add: take_bit_eq_mod drop_bit_eq_div)
  have "?hi = take_bit 8 (drop_bit 32 x) * 4294967296" by (simp only: push_bit_eq_mult) simp
  then have "unat ?hi = unat (take_bit 8 (drop_bit 32 x)) * 4294967296 mod 2 ^ 64"
    by (simp only: unat_word_ariths) simp
  also have "\<dots> = 4294967296 * (unat x div 4294967296 mod 256)"
    unfolding t by (subst mod_less) (simp_all add: less_le_trans [OF mult_strict_right_mono [OF mod_less_divisor [of 256]]])
  finally have hi: "unat ?hi = 4294967296 * (unat x div 4294967296 mod 256)" .
  have "unat x mod 256 < 256" "unat x div 4294967296 mod 256 < 256" by simp_all
  then show ?thesis unfolding e unat_word_ariths lo hi by simp
qed

lemma ucast_unat_small: "unat x < 4294967296 \<Longrightarrow> unat (ucast (x :: u64) :: u32) = unat x"
  by (simp add: unsigned_ucast_eq take_bit_nat_eq_self)

lemma low_part: "x < n \<Longrightarrow> (x + n * y) div n = y" "x < n \<Longrightarrow> (x + n * y) mod n = x" for x n y :: nat
  by simp_all

lemma combine_pairs:
  assumes e: "e0 < 100" "e1 < 256" "e2 < 100" "e3 < 256" "e4 < 100" "e5 < 256" "e6 < 100" "e7 < 256"
    and v: "unat (v :: u64) = e0 + 256 * (e1 + 256 * (e2 + 256 * (e3 + 256 * (e4 + 256 * (e5 + 256 * (e6 + 256 * e7))))))"
  shows "unat (drop_bit 32 ((v AND 0x000000FF000000FF) * 0x000F424000000064 + (drop_bit 16 v AND 0x000000FF000000FF) * 0x0000271000000001)) =
    1000000 * e0 + 10000 * e2 + 100 * e4 + e6"
proof -
  have e': "e0 \<le> 99" "e1 \<le> 255" "e2 \<le> 99" "e3 \<le> 255" "e4 \<le> 99" "e5 \<le> 255" "e6 \<le> 99" "e7 \<le> 255" using e by simp_all
  have v': "unat v = (e0 + 256 * (e1 + 256 * (e2 + 256 * e3))) + 4294967296 * (e4 + 256 * (e5 + 256 * (e6 + 256 * e7)))"
    using v by simp
  have lo: "e0 + 256 * (e1 + 256 * (e2 + 256 * e3)) < 4294967296" using e' by simp
  have a: "unat (v AND 0x000000FF000000FF) = e0 + 4294967296 * e4"
  proof -
    have "unat v mod 256 = e0" unfolding v by (rule low_part) (use e in simp)
    moreover have "unat v div 4294967296 mod 256 = e4" unfolding v' low_part(1) [OF lo] by (rule low_part) (use e in simp)
    ultimately show ?thesis by (simp add: unat_two_byte_mask)
  qed
  have w: "unat (drop_bit 16 v) = (e2 + 256 * (e3 + 256 * (e4 + 256 * e5))) + 4294967296 * (e6 + 256 * e7)"
  proof -
    have "unat (drop_bit 16 v) = unat v div 65536" by (simp only: unat_drop) simp
    moreover have "unat v = (e0 + 256 * e1) + 65536 * (e2 + 256 * (e3 + 256 * (e4 + 256 * (e5 + 256 * (e6 + 256 * e7)))))"
      using v by simp
    moreover have "e0 + 256 * e1 < 65536" using e' by simp
    ultimately have "unat (drop_bit 16 v) = e2 + 256 * (e3 + 256 * (e4 + 256 * (e5 + 256 * (e6 + 256 * e7))))"
      by (simp only: low_part)
    then show ?thesis by simp
  qed
  have c: "unat (drop_bit 16 v AND 0x000000FF000000FF) = e2 + 4294967296 * e6"
  proof -
    have l2: "e2 + 256 * (e3 + 256 * (e4 + 256 * e5)) < 4294967296" using e' by simp
    have "e2 + 256 * (e3 + 256 * (e4 + 256 * e5)) + 4294967296 * (e6 + 256 * e7) =
        e2 + 256 * ((e3 + 256 * (e4 + 256 * e5)) + 16777216 * (e6 + 256 * e7))" by simp
    then have "unat (drop_bit 16 v) mod 256 = e2" unfolding w by (simp only:) (rule low_part, use e in simp)
    moreover have "unat (drop_bit 16 v) div 4294967296 mod 256 = e6" unfolding w low_part(1) [OF l2]
      by (rule low_part) (use e in simp)
    ultimately show ?thesis by (simp only: unat_two_byte_mask)
  qed
  let ?R = "(100 * e0 + e2) + 4294967296 * (1000000 * e0 + 10000 * e2 + 100 * e4 + e6)"
  have R: "?R < 2 ^ 64" using e by simp
  have "unat ((v AND 0x000000FF000000FF) * 0x000F424000000064 + (drop_bit 16 v AND 0x000000FF000000FF) * 0x0000271000000001) =
      ((e0 + 4294967296 * e4) * 0x000F424000000064 + (e2 + 4294967296 * e6) * 0x0000271000000001) mod 2 ^ 64"
    unfolding unat_word_ariths a c by (simp add: mod_add_eq)
  also have "(e0 + 4294967296 * e4) * 0x000F424000000064 + (e2 + 4294967296 * e6) * 0x0000271000000001 =
      ?R + 2 ^ 64 * (1000000 * e4 + 10000 * e6)" by simp
  also have "\<dots> mod 2 ^ 64 = ?R" using R by (simp only: mod_mult_self2 mod_less)
  finally have p: "unat ((v AND 0x000000FF000000FF) * 0x000F424000000064 + (drop_bit 16 v AND 0x000000FF000000FF) * 0x0000271000000001) = ?R" .
  have q: "unat (drop_bit 32 x) = unat x div 4294967296" for x :: u64
    by (simp only: unat_drop) simp
  show ?thesis unfolding q p by (rule low_part) (use e in simp)
qed

lemma parse_eight_digits_unrolled_value:
  fixes d0 d1 d2 d3 d4 d5 d6 d7 :: nat
  assumes d: "d0 < 10" "d1 < 10" "d2 < 10" "d3 < 10" "d4 < 10" "d5 < 10" "d6 < 10" "d7 < 10"
    and v: "unat v = (d0 + 48) + 256 * ((d1 + 48) + 256 * ((d2 + 48) + 256 * ((d3 + 48) + 256 * ((d4 + 48) + 256 * ((d5 + 48)
      + 256 * ((d6 + 48) + 256 * (d7 + 48)))))))"
  shows "unat (parse_eight_digits_unrolled v) =
    10000000 * d0 + 1000000 * d1 + 100000 * d2 + 10000 * d3 + 1000 * d4 + 100 * d5 + 10 * d6 + d7"
proof -
  let ?v1 = "v - 0x3030303030303030" and ?x = "d1 + 256 * (d2 + 256 * (d3 + 256 * (d4 + 256 * (d5 + 256 * (d6 + 256 * d7)))))"
  have 1: "unat ?v1 = d0 + 256 * ?x"
    using v by (simp add: unat_sub word_le_nat_alt)
  then have 8: "unat (drop_bit 8 ?v1) = ?x"
    using d by (simp only: unat_drop) simp
  have "10 * (d0 + 256 * ?x) + ?x < 2 ^ 64" using d by simp
  then have 2: "unat (?v1 * 10 + drop_bit 8 ?v1) = 10 * (d0 + 256 * ?x) + ?x"
    unfolding unat_word_ariths 1 8 by (simp add: mod_add_eq)
  have 3: "unat (?v1 * 10 + drop_bit 8 ?v1) = (10 * d0 + d1) + 256 * ((10 * d1 + d2) + 256 * ((10 * d2 + d3) + 256 * ((10 * d3 + d4) + 256 *
      ((10 * d4 + d5) + 256 * ((10 * d5 + d6) + 256 * ((10 * d6 + d7) + 256 * (10 * d7)))))))"
    unfolding 2 by simp
  have "unat (drop_bit 32 (((?v1 * 10 + drop_bit 8 ?v1) AND 0x000000FF000000FF) * 0x000F424000000064 +
      (drop_bit 16 (?v1 * 10 + drop_bit 8 ?v1) AND 0x000000FF000000FF) * 0x0000271000000001)) =
    1000000 * (10 * d0 + d1) + 10000 * (10 * d2 + d3) + 100 * (10 * d4 + d5) + (10 * d6 + d7)"
    by (rule combine_pairs [OF _ _ _ _ _ _ _ _ 3]) (use d in simp_all)
  moreover have "1000000 * (10 * d0 + d1) + 10000 * (10 * d2 + d3) + 100 * (10 * d4 + d5) + (10 * d6 + d7) < 4294967296"
    using d by simp
  ultimately show ?thesis
    unfolding parse_eight_digits_unrolled_def Let_def by (subst ucast_unat_small) simp_all
qed



section \<open>Decimal values\<close>

fun dec_value :: "nat \<Rightarrow> bytes \<Rightarrow> nat" where
  "dec_value acc [] = acc"
| "dec_value acc (c # cs) = dec_value (10 * acc + (unat c - 48)) cs"

lemma dec_value_append: "dec_value n (xs @ ys) = dec_value (dec_value n xs) ys"
  by (induction xs arbitrary: n) auto

lemma dec_value_acc: "dec_value n ds = n * 10 ^ length ds + dec_value 0 ds"
proof (induction ds arbitrary: n)
  case (Cons c cs)
  show ?case
    using Cons [of "10 * n + (unat c - 48)"] Cons [of "unat c - 48"] by (simp add: algebra_simps)
qed simp

lemma dec_value_bound: "\<forall>c \<in> set ds. is_digit c \<Longrightarrow> dec_value 0 ds < 10 ^ length ds"
proof (induction ds)
  case (Cons c cs)
  then have "unat c - 48 \<le> 9" by (auto simp: is_digit_nat)
  then have "(unat c - 48) * 10 ^ length cs \<le> 9 * 10 ^ length cs" by (rule mult_right_mono) simp
  moreover have "dec_value 0 cs < 10 ^ length cs" using Cons by simp
  ultimately have "(unat c - 48) * 10 ^ length cs + dec_value 0 cs < 9 * 10 ^ length cs + 10 ^ length cs"
    by (rule add_le_less_mono)
  then show ?case by (simp add: dec_value_acc [of "unat c - 48"])
qed simp

lemma dec_value_mono: "m \<le> n \<Longrightarrow> dec_value m ds \<le> dec_value n ds"
  by (simp add: dec_value_acc [of m] dec_value_acc [of n])

lemma dec_value_ge: "n \<le> dec_value n ds"
  by (simp add: dec_value_acc [of n] trans_le_add1)

lemma dec_value_zeros: "dec_value 0 (dropWhile (\<lambda>c. c = 48) ds) = dec_value 0 ds"
  by (induction ds) auto

lemma digit_step: "is_digit c \<Longrightarrow> 10 * of_nat n + digit_of c = of_nat (10 * n + (unat c - 48))"
  by (simp add: digit_of_def is_digit_nat of_nat_diff)

section \<open>The loops\<close>

lemma parse_digits_eq:
  "parse_digits p (of_nat n) = (dropWhile is_digit p, of_nat (dec_value n (takeWhile is_digit p)))"
proof (induction p arbitrary: n)
  case (Cons c p)
  show ?case
  proof (cases "is_digit c")
    case True
    then show ?thesis
      by (simp only: parse_digits.simps digit_step [OF True] Cons.IH takeWhile.simps dropWhile.simps dec_value.simps if_True)
  qed simp
qed simp

text \<open>A block of eight digits is worth what its digits are worth one by one.\<close>

theorem eight_digits_value:
  assumes "8 \<le> length p" and "\<forall>c \<in> set (take 8 p). is_digit c"
  shows "unat (parse_eight_digits_unrolled (read8_to_u64 p)) = dec_value 0 (take 8 p)"
proof -
  obtain c0 c1 c2 c3 c4 c5 c6 c7 rest where p: "p = c0 # c1 # c2 # c3 # c4 # c5 # c6 # c7 # rest"
    using assms(1) by (auto simp: numeral_eq_Suc Suc_le_length_iff)
  then have d: "is_digit c0" "is_digit c1" "is_digit c2" "is_digit c3" "is_digit c4" "is_digit c5" "is_digit c6" "is_digit c7"
    using assms(2) by simp_all
  have s: "unat c - 48 < 10 \<and> unat c = (unat c - 48) + 48" if "is_digit c" for c
    using that by (auto simp: is_digit_nat)
  have "unat (read8_to_u64 p) = unat c0 + 256 * (unat c1 + 256 * (unat c2 + 256 * (unat c3 + 256 * (unat c4 + 256 *
      (unat c5 + 256 * (unat c6 + 256 * unat c7))))))"
    using unat_read8 [OF assms(1)] by (simp add: p)
  also have "\<dots> = (unat c0 - 48 + 48) + 256 * ((unat c1 - 48 + 48) + 256 * ((unat c2 - 48 + 48) + 256 * ((unat c3 - 48 + 48) + 256 *
      ((unat c4 - 48 + 48) + 256 * ((unat c5 - 48 + 48) + 256 * ((unat c6 - 48 + 48) + 256 * (unat c7 - 48 + 48)))))))"
    using d s by (metis (no_types))
  finally have v: "unat (read8_to_u64 p) = \<dots>" .
  show ?thesis
    unfolding parse_eight_digits_unrolled_value [OF s [THEN conjunct1, OF d(1)] s [THEN conjunct1, OF d(2)]
        s [THEN conjunct1, OF d(3)] s [THEN conjunct1, OF d(4)] s [THEN conjunct1, OF d(5)] s [THEN conjunct1, OF d(6)]
        s [THEN conjunct1, OF d(7)] s [THEN conjunct1, OF d(8)] v]
    by (simp add: p)
qed

lemma loop_parse_if_eight_digits_eq:
  "(case loop_parse_if_eight_digits p (of_nat n) of (q, j) \<Rightarrow> parse_digits q j) =
     (dropWhile is_digit p, of_nat (dec_value n (takeWhile is_digit p)))"
proof (induction "length p" arbitrary: p n rule: less_induct)
  case less
  show ?case
  proof (cases "8 \<le> length p \<and> is_made_of_eight_digits_fast (read8_to_u64 p)")
    case False
    then show ?thesis by (subst loop_parse_if_eight_digits.simps) (auto simp: parse_digits_eq)
  next
    case True
    then have d: "\<forall>c \<in> set (take 8 p). is_digit c" using is_made_of_eight_digits_fast_read by blast
    have "(ucast (parse_eight_digits_unrolled (read8_to_u64 p)) :: u64) = of_nat (dec_value 0 (take 8 p))"
      unfolding eight_digits_value [OF conjunct1 [OF True] d, symmetric] by simp
    then have i: "of_nat n * 100000000 + ucast (parse_eight_digits_unrolled (read8_to_u64 p)) =
        (of_nat (dec_value n (take 8 p)) :: u64)"
      using True dec_value_acc [of n "take 8 p"] by simp
    have tw: "takeWhile is_digit p = take 8 p @ takeWhile is_digit (drop 8 p)"
      "dropWhile is_digit p = dropWhile is_digit (drop 8 p)"
      using takeWhile_append2 [of "take 8 p" is_digit "drop 8 p"] dropWhile_append2 [of "take 8 p" is_digit "drop 8 p"] d by simp_all
    have "(case loop_parse_if_eight_digits (drop 8 p) (of_nat (dec_value n (take 8 p))) of (q, j) \<Rightarrow> parse_digits q j) =
        (dropWhile is_digit (drop 8 p), of_nat (dec_value (dec_value n (take 8 p)) (takeWhile is_digit (drop 8 p))))"
      by (rule less) (use True in auto)
    then show ?thesis
      using True by (subst loop_parse_if_eight_digits.simps) (simp add: i tw dec_value_append)
  qed
qed

lemma exponent_digits_eq:
  assumes "\<forall>c \<in> set ds. is_digit c" and "\<not> starts is_digit rest" and "dec_value n ds < 0x10000000"
  shows "exponent_digits (ds @ rest) (int n) = (rest, int (dec_value n ds))"
  using assms
proof (induction ds arbitrary: n)
  case Nil
  then show ?case by (cases rest) (auto simp: starts_def)
next
  case (Cons c cs)
  have "n \<le> 10 * n + (unat c - 48)" by simp
  also have "\<dots> \<le> dec_value n (c # cs)" by (simp add: dec_value_ge)
  finally have "n < 0x10000000" using Cons.prems(3) by simp
  moreover have s: "10 * int n + (int (unat c) - 48) = int (10 * n + (unat c - 48))"
    using Cons.prems(1) by (simp add: is_digit_nat of_nat_diff)
  moreover have "exponent_digits (cs @ rest) (int (10 * n + (unat c - 48))) = (rest, int (dec_value (10 * n + (unat c - 48)) cs))"
    by (rule Cons.IH) (use Cons.prems in simp_all)
  ultimately show ?case using Cons.prems(1)
    by (simp only: append_Cons exponent_digits.simps dec_value.simps s) simp
qed

lemma nineteen_digits_from:
  assumes "\<forall>c \<in> set s. is_digit c" and "10 ^ k \<le> n" "n < 10 ^ Suc k" "k \<le> 18"
  shows "nineteen_digits s (of_nat n) = (drop (18 - k) s, of_nat (dec_value n (take (18 - k) s)))"
  using assms
proof (induction s arbitrary: n k)
  case (Cons c cs)
  have "(10 :: nat) ^ Suc k \<le> 10 ^ 19" using Cons.prems(4) by (intro power_increasing) simp_all
  then have "n < 10 ^ 19" using Cons.prems(3) by simp
  then have u: "unat (of_nat n :: u64) = n" by (simp add: unat_of_nat)
  have c: "is_digit c" using Cons.prems(1) by simp
  show ?case
  proof (cases "k = 18")
    case True
    then show ?thesis using Cons.prems(2) by (simp add: word_less_nat_alt u minimal_nineteen_digit_integer_def)
  next
    case False
    then have k: "Suc k \<le> 18" using Cons.prems(4) by simp
    have "(10 :: nat) ^ Suc k \<le> 10 ^ 18" using k by (rule power_increasing) simp
    then have lt: "n < 1000000000000000000" using Cons.prems(3) by simp
    have s: "18 - k = Suc (18 - Suc k)" using k by simp
    have "unat c - 48 \<le> 9" using c by (auto simp: is_digit_nat)
    then have "10 ^ Suc k \<le> 10 * n + (unat c - 48)" "10 * n + (unat c - 48) < 10 ^ Suc (Suc k)"
      using Cons.prems(2,3) by simp_all
    note ih = Cons.IH [OF _ this k]
    have step: "of_nat n * 10 + digit_of c = (of_nat (10 * n + (unat c - 48)) :: u64)"
      using digit_step [OF c, of n] by (simp add: mult.commute)
    show ?thesis
      unfolding s using lt ih Cons.prems(1)
      by (simp only: nineteen_digits.simps step) (simp add: word_less_nat_alt u minimal_nineteen_digit_integer_def)
  qed
qed simp

lemma nineteen_digits_eq:
  assumes "\<forall>c \<in> set ds. is_digit c"
  shows "nineteen_digits ds 0 =
    (drop 19 (dropWhile (\<lambda>c. c = 48) ds), of_nat (dec_value 0 (take 19 (dropWhile (\<lambda>c. c = 48) ds))))"
  using assms
proof (induction ds)
  case (Cons c cs)
  show ?case
  proof (cases "c = 48")
    case True
    with Cons show ?thesis by (simp add: digit_of_def minimal_nineteen_digit_integer_def)
  next
    case False
    have c: "48 \<le> unat c" "unat c \<le> 57" "is_digit c" using Cons.prems by (auto simp: is_digit_nat)
    have "unat c \<noteq> 48" using False by (auto simp: word_unat_eq_iff)
    then have "10 ^ 0 \<le> unat c - 48" "unat c - 48 < 10 ^ Suc 0" using c by simp_all
    from nineteen_digits_from [OF _ this, of cs] Cons.prems
    have "nineteen_digits cs (of_nat (unat c - 48)) = (drop 18 cs, of_nat (dec_value (unat c - 48) (take 18 cs)))" by simp
    moreover have "digit_of c = of_nat (unat c - 48)" using digit_step [OF c(3), of 0] by simp
    ultimately show ?thesis using False by (simp add: minimal_nineteen_digit_integer_def)
  qed
qed simp


section \<open>The text of a number\<close>

text \<open>
  The pieces of a number in the general format: a sign, the digits before and behind a dot, and
  an exponent, which has its letter, its sign and its digits.
\<close>

type_synonym exponent_text = "byte \<times> bytes \<times> bytes"

definition number_text :: "bool \<Rightarrow> bytes \<Rightarrow> bytes option \<Rightarrow> exponent_text option \<Rightarrow> bytes" where
  "number_text neg int_digits frac ex =
     (if neg then [45] else []) @ int_digits @ (case frac of None \<Rightarrow> [] | Some ds \<Rightarrow> 46 # ds) @
     (case ex of None \<Rightarrow> [] | Some (e, sign, ds) \<Rightarrow> e # sign @ ds)"

definition all_digits :: "bytes \<Rightarrow> bytes option \<Rightarrow> bytes" where
  "all_digits int_digits frac = int_digits @ (case frac of None \<Rightarrow> [] | Some ds \<Rightarrow> ds)"

definition fraction_length :: "bytes option \<Rightarrow> nat" where
  "fraction_length frac = (case frac of None \<Rightarrow> 0 | Some ds \<Rightarrow> length ds)"

definition exponent_value :: "exponent_text option \<Rightarrow> int" where
  "exponent_value ex =
     (case ex of None \<Rightarrow> 0 | Some (e, sign, ds) \<Rightarrow> if sign = [45] then - int (dec_value 0 ds) else int (dec_value 0 ds))"

text \<open>A digit at least, an exponent below \<open>2 ^ 28\<close>, and what follows does not continue the number.\<close>

definition proper_number :: "bytes \<Rightarrow> bytes option \<Rightarrow> exponent_text option \<Rightarrow> bytes \<Rightarrow> bool" where
  "proper_number int_digits frac ex rest \<longleftrightarrow>
     (\<forall>c \<in> set (all_digits int_digits frac). is_digit c) \<and> all_digits int_digits frac \<noteq> [] \<and>
     (case ex of None \<Rightarrow> True
      | Some (e, sign, ds) \<Rightarrow> e \<in> {101, 69} \<and> sign \<in> {[], [43], [45]} \<and> ds \<noteq> [] \<and> (\<forall>c \<in> set ds. is_digit c) \<and>
          dec_value 0 ds < 0x10000000) \<and>
     \<not> starts (\<lambda>c. is_digit c \<or> c \<in> {46, 101, 69}) rest"

lemma starts_simps [simp]: "\<not> starts P []" "starts P (c # p) \<longleftrightarrow> P c"
  by (simp_all add: starts_def)

lemma general_flags [simp]:
  "has_flag fmt_general fmt_scientific" "has_flag fmt_general fmt_fixed" "\<not> has_flag fmt_general FASTFLOAT_JSONFMT"
  "\<not> has_flag fmt_general FASTFLOAT_FORTRANFMT" "\<not> has_flag fmt_general fmt_no_infnan"
  by (simp_all add: has_flag_def fmt_general_def fmt_scientific_def fmt_fixed_def FASTFLOAT_JSONFMT_def
      FASTFLOAT_FORTRANFMT_def fmt_no_infnan_def)

lemma no_digit_letters [simp]: "\<not> is_digit 43" "\<not> is_digit 45" "\<not> is_digit 46" "\<not> is_digit 101" "\<not> is_digit 69"
  by (simp_all add: is_digit_def)

lemma digits_stop:
  assumes "\<forall>c \<in> set ds. is_digit c" and "\<not> starts is_digit p"
  shows "takeWhile is_digit (ds @ p) = ds" "dropWhile is_digit (ds @ p) = p"
  using assms by (cases p; simp add: takeWhile_append2 dropWhile_append2)+

definition exponent_tail :: "exponent_text option \<Rightarrow> bytes" where
  "exponent_tail ex = (case ex of None \<Rightarrow> [] | Some (e, sign, ds) \<Rightarrow> e # sign @ ds)"

lemma parse_exponent_eq:
  assumes "proper_number int_digits frac ex rest"
  shows "parse_exponent fmt_general (exponent_tail ex @ rest) = Some (exponent_value ex, rest)"
proof (cases ex)
  case None
  then show ?thesis
    using assms by (cases rest) (auto simp: parse_exponent_def exponent_tail_def exponent_value_def proper_number_def)
next
  case (Some x)
  obtain e sign ds where x: "x = (e, sign, ds)" by (cases x)
  have p: "e \<in> {101, 69}" "sign \<in> {[], [43], [45]}" "ds \<noteq> []" "\<forall>c \<in> set ds. is_digit c" "dec_value 0 ds < 0x10000000"
    and r: "\<not> starts is_digit rest"
    using assms by (auto simp: proper_number_def Some x starts_def split: list.splits)
  have d: "exponent_digits (ds @ rest) 0 = (rest, int (dec_value 0 ds))"
    using exponent_digits_eq [OF p(4) r p(5)] by simp
  obtain c cs where c: "ds = c # cs" "is_digit c" using p(3,4) by (cases ds) auto
  then have "c \<noteq> 43" "c \<noteq> 45" by auto
  then have "starts is_digit (ds @ rest)" "\<not> starts (\<lambda>c. c = 45) (ds @ rest)" "\<not> starts (\<lambda>c. c = 43) (ds @ rest)"
    using c by simp_all
  with p(1,2) d show ?thesis
    by (auto simp: parse_exponent_def exponent_tail_def exponent_value_def Some x Let_def)
qed

text \<open>The zeros in front of the first other digit.\<close>

lemma leading_zeros:
  assumes "\<forall>c \<in> set int_digits. is_digit c" and "\<forall>c \<in> set fs. is_digit c" and "\<not> starts (\<lambda>c. c = 48 \<or> c = 46) tail"
  shows "length (filter (\<lambda>c. c = 48) (takeWhile (\<lambda>c. c = 48 \<or> c = 46) (int_digits @ 46 # fs @ tail))) =
      length (takeWhile (\<lambda>c. c = 48) (int_digits @ fs))"
    and "length (filter (\<lambda>c. c = 48) (takeWhile (\<lambda>c. c = 48 \<or> c = 46) (int_digits @ tail))) =
      length (takeWhile (\<lambda>c. c = 48) int_digits)"
proof -
  have dot: "length (filter (\<lambda>c. c = 48) (takeWhile (\<lambda>c. c = 48 \<or> c = 46) (xs @ tail))) =
      length (takeWhile (\<lambda>c. c = 48) xs)" if "\<forall>c \<in> set xs. is_digit c" for xs :: bytes
    using that
  proof (induction xs)
    case Nil
    then show ?case using assms(3) by (cases tail) auto
  next
    case (Cons c xs)
    then have "c \<noteq> 46" by auto
    with Cons show ?case by auto
  qed
  show "length (filter (\<lambda>c. c = 48) (takeWhile (\<lambda>c. c = 48 \<or> c = 46) (int_digits @ tail))) =
      length (takeWhile (\<lambda>c. c = 48) int_digits)" by (rule dot [OF assms(1)])
  show "length (filter (\<lambda>c. c = 48) (takeWhile (\<lambda>c. c = 48 \<or> c = 46) (int_digits @ 46 # fs @ tail))) =
      length (takeWhile (\<lambda>c. c = 48) (int_digits @ fs))"
    using assms(1)
  proof (induction int_digits)
    case Nil
    then show ?case using dot [OF assms(2)] by simp
  next
    case (Cons c xs)
    then have "c \<noteq> 46" by auto
    with Cons show ?case by auto
  qed
qed

lemma leading_digit_bound:
  assumes "\<forall>c \<in> set xs. is_digit c" and "\<not> starts (\<lambda>c. c = 48) xs" and "xs \<noteq> []"
  shows "10 ^ (length xs - 1) \<le> dec_value 0 xs"
proof -
  obtain c cs where xs: "xs = c # cs" using assms(3) by (cases xs) auto
  have "unat c \<noteq> 48" using assms(2) by (auto simp: xs word_unat_eq_iff)
  then have "1 \<le> unat c - 48" using assms(1) by (auto simp: xs is_digit_nat)
  then have "1 * 10 ^ length cs \<le> (unat c - 48) * 10 ^ length cs" by (rule mult_right_mono) simp
  then have "10 ^ length cs \<le> (unat c - 48) * 10 ^ length cs + dec_value 0 cs" by linarith
  then show ?thesis by (simp add: xs dec_value_acc [of "unat c - 48"])
qed

lemma nineteen_digits_stop:
  assumes s: "\<forall>c \<in> set s. is_digit c" "\<not> starts (\<lambda>c. c = 48) s"
  shows "minimal_nineteen_digit_integer \<le> of_nat (dec_value 0 (take 19 s)) \<longleftrightarrow> 19 \<le> length s"
proof -
  let ?t = "take 19 s"
  have d: "\<forall>c \<in> set ?t. is_digit c" using s(1) by (blast dest: in_set_takeD)
  note b = dec_value_bound [OF d]
  have "(10 :: nat) ^ length ?t \<le> 10 ^ 19" by (intro power_increasing) simp_all
  then have u: "unat (of_nat (dec_value 0 ?t) :: u64) = dec_value 0 ?t" using b by (simp add: unat_of_nat)
  have m: "minimal_nineteen_digit_integer \<le> of_nat (dec_value 0 ?t) \<longleftrightarrow> 10 ^ 18 \<le> dec_value 0 ?t"
    by (simp add: word_le_nat_alt u minimal_nineteen_digit_integer_def)
  show ?thesis
  proof (cases "19 \<le> length s")
    case True
    have "\<not> starts (\<lambda>c. c = 48) ?t" "?t \<noteq> []" using s(2) True by (cases s; auto)+
    from leading_digit_bound [OF d this] True show ?thesis unfolding m by simp
  next
    case False
    then have "(10 :: nat) ^ length ?t \<le> 10 ^ 18" by (intro power_increasing) simp_all
    with b False show ?thesis unfolding m by linarith
  qed
qed

text \<open>Both loops together take the first nineteen digits.\<close>

lemma nineteen_digits_both:
  assumes s: "\<forall>c \<in> set s. is_digit c" "\<not> starts (\<lambda>c. c = 48) s" "s \<noteq> []" "length s < 19"
    and fs: "\<forall>c \<in> set fs. is_digit c" "19 < length s + length fs"
  shows "nineteen_digits fs (of_nat (dec_value 0 s)) =
    (drop (19 - length s) fs, of_nat (dec_value 0 (take 19 (s @ fs))))"
proof -
  let ?k = "length s - 1"
  have k: "18 - ?k = 19 - length s" "?k \<le> 18" "Suc ?k = length s" using s(3,4) by (cases s; simp)+
  have "10 ^ ?k \<le> dec_value 0 s" by (rule leading_digit_bound [OF s(1-3)])
  moreover have "dec_value 0 s < 10 ^ Suc ?k" using dec_value_bound [OF s(1)] unfolding k(3) .
  ultimately have "nineteen_digits fs (of_nat (dec_value 0 s)) =
      (drop (18 - ?k) fs, of_nat (dec_value (dec_value 0 s) (take (18 - ?k) fs)))"
    by (rule nineteen_digits_from [OF fs(1) _ _ k(2)])
  then show ?thesis using s(4) unfolding k(1) by (simp add: dec_value_append)
qed

lemma starts_dropWhile [simp]: "\<not> starts P (dropWhile P xs)"
proof (cases "dropWhile P xs")
  case Nil
  show ?thesis unfolding Nil by simp
next
  case (Cons y ys)
  then have "\<not> P y" using hd_dropWhile [of P xs] by (metis list.sel(1) list.distinct(1))
  then show ?thesis unfolding Cons by simp
qed

lemma truncate_digits_eq:
  assumes d: "\<forall>c \<in> set (all_digits int_digits frac). is_digit c"
    and n: "19 < length (dropWhile (\<lambda>c. c = 48) (all_digits int_digits frac))"
  shows "truncate_digits int_digits frac x =
    (x - int (fraction_length frac) + int (length (dropWhile (\<lambda>c. c = 48) (all_digits int_digits frac))) - 19,
     of_nat (dec_value 0 (take 19 (dropWhile (\<lambda>c. c = 48) (all_digits int_digits frac)))))"
proof -
  define fs where "fs = (case frac of None \<Rightarrow> [] | Some ds \<Rightarrow> ds)"
  have fl: "fraction_length frac = length fs" by (simp add: fraction_length_def fs_def split: option.split)
  have all: "all_digits int_digits frac = int_digits @ fs" by (simp add: all_digits_def fs_def)
  have di: "\<forall>c \<in> set int_digits. is_digit c" and df: "\<forall>c \<in> set fs. is_digit c" using d by (auto simp: all)
  define s where "s = dropWhile (\<lambda>c. c = 48) int_digits"
  have ds: "\<forall>c \<in> set s. is_digit c" "\<not> starts (\<lambda>c. c = 48) s" using di by (auto simp: s_def dest: set_dropWhileD)
  note i = nineteen_digits_eq [OF di, folded s_def] and stop = nineteen_digits_stop [OF ds]
  have app: "dropWhile (\<lambda>c. c = 48) (int_digits @ fs) = (if s = [] then dropWhile (\<lambda>c. c = 48) fs else s @ fs)"
    unfolding s_def by (auto simp: dropWhile_append)
  consider "19 \<le> length s" | "s = []" | "s \<noteq> []" "length s < 19" by linarith
  then show ?thesis
  proof cases
    case 1
    then have "s \<noteq> []" by auto
    with 1 stop show ?thesis by (simp add: truncate_digits_def i all app fl Let_def)
  next
    case 2
    then have "truncate_digits int_digits frac x =
        (int (length (drop 19 (dropWhile (\<lambda>c. c = 48) fs))) - int (length fs) + x,
         of_nat (dec_value 0 (take 19 (dropWhile (\<lambda>c. c = 48) fs))))"
      using stop by (simp add: truncate_digits_def i nineteen_digits_eq [OF df] fs_def [symmetric])
    moreover have "19 < length (dropWhile (\<lambda>c. c = 48) fs)" using n by (simp only: all app 2 simp_thms if_True)
    ultimately show ?thesis by (simp only: all app 2 if_True fl) simp
  next
    case 3
    have l: "19 < length s + length fs" using n 3 by (simp add: all app)
    from 3 stop have "truncate_digits int_digits frac x =
        (int (length (drop (19 - length s) fs)) - int (length fs) + x, of_nat (dec_value 0 (take 19 (s @ fs))))"
      by (simp only: truncate_digits_def i Let_def prod.case fs_def [symmetric] take_all_iff less_imp_le [OF 3(2)]
          nineteen_digits_both [OF ds 3 df l] not_le [symmetric]) (simp add: nineteen_digits_both [OF ds 3 df l] del: take_append)
    moreover have "int (length (drop (19 - length s) fs)) - int (length fs) = int (length s) - 19" using l 3 by simp
    ultimately show ?thesis using 3 by (simp only: all app if_False fl length_append of_nat_add) simp
  qed
qed

text \<open>The parse of a number in the general format, with what follows it.\<close>

definition significant :: "bytes \<Rightarrow> bytes option \<Rightarrow> bytes" where
  "significant int_digits frac = dropWhile (\<lambda>c. c = 48) (all_digits int_digits frac)"

definition fraction_text :: "bytes option \<Rightarrow> bytes" where
  "fraction_text frac = (case frac of None \<Rightarrow> [] | Some ds \<Rightarrow> 46 # ds)"

lemma parse_fraction_eq:
  assumes "case frac of None \<Rightarrow> True | Some ds \<Rightarrow> (\<forall>c \<in> set ds. is_digit c)" and "\<not> starts (\<lambda>c. is_digit c \<or> c = 46) p"
  shows "parse_fraction 46 (fraction_text frac @ p) (of_nat n) =
    (p, of_nat (dec_value n (case frac of None \<Rightarrow> [] | Some ds \<Rightarrow> ds)), frac)"
proof (cases frac)
  case None
  have "\<not> starts (\<lambda>c. c = 46) p" using assms(2) by (cases p) auto
  then show ?thesis by (simp add: parse_fraction_def fraction_text_def None)
next
  case (Some ds)
  have stop: "\<not> starts is_digit p" using assms(2) by (cases p) auto
  have d: "\<forall>c \<in> set ds. is_digit c" using assms(1) by (simp add: Some)
  have "(case loop_parse_if_eight_digits (ds @ p) (of_nat n) of (q, j) \<Rightarrow> parse_digits q j) = (p, of_nat (dec_value n ds))"
    using digits_stop [OF d stop] by (simp add: loop_parse_if_eight_digits_eq)
  then show ?thesis
    by (cases "loop_parse_if_eight_digits (ds @ p) (of_nat n)") (simp add: parse_fraction_def fraction_text_def Some Let_def)
qed

lemma length_significant:
  "int (length (significant int_digits frac)) =
     int (length (all_digits int_digits frac)) - int (length (takeWhile (\<lambda>c. c = 48) (all_digits int_digits frac)))"
  using arg_cong [OF takeWhile_dropWhile_id, of length "\<lambda>c. c = 48" "all_digits int_digits frac"]
  unfolding length_append significant_def by linarith

lemma finish_number_eq:
  assumes ok: "proper_number int_digits frac ex rest"
    and a: "pn_integer answer = int_digits" "pn_fraction answer = frac"
  shows "finish_number parse_options_default (int_digits @ fraction_text frac @ exponent_tail ex @ rest)
      (int (length (all_digits int_digits frac))) i (exponent_tail ex @ rest) answer =
    (let many = 19 < length (significant int_digits frac);
         (e, m) = (if many then truncate_digits int_digits frac (exponent_value ex)
                   else (exponent_value ex - int (fraction_length frac), i))
     in answer\<lparr>pn_exponent := e, pn_mantissa := m, pn_lastmatch := rest, pn_valid := True, pn_too_many_digits := many\<rparr>)"
proof -
  have di: "\<forall>c \<in> set int_digits. is_digit c" and df: "\<forall>c \<in> set (case frac of None \<Rightarrow> [] | Some ds \<Rightarrow> ds). is_digit c"
    using ok by (auto simp: proper_number_def all_digits_def)
  have "\<not> starts (\<lambda>c. c = 48 \<or> c = 46) (exponent_tail ex @ rest)"
    using ok by (cases rest) (auto simp: proper_number_def exponent_tail_def is_digit_def split: option.splits)
  note z = leading_zeros [OF di df this]
  have "length (filter (\<lambda>c. c = 48) (takeWhile (\<lambda>c. c = 48 \<or> c = 46) (int_digits @ fraction_text frac @ exponent_tail ex @ rest))) =
      length (takeWhile (\<lambda>c. c = 48) (all_digits int_digits frac))"
    using z by (cases frac) (simp_all add: fraction_text_def all_digits_def)
  moreover have "fraction_exponent frac = - int (fraction_length frac)"
    by (simp add: fraction_exponent_def fraction_length_def split: option.split)
  moreover have "19 < length (significant int_digits frac) \<longleftrightarrow>
      int (length (all_digits int_digits frac)) > 19 \<and>
      int (length (all_digits int_digits frac)) - int (length (takeWhile (\<lambda>c. c = 48) (all_digits int_digits frac))) > 19"
    using length_significant [of int_digits frac] by linarith
  ultimately show ?thesis
    by (simp add: finish_number_def parse_options_default_def parse_exponent_eq [OF ok] a Let_def)
qed

lemma parse_number_text:
  assumes ok: "proper_number int_digits frac ex rest"
  shows "parse_number_string (number_text neg int_digits frac ex @ rest) parse_options_default =
    (let many = 19 < length (significant int_digits frac);
         (e, m) = (if many then truncate_digits int_digits frac (exponent_value ex)
                   else (exponent_value ex - int (fraction_length frac), of_nat (dec_value 0 (all_digits int_digits frac))))
     in \<lparr>pn_exponent = e, pn_mantissa = m, pn_lastmatch = rest, pn_negative = neg, pn_valid = True,
         pn_too_many_digits = many, pn_integer = int_digits, pn_fraction = frac\<rparr>)"
proof -
  define tail where "tail = exponent_tail ex @ rest"
  define start where "start = int_digits @ fraction_text frac @ tail"
  have whole: "number_text neg int_digits frac ex @ rest = (if neg then 45 # start else start)"
    by (simp add: number_text_def exponent_tail_def start_def tail_def fraction_text_def)
  have di: "\<forall>c \<in> set int_digits. is_digit c" and ne: "all_digits int_digits frac \<noteq> []"
    and df: "case frac of None \<Rightarrow> True | Some ds \<Rightarrow> (\<forall>c \<in> set ds. is_digit c)"
    using ok by (auto simp: proper_number_def all_digits_def split: option.splits)
  have t: "\<not> starts (\<lambda>c. is_digit c \<or> c = 46) tail"
    using ok by (cases rest) (auto simp: proper_number_def exponent_tail_def tail_def split: option.splits)
  have stop: "\<not> starts is_digit (fraction_text frac @ tail)"
    using t by (cases tail) (auto simp: fraction_text_def split: option.split)
  have first: "starts (\<lambda>c. is_digit c \<or> c = 46) start" "\<not> starts (\<lambda>c. c = 45) start"
    using ne di by (cases int_digits; auto simp: start_def all_digits_def fraction_text_def split: option.splits)+
  have p: "parse_digits start 0 = (fraction_text frac @ tail, of_nat (dec_value 0 int_digits))"
    using parse_digits_eq [of start 0] digits_stop [OF di stop] by (simp add: start_def)
  have n: "int (length start) - int (length (fraction_text frac @ tail)) = int (length int_digits)"
    by (simp add: start_def)
  have tk: "take (length int_digits) start = int_digits" by (simp add: start_def)
  note f = parse_fraction_eq [OF df t, of "dec_value 0 int_digits", folded dec_value_append]
  have a: "dec_value 0 (int_digits @ (case frac of None \<Rightarrow> [] | Some ds \<Rightarrow> ds)) = dec_value 0 (all_digits int_digits frac)"
    by (simp add: all_digits_def)
  have l: "int (length int_digits) - fraction_exponent frac = int (length (all_digits int_digits frac))"
    by (simp add: fraction_exponent_def all_digits_def split: option.split)
  have l0: "int (length int_digits) \<noteq> fraction_exponent frac" using ne l by auto
  have o: "po_format parse_options_default = fmt_general" "po_decimal_point parse_options_default = 46"
    by (simp_all add: parse_options_default_def)
  let ?answer = "\<lparr>pn_exponent = 0, pn_mantissa = 0, pn_lastmatch = [], pn_negative = neg, pn_valid = False,
      pn_too_many_digits = False, pn_integer = int_digits, pn_fraction = frac\<rparr>"
  have "parse_number_string (number_text neg int_digits frac ex @ rest) parse_options_default =
      finish_number parse_options_default start (int (length (all_digits int_digits frac)))
        (of_nat (dec_value 0 (all_digits int_digits frac))) tail ?answer"
    using first l0 unfolding parse_number_string_def whole
    by (simp add: o p n tk f a l Let_def del: length_append of_nat_add)
  also have "\<dots> = (let many = 19 < length (significant int_digits frac);
         (e, m) = (if many then truncate_digits int_digits frac (exponent_value ex)
                   else (exponent_value ex - int (fraction_length frac), of_nat (dec_value 0 (all_digits int_digits frac))))
     in ?answer\<lparr>pn_exponent := e, pn_mantissa := m, pn_lastmatch := rest, pn_valid := True, pn_too_many_digits := many\<rparr>)"
    unfolding start_def tail_def by (rule finish_number_eq [OF ok]) simp_all
  finally show ?thesis by (simp add: Let_def split: prod.split)
qed


lemma parse_number_correct:
  assumes "proper_number int_digits frac ex rest"
  shows "let r = parse_number_string (number_text neg int_digits frac ex @ rest) parse_options_default;
             value = dec_value 0 (all_digits int_digits frac); n = length (significant int_digits frac); k = n - 19;
             e = exponent_value ex - int (fraction_length frac)
    in pn_valid r \<and> pn_negative r = neg \<and> pn_lastmatch r = rest \<and> pn_too_many_digits r = (19 < n) \<and>
       pn_exponent r = e + int k \<and>
       unat (pn_mantissa r) * 10 ^ k \<le> value \<and> value < (unat (pn_mantissa r) + 1) * 10 ^ k \<and>
       (19 < n \<longrightarrow> 10 ^ 18 \<le> unat (pn_mantissa r)) \<and> unat (pn_mantissa r) < 10 ^ 19"
proof -
  let ?all = "all_digits int_digits frac" and ?s = "significant int_digits frac"
  have d: "\<forall>c \<in> set ?all. is_digit c" using assms by (simp add: proper_number_def)
  have s: "\<forall>c \<in> set ?s. is_digit c" "\<not> starts (\<lambda>c. c = 48) ?s"
    using d by (auto simp: significant_def dest: set_dropWhileD)
  have v: "dec_value 0 ?s = dec_value 0 ?all" by (simp add: significant_def dec_value_zeros)
  have t: "\<forall>c \<in> set (take 19 ?s). is_digit c" "\<forall>c \<in> set (drop 19 ?s). is_digit c"
    using s(1) by (auto dest: in_set_takeD in_set_dropD)
  have b: "dec_value 0 (take 19 ?s) < 10 ^ 19"
  proof -
    have "(10 :: nat) ^ length (take 19 ?s) \<le> 10 ^ 19" by (intro power_increasing) simp_all
    with dec_value_bound [OF t(1)] show ?thesis by linarith
  qed
  then have u: "unat (of_nat (dec_value 0 (take 19 ?s)) :: u64) = dec_value 0 (take 19 ?s)" by (simp add: unat_of_nat)
  let ?k = "length ?s - 19"
  have split: "dec_value 0 ?s = dec_value 0 (take 19 ?s) * 10 ^ ?k + dec_value 0 (drop 19 ?s)"
    using dec_value_append [of 0 "take 19 ?s" "drop 19 ?s"] dec_value_acc [of "dec_value 0 (take 19 ?s)" "drop 19 ?s"] by simp
  have r: "dec_value 0 (drop 19 ?s) < 10 ^ ?k" using dec_value_bound [OF t(2)] by simp
  have bounds: "dec_value 0 (take 19 ?s) * 10 ^ ?k \<le> dec_value 0 ?all"
    "dec_value 0 ?all < (dec_value 0 (take 19 ?s) + 1) * 10 ^ ?k"
    using split r unfolding v [symmetric] by (simp_all add: algebra_simps)
  have p: "parse_number_string (number_text neg int_digits frac ex @ rest) parse_options_default =
      \<lparr>pn_exponent = exponent_value ex - int (fraction_length frac) + int ?k, pn_mantissa = of_nat (dec_value 0 (take 19 ?s)),
       pn_lastmatch = rest, pn_negative = neg, pn_valid = True, pn_too_many_digits = 19 < length ?s,
       pn_integer = int_digits, pn_fraction = frac\<rparr>"
  proof (cases "19 < length ?s")
    case True
    then show ?thesis
      using truncate_digits_eq [OF d, folded significant_def, of "exponent_value ex"]
      by (simp add: parse_number_text [OF assms] of_nat_diff)
  next
    case False
    then have "take 19 ?s = ?s" by simp
    with False v show ?thesis by (simp add: parse_number_text [OF assms])
  qed
  have "10 ^ 18 \<le> dec_value 0 (take 19 ?s)" if "19 < length ?s"
    using nineteen_digits_stop [OF s] that u by (simp add: word_le_nat_alt minimal_nineteen_digit_integer_def)
  with bounds b u show ?thesis by (simp add: p Let_def)
qed

text \<open>C13: the number behind a text.  For every proper text (a sign, digits with or without a dot, an
  exponent below \<open>2 ^ 28\<close>), whatever follows it, the parse is valid, ends behind the text and has its
  sign.  Up to nineteen significant digits, mantissa and exponent are exactly the number; with more,
  the mantissa is its first nineteen digits, so the number lies between the mantissa and its
  successor at the exponent.  The blocks of eight digits make no difference.\<close>

theorem parse_number_value:
  assumes "proper_number int_digits frac ex rest"
  shows "let r = parse_number_string (number_text neg int_digits frac ex @ rest) parse_options_default;
             value = dec_value 0 (all_digits int_digits frac); n = length (significant int_digits frac); k = n - 19;
             e = exponent_value ex - int (fraction_length frac)
    in pn_valid r \<and> pn_negative r = neg \<and> pn_lastmatch r = rest \<and> pn_too_many_digits r = (19 < n) \<and>
       pn_exponent r = e + int k \<and>
       unat (pn_mantissa r) * 10 ^ k \<le> value \<and> value < (unat (pn_mantissa r) + 1) * 10 ^ k \<and>
       (19 < n \<longrightarrow> 10 ^ 18 \<le> unat (pn_mantissa r)) \<and> unat (pn_mantissa r) < 10 ^ 19"
  using assms by (rule parse_number_correct)

theorem parse_number_value_witness:
  "let r = parse_number_string (lit ''-12.50E+3x'') parse_options_default
   in pn_valid r \<and> pn_negative r \<and> pn_lastmatch r = lit ''x'' \<and> pn_exponent r = 1 \<and> unat (pn_mantissa r) = 1250"
proof -
  have ok: "proper_number (lit ''12'') (Some (lit ''50'')) (Some (69, [43], lit ''3'')) (lit ''x'')"
    by (simp add: proper_number_def all_digits_def lit_def is_digit_def)
  have t: "number_text True (lit ''12'') (Some (lit ''50'')) (Some (69, [43], lit ''3'')) @ lit ''x'' = lit ''-12.50E+3x''"
    by (simp add: number_text_def lit_def)
  have v: "dec_value 0 (all_digits (lit ''12'') (Some (lit ''50''))) = 1250"
    "significant (lit ''12'') (Some (lit ''50'')) = lit ''1250''"
    "exponent_value (Some (69, [43], lit ''3'')) = 3" "fraction_length (Some (lit ''50'')) = 2"
    by (simp_all add: all_digits_def significant_def exponent_value_def fraction_length_def lit_def)
  show ?thesis using parse_number_value [OF ok, of True] unfolding t v by (simp add: Let_def)
qed

end
