(* ===== verification/Float_Rounding.thy ===== *)
theory Float_Rounding
  imports Axon_Base Complex_Main "HOL-Library.Log_Nat"
begin

text \<open>
  Binary floating-point formats as \<open>common/fast_float.h\<close> describes them (\<open>binary_format\<close>), the
  value of the bits of a finite number, and what it means that bits are the nearest number to a
  real: the result that IEEE-754 prescribes, ties to even, infinity from the middle between the
  largest number and the next power of two on.
\<close>

section \<open>Formats\<close>

record binary_format =
  mantissa_explicit_bits :: nat
  minimum_exponent :: int
  infinite_power :: int
  sign_index :: nat
  min_exponent_fast_path :: int
  max_exponent_fast_path :: int
  max_exponent_round_to_even :: int
  min_exponent_round_to_even :: int
  largest_power_of_ten :: int
  smallest_power_of_ten :: int
  max_digits :: nat

definition binary64 :: binary_format where
  "binary64 =
     \<lparr>mantissa_explicit_bits = 52, minimum_exponent = - 1023, infinite_power = 0x7FF, sign_index = 63,
      min_exponent_fast_path = - 22, max_exponent_fast_path = 22, max_exponent_round_to_even = 23,
      min_exponent_round_to_even = - 4, largest_power_of_ten = 308, smallest_power_of_ten = - 342, max_digits = 769\<rparr>"

definition binary32 :: binary_format where
  "binary32 =
     \<lparr>mantissa_explicit_bits = 23, minimum_exponent = - 127, infinite_power = 0xFF, sign_index = 31,
      min_exponent_fast_path = - 10, max_exponent_fast_path = 10, max_exponent_round_to_even = 10,
      min_exponent_round_to_even = - 17, largest_power_of_ten = 38, smallest_power_of_ten = - 65, max_digits = 114\<rparr>"

definition max_mantissa_fast_path :: "binary_format \<Rightarrow> u64" where
  "max_mantissa_fast_path F = push_bit (mantissa_explicit_bits F) 2"

text \<open>The exponent of the last place of a subnormal number, and the bits of infinity.\<close>

definition last_place :: "binary_format \<Rightarrow> int" where
  "last_place F = minimum_exponent F + 1 - int (mantissa_explicit_bits F)"

definition infinity_bits :: "binary_format \<Rightarrow> nat" where
  "infinity_bits F = nat (infinite_power F) * 2 ^ mantissa_explicit_bits F"

definition sound_format :: "binary_format \<Rightarrow> bool" where
  "sound_format F \<longleftrightarrow> 1 \<le> mantissa_explicit_bits F \<and> 1 < infinite_power F"

lemma sound_formats [simp]: "sound_format binary64" "sound_format binary32"
  by (simp_all add: sound_format_def binary64_def binary32_def)

section \<open>Values\<close>

definition float_value :: "binary_format \<Rightarrow> nat \<Rightarrow> real" where
  "float_value F b =
     (let p = mantissa_explicit_bits F
      in if b div 2 ^ p = 0 then real b * 2 powi last_place F
         else real (2 ^ p + b mod 2 ^ p) * 2 powi (last_place F + int (b div 2 ^ p) - 1))"

text \<open>A number is a significand and the exponent of its last place, in more than one way at a power of two.\<close>

lemma float_value_bits:
  assumes "n \<le> 2 ^ Suc (mantissa_explicit_bits F)" and "2 ^ mantissa_explicit_bits F \<le> n \<or> k = 0"
  shows "float_value F (n + k * 2 ^ mantissa_explicit_bits F) = real n * 2 powi (last_place F + int k)"
proof -
  let ?p = "mantissa_explicit_bits F" and ?e = "last_place F"
  consider "n < 2 ^ ?p" "k = 0" | "2 ^ ?p \<le> n" "n < 2 ^ Suc ?p" | "n = 2 ^ Suc ?p"
    using assms by linarith
  then show ?thesis
  proof cases
    case 2
    then have b: "n + k * 2 ^ ?p = Suc k * 2 ^ ?p + (n - 2 ^ ?p)" "n - 2 ^ ?p < 2 ^ ?p" by auto
    have "(n + k * 2 ^ ?p) div 2 ^ ?p = Suc k" unfolding b(1)
      using b(2) by (simp add: div_add1_eq del: mult_Suc)
    moreover have "(n + k * 2 ^ ?p) mod 2 ^ ?p = n - 2 ^ ?p" unfolding b(1)
      using b(2) by (simp del: mult_Suc)
    ultimately show ?thesis using 2 by (simp add: float_value_def Let_def of_nat_diff)
  next
    case 3
    then have "n + k * 2 ^ ?p = Suc (Suc k) * 2 ^ ?p" by simp
    then have "(n + k * 2 ^ ?p) div 2 ^ ?p = Suc (Suc k)" "(n + k * 2 ^ ?p) mod 2 ^ ?p = 0"
      by (simp_all del: mult_Suc)
    then show ?thesis
      using 3 by (simp add: float_value_def Let_def power_int_add)
  qed (simp add: float_value_def)
qed

lemma bits_split:
  obtains n k where "b = n + k * 2 ^ p" and "n < 2 ^ Suc p" and "2 ^ p \<le> n \<or> k = (0 :: nat)"
proof (cases "b < 2 ^ p")
  case True
  then show ?thesis using that [of b 0] by simp
next
  case False
  then have "1 \<le> b div 2 ^ p" by (simp add: div_greater_zero_iff Suc_le_eq)
  then have "1 * 2 ^ p \<le> b div 2 ^ p * 2 ^ p" by (rule mult_right_mono) simp
  with div_mult_mod_eq [of b "2 ^ p"] have "b = (2 ^ p + b mod 2 ^ p) + (b div 2 ^ p - 1) * 2 ^ p"
    unfolding diff_mult_distrib by linarith
  moreover have "2 ^ p + b mod 2 ^ p < 2 ^ Suc p" by simp
  ultimately show ?thesis using that [of "2 ^ p + b mod 2 ^ p" "b div 2 ^ p - 1"] by simp
qed

lemma float_value_Suc: "float_value F b < float_value F (Suc b)"
proof -
  let ?p = "mantissa_explicit_bits F"
  obtain n k where b: "b = n + k * 2 ^ ?p" "n < 2 ^ Suc ?p" "2 ^ ?p \<le> n \<or> k = 0" by (rule bits_split)
  have "float_value F b = real n * 2 powi (last_place F + int k)"
    unfolding b(1) by (rule float_value_bits) (use b in auto)
  moreover have "float_value F (Suc b) = real (Suc n) * 2 powi (last_place F + int k)"
    unfolding b(1) add_Suc [symmetric] by (rule float_value_bits) (use b in auto)
  ultimately show ?thesis by (simp add: mult_strict_right_mono)
qed

lemma float_value_strict_mono: "a < b \<Longrightarrow> float_value F a < float_value F b"
  by (rule lift_Suc_mono_less) (rule float_value_Suc)

lemma float_value_mono: "a \<le> b \<Longrightarrow> float_value F a \<le> float_value F b"
  using float_value_strict_mono [of a b F] by (cases "a = b") auto

section \<open>The nearest number\<close>

definition overflow_threshold :: "binary_format \<Rightarrow> real" where
  "overflow_threshold F = (float_value F (infinity_bits F - 1) + float_value F (infinity_bits F)) / 2"

definition nearest :: "binary_format \<Rightarrow> real \<Rightarrow> nat \<Rightarrow> bool" where
  "nearest F x b \<longleftrightarrow>
     (if x < overflow_threshold F
      then b < infinity_bits F \<and>
        (\<forall>c < infinity_bits F. \<bar>float_value F b - x\<bar> < \<bar>float_value F c - x\<bar> \<or>
           (\<bar>float_value F b - x\<bar> = \<bar>float_value F c - x\<bar> \<and> (even b \<or> b = c)))
      else b = infinity_bits F)"

lemma nearest_between:
  assumes lo: "float_value F b \<le> x" and hi: "x < float_value F (Suc b)" and inf: "Suc b < infinity_bits F"
    and down: "r = b \<Longrightarrow> x - float_value F b < float_value F (Suc b) - x \<or> (x - float_value F b = float_value F (Suc b) - x \<and> even b)"
    and up: "r = Suc b \<Longrightarrow> float_value F (Suc b) - x < x - float_value F b \<or> (x - float_value F b = float_value F (Suc b) - x \<and> odd b)"
    and r: "r = b \<or> r = Suc b"
  shows "nearest F x r"
proof -
  have "float_value F (Suc b) \<le> float_value F (infinity_bits F - 1)" using inf by (intro float_value_mono) simp
  moreover have "float_value F (infinity_bits F - 1) < float_value F (infinity_bits F)"
    using inf by (intro float_value_strict_mono) simp
  ultimately have th: "x < overflow_threshold F" using hi by (simp add: overflow_threshold_def)
  have far: "\<bar>float_value F c - x\<bar> \<ge> x - float_value F b \<and> (c \<noteq> b \<longrightarrow> \<bar>float_value F c - x\<bar> > x - float_value F b)" if "c \<le> b" for c
    using that lo float_value_mono [of c b F] float_value_strict_mono [of c b F] by (cases "c = b") auto
  have far': "\<bar>float_value F c - x\<bar> \<ge> float_value F (Suc b) - x \<and> (c \<noteq> Suc b \<longrightarrow> \<bar>float_value F c - x\<bar> > float_value F (Suc b) - x)"
    if "Suc b \<le> c" for c
    using that hi float_value_mono [of "Suc b" c F] float_value_strict_mono [of "Suc b" c F] by (cases "c = Suc b") auto
  have "\<bar>float_value F r - x\<bar> < \<bar>float_value F c - x\<bar> \<or>
      (\<bar>float_value F r - x\<bar> = \<bar>float_value F c - x\<bar> \<and> (even r \<or> r = c))" for c
  proof (cases "r = b")
    case True
    with down have d: "x - float_value F b < float_value F (Suc b) - x \<or> (x - float_value F b = float_value F (Suc b) - x \<and> even b)" by blast
    have a: "\<bar>float_value F r - x\<bar> = x - float_value F b" using lo True by simp
    show ?thesis unfolding a using far [of c] far' [of c] d True
      by (cases "c \<le> b"; cases "c = b"; cases "c = Suc b") auto
  next
    case False
    with r up have d: "r = Suc b" "float_value F (Suc b) - x < x - float_value F b \<or> (x - float_value F b = float_value F (Suc b) - x \<and> odd b)" by auto
    have a: "\<bar>float_value F r - x\<bar> = float_value F (Suc b) - x" using hi d(1) by simp
    show ?thesis unfolding a using far [of c] far' [of c] d
      by (cases "c \<le> b"; cases "c = b"; cases "c = Suc b") auto
  qed
  then show ?thesis using th inf r by (auto simp: nearest_def)
qed

text \<open>Rounding a significand with a fraction.\<close>

definition round_even :: "nat \<Rightarrow> real \<Rightarrow> nat" where
  "round_even n f = (if f > 1 / 2 \<or> (f = 1 / 2 \<and> odd n) then Suc n else n)"

theorem nearest_round:
  fixes f :: real
  assumes F: "sound_format F" and x: "x = (real n + f) * 2 powi (last_place F + int k)" and f: "0 \<le> f" "f < 1"
    and n: "n < 2 ^ Suc (mantissa_explicit_bits F)" "2 ^ mantissa_explicit_bits F \<le> n \<or> k = 0"
  shows "nearest F x (min (infinity_bits F) (round_even n f + k * 2 ^ mantissa_explicit_bits F))"
proof -
  let ?p = "mantissa_explicit_bits F" and ?u = "2 powi (last_place F + int k) :: real"
  let ?b = "n + k * 2 ^ ?p" and ?inf = "infinity_bits F"
  have u: "0 < ?u" by simp
  have v: "float_value F ?b = real n * ?u" by (rule float_value_bits) (use n in auto)
  have v': "float_value F (Suc ?b) = (real n + 1) * ?u"
    using float_value_bits [of "Suc n" F k] n by (auto simp: add.commute)
  have lo: "float_value F ?b \<le> x" and hi: "x < float_value F (Suc ?b)"
    using f u by (auto simp: v v' x mult_right_mono mult_strict_right_mono)
  have half: "x - float_value F ?b = f * ?u" "float_value F (Suc ?b) - x = (1 - f) * ?u"
    by (simp_all add: v v' x algebra_simps)
  have p: "even (2 ^ ?p :: nat)" and inf: "0 < ?inf" using F by (auto simp: sound_format_def infinity_bits_def)
  then have par: "even ?b \<longleftrightarrow> even n" by simp
  have evi: "even ?inf" using p by (simp add: infinity_bits_def)
  consider "Suc ?b < ?inf" | "Suc ?b = ?inf" | "?inf \<le> ?b" by linarith
  then show ?thesis
  proof cases
    case 1
    have "nearest F x (round_even n f + k * 2 ^ ?p)"
    proof (rule nearest_between [OF lo hi 1])
      show "round_even n f + k * 2 ^ ?p = ?b \<or> round_even n f + k * 2 ^ ?p = Suc ?b" by (simp add: round_even_def)
    next
      assume "round_even n f + k * 2 ^ ?p = ?b"
      then have "f < 1 / 2 \<or> (f = 1 / 2 \<and> even n)" by (auto simp: round_even_def split: if_splits)
      then show "x - float_value F ?b < float_value F (Suc ?b) - x \<or> (x - float_value F ?b = float_value F (Suc ?b) - x \<and> even ?b)"
        unfolding half par using u by auto
    next
      assume "round_even n f + k * 2 ^ ?p = Suc ?b"
      then have "f > 1 / 2 \<or> (f = 1 / 2 \<and> odd n)" by (auto simp: round_even_def split: if_splits)
      then show "float_value F (Suc ?b) - x < x - float_value F ?b \<or> (x - float_value F ?b = float_value F (Suc ?b) - x \<and> odd ?b)"
        unfolding half par using u by auto
    qed
    moreover have "round_even n f + k * 2 ^ ?p \<le> Suc ?b" by (simp add: round_even_def)
    ultimately show ?thesis using 1 by (simp add: min_def)
  next
    case 2
    have th: "overflow_threshold F = (real n + 1 / 2) * ?u"
      unfolding overflow_threshold_def 2 [symmetric] diff_Suc_1 v v' by (simp add: algebra_simps)
    have odd: "odd n" using 2 evi par by (metis even_Suc)
    show ?thesis
    proof (cases "f < 1 / 2")
      case True
      then have "x < overflow_threshold F" unfolding th x using u by (simp add: mult_strict_right_mono)
      moreover have "round_even n f = n" using True by (simp add: round_even_def)
      moreover have "\<bar>float_value F ?b - x\<bar> < \<bar>float_value F c - x\<bar> \<or> ?b = c" if "c < ?inf" for c
      proof -
        have "c \<le> ?b" using that 2 by simp
        then show ?thesis using lo float_value_strict_mono [of c ?b F] by (cases "c = ?b") auto
      qed
      ultimately show ?thesis using 2 by (fastforce simp: nearest_def min_def)
    next
      case False
      then have "\<not> x < overflow_threshold F" unfolding th x using u by (simp add: mult_right_mono not_less)
      moreover have "round_even n f = Suc n" using False odd by (auto simp: round_even_def)
      ultimately show ?thesis using 2 by (simp add: nearest_def)
    qed
  next
    case 3
    have "float_value F (?inf - 1) \<le> float_value F ?b" "float_value F ?inf \<le> float_value F ?b"
      using 3 by (auto intro!: float_value_mono)
    then have "\<not> x < overflow_threshold F" using lo by (simp add: overflow_threshold_def)
    moreover have "?inf \<le> round_even n f + k * 2 ^ ?p" using 3 by (simp add: round_even_def)
    ultimately show ?thesis by (simp add: nearest_def min_def)
  qed
qed


section \<open>Rounding a quotient\<close>

text \<open>
  \<open>round_ratio\<close> computes the bits of the number nearest to a quotient.  By IEEE-754 this is what
  the division of two numbers gives, and the product of two numbers when it is written as a
  quotient.
\<close>

definition scaled :: "nat \<Rightarrow> nat \<Rightarrow> int \<Rightarrow> nat \<times> nat" where
  "scaled num den e = (num * 2 ^ nat (- e), den * 2 ^ nat e)"

definition place_of :: "binary_format \<Rightarrow> nat \<Rightarrow> nat \<Rightarrow> nat" where
  "place_of F num den =
     (let p = mantissa_explicit_bits F;
          k = nat (int (floorlog 2 num) - int (floorlog 2 den) - 1 - int p - last_place F);
          (n, d) = scaled num den (last_place F + int k)
      in if 2 ^ Suc p \<le> n div d then Suc k else k)"

definition round_ratio :: "binary_format \<Rightarrow> nat \<Rightarrow> nat \<Rightarrow> nat" where
  "round_ratio F num den =
     (if num = 0 then 0
      else
      let k = place_of F num den;
          (n, d) = scaled num den (last_place F + int k);
          q = n div d; r = n mod d;
          q' = (if 2 * r > d \<or> (2 * r = d \<and> odd q) then Suc q else q)
      in min (infinity_bits F) (q' + k * 2 ^ mantissa_explicit_bits F))"

lemma scaled_ratio:
  assumes "scaled num den e = (n, d)" and "0 < den"
  shows "0 < d" and "real num / real den = (real n / real d) * 2 powi e"
proof -
  show "0 < d" using assms by (auto simp: scaled_def)
  show "real num / real den = (real n / real d) * 2 powi e"
  proof (cases "0 \<le> e")
    case True
    then have "(2 :: real) powi e = 2 ^ nat e" by (simp add: power_int_def)
    with True assms show ?thesis by (auto simp: scaled_def)
  next
    case False
    then have "(2 :: real) powi e = inverse (2 ^ nat (- e))" by (simp add: power_int_def power_one_over inverse_eq_divide)
    with False assms show ?thesis by (auto simp: scaled_def field_simps)
  qed
qed

lemma floorlog_bounds_real:
  assumes "0 < n"
  shows "2 powi (int (floorlog 2 n) - 1) \<le> real n" and "real n < 2 powi int (floorlog 2 n)"
proof -
  have "0 < floorlog 2 n" using assms by (simp add: floorlog_def)
  then have "int (floorlog 2 n) - 1 = int (floorlog 2 n - 1)" by simp
  moreover have b: "2 ^ (floorlog 2 n - 1) \<le> n" "n < 2 ^ floorlog 2 n"
    using floorlog_bounds [of n 2] assms by auto
  moreover have "real (2 ^ (floorlog 2 n - 1)) \<le> real n" "real n < real (2 ^ floorlog 2 n)"
    using b by (simp_all only: of_nat_le_iff of_nat_less_iff)
  ultimately show "2 powi (int (floorlog 2 n) - 1) \<le> real n" "real n < 2 powi int (floorlog 2 n)"
    by (simp_all only: power_int_of_nat of_nat_power of_nat_numeral)
qed

lemma ratio_bounds:
  assumes "0 < num" and "0 < den"
  shows "2 powi (int (floorlog 2 num) - int (floorlog 2 den) - 1) < real num / real den"
    and "real num / real den < 2 powi (int (floorlog 2 num) - int (floorlog 2 den) + 1)"
proof -
  let ?a = "int (floorlog 2 num)" and ?c = "int (floorlog 2 den)"
  note a = floorlog_bounds_real [OF assms(1)] and c = floorlog_bounds_real [OF assms(2)]
  have "(2 :: real) powi (?a - 1) / 2 powi ?c = 2 powi (?a - ?c - 1)"
    by (subst power_int_diff [symmetric]) (simp_all add: algebra_simps)
  moreover have "2 powi (?a - 1) / 2 powi ?c < real num / real den"
    using a(1) c(2) assms by (intro frac_less2) auto
  ultimately show "2 powi (?a - ?c - 1) < real num / real den" by simp
  have "(2 :: real) powi ?a / 2 powi (?c - 1) = 2 powi (?a - ?c + 1)"
    by (subst power_int_diff [symmetric]) (simp_all add: algebra_simps)
  moreover have "real num / real den < 2 powi ?a / 2 powi (?c - 1)"
    using a(2) c(1) assms by (intro frac_less) auto
  ultimately show "real num / real den < 2 powi (?a - ?c + 1)" by simp
qed

lemma scaled_quotient:
  assumes "scaled num den e = (n, d)" and "0 < den"
  shows "m \<le> n div d \<longleftrightarrow> real m * 2 powi e \<le> real num / real den"
proof -
  note s = scaled_ratio [OF assms]
  have "m \<le> n div d \<longleftrightarrow> m * d \<le> n" using s(1) by (simp add: less_eq_div_iff_mult_less_eq)
  also have "\<dots> \<longleftrightarrow> real m \<le> real n / real d"
    using s(1) by (simp add: le_divide_eq of_nat_mult [symmetric] del: of_nat_mult)
  finally show ?thesis unfolding s(2) by (simp only: mult_le_cancel_right_pos zero_less_power_int zero_less_numeral)
qed

lemma place_of_bounds:
  assumes "0 < num" and "0 < den" and "scaled num den (last_place F + int (place_of F num den)) = (n, d)"
  shows "n div d < 2 ^ Suc (mantissa_explicit_bits F)"
    and "2 ^ mantissa_explicit_bits F \<le> n div d \<or> place_of F num den = 0"
proof -
  let ?p = "mantissa_explicit_bits F" and ?lp = "last_place F"
  define l where "l = int (floorlog 2 num) - int (floorlog 2 den) - 1"
  define k where "k = nat (l - int ?p - ?lp)"
  obtain n0 d0 where s: "scaled num den (?lp + int k) = (n0, d0)" by (cases "scaled num den (?lp + int k)")
  have place: "place_of F num den = (if 2 ^ Suc ?p \<le> n0 div d0 then Suc k else k)"
    using s by (simp add: place_of_def Let_def k_def l_def)
  note b = ratio_bounds [OF assms(1,2)]
  have x: "2 powi l < real num / real den" "real num / real den < 2 powi (l + 2)"
    using b by (simp_all add: l_def algebra_simps)
  have pow: "real (2 ^ m) * 2 powi e = 2 powi (int m + e)" for m e by (simp add: power_int_add)
  have mono: "(2 :: real) powi i \<le> 2 powi j" if "i \<le> j" for i j using that by (simp add: power_int_increasing)
  note q0 = scaled_quotient [OF s assms(2)] and q = scaled_quotient [OF assms(3,2)]
  show "n div d < 2 ^ Suc ?p"
  proof (cases "2 ^ Suc ?p \<le> n0 div d0")
    case True
    then have "2 powi (int (Suc ?p) + (?lp + int k)) \<le> real num / real den" unfolding q0 pow by simp
    then have "2 powi (int (Suc ?p) + (?lp + int k)) < (2 :: real) powi (l + 2)" using x(2) by simp
    then have "int (Suc ?p) + (?lp + int k) < l + 2" using mono [of "l + 2"] by (metis linorder_not_le)
    then have "0 < l - int ?p - ?lp + 1 - int k" by simp
    then have "0 \<le> l - int ?p - ?lp" using of_nat_0_le_iff [of k] by linarith
    then have e: "l + 2 = int (Suc ?p) + (?lp + int (Suc k))" by (simp add: k_def)
    show ?thesis
    proof (rule ccontr)
      assume "\<not> n div d < 2 ^ Suc ?p"
      then have "2 ^ Suc ?p \<le> n div d" by simp
      then have "2 powi (int (Suc ?p) + (?lp + int (Suc k))) \<le> real num / real den"
        unfolding q pow using True by (simp add: place)
      then show False using x(2) unfolding e [symmetric] by simp
    qed
  next
    case False
    then show ?thesis using assms(3) s by (simp add: place)
  qed
  show "2 ^ ?p \<le> n div d \<or> place_of F num den = 0"
  proof (cases "2 ^ Suc ?p \<le> n0 div d0")
    case True
    then have "2 powi (int ?p + (?lp + int (Suc k))) \<le> real num / real den" unfolding q0 pow by (simp add: algebra_simps)
    then show ?thesis unfolding q pow using True by (simp add: place)
  next
    case False
    show ?thesis
    proof (cases "k = 0")
      case True
      with False show ?thesis by (simp add: place)
    next
      case k: False
      then have "int k = l - int ?p - ?lp" by (simp add: k_def)
      then have "int ?p + (?lp + int k) = l" by simp
      then have "2 powi (int ?p + (?lp + int k)) \<le> real num / real den" using x(1) by simp
      then show ?thesis unfolding q pow using False by (simp add: place)
    qed
  qed
qed

lemma round_ratio_zero: "round_ratio F 0 den = 0"
  by (simp add: round_ratio_def)

lemma zero_nearest: "sound_format F \<Longrightarrow> nearest F 0 0"
  using nearest_round [of F 0 0 0 0] by (simp add: round_even_def)

theorem round_ratio_nearest:
  assumes F: "sound_format F" and den: "0 < den"
  shows "nearest F (real num / real den) (round_ratio F num den)"
proof (cases "num = 0")
  case False
  let ?k = "place_of F num den" and ?p = "mantissa_explicit_bits F"
  obtain n d where s: "scaled num den (last_place F + int ?k) = (n, d)" by (cases "scaled num den (last_place F + int ?k)")
  note r = scaled_ratio [OF s den]
  have b: "n div d < 2 ^ Suc ?p" "2 ^ ?p \<le> n div d \<or> ?k = 0"
    using place_of_bounds [OF _ den s] False by simp_all
  have f: "0 \<le> real (n mod d) / real d" "real (n mod d) / real d < 1" using r(1) by simp_all
  have "real n = real (n div d) * real d + real (n mod d)"
    by (simp only: of_nat_mult [symmetric] of_nat_add [symmetric] div_mult_mod_eq)
  then have "real n / real d = real (n div d) + real (n mod d) / real d" using r(1) by (simp add: field_simps)
  then have x: "real num / real den = (real (n div d) + real (n mod d) / real d) * 2 powi (last_place F + int ?k)"
    using r(2) by simp
  have "real (n mod d) / real d > 1 / 2 \<longleftrightarrow> 2 * (n mod d) > d" "real (n mod d) / real d = 1 / 2 \<longleftrightarrow> 2 * (n mod d) = d"
    using r(1) by (simp_all add: field_simps) linarith+
  then have "round_ratio F num den =
      min (infinity_bits F) (round_even (n div d) (real (n mod d) / real d) + ?k * 2 ^ ?p)"
    using False by (simp add: round_ratio_def s Let_def round_even_def)
  with nearest_round [OF F x f b] show ?thesis by simp
qed (simp add: round_ratio_zero zero_nearest [OF F])

end
