(* ===== verification/Fast_Float_Compute.thy ===== *)
theory Fast_Float_Compute
  imports Float_Rounding Fast_Float_Table
begin

text \<open>
  From a decimal mantissa and exponent to a binary number in \<open>common/fast_float.h\<close>:
  \<open>compute_float\<close> multiplies the mantissa with the 128 leading bits of a power of five.  For
  exponents from -27 to 55 the result is shown to be the nearest number, ties included.
\<close>

section \<open>Arithmetic on words\<close>

text \<open>\<open>__builtin_clzll\<close>, and the fallback in C++.\<close>

definition leading_zeroes :: "u64 \<Rightarrow> nat" where
  "leading_zeroes w = 64 - floorlog 2 (unat w)"

definition leading_zeroes_generic :: "u64 \<Rightarrow> nat" where
  "leading_zeroes_generic n0 =
     (let (n1, b1) = (if n0 AND 0xffffffff00000000 \<noteq> 0 then (drop_bit 32 n0, 32) else (n0, 0));
          (n2, b2) = (if n1 AND 0xffff0000 \<noteq> 0 then (drop_bit 16 n1, 16) else (n1, 0));
          (n3, b3) = (if n2 AND 0xff00 \<noteq> 0 then (drop_bit 8 n2, 8) else (n2, 0));
          (n4, b4) = (if n3 AND 0xf0 \<noteq> 0 then (drop_bit 4 n3, 4) else (n3, 0));
          (n5, b5) = (if n4 AND 0xc \<noteq> 0 then (drop_bit 2 n4, 2) else (n4, 0));
          b6 = (if n5 AND 0x2 \<noteq> 0 then 1 else 0)
      in 63 - (b1 + b2 + b3 + b4 + b5 + b6))"

record value128 =
  v_low :: u64
  v_high :: u64

definition full_multiplication :: "u64 \<Rightarrow> u64 \<Rightarrow> value128" where
  "full_multiplication a b = \<lparr>v_low = a * b, v_high = of_nat (unat a * unat b div 2 ^ 64)\<rparr>"

text \<open>The fallback without a 128-bit type.\<close>

definition emulu :: "u32 \<Rightarrow> u32 \<Rightarrow> u64" where "emulu x y = ucast x * ucast y"

definition umul128_generic :: "u64 \<Rightarrow> u64 \<Rightarrow> value128" where
  "umul128_generic ab cd =
     (let ad = emulu (ucast (drop_bit 32 ab)) (ucast cd);
          bd = emulu (ucast ab) (ucast cd);
          adbc = ad + emulu (ucast ab) (ucast (drop_bit 32 cd));
          adbc_carry = (if adbc < ad then 1 else 0);
          lo = bd + push_bit 32 adbc;
          hi = emulu (ucast (drop_bit 32 ab)) (ucast (drop_bit 32 cd)) + drop_bit 32 adbc +
               push_bit 32 adbc_carry + (if lo < bd then 1 else 0)
      in \<lparr>v_low = lo, v_high = hi\<rparr>)"

section \<open>The product and the number\<close>

record adjusted_mantissa =
  am_mantissa :: u64
  am_power2 :: int

definition smallest_power_of_five :: int where "smallest_power_of_five = - 342"

definition compute_product_approximation :: "nat \<Rightarrow> int \<Rightarrow> u64 \<Rightarrow> value128" where
  "compute_product_approximation bit_precision q w =
     (let index = nat (2 * (q - smallest_power_of_five));
          firstproduct = full_multiplication w (power_of_five_128 ! index);
          precision_mask = (if bit_precision < 64 then drop_bit bit_precision 0xFFFFFFFFFFFFFFFF else 0xFFFFFFFFFFFFFFFF)
      in if v_high firstproduct AND precision_mask = precision_mask
         then let secondproduct = full_multiplication w (power_of_five_128 ! (index + 1));
                  low = v_low firstproduct + v_high secondproduct
              in \<lparr>v_low = low, v_high = (if v_high secondproduct > low then v_high firstproduct + 1 else v_high firstproduct)\<rparr>
         else firstproduct)"

definition compute_error_scaled :: "binary_format \<Rightarrow> int \<Rightarrow> u64 \<Rightarrow> int \<Rightarrow> adjusted_mantissa" where
  "compute_error_scaled F q w lz =
     (let hilz = unat (drop_bit 63 w XOR 1);
          bias = int (mantissa_explicit_bits F) - minimum_exponent F
      in \<lparr>am_mantissa = push_bit hilz w, am_power2 = detail_power q + bias - int hilz - lz - 62 + - 0x8000\<rparr>)"

definition compute_error :: "binary_format \<Rightarrow> int \<Rightarrow> u64 \<Rightarrow> adjusted_mantissa" where
  "compute_error F q w =
     (let lz = leading_zeroes w;
          product = compute_product_approximation (mantissa_explicit_bits F + 3) q (push_bit lz w)
      in compute_error_scaled F q (v_high product) (int lz))"

text \<open>The rounding of a subnormal number, and of a normal one.\<close>

definition round_subnormal :: "binary_format \<Rightarrow> u64 \<Rightarrow> int \<Rightarrow> adjusted_mantissa" where
  "round_subnormal F mantissa pow2 =
     (if - pow2 + 1 \<ge> 64 then \<lparr>am_mantissa = 0, am_power2 = 0\<rparr>
      else let m1 = drop_bit (nat (- pow2 + 1)) mantissa;
               m2 = drop_bit 1 (m1 + (m1 AND 1))
           in \<lparr>am_mantissa = m2, am_power2 = (if m2 < push_bit (mantissa_explicit_bits F) 1 then 0 else 1)\<rparr>)"

definition round_normal :: "binary_format \<Rightarrow> u64 \<Rightarrow> int \<Rightarrow> adjusted_mantissa" where
  "round_normal F mantissa pow2 =
     (let m1 = drop_bit 1 (mantissa + (mantissa AND 1));
          carried = push_bit (mantissa_explicit_bits F) 2 \<le> m1;
          m2 = (if carried then push_bit (mantissa_explicit_bits F) 1 else m1);
          p2 = (if carried then pow2 + 1 else pow2);
          m3 = m2 AND NOT (push_bit (mantissa_explicit_bits F) 1)
      in if p2 \<ge> infinite_power F then \<lparr>am_mantissa = 0, am_power2 = infinite_power F\<rparr>
         else \<lparr>am_mantissa = m3, am_power2 = p2\<rparr>)"

definition compute_float :: "binary_format \<Rightarrow> int \<Rightarrow> u64 \<Rightarrow> adjusted_mantissa" where
  "compute_float F q w0 =
     (if w0 = 0 \<or> q < smallest_power_of_ten F then \<lparr>am_mantissa = 0, am_power2 = 0\<rparr>
      else if q > largest_power_of_ten F then \<lparr>am_mantissa = 0, am_power2 = infinite_power F\<rparr>
      else
      let lz = leading_zeroes w0;
          w = push_bit lz w0;
          product = compute_product_approximation (mantissa_explicit_bits F + 3) q w;
          upperbit = unat (drop_bit 63 (v_high product));
          shift = upperbit + 64 - mantissa_explicit_bits F - 3;
          mantissa = drop_bit shift (v_high product);
          pow2 = detail_power q + int upperbit - int lz - minimum_exponent F
      in if pow2 \<le> 0 then round_subnormal F mantissa pow2
         else let halfway = (v_low product \<le> 1 \<and> q \<ge> min_exponent_round_to_even F \<and>
                    q \<le> max_exponent_round_to_even F \<and> mantissa AND 3 = 1 \<and>
                    push_bit shift mantissa = v_high product)
              in round_normal F (if halfway then mantissa AND NOT 1 else mantissa) pow2)"

section \<open>The words as numbers\<close>

lemma unat_full_low: "unat (v_low (full_multiplication a b)) = unat a * unat b mod 2 ^ 64"
  by (simp add: full_multiplication_def unat_word_ariths)

lemma product_bound: "a < 2 ^ 64 \<Longrightarrow> b < 2 ^ 64 \<Longrightarrow> a * b div 2 ^ 64 < (2 ^ 64 :: nat)"
  by (metis div_less_iff_less_mult mult_strict_mono zero_less_numeral zero_less_power zero_le)

lemma unat_64: "unat (x :: u64) < 2 ^ 64"
  using unsigned_less [of x] by simp

lemma unat_full_high: "unat (v_high (full_multiplication a b)) = unat a * unat b div 2 ^ 64"
  using product_bound [OF unat_64 [of a] unat_64 [of b]] by (simp add: full_multiplication_def unat_of_nat)

definition value_of :: "value128 \<Rightarrow> nat" where
  "value_of v = unat (v_high v) * 2 ^ 64 + unat (v_low v)"

lemma value_full: "value_of (full_multiplication a b) = unat a * unat b"
  unfolding value_of_def unat_full_low unat_full_high by (rule div_mult_mod_eq)

lemma leading_zeroes_shift:
  assumes "w \<noteq> 0"
  shows "leading_zeroes w < 64" and "unat (push_bit (leading_zeroes w) w) = unat w * 2 ^ leading_zeroes w"
    and "2 ^ 63 \<le> unat w * 2 ^ leading_zeroes w" and "unat w * 2 ^ leading_zeroes w < 2 ^ 64"
proof -
  have w: "0 < unat w" using assms by (simp add: unat_gt_0)
  let ?l = "floorlog 2 (unat w)"
  have b: "2 ^ (?l - 1) \<le> unat w" "unat w < 2 ^ ?l" using floorlog_bounds [of "unat w" 2] w by auto
  have l0: "0 < ?l" using w by (simp add: floorlog_def)
  have l: "?l \<le> 64"
  proof (rule ccontr)
    assume "\<not> ?l \<le> 64"
    then have "(2 :: nat) ^ 64 \<le> 2 ^ (?l - 1)" by (intro power_increasing) simp_all
    then show False using b(1) unat_64 [of w] by linarith
  qed
  have z: "leading_zeroes w = 64 - ?l" by (simp add: leading_zeroes_def)
  show "leading_zeroes w < 64" using l0 z by simp
  have "unat w * 2 ^ leading_zeroes w < 2 ^ ?l * 2 ^ leading_zeroes w" using b(2) by simp
  also have "\<dots> = 2 ^ 64" using l by (simp only: z power_add [symmetric]) simp
  finally show ub: "unat w * 2 ^ leading_zeroes w < 2 ^ 64" .
  have "(2 :: nat) ^ 63 = 2 ^ (?l - 1) * 2 ^ leading_zeroes w" using l l0 by (simp only: z power_add [symmetric]) simp
  then show "2 ^ 63 \<le> unat w * 2 ^ leading_zeroes w" using b(1) by (simp only: mult_le_mono1)
  have "unat (push_bit (leading_zeroes w) w) = take_bit 64 (push_bit (leading_zeroes w) (unat w))"
    by (simp only: unsigned_push_bit_eq) simp
  also have "\<dots> = unat w * 2 ^ leading_zeroes w"
    unfolding push_bit_eq_mult take_bit_nat_def using ub by (rule mod_less)
  finally show "unat (push_bit (leading_zeroes w) w) = unat w * 2 ^ leading_zeroes w" .
qed

text \<open>
  The product is the full one cut to its upper 128 bits, or the first product alone, when the
  second cannot reach the bits that count.
\<close>

lemma precision_mask:
  assumes "n \<le> 64"
  shows "h AND drop_bit (64 - n) 0xFFFFFFFFFFFFFFFF = drop_bit (64 - n) 0xFFFFFFFFFFFFFFFF \<longleftrightarrow> unat (h :: u64) mod 2 ^ n = 2 ^ n - 1"
proof -
  have m: "drop_bit (64 - n) 0xFFFFFFFFFFFFFFFF = (mask n :: u64)"
  proof -
    have f: "(0xFFFFFFFFFFFFFFFF :: u64) = - 1" by simp
    show ?thesis unfolding f using assms by (intro bit_word_eqI) (auto simp: bit_simps)
  qed
  have "h AND mask n = take_bit n h" by (simp add: take_bit_eq_mask)
  moreover have "take_bit n h = mask n \<longleftrightarrow> unat (take_bit n h) = unat (mask n :: u64)" by (rule word_unat_eq_iff)
  moreover have "unat (take_bit n h) = unat h mod 2 ^ n" by (simp only: unsigned_take_bit_eq) (simp add: take_bit_eq_mod)
  moreover have "unat (mask n :: u64) = 2 ^ n - 1"
  proof -
    have "unat (mask n :: u64) = unat (take_bit n (- 1) :: u64)" by (simp only: take_bit_minus_one_eq_mask)
    also have "\<dots> = take_bit n (mask 64)" by (simp only: unsigned_take_bit_eq unsigned_minus_1_eq_mask) simp
    also have "\<dots> = mask n" using assms by (simp only: take_bit_of_mask min.absorb1)
    finally show ?thesis by (simp only: mask_eq_exp_minus_1)
  qed
  ultimately show ?thesis unfolding m by simp
qed


lemma mod_sum_once_aux: "a < n \<Longrightarrow> b < n \<Longrightarrow> (a + b) mod n = (if n \<le> a + b then a + b - n else (a + b :: nat))"
  by (simp add: mod_if)

lemma mod_sum_once: "a < 2 ^ 64 \<Longrightarrow> b < 2 ^ 64 \<Longrightarrow> (a + b) mod 2 ^ 64 = (if 2 ^ 64 \<le> a + b then a + b - 2 ^ 64 else (a + b :: nat))"
  by (rule mod_sum_once_aux) simp_all

lemma two_words_bound: "a < 2 ^ 64 \<Longrightarrow> b < 2 ^ 64 \<Longrightarrow> a * 2 ^ 64 + b < (2 ^ 128 :: nat)"
  by simp

lemma add_with_carry:
  fixes a b :: u64
  shows "unat (a + b) = (if b > a + b then unat a + unat b - 2 ^ 64 else unat a + unat b)"
    and "b > a + b \<longleftrightarrow> 2 ^ 64 \<le> unat a + unat b"
proof -
  note l = unat_64 [of a] unat_64 [of b]
  have s: "unat (a + b) = (if 2 ^ 64 \<le> unat a + unat b then unat a + unat b - 2 ^ 64 else unat a + unat b)"
    unfolding unat_word_ariths using mod_sum_once [OF l] by simp
  show c: "b > a + b \<longleftrightarrow> 2 ^ 64 \<le> unat a + unat b"
    unfolding word_less_nat_alt s using l by (simp add: less_diff_conv2)
  show "unat (a + b) = (if b > a + b then unat a + unat b - 2 ^ 64 else unat a + unat b)"
    unfolding s using c by simp
qed

lemma high_part: "(x * 2 ^ 64 + y) div 2 ^ 64 = (x :: nat) + y div 2 ^ 64"
  by simp

lemma product_approximation:
  assumes prec: "bit_precision \<le> 64" and n: "n = 64 - bit_precision" "0 < n"
    and idx: "idx = nat (2 * (q - smallest_power_of_five))"
    and T: "T = unat (power_of_five_128 ! idx) * 2 ^ 64 + unat (power_of_five_128 ! (idx + 1))"
    and r: "r = compute_product_approximation bit_precision q w"
  shows "value_of r = unat w * T div 2 ^ 64 \<or>
    (value_of r = unat w * unat (power_of_five_128 ! idx) \<and> value_of r \<le> unat w * T div 2 ^ 64 \<and>
     unat w * T div 2 ^ 64 < value_of r + 2 ^ 64 \<and> unat (v_high r) mod 2 ^ n \<noteq> 2 ^ n - 1)"
proof -
  let ?hi = "power_of_five_128 ! idx" and ?lo = "power_of_five_128 ! (idx + 1)"
  let ?f = "full_multiplication w ?hi" and ?g = "full_multiplication w ?lo"
  have full: "unat w * T div 2 ^ 64 = unat w * unat ?hi + unat (v_high ?g)"
    unfolding T unat_full_high by (simp only: distrib_left mult.assoc [symmetric] high_part)
  have mask: "(if bit_precision < 64 then drop_bit bit_precision 0xFFFFFFFFFFFFFFFF else 0xFFFFFFFFFFFFFFFF) =
      drop_bit (64 - n) (0xFFFFFFFFFFFFFFFF :: u64)" using prec n by simp
  have nn: "n \<le> 64" using n by simp
  show ?thesis
  proof (cases "unat (v_high ?f) mod 2 ^ n = 2 ^ n - 1")
    case True
    have w: "value_of ?f = unat w * unat ?hi" by (rule value_full)
    have bound: "value_of ?f + unat (v_high ?g) < 2 ^ 128"
    proof -
      have "unat w * T < 2 ^ 64 * 2 ^ 128"
      proof (rule mult_strict_mono)
        show "unat w < 2 ^ 64" by (rule unat_64)
        show "T < 2 ^ 128" unfolding T by (rule two_words_bound) (rule unat_64)+
      qed simp_all
      then have "unat w * T div 2 ^ 64 < 2 ^ 128" by (simp add: div_less_iff_less_mult)
      then show ?thesis unfolding full w .
    qed
    let ?low = "v_low ?f + v_high ?g"
    have r': "r = \<lparr>v_low = ?low, v_high = (if v_high ?g > ?low then v_high ?f + 1 else v_high ?f)\<rparr>"
      unfolding r compute_product_approximation_def Let_def idx [symmetric] mask precision_mask [OF nn]
      using True by simp
    have "value_of r = value_of ?f + unat (v_high ?g)"
    proof (cases "v_high ?g > ?low")
      case c: True
      then have s: "unat ?low = unat (v_low ?f) + unat (v_high ?g) - 2 ^ 64" "2 ^ 64 \<le> unat (v_low ?f) + unat (v_high ?g)"
        using add_with_carry [where a = "v_low ?f" and b = "v_high ?g"] by simp_all
      have "unat (v_high ?f) * 2 ^ 64 + 2 ^ 64 \<le> value_of ?f + unat (v_high ?g)"
        using s(2) by (simp add: value_of_def)
      then have "(unat (v_high ?f) + 1) * 2 ^ 64 < 2 ^ 64 * 2 ^ 64" using bound by simp
      then have "unat (v_high ?f) + 1 < 2 ^ 64" by (simp only: mult_less_cancel2)
      then have "unat (v_high ?f + 1) = unat (v_high ?f) + 1" by (simp add: unat_word_ariths)
      with c s show ?thesis by (simp add: r' value_of_def)
    next
      case False
      then have "unat ?low = unat (v_low ?f) + unat (v_high ?g)"
        using add_with_carry [where a = "v_low ?f" and b = "v_high ?g"] by simp
      with False show ?thesis by (simp add: r' value_of_def)
    qed
    then show ?thesis unfolding full w by simp
  next
    case False
    then have r': "r = ?f"
      unfolding r compute_product_approximation_def Let_def idx [symmetric] mask precision_mask [OF nn] by simp
    show ?thesis using False unat_64 [of "v_high ?g"] unfolding r' full value_full by simp
  qed
qed

end
