(* ===== verification/Fast_Float_Nearest.thy ===== *)
theory Fast_Float_Nearest
  imports Fast_Float_Compute
begin

text \<open>
  \<open>compute_float\<close> of \<open>common/fast_float.h\<close> against \<open>nearest\<close>, for decimal exponents from -27 to
  55.  The exact quotient \<open>num / (den * 2 ^ S)\<close> has the integer part that the product of the words
  shows, and it has no fraction exactly when the test for a tie says so.
\<close>

section \<open>The product of the words\<close>

text \<open>What \<open>compute_product_approximation\<close> gives for a table entry \<open>T\<close>, with \<open>n\<close> bits to spare.\<close>

definition approximates :: "nat \<Rightarrow> nat \<Rightarrow> nat \<Rightarrow> nat \<Rightarrow> bool" where
  "approximates n W T R \<longleftrightarrow>
     R = W * T div 2 ^ 64 \<or>
     (R = W * (T div 2 ^ 64) \<and> R \<le> W * T div 2 ^ 64 \<and> W * T div 2 ^ 64 < R + 2 ^ 64 \<and> R div 2 ^ 64 mod 2 ^ n \<noteq> 2 ^ n - 1)"

lemma div_power_add: "(a :: nat) div 2 ^ (m + n) = a div 2 ^ m div 2 ^ n"
  by (simp add: power_add div_mult2_eq)

lemma Suc_div_same: "r mod d \<noteq> d - 1 \<Longrightarrow> 0 < d \<Longrightarrow> Suc r div d = r div d"
  by (auto simp: div_Suc mod_Suc split: if_splits)

lemma approximates_div:
  assumes "approximates n W T R" and "64 + n \<le> e"
  shows "R div 2 ^ e = W * T div 2 ^ 64 div 2 ^ e"
proof (cases "R = W * T div 2 ^ 64")
  case False
  let ?Q = "W * T div 2 ^ 64"
  from False assms(1) have c: "R \<le> ?Q" "?Q < R + 2 ^ 64" "R div 2 ^ 64 mod 2 ^ n \<noteq> 2 ^ n - 1"
    by (auto simp: approximates_def)
  have "R div 2 ^ 64 \<le> ?Q div 2 ^ 64" using c(1) by (rule div_le_mono)
  moreover have "?Q div 2 ^ 64 \<le> (R + 2 ^ 64) div 2 ^ 64" by (rule div_le_mono) (use c(2) in linarith)
  then have "?Q div 2 ^ 64 \<le> Suc (R div 2 ^ 64)" by simp
  ultimately have "?Q div 2 ^ 64 = R div 2 ^ 64 \<or> ?Q div 2 ^ 64 = Suc (R div 2 ^ 64)" by linarith
  then have "?Q div 2 ^ 64 div 2 ^ n = R div 2 ^ 64 div 2 ^ n" using Suc_div_same [OF c(3)] by auto
  then have "R div 2 ^ (64 + n) = ?Q div 2 ^ (64 + n)" by (simp only: div_power_add)
  then have "R div 2 ^ (64 + n) div 2 ^ (e - (64 + n)) = ?Q div 2 ^ (64 + n) div 2 ^ (e - (64 + n))" by (rule arg_cong)
  then show ?thesis using assms(2) by (simp only: div_power_add [symmetric]) simp
qed simp

lemma approximates_multiple:
  assumes a: "approximates n W T R" and e: "64 + n \<le> e" and Q: "W * T div 2 ^ 64 = M * 2 ^ e"
  shows "R = M * 2 ^ e"
proof -
  have "R div 2 ^ e = M" unfolding approximates_div [OF a e] Q by simp
  then have "M * 2 ^ e \<le> R" using div_times_less_eq_dividend [of R "2 ^ e"] by simp
  moreover have "R \<le> M * 2 ^ e" using a Q by (auto simp: approximates_def)
  ultimately show ?thesis by simp
qed

lemma upper_part_bounds:
  assumes Q: "2 ^ 126 \<le> Q" "Q < 2 ^ 128" and n: "n \<le> 62" and u: "u = Q div 2 ^ 127" and M: "M = Q div 2 ^ (64 + n + u)"
  shows "u \<le> 1" and "2 ^ (62 - n) \<le> M" and "M < 2 ^ (63 - n)"
proof -
  have "Q < 2 * 2 ^ 127" using Q(2) by simp
  then have "u < 2" unfolding u by (simp only: div_less_iff_less_mult zero_less_power zero_less_numeral)
  then show u1: "u \<le> 1" by simp
  have "u = 0 \<Longrightarrow> Q < 2 ^ 127" "u = 1 \<Longrightarrow> 2 ^ 127 \<le> Q"
    unfolding u by (simp_all add: div_eq_0_iff)
  then have q: "2 ^ (126 + u) \<le> Q" "Q < 2 ^ (127 + u)" using u1 Q by (cases u; simp)+
  have "(2 :: nat) ^ (62 - n) * 2 ^ (64 + n + u) = 2 ^ (126 + u)" "(2 :: nat) ^ (63 - n) * 2 ^ (64 + n + u) = 2 ^ (127 + u)"
    using n by (simp_all only: power_add [symmetric]) simp_all
  with q show "2 ^ (62 - n) \<le> M" "M < 2 ^ (63 - n)"
    unfolding M by (simp_all add: less_eq_div_iff_mult_less_eq div_less_iff_less_mult)
qed

section \<open>The integer part\<close>

lemma multiple_gap: "d dvd a \<Longrightarrow> d dvd b \<Longrightarrow> a < b \<Longrightarrow> a + d \<le> (b :: nat)"
  by (metis dvd_diff_nat dvd_imp_le le_diff_conv2 less_imp_le zero_less_diff add.commute)

lemma power_dvd_multiple: "m \<le> n \<Longrightarrow> (2 :: nat) ^ m dvd a * 2 ^ n"
  by (simp add: le_imp_power_dvd)

lemma five_bound: "k \<le> 27 \<Longrightarrow> (5 :: nat) ^ k < 2 ^ 63"
  using power_increasing [of k 27 "5 :: nat"] by simp

lemma integer_part_negative:
  assumes T: "2 ^ b < T * 5 ^ k" "T * 5 ^ k < 2 ^ b + 5 ^ k" and k: "k \<le> 27" and W: "W < 2 ^ 64"
    and b: "128 \<le> b" and S: "128 \<le> S" and M: "M = W * T div 2 ^ S"
  shows "M * 2 ^ S * 5 ^ k \<le> W * 2 ^ b" and "W * 2 ^ b < Suc M * 2 ^ S * 5 ^ k"
proof -
  have "W * T < Suc M * 2 ^ S" unfolding M by (simp only: div_less_iff_less_mult [symmetric] zero_less_power zero_less_numeral lessI)
  then have "W * T * 5 ^ k < Suc M * 2 ^ S * 5 ^ k" by simp
  moreover have "W * 2 ^ b \<le> W * T * 5 ^ k" using T(1) by (simp add: mult.assoc)
  ultimately show "W * 2 ^ b < Suc M * 2 ^ S * 5 ^ k" by (rule le_less_trans [rotated])
  show "M * 2 ^ S * 5 ^ k \<le> W * 2 ^ b"
  proof (rule ccontr)
    assume "\<not> M * 2 ^ S * 5 ^ k \<le> W * 2 ^ b"
    moreover have "2 ^ 128 dvd M * 5 ^ k * 2 ^ S" "2 ^ 128 dvd W * 2 ^ b" using b S by (simp_all only: power_dvd_multiple)
    ultimately have "W * 2 ^ b + 2 ^ 128 \<le> M * 2 ^ S * 5 ^ k" by (intro multiple_gap) (simp_all add: ac_simps)
    also have "\<dots> \<le> W * T * 5 ^ k" unfolding M by (intro mult_le_mono1) (rule div_times_less_eq_dividend)
    also have "\<dots> \<le> W * (2 ^ b + 5 ^ k)" unfolding mult.assoc using T(2) by (intro mult_le_mono2) simp
    finally have "2 ^ 128 \<le> W * 5 ^ k" by (simp add: distrib_left)
    moreover have "W * 5 ^ k \<le> 2 ^ 64 * 2 ^ 63" using W five_bound [OF k] by (intro mult_le_mono) simp_all
    ultimately show False by simp
  qed
qed


section \<open>Ties\<close>

text \<open>For an exact entry the low word of the product is zero or at least two.\<close>

lemma tie_positive:
  assumes a: "approximates n W T R" and e: "64 + n \<le> e" "1 \<le> e" and S: "S = 64 + e"
    and T: "T = t * 2 ^ 65" and M: "M = W * T div 2 ^ S"
  shows "R mod 2 ^ e \<le> 1 \<longleftrightarrow> W * T = M * 2 ^ S"
proof -
  have hi: "T div 2 ^ 64 = 2 * t" unfolding T by simp
  have "W * T div 2 ^ 64 = W * (2 * t)" unfolding T by simp
  then have R: "R = W * (2 * t)" using a unfolding approximates_def hi by auto
  have WT: "W * T = R * 2 ^ 64" unfolding R T by simp
  have "M = R div 2 ^ e" unfolding M S WT power_add by simp
  then have d: "R = M * 2 ^ e + R mod 2 ^ e" by (simp only: div_mult_mod_eq)
  have "even (R mod 2 ^ e)" by (rule dvd_mod) (use e(2) in \<open>simp_all add: R\<close>)
  then have "R mod 2 ^ e \<le> 1 \<longleftrightarrow> R mod 2 ^ e = 0" by (cases "R mod 2 ^ e = 1") auto
  also have "\<dots> \<longleftrightarrow> R = M * 2 ^ e" using d by linarith
  also have "\<dots> \<longleftrightarrow> W * T = M * 2 ^ S" unfolding WT S power_add by (simp add: mult.assoc [symmetric])
  finally show ?thesis .
qed

text \<open>For a rounded entry an exact product shows.\<close>

lemma exact_product_shows:
  assumes a: "approximates n W T R" and e: "64 + n \<le> e" and S: "S = 64 + e"
    and T: "2 ^ b < T * 5 ^ k" "T * 5 ^ k < 2 ^ b + 5 ^ k" and W: "W < 2 ^ 64"
    and exact: "W * 2 ^ b = M * 2 ^ S * 5 ^ k"
  shows "R = M * 2 ^ e"
proof (rule approximates_multiple [OF a e])
  have "W * 2 ^ b \<le> W * (T * 5 ^ k)" using T(1) by (intro mult_le_mono2) simp
  then have "M * 2 ^ S * 5 ^ k \<le> W * T * 5 ^ k" unfolding exact mult.assoc .
  then have lo: "M * 2 ^ S \<le> W * T" by simp
  have "W * T * 5 ^ k \<le> W * (2 ^ b + 5 ^ k)" unfolding mult.assoc using T(2) by (intro mult_le_mono2) simp
  also have "\<dots> = (M * 2 ^ S + W) * 5 ^ k" unfolding distrib_left exact by (simp add: distrib_right)
  finally have "W * T \<le> M * 2 ^ S + W" by simp
  then have hi: "W * T < M * 2 ^ S + 2 ^ 64" using W by linarith
  have "M * 2 ^ S = M * 2 ^ e * 2 ^ 64" unfolding S power_add by simp
  with lo hi have "M * 2 ^ e * 2 ^ 64 \<le> W * T" "W * T < Suc (M * 2 ^ e) * 2 ^ 64" by simp_all
  then show "W * T div 2 ^ 64 = M * 2 ^ e" by (intro div_nat_eqI) (simp_all add: mult.commute)
qed

text \<open>
  A product that looks exact is exact.  With both words of the entry the rest is too small to
  be a multiple of the power of two; with the upper word alone, the table has no entry for which
  the rest can be one.
\<close>

definition no_false_tie :: "nat \<Rightarrow> nat \<Rightarrow> nat \<Rightarrow> nat \<Rightarrow> bool" where
  "no_false_tie b k c h \<longleftrightarrow>
     (let s = 2 ^ (b - 64) - 5 ^ k * h
      in h * (2 ^ 64 * 5 ^ k) \<le> 2 ^ b \<and> 2 ^ b + 5 ^ k \<le> Suc h * (2 ^ 64 * 5 ^ k) \<and>
         5 ^ k * h < 2 ^ (b - 64) \<and> 2 ^ 64 * s + 5 ^ k < 5 * 2 ^ c \<and>
         list_all (\<lambda>t. list_all (\<lambda>l.
           if 2 ^ 63 * s + 5 ^ k * l \<le> t * 2 ^ c \<and> t * 2 ^ c < 2 ^ 64 * s + 5 ^ k * l
           then \<not> s dvd t * 2 ^ c - 5 ^ k * l else True) [0, 1]) [1, 2, 3, 4])"

lemma looks_exact_full:
  assumes low: "W * T div 2 ^ 64 = M * 2 ^ e + l" "l \<le> 1" and S: "S = 64 + e" "128 \<le> S" and b: "128 \<le> b"
    and T: "2 ^ b < T * 5 ^ k" and k: "k \<le> 27" and M: "M * 2 ^ S * 5 ^ k \<le> W * 2 ^ b"
  shows "W * 2 ^ b = M * 2 ^ S * (5 :: nat) ^ k"
proof (rule ccontr)
  assume "W * 2 ^ b \<noteq> M * 2 ^ S * 5 ^ k"
  with M have "M * 2 ^ S * 5 ^ k < W * 2 ^ b" by simp
  moreover have "2 ^ 128 dvd M * 5 ^ k * 2 ^ S" "2 ^ 128 dvd W * 2 ^ b" using b S(2) by (simp_all only: power_dvd_multiple)
  ultimately have gap: "M * 2 ^ S * 5 ^ k + 2 ^ 128 \<le> W * 2 ^ b" by (intro multiple_gap) (simp_all add: ac_simps)
  have "W * T < Suc (M * 2 ^ e + l) * 2 ^ 64"
    unfolding low(1) [symmetric] by (simp only: div_less_iff_less_mult [symmetric] zero_less_power zero_less_numeral lessI)
  also have "\<dots> \<le> (M * 2 ^ e + 2) * 2 ^ 64" using low(2) by (intro mult_le_mono1) simp
  also have "\<dots> = M * 2 ^ S + 2 ^ 65" unfolding S(1) power_add by (simp add: distrib_right)
  finally have "W * T \<le> M * 2 ^ S + 2 ^ 65" by simp
  then have "W * T * 5 ^ k \<le> (M * 2 ^ S + 2 ^ 65) * 5 ^ k" by (rule mult_le_mono1)
  moreover have "W * 2 ^ b \<le> W * T * 5 ^ k" unfolding mult.assoc using T by (intro mult_le_mono2) simp
  ultimately have "(2 :: nat) ^ 128 \<le> 2 ^ 65 * 5 ^ k" using gap unfolding distrib_right by linarith
  moreover have "(2 :: nat) ^ 65 * 5 ^ k < 2 ^ 65 * 2 ^ 63" using five_bound [OF k] by (intro mult_strict_left_mono) simp_all
  ultimately show False by simp
qed


lemma upper_word:
  assumes "2 ^ b < T * 5 ^ k" and "T * 5 ^ k < 2 ^ b + (5 :: nat) ^ k"
    and "h * (2 ^ 64 * 5 ^ k) \<le> 2 ^ b" and "2 ^ b + 5 ^ k \<le> Suc h * (2 ^ 64 * 5 ^ k)"
  shows "T div 2 ^ 64 = h"
proof -
  have "h * 2 ^ 64 * 5 ^ k < T * 5 ^ k" using le_less_trans [OF assms(3,1)] by (simp only: mult.assoc)
  moreover have "T * 5 ^ k < Suc h * 2 ^ 64 * 5 ^ k" using less_le_trans [OF assms(2,4)] by (simp only: mult.assoc)
  ultimately have "h * 2 ^ 64 < T" "T < Suc h * 2 ^ 64" by (simp_all only: mult_less_cancel2)
  then show ?thesis by (intro div_nat_eqI) simp_all
qed

lemma looks_exact_upper:
  assumes R: "W * (T div 2 ^ 64) = M * 2 ^ e + (l :: nat)" "l \<le> 1" and S: "S = 64 + e" and b: "64 \<le> b"
    and T: "2 ^ b < T * 5 ^ k" "T * 5 ^ k < 2 ^ b + 5 ^ k" and W: "2 ^ 63 \<le> W" "W < 2 ^ 64"
    and tie: "no_false_tie b k c h" and c: "c \<le> b - 64" "c \<le> e"
  shows "W * 2 ^ b = M * 2 ^ S * 5 ^ k"
proof -
  define s where "s = 2 ^ (b - 64) - 5 ^ k * h"
  note tie = tie [unfolded no_false_tie_def Let_def, folded s_def]
  have h_def: "h = T div 2 ^ 64" using upper_word [OF T] tie by blast
  have sh: "2 ^ (b - 64) = s + 5 ^ k * h" unfolding s_def using tie by simp
  have eq: "W * 2 ^ (b - 64) = (W * s + 5 ^ k * l) + 5 ^ k * M * 2 ^ e"
  proof -
    have "W * (5 ^ k * h) = 5 ^ k * (M * 2 ^ e + l)" using R(1) unfolding h_def [symmetric] by (metis mult.left_commute)
    then show ?thesis unfolding sh distrib_left by simp
  qed
  have "2 ^ c dvd W * 2 ^ (b - 64)" "2 ^ c dvd 5 ^ k * M * 2 ^ e" using c by (simp_all only: power_dvd_multiple)
  then have "2 ^ c dvd W * s + 5 ^ k * l" unfolding eq by (simp only: dvd_add_left_iff)
  then obtain t where t: "W * s + 5 ^ k * l = t * 2 ^ c" by (metis dvdE mult.commute)
  have ws: "W * s = t * 2 ^ c - 5 ^ k * l" using t by linarith
  have "0 < s" unfolding s_def using tie by simp
  then have "2 ^ 63 * s \<le> W * s" "W * s < 2 ^ 64 * s" using W by (simp_all only: mult_le_mono1 mult_less_mono1)
  then have lo: "2 ^ 63 * s + 5 ^ k * l \<le> t * 2 ^ c" and hi: "t * 2 ^ c < 2 ^ 64 * s + 5 ^ k * l" unfolding t [symmetric] by simp_all
  have "t = 0"
  proof (rule ccontr)
    assume t0: "t \<noteq> 0"
    have "5 ^ k * l \<le> 5 ^ k" using R(2) by simp
    with hi tie have "t * 2 ^ c < 5 * 2 ^ c" by linarith
    then have "t < 5" by simp
    with t0 have "t \<in> set [1, 2, 3, 4]" by auto
    moreover have "l \<in> set [0, 1]" using R(2) by auto
    ultimately have "if 2 ^ 63 * s + 5 ^ k * l \<le> t * 2 ^ c \<and> t * 2 ^ c < 2 ^ 64 * s + 5 ^ k * l
        then \<not> s dvd t * 2 ^ c - 5 ^ k * l else True"
      using tie unfolding list_all_iff by blast
    then show False unfolding ws [symmetric] using lo hi by simp
  qed
  then have "W * 2 ^ (b - 64) = 5 ^ k * M * 2 ^ e" using eq t by simp
  then have "W * 2 ^ (b - 64) * 2 ^ 64 = 5 ^ k * M * 2 ^ e * 2 ^ 64" by simp
  then show ?thesis using b unfolding S by (simp only: mult.assoc power_add [symmetric] le_add_diff_inverse2) (simp add: ac_simps)
qed


lemma tie_negative:
  assumes a: "approximates n W T R" and e: "64 + n \<le> e" "64 \<le> e" and S: "S = 64 + e"
    and T: "2 ^ b < T * 5 ^ k" "T * 5 ^ k < 2 ^ b + (5 :: nat) ^ k" and k: "k \<le> 27" and b: "128 \<le> b"
    and W: "2 ^ 63 \<le> W" "W < 2 ^ 64" and M: "M = W * T div 2 ^ S"
    and tie: "no_false_tie b k c h" and c: "c \<le> b - 64" "c \<le> e"
  shows "R mod 2 ^ e \<le> 1 \<longleftrightarrow> W * 2 ^ b = M * 2 ^ S * 5 ^ k"
proof
  assume "W * 2 ^ b = M * 2 ^ S * 5 ^ k"
  then have "R = M * 2 ^ e" by (rule exact_product_shows [OF a e(1) S T W(2)])
  then show "R mod 2 ^ e \<le> 1" by simp
next
  assume low: "R mod 2 ^ e \<le> 1"
  have S128: "128 \<le> S" using e S by simp
  have "R div 2 ^ e = M" unfolding approximates_div [OF a e(1)] M S power_add div_mult2_eq ..
  then have R: "R = M * 2 ^ e + R mod 2 ^ e" using div_mult_mod_eq [of R "2 ^ e"] by simp
  note ip = integer_part_negative(1) [OF T k W(2) b S128 M]
  from a consider "R = W * T div 2 ^ 64" | "R = W * (T div 2 ^ 64)" by (auto simp: approximates_def)
  then show "W * 2 ^ b = M * 2 ^ S * 5 ^ k"
  proof cases
    case 1
    then show ?thesis using R by (intro looks_exact_full [OF _ low S S128 b T(1) k ip]) simp
  next
    case 2
    then show ?thesis using R b by (intro looks_exact_upper [OF _ low S _ T W tie c]) simp_all
  qed
qed

text \<open>The table has no false tie where the code tests for one.\<close>

definition negative_bits :: "int \<Rightarrow> nat" where "negative_bits q = nat (190 + q - detail_power q)"

lemma no_false_tie_table:
  shows "no_false_tie 130 1 66 14757395258967641292"
    and "no_false_tie 132 2 68 11805916207174113034"
    and "no_false_tie 134 3 70 9444732965739290427"
    and "no_false_tie 137 4 73 15111572745182864683"
    and "no_false_tie 139 5 75 12089258196146291747"
    and "no_false_tie 141 6 77 9671406556917033397"
    and "no_false_tie 144 7 80 15474250491067253436"
    and "no_false_tie 146 8 82 12379400392853802748"
    and "no_false_tie 148 9 84 9903520314283042199"
    and "no_false_tie 151 10 87 15845632502852867518"
    and "no_false_tie 153 11 89 12676506002282294014"
    and "no_false_tie 155 12 91 10141204801825835211"
    and "no_false_tie 158 13 94 16225927682921336339"
    and "no_false_tie 160 14 96 12980742146337069071"
    and "no_false_tie 162 15 98 10384593717069655257"
    and "no_false_tie 165 16 101 16615349947311448411"
    and "no_false_tie 167 17 102 13292279957849158729"
  by (simp_all add: no_false_tie_def)

lemma no_false_ties:
  assumes "k \<in> {1 .. 17}"
  obtains h where "no_false_tie (negative_bits (- int k)) k (min (negative_bits (- int k) - 64) 102) h"
proof -
  have "k = 1 \<or> k = 2 \<or> k = 3 \<or> k = 4 \<or> k = 5 \<or> k = 6 \<or> k = 7 \<or> k = 8 \<or> k = 9 \<or> k = 10 \<or>
      k = 11 \<or> k = 12 \<or> k = 13 \<or> k = 14 \<or> k = 15 \<or> k = 16 \<or> k = 17"
    using assms by (simp only: atLeastAtMost_iff) presburger
  then have "\<exists>h. no_false_tie (negative_bits (- int k)) k (min (negative_bits (- int k) - 64) 102) h"
    by (elim disjE) (simp only: negative_bits_def detail_power_def, simp, rule exI, rule no_false_tie_table [simplified])+
  then show ?thesis using that by blast
qed

text \<open>Where it does not test, a tie is impossible: the power of five is no divisor of such an odd number.\<close>

lemma no_tie_positive:
  assumes "W * (5 ^ k * 2 ^ c) = M * 2 ^ S" and "0 < M"
  shows "(5 :: nat) ^ k \<le> M"
proof -
  have "5 ^ k dvd M * 2 ^ S" unfolding assms(1) [symmetric] by simp
  moreover have "coprime ((5 :: nat) ^ k) (2 ^ S)" by (simp add: coprime_commute)
  ultimately have "5 ^ k dvd M" by (simp only: coprime_dvd_mult_left_iff)
  then show ?thesis using assms(2) by (rule dvd_imp_le)
qed

lemma no_tie_negative:
  assumes "W * 2 ^ b = M * 2 ^ S * (5 :: nat) ^ k" and "odd M"
  shows "M * 5 ^ k \<le> W"
proof -
  have "b \<le> S"
  proof (rule ccontr)
    assume "\<not> b \<le> S"
    then have "W * 2 ^ b = W * 2 ^ (b - S) * 2 ^ S" by (simp add: mult.assoc power_add [symmetric])
    then have "W * 2 ^ (b - S) = M * 5 ^ k" using assms(1) by (simp add: ac_simps)
    then have "even (M * 5 ^ k)" using \<open>\<not> b \<le> S\<close> by (metis dvd_triv_right dvd_power even_mult_iff not_le zero_less_diff)
    then show False using assms(2) by simp
  qed
  then have p: "(2 :: nat) ^ S = 2 ^ (S - b) * 2 ^ b" by (simp add: power_add [symmetric])
  have "W * 2 ^ b = M * 5 ^ k * 2 ^ (S - b) * 2 ^ b" unfolding assms(1) p by simp
  then have "W = M * 5 ^ k * 2 ^ (S - b)" by (simp only: mult_cancel2) simp
  then show ?thesis by simp
qed


section \<open>The nearest number\<close>

text \<open>Rounding the integer part with one bit to spare, when ties are known.\<close>

lemma round_spare_bit:
  assumes F: "sound_format F" and den: "0 < den"
    and M: "M * 2 ^ S * den \<le> num" "num < Suc M * 2 ^ S * den"
    and b: "2 ^ Suc (mantissa_explicit_bits F) \<le> M" "M < 2 ^ Suc (Suc (mantissa_explicit_bits F))"
    and x: "x = real num / real (den * 2 ^ S) * 2 powi (last_place F + int k - 1)"
    and tie: "M mod 4 = 1 \<Longrightarrow> t \<longleftrightarrow> num = M * 2 ^ S * den" and t: "t \<Longrightarrow> M mod 4 = 1"
    and r: "r = (if t then M div 2 else (M + M mod 2) div 2)"
  shows "nearest F x (min (infinity_bits F) (r + k * 2 ^ mantissa_explicit_bits F))"
proof -
  define m where "m = real num / real (den * 2 ^ S)"
  define f where "f = m / 2 - real (M div 2)"
  have pos: "0 < real (den * 2 ^ S)" using den by simp
  have lo: "real M \<le> m"
  proof -
    have "real M * real (den * 2 ^ S) \<le> real num"
      using M(1) by (simp only: of_nat_mult [symmetric] of_nat_le_iff) (simp add: ac_simps)
    then show ?thesis unfolding m_def by (simp only: pos_le_divide_eq [OF pos])
  qed
  have hi: "m < real M + 1"
  proof -
    have "real num < real (Suc M) * real (den * 2 ^ S)"
      using M(2) by (simp only: of_nat_mult [symmetric] of_nat_less_iff) (simp only: ac_simps)
    then have "m < real (Suc M)" unfolding m_def by (simp only: pos_divide_less_eq [OF pos])
    then show ?thesis by simp
  qed
  have exact: "m = real M \<longleftrightarrow> num = M * 2 ^ S * den"
  proof -
    have "m = real M \<longleftrightarrow> real num = real M * real (den * 2 ^ S)"
      unfolding m_def using pos by (simp only: nonzero_divide_eq_eq [OF less_imp_neq [OF pos, symmetric]])
    then show ?thesis by (simp only: of_nat_mult [symmetric] of_nat_eq_iff) (simp only: ac_simps)
  qed
  have M2: "real M = 2 * real (M div 2) + real (M mod 2)"
    by (metis mult_div_mod_eq of_nat_add of_nat_mult of_nat_numeral)
  have f: "0 \<le> f" "f < 1" using lo hi M2 by (cases "M mod 2 = 0"; simp add: f_def)+
  have "2 powi (last_place F + int k) = (2 :: real) powi (last_place F + int k - 1) * 2"
    using power_int_add_1 [of "2 :: real" "last_place F + int k - 1"] by simp
  then have x': "x = (real (M div 2) + f) * 2 powi (last_place F + int k)"
    unfolding x m_def [symmetric] f_def by simp
  have n: "M div 2 < 2 ^ Suc (mantissa_explicit_bits F)" "2 ^ mantissa_explicit_bits F \<le> M div 2" using b by simp_all
  have "round_even (M div 2) f = r"
  proof (cases "even M")
    case True
    then have "f < 1 / 2" using hi M2 by (simp add: f_def)
    moreover have "\<not> t"
    proof
      assume t
      then have "M mod 4 = 1" by (rule t)
      then show False using True by presburger
    qed
    ultimately show ?thesis using True by (simp add: r round_even_def)
  next
    case odd: False
    then have M1: "real M = 2 * real (M div 2) + 1" "(M + M mod 2) div 2 = Suc (M div 2)" using M2 by (simp_all add: odd_iff_mod_2_eq_one)
    have half: "f = 1 / 2 \<longleftrightarrow> num = M * 2 ^ S * den" "1 / 2 \<le> f"
      unfolding exact [symmetric] f_def using lo M1(1) by auto
    have "M mod 4 = 1 \<longleftrightarrow> even (M div 2)" using odd by presburger
    then show ?thesis using half tie t M1(2) by (auto simp: r round_even_def)
  qed
  with nearest_round [OF F x' f n(1)] n(2) show ?thesis by simp
qed


section \<open>The code\<close>

text \<open>The bits without the sign, as \<open>to_float\<close> packs them.\<close>

definition packed :: "binary_format \<Rightarrow> adjusted_mantissa \<Rightarrow> nat" where
  "packed F am = unat (am_mantissa am) + nat (am_power2 am) * 2 ^ mantissa_explicit_bits F"

definition finite_parts :: "binary_format \<Rightarrow> adjusted_mantissa \<Rightarrow> bool" where
  "finite_parts F am \<longleftrightarrow>
     unat (am_mantissa am) < 2 ^ mantissa_explicit_bits F \<and> 0 \<le> am_power2 am \<and> am_power2 am \<le> infinite_power F"



lemma unat_low_bits: "unat ((w :: u64) AND 1) = unat w mod 2"
proof -
  have "w AND 1 = take_bit 1 w" by (simp add: take_bit_eq_mask mask_eq_exp_minus_1)
  then show ?thesis by (simp only: unsigned_take_bit_eq take_bit_nat_def power_one_right)
qed

lemma low_two_bits: "(w :: u64) AND 3 = 1 \<longleftrightarrow> unat w mod 4 = 1"
proof -
  have "w AND 3 = take_bit 2 w" by (simp add: take_bit_eq_mask mask_eq_exp_minus_1)
  then have "unat (w AND 3) = unat w mod 4" by (simp only: unsigned_take_bit_eq take_bit_nat_def) simp
  then show ?thesis unfolding word_unat_eq_iff [of "w AND 3"] by simp
qed

lemma clear_low_bit: "unat ((w :: u64) AND NOT 1) = 2 * (unat w div 2)"
proof -
  have "w AND NOT (mask n) = push_bit n (drop_bit n w)" for n by (intro bit_word_eqI) (auto simp: bit_simps)
  from this [of 1] have "w AND NOT 1 = push_bit 1 (drop_bit 1 w)" by (simp add: mask_eq_exp_minus_1)
  then have "unat (w AND NOT 1) = take_bit 64 (push_bit 1 (unat w div 2))"
    by (simp only: unsigned_push_bit_eq unat_drop) simp
  also have "\<dots> = 2 * (unat w div 2)"
  proof -
    have "unat w div 2 * 2 ^ 1 < 2 ^ 64"
      by (rule le_less_trans [OF _ unat_64 [of w]]) simp
    then show ?thesis unfolding push_bit_eq_mult take_bit_nat_def by (simp only: mod_less) simp
  qed
  finally show ?thesis .
qed

lemma unat_bit: "n < 64 \<Longrightarrow> unat (push_bit n 1 :: u64) = 2 ^ n"
proof -
  assume "n < 64"
  then have "(2 :: nat) ^ n < 2 ^ 64" by (rule power_strict_increasing) simp
  then show ?thesis by (simp only: unsigned_push_bit_eq take_bit_nat_def) (simp add: push_bit_eq_mult)
qed

lemma min_places: "r < 2 ^ p \<Longrightarrow> min (i * 2 ^ p) (r + j * 2 ^ p) = (if i \<le> j then i * 2 ^ p else r + j * (2 :: nat) ^ p)"
proof (cases "i \<le> j")
  case False
  assume r: "r < 2 ^ p"
  from False have "Suc j * 2 ^ p \<le> i * 2 ^ p" by (intro mult_le_mono1) simp
  then show ?thesis using r False by (simp add: min_def)
qed (simp add: min_def trans_le_add2)

lemma clear_top_bit:
  assumes p: "p < 63" and m: "2 ^ p \<le> unat m" "unat m < 2 ^ Suc p"
  shows "unat ((m :: u64) AND NOT (push_bit p 1)) = unat m - 2 ^ p"
proof -
  have "take_bit (Suc p) m = m"
    using m(2) by (simp only: word_unat_eq_iff unsigned_take_bit_eq take_bit_nat_def mod_less)
  then have "bit m i \<Longrightarrow> i < Suc p" for i by (metis bit_take_bit_iff)
  then have "m AND NOT (push_bit p 1) = take_bit p m"
    using p by (intro bit_word_eqI) (auto simp: bit_simps less_Suc_eq)
  then have "unat (m AND NOT (push_bit p 1)) = unat m mod 2 ^ p" by (simp only: unsigned_take_bit_eq take_bit_nat_def)
  also have "\<dots> = unat m - 2 ^ p" using m by (simp add: mod_if)
  finally show ?thesis .
qed

lemma round_normal_bits:
  assumes F: "sound_format F" and p: "mantissa_explicit_bits F \<le> 60" and pow: "1 \<le> pow2"
    and m: "2 ^ Suc (mantissa_explicit_bits F) \<le> unat m" "unat m < 2 ^ Suc (Suc (mantissa_explicit_bits F))"
  shows "packed F (round_normal F m pow2) =
      min (infinity_bits F) ((unat m + unat m mod 2) div 2 + nat (pow2 - 1) * 2 ^ mantissa_explicit_bits F)"
    and "finite_parts F (round_normal F m pow2)"
proof -
  let ?p = "mantissa_explicit_bits F"
  define r where "r = (unat m + unat m mod 2) div 2"
  have pp: "(2 :: nat) ^ Suc (Suc ?p) \<le> 2 ^ 62" using p by (intro power_increasing) simp_all
  have "unat m + unat m mod 2 \<le> 2 ^ Suc (Suc ?p)" using m(2) by (cases "even (unat m)") (simp_all add: odd_iff_mod_2_eq_one)
  then have r: "2 ^ ?p \<le> r" "r \<le> 2 ^ Suc ?p" unfolding r_def using m(1) by simp_all
  have s: "unat (m + (m AND 1)) = unat m + unat m mod 2"
  proof -
    have "unat m + unat m mod 2 < 2 ^ 64" using m(2) pp by (simp add: less_le_trans)
    then show ?thesis unfolding unat_word_ariths unat_low_bits by simp
  qed
  have m1: "unat (drop_bit 1 (m + (m AND 1))) = r" unfolding unat_drop s r_def by simp
  have c: "push_bit ?p 2 = (push_bit (Suc ?p) 1 :: u64)" by (simp add: push_bit_eq_mult)
  have carried: "push_bit ?p 2 \<le> drop_bit 1 (m + (m AND 1)) \<longleftrightarrow> 2 ^ Suc ?p \<le> r"
    unfolding c word_le_nat_alt m1 using p by (simp only: unat_bit less_Suc_eq_le)
  obtain r' p2 m3 where parts: "r + nat (pow2 - 1) * 2 ^ ?p = r' + nat p2 * 2 ^ ?p" "r' < 2 ^ ?p" "1 \<le> p2" "unat m3 = r'"
    and rn: "round_normal F m pow2 = (if infinite_power F \<le> p2 then \<lparr>am_mantissa = 0, am_power2 = infinite_power F\<rparr>
        else \<lparr>am_mantissa = m3, am_power2 = p2\<rparr>)"
  proof (cases "2 ^ Suc ?p \<le> r")
    case True
    with r have r2: "r = 2 * 2 ^ ?p" by simp
    have "nat (pow2 + 1) = nat (pow2 - 1) + 2" using pow by simp
    with that [of 0 "pow2 + 1" 0] show ?thesis
      using True pow carried unfolding r2 by (simp add: round_normal_def Let_def distrib_right)
  next
    case False
    have "nat pow2 = Suc (nat (pow2 - 1))" using pow by simp
    moreover have "unat (drop_bit 1 (m + (m AND 1)) AND NOT (push_bit ?p 1)) = r - 2 ^ ?p"
      using clear_top_bit [of ?p "drop_bit 1 (m + (m AND 1))"] m1 r False p by simp
    ultimately show ?thesis
      using that [of "r - 2 ^ ?p" pow2 "drop_bit 1 (m + (m AND 1)) AND NOT (push_bit ?p 1)"] False r pow carried
      by (simp add: round_normal_def Let_def)
  qed
  have i: "infinite_power F \<le> p2 \<longleftrightarrow> nat (infinite_power F) \<le> nat p2" using parts(3) by (simp add: nat_le_eq_zle)
  show "packed F (round_normal F m pow2) = min (infinity_bits F) (r + nat (pow2 - 1) * 2 ^ ?p)"
    unfolding parts(1) infinity_bits_def min_places [OF parts(2)] rn using parts(4) i by (simp add: packed_def)
  show "finite_parts F (round_normal F m pow2)"
    unfolding rn using F parts by (simp add: finite_parts_def sound_format_def)
qed

end
