(* ===== verification/Fast_Float_Correct.thy ===== *)
theory Fast_Float_Correct
  imports Fast_Float_Nearest
begin

text \<open>
  The result of \<open>compute_float\<close> in \<open>common/fast_float.h\<close>: which exact quotient the words stand
  for, that the test for a tie is right in both directions, and that the bits are the nearest
  number.
\<close>


section \<open>The exact quotient\<close>

text \<open>The exact product is \<open>exact_num / exact_den\<close>: the entry of the table without its rounding.\<close>

definition exact_num :: "int \<Rightarrow> nat \<Rightarrow> nat \<Rightarrow> nat" where
  "exact_num q W T = (if 0 \<le> q then W * T else W * 2 ^ negative_bits q)"

definition exact_den :: "int \<Rightarrow> nat" where
  "exact_den q = (if 0 \<le> q then 1 else 5 ^ nat (- q))"

lemma detail_power_between:
  assumes "65536 * a \<le> 152170 * q" and "152170 * q < 65536 * (b + 1)"
  shows "q + a + 63 \<le> detail_power q" and "detail_power q \<le> q + b + 63"
proof -
  have "65536 * (q + a) \<le> 217706 * q" "217706 * q \<le> 65535 + 65536 * (q + b)" using assms by simp_all
  then have "65536 * (q + a) div 65536 \<le> 217706 * q div 65536"
    "217706 * q div 65536 \<le> (65535 + 65536 * (q + b)) div 65536"
    by (simp_all only: zdiv_mono1 zero_less_numeral)
  then have "q + a \<le> 217706 * q div 65536" "217706 * q div 65536 \<le> q + b" by simp_all
  then show "q + a + 63 \<le> detail_power q" "detail_power q \<le> q + b + 63"
    by (simp_all add: detail_power_def)
qed

lemma entry_positive:
  assumes "entry_ok q T" and "0 \<le> q" and "q \<le> 55"
  shows "T = 5 ^ nat q * 2 ^ nat (190 + q - detail_power q)" and "detail_power q \<le> 190 + q" and "q + 63 \<le> detail_power q"
proof -
  show d: "q + 63 \<le> detail_power q" "detail_power q \<le> 190 + q" using detail_power_between [of 0 q 127] assms(2,3) by simp_all
  let ?k = "nat (detail_power q - q - 63)"
  have "T * 2 ^ ?k = 5 ^ nat q * 2 ^ 127" using assms by (simp add: entry_ok_def Let_def)
  moreover have "(2 :: nat) ^ 127 = 2 ^ nat (190 + q - detail_power q) * 2 ^ ?k"
    using d by (simp only: power_add [symmetric]) (rule arg_cong [where f = "\<lambda>n. 2 ^ n"], simp)
  ultimately have "T * 2 ^ ?k = 5 ^ nat q * 2 ^ nat (190 + q - detail_power q) * 2 ^ ?k" by (simp only: mult.assoc)
  then show "T = 5 ^ nat q * 2 ^ nat (190 + q - detail_power q)" by (simp only: mult_cancel2) simp
qed

lemma entry_negative:
  assumes "entry_ok q T" and "q < 0"
  shows "2 ^ negative_bits q < T * 5 ^ nat (- q)" and "T * 5 ^ nat (- q) < 2 ^ negative_bits q + 5 ^ nat (- q)"
    and "128 \<le> negative_bits q"
proof -
  have e: "127 - (detail_power q - q - 63) = 190 + q - detail_power q" by simp
  show "2 ^ negative_bits q < T * 5 ^ nat (- q)" "T * 5 ^ nat (- q) < 2 ^ negative_bits q + 5 ^ nat (- q)"
    using assms unfolding entry_ok_def Let_def e negative_bits_def by simp_all
  show "128 \<le> negative_bits q" using detail_power_between [of "3 * q" q "- 3"] assms(2) by (simp add: negative_bits_def)
qed

lemma exact_value:
  assumes T: "entry_ok q T" and q: "q \<le> 55"
  shows "real (exact_num q (w * 2 ^ lz) T) / real (exact_den q) * 2 powi (detail_power q - int lz - 190) = real w * 10 powi q"
proof (cases "0 \<le> q")
  case True
  note e = entry_positive [OF T True q]
  have "(2 :: real) ^ lz * 2 ^ nat (190 + q - detail_power q) * 2 powi (detail_power q - int lz - 190) = 2 powi q"
  proof -
    have "(2 :: real) ^ nat (190 + q - detail_power q) = 2 powi (190 + q - detail_power q)"
      using e(2) by (simp add: power_int_def)
    moreover have "(2 :: real) ^ lz = 2 powi int lz" by simp
    ultimately show ?thesis by (simp only: power_int_add [symmetric] zero_neq_numeral [symmetric] simp_thms) (simp add: power_int_add [symmetric])
  qed
  moreover have "(10 :: real) powi q = 5 ^ nat q * 2 powi q"
    using True by (simp add: power_int_def power_mult_distrib [symmetric])
  ultimately show ?thesis using True by (simp add: exact_num_def exact_den_def e(1))
next
  case False
  then have n: "q < 0" by simp
  note e = entry_negative [OF T n]
  have b: "int (negative_bits q) = 190 + q - detail_power q" using e(3) by (simp add: negative_bits_def)
  have "(2 :: real) ^ lz * 2 ^ negative_bits q * 2 powi (detail_power q - int lz - 190) = 2 powi q"
  proof -
    have "(2 :: real) ^ negative_bits q = 2 powi (190 + q - detail_power q)" unfolding b [symmetric] by simp
    moreover have "(2 :: real) ^ lz = 2 powi int lz" by simp
    ultimately show ?thesis by (simp only: power_int_add [symmetric] zero_neq_numeral [symmetric] simp_thms) (simp add: power_int_add [symmetric])
  qed
  moreover have "(10 :: real) powi q = 2 powi q / 5 ^ nat (- q)"
    using n by (simp add: power_int_def power_one_over field_simps power_mult_distrib [symmetric])
  ultimately show ?thesis using False by (simp add: exact_num_def exact_den_def)
qed

section \<open>The test for a tie\<close>

definition formats :: "binary_format set" where "formats = {binary64, binary32}"

lemma formats_sound: "F \<in> formats \<Longrightarrow> sound_format F"
  by (auto simp: formats_def)

lemma integer_part:
  assumes T: "entry_ok q T" and q: "- 27 \<le> q" "q \<le> 55" and W: "W < 2 ^ 64" and S: "128 \<le> S" and M: "M = W * T div 2 ^ S"
  shows "M * 2 ^ S * exact_den q \<le> exact_num q W T" and "exact_num q W T < Suc M * 2 ^ S * exact_den q"
proof -
  have "M * 2 ^ S * exact_den q \<le> exact_num q W T \<and> exact_num q W T < Suc M * 2 ^ S * exact_den q"
  proof (cases "0 \<le> q")
    case True
    have "W * T < Suc M * 2 ^ S" unfolding M by (simp only: div_less_iff_less_mult [symmetric] zero_less_power zero_less_numeral lessI)
    moreover have "M * 2 ^ S \<le> W * T" unfolding M by (rule div_times_less_eq_dividend)
    ultimately show ?thesis using True by (simp add: exact_num_def exact_den_def)
  next
    case False
    then have n: "q < 0" by simp
    have k: "nat (- q) \<le> 27" using q(1) by simp
    note e = entry_negative [OF T n]
    show ?thesis
      using integer_part_negative [OF e(1,2) k W e(3) S M] False by (simp add: exact_num_def exact_den_def)
  qed
  then show "M * 2 ^ S * exact_den q \<le> exact_num q W T" "exact_num q W T < Suc M * 2 ^ S * exact_den q" by blast+
qed

lemma tie_test:
  assumes F: "F \<in> formats" and T: "entry_ok q T" and q: "- 27 \<le> q" "q \<le> 55" and W: "2 ^ 63 \<le> W" "W < 2 ^ 64"
    and n: "n = 61 - mantissa_explicit_bits F" and e: "64 + n \<le> e" and S: "S = 64 + e" and a: "approximates n W T R"
    and M: "M = W * T div 2 ^ S" "2 ^ Suc (mantissa_explicit_bits F) \<le> M" "M < 2 ^ Suc (Suc (mantissa_explicit_bits F))" "odd M"
  shows "min_exponent_round_to_even F \<le> q \<and> q \<le> max_exponent_round_to_even F \<and> R mod 2 ^ e \<le> 1 \<longleftrightarrow>
      exact_num q W T = M * 2 ^ S * exact_den q"
proof (cases "0 \<le> q")
  case True
  note entry = entry_positive [OF T True q(2)]
  have lo: "min_exponent_round_to_even F \<le> q" using F True by (auto simp: formats_def binary64_def binary32_def)
  show ?thesis
  proof (cases "q \<le> max_exponent_round_to_even F")
    case small: True
    then have "q \<le> 23" using F by (auto simp: formats_def binary64_def binary32_def)
    then have d: "detail_power q \<le> q + 125" using detail_power_between [of 0 q 62] True by simp
    have "(2 :: nat) ^ nat (190 + q - detail_power q) = 2 ^ nat (125 + q - detail_power q) * 2 ^ 65"
      using d by (simp only: power_add [symmetric]) (rule arg_cong [where f = "\<lambda>n. 2 ^ n"], simp)
    then have t: "T = 5 ^ nat q * 2 ^ nat (125 + q - detail_power q) * 2 ^ 65" unfolding entry(1) by (simp only: mult.assoc)
    have "R mod 2 ^ e \<le> 1 \<longleftrightarrow> W * T = M * 2 ^ S" using e by (intro tie_positive [OF a e _ S t M(1)]) simp
    then show ?thesis using True lo small by (simp add: exact_num_def exact_den_def)
  next
    case large: False
    have "W * T \<noteq> M * 2 ^ S"
    proof
      assume "W * T = M * 2 ^ S"
      then have "5 ^ nat q \<le> M" unfolding entry(1) using M(4) by (intro no_tie_positive) (auto simp: odd_pos)
      then have "5 ^ nat q < (2 :: nat) ^ Suc (Suc (mantissa_explicit_bits F))" using M(3) by simp
      moreover have "(2 :: nat) ^ Suc (Suc (mantissa_explicit_bits F)) \<le> 5 ^ nat (max_exponent_round_to_even F + 1)"
        using F by (auto simp: formats_def binary64_def binary32_def)
      moreover have "(5 :: nat) ^ nat (max_exponent_round_to_even F + 1) \<le> 5 ^ nat q"
        using large by (intro power_increasing) simp_all
      ultimately show False by simp
    qed
    then show ?thesis using True large by (simp add: exact_num_def exact_den_def)
  qed
next
  case False
  then have neg: "q < 0" by simp
  note entry = entry_negative [OF T neg]
  have k: "nat (- q) \<le> 27" using q(1) by simp
  have hi: "q \<le> max_exponent_round_to_even F" using F neg by (auto simp: formats_def binary64_def binary32_def)
  show ?thesis
  proof (cases "min_exponent_round_to_even F \<le> q")
    case large: True
    have nn: "n = 9 \<and> - 4 \<le> q \<or> n = 38 \<and> - 17 \<le> q" using F large by (auto simp: n formats_def binary64_def binary32_def)
    then have ks: "nat (- q) \<in> {1 .. 17}" using neg by auto
    have c: "min (negative_bits q - 64) 102 \<le> e"
    proof (cases "n = 9")
      case True
      with nn have "- 4 \<le> q" by auto
      then have "q - 10 + 63 \<le> detail_power q" using detail_power_between [of "- 10" q 0] neg by simp
      then have "negative_bits q \<le> 137" by (simp add: negative_bits_def)
      then show ?thesis using e True by simp
    qed (use nn e in simp)
    obtain h where tie: "no_false_tie (negative_bits q) (nat (- q)) (min (negative_bits q - 64) 102) h"
      using no_false_ties [OF ks] neg by auto
    have e': "64 \<le> e" using e by simp
    have "R mod 2 ^ e \<le> 1 \<longleftrightarrow> W * 2 ^ negative_bits q = M * 2 ^ S * 5 ^ nat (- q)"
      by (rule tie_negative [OF a e e' S entry(1,2) k entry(3) W M(1) tie min.cobounded1 c])
    then show ?thesis using False hi large by (simp add: exact_num_def exact_den_def)
  next
    case small: False
    have "W * 2 ^ negative_bits q \<noteq> M * 2 ^ S * 5 ^ nat (- q)"
    proof
      assume "W * 2 ^ negative_bits q = M * 2 ^ S * 5 ^ nat (- q)"
      then have "M * 5 ^ nat (- q) \<le> W" using M(4) by (rule no_tie_negative)
      moreover have "2 ^ Suc (mantissa_explicit_bits F) * 5 ^ nat (1 - min_exponent_round_to_even F) \<le> M * 5 ^ nat (- q)"
        using M(2) small by (intro mult_le_mono power_increasing) simp_all
      moreover have "(2 :: nat) ^ 64 \<le> 2 ^ Suc (mantissa_explicit_bits F) * 5 ^ nat (1 - min_exponent_round_to_even F)"
        using F by (auto simp: formats_def binary64_def binary32_def)
      ultimately show False using W(2) by linarith
    qed
    then show ?thesis using False small by (simp add: exact_num_def exact_den_def)
  qed
qed

section \<open>The nearest number\<close>

text \<open>The tests on the words of the product, as tests on the number it is.\<close>

lemma value_words: "unat (v_high r) = value_of r div 2 ^ 64" "unat (v_low r) = value_of r mod 2 ^ 64"
  unfolding value_of_def using unat_64 [of "v_low r"] by (simp_all only: high_part div_less mod_mult_self3 mod_less add_0_right)

lemma shifted_back:
  assumes "s < 64"
  shows "v_low r \<le> 1 \<and> push_bit s (drop_bit s (v_high r)) = v_high r \<longleftrightarrow> value_of r mod 2 ^ (64 + s) \<le> 1"
proof -
  define h l where "h = unat (v_high r)" and "l = unat (v_low r)"
  have "unat (push_bit s (drop_bit s (v_high r))) = h div 2 ^ s * 2 ^ s"
  proof -
    have "unat (push_bit s (drop_bit s (v_high r))) = take_bit 64 (push_bit s (h div 2 ^ s))"
      unfolding h_def by (simp only: unsigned_push_bit_eq unat_drop) simp
    also have "\<dots> = h div 2 ^ s * 2 ^ s" unfolding push_bit_eq_mult take_bit_nat_def
      by (rule mod_less) (rule le_less_trans [OF div_times_less_eq_dividend], simp only: h_def unat_64)
    finally show ?thesis .
  qed
  then have "push_bit s (drop_bit s (v_high r)) = v_high r \<longleftrightarrow> h mod 2 ^ s = 0"
    unfolding word_unat_eq_iff h_def [symmetric] using div_mult_mod_eq [of h "2 ^ s"] by linarith
  moreover have "value_of r mod 2 ^ (64 + s) = h mod 2 ^ s * 2 ^ 64 + l"
    unfolding value_of_def h_def [symmetric] l_def [symmetric] power_add mod_mult2_eq
    using unat_64 [of "v_low r", folded l_def] by (simp only: high_part div_less add_0_right mod_mult_self3 mod_less) simp
  moreover have "v_low r \<le> 1 \<longleftrightarrow> l \<le> 1" by (simp add: word_le_nat_alt l_def)
  moreover have "h mod 2 ^ s * 2 ^ 64 + l \<le> 1 \<longleftrightarrow> h mod 2 ^ s = 0 \<and> l \<le> 1" by (cases "h mod 2 ^ s = 0") auto
  ultimately show ?thesis by (simp only:) blast
qed

lemma table_entry:
  assumes "- 27 \<le> q" and "q \<le> 55" and "p + 3 \<le> 63" and "r = compute_product_approximation (p + 3) q w"
  obtains T where "entry_ok q T" and "approximates (61 - p) (unat w) T (value_of r)"
proof -
  let ?i = "nat (2 * (q - smallest_power_of_five))"
  define T where "T = unat (power_of_five_128 ! ?i) * 2 ^ 64 + unat (power_of_five_128 ! (?i + 1))"
  have i: "nat (2 * (q + 342)) = ?i" "nat (2 * (q + 342) + 1) = ?i + 1"
    using assms(1) by (simp_all add: smallest_power_of_five_def)
  have "entry_ok q T" using power_of_five_entry [OF assms(1,2)] unfolding i T_def .
  moreover have "T div 2 ^ 64 = unat (power_of_five_128 ! ?i)"
    unfolding T_def using unat_64 [of "power_of_five_128 ! (?i + 1)"] by (simp only: high_part div_less add_0_right)
  then have "approximates (61 - p) (unat w) T (value_of r)"
    unfolding approximates_def value_words(1) [symmetric]
    using product_approximation [of "p + 3" "61 - p" ?i q T r w] assms(3,4) T_def by simp
  ultimately show ?thesis by (rule that)
qed

lemma scaled_power: "real n / real (d * 2 ^ s) * 2 powi (a + int s) = real n / real d * 2 powi a"
  by (simp add: power_int_add)

lemma compute_float_normal:
  assumes F: "F \<in> formats" and q: "- 27 \<le> q" "q \<le> 55" "q \<le> largest_power_of_ten F" and w: "w \<noteq> 0"
  shows "finite_parts F (compute_float F q w) \<and> nearest F (real (unat w) * 10 powi q) (packed F (compute_float F q w))"
proof -
  let ?p = "mantissa_explicit_bits F"
  define lz where "lz = leading_zeroes w"
  define W where "W = unat w * 2 ^ lz"
  define r where "r = compute_product_approximation (?p + 3) q (push_bit lz w)"
  define R n u where "R = value_of r" and "n = 61 - ?p" and "u = unat (drop_bit 63 (v_high r))"
  define m where "m = drop_bit (u + n) (v_high r)"
  define M S where "M = unat m" and "S = 64 + (64 + n + u)"
  define pow2 where "pow2 = detail_power q + int u - int lz - minimum_exponent F"
  define k where "k = nat (pow2 - 1)"
  have p: "?p = 52 \<or> ?p = 23" "?p + 3 \<le> 63" "?p \<le> 60" "n \<le> 62" and S128: "128 \<le> S"
    using F by (auto simp: formats_def binary64_def binary32_def n_def S_def)
  note lzs = leading_zeroes_shift [OF w, folded lz_def, folded W_def]
  obtain T where T: "entry_ok q T" and a: "approximates n W T R"
    using table_entry [OF q(1,2) p(2) r_def] unfolding lzs(2) n_def R_def by blast
  let ?Q = "W * T div 2 ^ 64"
  have Tb: "2 ^ 127 \<le> T" "T < 2 ^ 128" using T by (simp_all add: entry_ok_def Let_def)
  have Q: "2 ^ 126 \<le> ?Q" "?Q < 2 ^ 128"
  proof -
    have "(2 :: nat) ^ 63 * 2 ^ 127 \<le> W * T" using lzs(3) Tb(1) by (rule mult_le_mono)
    then show "2 ^ 126 \<le> ?Q" by (simp add: less_eq_div_iff_mult_less_eq)
    have "W * T < 2 ^ 64 * 2 ^ 128" using lzs(4) Tb(2) by (rule mult_strict_mono) simp_all
    then show "?Q < 2 ^ 128" by (simp add: div_less_iff_less_mult)
  qed
  have high: "unat (v_high r) div 2 ^ i = R div 2 ^ (64 + i)" for i unfolding value_words R_def by (simp only: div_power_add)
  have u: "u = ?Q div 2 ^ 127"
    unfolding u_def unat_drop high using approximates_div [OF a, of 127] p(1) by (auto simp: n_def)
  have MR: "M = R div 2 ^ (64 + n + u)" unfolding M_def m_def unat_drop high by (simp add: ac_simps)
  have MQ: "M = ?Q div 2 ^ (64 + n + u)" unfolding MR by (rule approximates_div [OF a]) simp
  have MS: "M = W * T div 2 ^ S" unfolding MQ S_def by (simp only: div_power_add)
  note up = upper_part_bounds [OF Q p(4) u MQ]
  have Mb: "2 ^ Suc ?p \<le> M" "M < 2 ^ Suc (Suc ?p)"
  proof -
    have "62 - n = Suc ?p" "63 - n = Suc (Suc ?p)" using p(2) by (simp_all add: n_def)
    then show "2 ^ Suc ?p \<le> M" "M < 2 ^ Suc (Suc ?p)" using up(2,3) by (simp_all only:)
  qed
  have pow: "1 \<le> pow2"
  proof -
    have "q - 63 + 63 \<le> detail_power q" using detail_power_between [of "- 63" q 200] q by simp
    moreover have "minimum_exponent F \<le> - 127" using F by (auto simp: formats_def binary64_def binary32_def)
    ultimately show ?thesis using lzs(1) q(1) by (simp add: pow2_def)
  qed
  define t where "t \<longleftrightarrow> v_low r \<le> 1 \<and> min_exponent_round_to_even F \<le> q \<and> q \<le> max_exponent_round_to_even F \<and>
      m AND 3 = 1 \<and> push_bit (u + n) m = v_high r"
  have shift: "u + 64 - ?p - 3 = u + n" using p(2) by (simp add: n_def)
  have code: "compute_float F q w = round_normal F (if t then m AND NOT 1 else m) pow2"
  proof -
    have "smallest_power_of_ten F \<le> - 27" using F by (auto simp: formats_def binary64_def binary32_def)
    then have "\<not> q < smallest_power_of_ten F" using q(1) by simp
    moreover have "\<not> pow2 \<le> 0" using pow by simp
    ultimately show ?thesis using q(3) w
      unfolding compute_float_def Let_def lz_def [symmetric] r_def [symmetric] u_def [symmetric] shift m_def [symmetric]
        pow2_def [symmetric] t_def by auto
  qed
  have sh: "u + n < 64" using up(1) p(1) by (auto simp: n_def)
  have t_iff: "t \<longleftrightarrow> M mod 4 = 1 \<and> min_exponent_round_to_even F \<le> q \<and> q \<le> max_exponent_round_to_even F \<and> R mod 2 ^ (64 + n + u) \<le> 1"
    using shifted_back [OF sh, of r] unfolding t_def m_def low_two_bits M_def R_def by (auto simp: ac_simps)
  have tie: "t \<longleftrightarrow> exact_num q W T = M * 2 ^ S * exact_den q" if m1: "M mod 4 = 1"
  proof -
    have "odd M" using m1 by presburger
    from tie_test [OF F T q(1,2) lzs(3,4) n_def _ S_def a MS Mb this] show ?thesis unfolding t_iff using m1 by simp
  qed
  have x: "real (unat w) * 10 powi q = real (exact_num q W T) / real (exact_den q * 2 ^ S) * 2 powi (last_place F + int k - 1)"
  proof -
    have k: "last_place F + int k - 1 = (detail_power q - int lz - 190) + int S"
      using pow p(2) by (simp add: k_def pow2_def last_place_def S_def n_def)
    show ?thesis unfolding k scaled_power W_def by (rule exact_value [OF T q(2), symmetric])
  qed
  let ?m = "if t then m AND NOT 1 else m"
  have um: "unat ?m = (if t then 2 * (M div 2) else M)" by (cases t) (simp_all only: if_True if_False clear_low_bit M_def)
  have "2 ^ Suc ?p \<le> 2 * (M div 2)" using Mb(1) by simp
  then have mb: "2 ^ Suc ?p \<le> unat ?m" "unat ?m < 2 ^ Suc (Suc ?p)" using Mb by (auto simp: um)
  note rn = round_normal_bits [OF formats_sound [OF F] p(3) pow mb, folded k_def]
  have "(unat ?m + unat ?m mod 2) div 2 = (if t then M div 2 else (M + M mod 2) div 2)" by (simp add: um)
  from round_spare_bit [OF formats_sound [OF F] _ integer_part [OF T q(1,2) lzs(4) S128 MS] Mb x tie _ this]
  have "nearest F (real (unat w) * 10 powi q) (packed F (compute_float F q w))"
    unfolding code rn(1) using t_iff by (simp add: exact_den_def)
  with rn(2) show ?thesis unfolding code by blast
qed

lemma single_overflow: "overflow_threshold binary32 \<le> 10 ^ 39"
proof -
  have "float_value binary32 (infinity_bits binary32 - 1) \<le> float_value binary32 (infinity_bits binary32)"
    by (rule float_value_mono) simp
  then have "overflow_threshold binary32 \<le> float_value binary32 (infinity_bits binary32)"
    by (simp add: overflow_threshold_def)
  also have "\<dots> = 2 ^ 128"
    by (simp add: float_value_def infinity_bits_def binary32_def last_place_def Let_def power_int_def)
  finally show ?thesis by simp
qed

lemma compute_float_correct:
  assumes "F \<in> {binary64, binary32}" and "- 27 \<le> q" and "q \<le> 55"
  shows "finite_parts F (compute_float F q w) \<and> nearest F (real (unat w) * 10 powi q) (packed F (compute_float F q w))"
proof -
  have F: "F \<in> formats" using assms(1) by (simp add: formats_def)
  consider "w = 0" | "w \<noteq> 0" "q \<le> largest_power_of_ten F" | "w \<noteq> 0" "largest_power_of_ten F < q" by linarith
  then show ?thesis
  proof cases
    case 1
    then have "compute_float F q w = \<lparr>am_mantissa = 0, am_power2 = 0\<rparr>" by (simp add: compute_float_def)
    then show ?thesis using 1 F zero_nearest [OF formats_sound [OF F]]
      by (auto simp: packed_def finite_parts_def formats_def binary64_def binary32_def)
  next
    case 2
    with F assms show ?thesis by (intro compute_float_normal) simp_all
  next
    case 3
    with F assms(3) have s: "F = binary32" "39 \<le> q" by (auto simp: formats_def binary64_def binary32_def)
    have "compute_float F q w = \<lparr>am_mantissa = 0, am_power2 = infinite_power F\<rparr>"
      using 3 s by (simp add: compute_float_def binary32_def)
    moreover have "\<not> real (unat w) * 10 powi q < overflow_threshold F"
    proof -
      have "(10 :: real) ^ 39 \<le> 10 ^ nat q" using s(2) by (intro power_increasing) simp_all
      also have "\<dots> = 10 powi q" using s(2) by (simp add: power_int_def)
      also have "\<dots> \<le> real (unat w) * 10 powi q"
      proof -
        have "0 < unat w" using 3(1) by (simp add: unat_gt_0)
        then have "real 1 \<le> real (unat w)" by (simp only: of_nat_le_iff Suc_le_eq One_nat_def)
        then have "1 \<le> real (unat w)" by (simp only: of_nat_1)
        then have "1 * 10 powi q \<le> real (unat w) * 10 powi q" by (rule mult_right_mono) simp
        then show ?thesis by simp
      qed
      finally show ?thesis using single_overflow unfolding s(1) by linarith
    qed
    ultimately show ?thesis by (simp add: nearest_def packed_def finite_parts_def infinity_bits_def s(1) binary32_def)
  qed
qed

text \<open>C12: for decimal exponents from -27 to 55 and any 64-bit mantissa, \<open>compute_float\<close> gives the
  double (or float) nearest to \<open>w * 10 ^ q\<close>, ties to even, infinity and zero included, as a
  mantissa and an exponent that fit the format.\<close>

theorem compute_float_nearest:
  assumes "F \<in> {binary64, binary32}" and "- 27 \<le> q" and "q \<le> 55"
  shows "finite_parts F (compute_float F q w) \<and> nearest F (real (unat w) * 10 powi q) (packed F (compute_float F q w))"
  using assms by (rule compute_float_correct)

lemma compute_float_tie: "compute_float binary64 0 9007199254740993 = \<lparr>am_mantissa = 0, am_power2 = 0x434\<rparr>"
proof -
  have "floorlog 2 9007199254740993 = 54" by (intro antisym floorlog_leI floorlog_geI) simp_all
  then have lz: "leading_zeroes 9007199254740993 = 10" by (simp add: leading_zeroes_def)
  have t: "power_of_five_128 ! 684 = 0x8000000000000000"
    using middle_nth [of 54] by (simp add: powers_of_five_middle_def)
  show ?thesis
    by (simp add: compute_float_def binary64_def Let_def lz compute_product_approximation_def
        full_multiplication_def smallest_power_of_five_def t detail_power_def round_normal_def word_le_nat_alt)
qed

theorem compute_float_nearest_witness:
  "nearest binary64 (real (unat (9007199254740993 :: u64)) * 10 powi 0) 0x4340000000000000"
  using compute_float_nearest [of binary64 0 9007199254740993]
  unfolding compute_float_tie by (simp add: packed_def binary64_def)

end
