(* ===== verification/Spec2Isabelle.thy ===== *)
theory Spec2Isabelle
  imports Writer_Api Hash_Cache Command_Line Python_Binding Java_Binding Fast_Float_Parser Fast_Float_Correct
begin

text \<open>
  A verification development for AxonCache, a library of immutable key-value caches in C++
  (\<open>src/src/axoncache\<close> and \<open>src/include/axoncache\<close>; paths below are relative to these two, or
  to \<open>src\<close> where they begin with \<open>main\<close>, \<open>java\<close> or \<open>axoncache\<close>).

  \<^bold>\<open>The program.\<close>  A cache is filled once with \<open>put\<close>, written to a file, and read by
  processes that load or map that file.  Three caches hold their entries in one block of
  memory: a key space of 64-bit slots followed by a data space of packed records
  (\<open>cache/base/HashedCacheBase\<close> with a probe and a value manager as parameters).
  \<open>LinearProbeCache\<close> and \<open>LinearProbeDedupCache\<close> use open addressing
  (\<open>cache/probe/LinearProbe.h\<close>, \<open>cache/value/LinearProbeValue\<close>), the latter with a table
  of frequent values that records refer to by index; \<open>BucketChainCache\<close> chains records
  (\<open>cache/probe/SimpleProbe\<close>, \<open>cache/value/ChainedValue\<close>).  \<open>MapCache\<close> is two hash maps.
  Values are encoded by \<open>transformer\<close>.  Data files are parsed by \<open>parser\<close>, read by
  \<open>reader\<close>, handed to a \<open>consumer\<close> that calls \<open>put\<close>, and saved by \<open>writer\<close>; a \<open>builder\<close>
  ties these together, \<open>CacheGenerator\<close> runs builders from settings, \<open>loader\<close> opens the
  files, and \<open>capi\<close> exports reading and writing to C.  On the C interface rest the modules for
  Python (\<open>axoncache/axoncache.cpp\<close>) and Java (\<open>java/jni\<close>); \<open>main/src/main.cpp\<close> is the command
  line tool.  Keys are hashed by the bundled \<open>common/xxhash.h\<close>, and floating-point text is
  parsed by the bundled \<open>common/fast_float.h\<close>.

  \<^bold>\<open>Conventions\<close> (\<open>Axon_Base\<close>).  Integers are words of their width, so arithmetic wraps as in
  the code.  A call is a value of \<open>'a outcome\<close>: a result, a thrown exception with its
  message, or undefined behaviour, which is named rather than given a meaning: an access out
  of a block, a null pointer, a view of negative size, a shift by 64, a cast to another
  class.  Loops that the code does not bound, over the slots of a full table or a chain of
  records, are \<open>partial_function (option)\<close>: \<open>None\<close> is a loop that does not end, and the
  properties show \<open>Some\<close>.  No fuel is used.  Memory is a list of bytes together with an
  address that changes when a block is moved, so a stale key-space pointer is visible.

  \<^bold>\<open>Parameters.\<close>  The caches take the hash of a key as a function \<open>H\<close> of which nothing is assumed;
  \<open>Xxh3_Hash\<close> defines the one the code passes, and \<open>Hash_Cache\<close> uses the caches with it.  The
  typed getters take the parsing and printing of floating-point numbers as \<open>float_lib\<close>
  (printing is the standard library's; the parser is modelled by itself in the \<open>Fast_Float\<close>
  theories).  The conversions between UTF-8 and UTF-16 and the strings of the Java machine are
  parameters of the Java binding, the option parser and the printing of floating values those
  of the tool.  Also parameters: the contents \<open>fresh\<close> and \<open>junk\<close> of uninitialised memory, the
  clock, the file system \<open>files\<close> as a map from names to contents, and whether the
  operating system maps a file, \<open>os_ok\<close>.

  \<^bold>\<open>Theories\<close>, in the order of the code from the bottom up.
    \<^item> \<open>Axon_Base\<close>, \<open>Axon_Constants\<close>: outcomes, little-endian views; \<open>Constants.h\<close>,
      \<open>CacheType.h\<close> and the types of \<open>domain/CacheValue.h\<close>.
    \<^item> \<open>Memory_Handler\<close>: \<open>memory\<close>.  The handler's invariant; growing keeps the bytes in use.
    \<^item> \<open>Linear_Probe\<close>, \<open>Probe_Table\<close>, \<open>Linear_Probe_Table\<close>: the probe loops over the key
      space, the abstract table with linear probing, and the refinement between both.
    \<^item> \<open>Double_Bits\<close>: the arithmetic on doubles that limits the number of entries.
    \<^item> \<open>Linear_Probe_Value\<close>: appending records and reading them.
    \<^item> \<open>Cache_Header\<close>: the header of a file, \<open>writer/detail/GenerateHeader\<close>.
    \<^item> \<open>Hashed_Cache\<close>: the class template, its parameters a record \<open>policy\<close> of functions.
    \<^item> \<open>Linear_Cache\<close>: a linear-probe cache as a finite map from keys to typed values,
      preserved by puts; shared by the plain and the dedup cache.
    \<^item> \<open>String_Utils\<close>: \<open>common/StringUtils.h\<close>, \<open>StringViewUtils.h\<close>, \<open>StringConversion.h\<close>.
    \<^item> \<open>Transformers\<close>: the encodings of values and their inverses.
    \<^item> \<open>Typed_Access\<close>: the getters and the overloads of \<open>put\<close>.  Its locales \<open>value_reader\<close>,
      \<open>typed_reader\<close> and \<open>typed_store\<close> state what the getters need of a cache's virtual
      functions, and read back each kind of value once for all caches.
    \<^item> \<open>Linear_Store\<close>, \<open>Dedup_Cache\<close>, \<open>Dedup_Store\<close>, \<open>Simple_Probe\<close>, \<open>Chained_Value\<close>,
      \<open>Bucket_Chain\<close>, \<open>Map_Cache\<close>: the four caches.  The hashed ones interpret the
      locales on their own lookups and puts.
    \<^item> \<open>Settings\<close>: \<open>common/SharedSettingsProvider.h\<close>.
    \<^item> \<open>Cache_Value\<close>: the variant of \<open>domain/CacheValue\<close> and the two consumers.
    \<^item> \<open>Cache_File\<close>: the file writer and the loaders; files are read back.
    \<^item> \<open>Data_Reader\<close>: the line parser and the file reader.  The locale \<open>sized_store\<close> extends
      \<open>typed_store\<close> by a count of the room left and folds \<open>put\<close> over the lines of a file.
    \<^item> \<open>Cache_Build\<close>: \<open>CacheFactory\<close>, the builders and \<open>CacheGenerator\<close>; \<open>sized_store\<close> is
      interpreted for both linear-probe caches, and the whole path from data files over a
      cache file to a loaded cache is composed.
    \<^item> \<open>Reader_Api\<close>, \<open>Writer_Api\<close>: the handles of \<open>capi\<close>, with the states they reach;
      \<open>Api_Round_Trip\<close>: what one handle writes another reads.
    \<^item> \<open>Xxh3\<close>: the 64-bit XXH3 of \<open>common/xxhash.h\<close> with its portable, SSE2 and AVX2 loops;
      \<open>Xxh3_Mixing\<close>, \<open>Xxh3_Keys\<close>, \<open>Xxh3_Vector\<close>: the multiplication in parts, short keys
      without collisions, and the equality of the loops; \<open>Xxh3_Hash\<close>, \<open>Hash_Cache\<close>: the hash
      of \<open>cache/hasher\<close> and a lookup with it.
    \<^item> \<open>Command_Line\<close>: \<open>main/src/main.cpp\<close>.
    \<^item> \<open>Python_Binding\<close>: the classes of the Python module.
    \<^item> \<open>Utf8_Text\<close>, \<open>Java_Binding\<close>: the text of Java, and the functions of \<open>java/jni\<close>.
    \<^item> \<open>Float_Rounding\<close>: the binary formats, the value of their bits and the nearest number.
      \<open>Fast_Float_Parser\<close>: reading the text of a number.  \<open>Fast_Float_Table\<close>,
      \<open>Fast_Float_Compute\<close>: the table of powers of five and \<open>compute_float\<close>;
      \<open>Fast_Float_Nearest\<close>, \<open>Fast_Float_Correct\<close>: its result is the nearest number.

  \<^bold>\<open>What is shown.\<close>  For the caches over memory: a representation relation with the abstract
  map holds after construction and after loading, every put preserves it, lookups end and
  agree with it, and every kind of value reads back; each refusal (full, duplicate, oversize,
  out of reach) has its outcome and its effect on the memory.  For files: headers, caches and
  frequent values survive writing and loading.  For texts: lines, settings, lists, numbers
  and splittings are inverse to their formats.  For the handles: result codes, what is held
  after any sequence of calls, and the cases in which a caller is misled.  For the hash: it
  reads inside its arrays, the three implementations agree, and keys of one length up to eight
  bytes do not collide.  For the tool and the bindings: what is written through one is read
  through the other, and where they lose a value or go through a null handle.  For numbers:
  the text of a number gives its digits and exponent, and for exponents from -27 to 55 the
  double or float computed from them is the nearest one, ties to even.

  \<^bold>\<open>Bounds.\<close>  \<open>mem_limit\<close> (\<open>2^60\<close> bytes) bounds the size of a block, below which sizes and
  addresses do not wrap; no machine the library runs on has more.  Files are read whole.
  Allocation does not fail, as the code does not test for it.

  \<^bold>\<open>Not modelled.\<close>  What the library does not use of \<open>xxhash.h\<close> (XXH32, XXH64, the 128-bit and
  streaming functions, other processors) and of \<open>fast_float.h\<close> (integers, wide characters,
  other rounding modes, 32-bit limbs); the logger and the text of log and error messages and
  of timings; the printing operators of the header; the C functions that only pass their
  arguments on; the binding for Go, the benchmarks and the tests, which only call the library;
  what pybind11, the option parser and the loader of the Java library do.  Concurrent use of a handle is
  left out: the reader swaps a shared pointer atomically, and everything else of a handle is
  meant for one thread.
\<close>

end
